(* ===== verification/Prelude.thy ===== *)
theory Prelude
  imports Complex_Main "HOL-Library.List_Lexorder" "HOL-Library.Char_ord"
begin

text \<open>
  Shared ground of the development: the exceptions of the modules as values, the outcome of
  a method that may raise after it has changed the state, SQLite tables as row lists with a
  primary key, reachable states, and the few Python string operations the modules use.

  Python strings are lists of code points below 256 (the range of HOL's \<open>char\<close>).
  Datetimes are numbers of microseconds since the epoch, all in UTC; on ISO-8601 texts of one
  offset the textual order that SQL uses agrees with the order of these numbers.
\<close>

section \<open>Exceptions and outcomes\<close>

text \<open>One constructor per exception class the modelled modules raise; the argument is the
  message (for RateLimited the delay the message is made of). Classes of one name in two modules
  (OverBudget, PayloadTooLarge, LinkNotFound) are told apart by a prefix.\<close>

datatype (plugins only: code size) exn =
    KeyError string
  | ValueError string
  | TypeError string
  | OverflowError string
  | RuntimeError string
  | PermissionError string
  | IntegrityError string
  | OperationalError string
  | UnknownEventKind string
  | PayloadTooLarge string
  | PayloadValidationError string
  | HireDenied string
  | FireDenied string
  | CycleDetected string
  | SpecialRoleProtected string
  | CostOverBudget string
  | UnknownReservation string
  | ReservationAlreadyClosed string
  | CostUnknownTool string
  | InvalidPricingFormula string
  | ApprovalNotFound string
  | ApprovalConflict string
  | InvalidTransition string
  | IndexError string
  | RedisUnavailable string
  | InvalidTarget string
  | UnknownTool string
  | RoleNotAllowed string
  | ArgsValidationError string
  | ToolOverBudget string
  | PendingApproval string
  | ToolApprovalDenied string
  | ExecutorFailure string
  | ServiceNotAllowed string
  | UnknownService string
  | UnknownAction string
  | MissingCredential string
  | MalformedResponse string
  | RateLimited rat
  | ExternalServiceFailure string
  | PendingApprovalError string
  | ApprovalDeniedError string
  | LinkNotFound string
  | LinkNotApproved string
  | DirectionMismatch string
  | ScopeViolation string
  | CrossPayloadTooLarge string
  | CrossRateLimited string
  | TargetUnavailable string
  | QuotaExceeded string
  | PermissionDenied string
  | PathOutsideWorkspace string
  | CompanyNotFound string
  | CorruptDatabase string
  | WorkspaceNotInitialized string
  | PolicyViolation string
  | ToolPermissionDenied string
  | FileNotFoundError string
  | IsADirectoryError string
  | NotADirectoryError string
  | PyOSError string
  | MemoryPermissionDenied string
  | EmbeddingDimensionMismatch string
  | MemoryTooLarge string
  | FindingNotFound string
  | EffInvalidTransition string
  | ConnectorError string
  | LLMFailure string
  | TurnTimeout string
  | TimeoutError string
  | PersonaLoadError string

text \<open>
  A method call on a mutable state \<open>'s\<close>: the exception or the result, and the state it
  leaves behind. A raise keeps the changes made before it, unless a transaction rolls back.
\<close>

type_synonym ('a, 's) outcome = "(exn + 'a) \<times> 's"

definition andthen :: "('a, 's) outcome \<Rightarrow> ('a \<Rightarrow> 's \<Rightarrow> ('b, 's) outcome) \<Rightarrow> ('b, 's) outcome" where
  "andthen m f = (case m of (Inl e, s) \<Rightarrow> (Inl e, s) | (Inr a, s) \<Rightarrow> f a s)"

lemma andthen_simps [simp]:
  "andthen (Inl e, s) f = (Inl e, s)"
  "andthen (Inr a, s) f = f a s"
  by (simp_all add: andthen_def)

lemma andthen_split:
  "P (andthen m f) \<longleftrightarrow>
     (\<forall>e s. m = (Inl e, s) \<longrightarrow> P (Inl e, s)) \<and> (\<forall>a s. m = (Inr a, s) \<longrightarrow> P (f a s))"
  by (cases m; cases "fst m") auto

section \<open>Tables with a primary key\<close>

definition tbl_find :: "('r \<Rightarrow> 'k) \<Rightarrow> 'k \<Rightarrow> 'r list \<Rightarrow> 'r option" where
  "tbl_find key k t = find (\<lambda>r. key r = k) t"

definition tbl_upd :: "('r \<Rightarrow> 'k) \<Rightarrow> 'k \<Rightarrow> ('r \<Rightarrow> 'r) \<Rightarrow> 'r list \<Rightarrow> 'r list" where
  "tbl_upd key k f t = map (\<lambda>r. if key r = k then f r else r) t"

definition tbl_del :: "('r \<Rightarrow> 'k) \<Rightarrow> 'k \<Rightarrow> 'r list \<Rightarrow> 'r list" where
  "tbl_del key k t = filter (\<lambda>r. key r \<noteq> k) t"

definition tbl_pk :: "('r \<Rightarrow> 'k) \<Rightarrow> 'r list \<Rightarrow> bool" where
  "tbl_pk key t \<longleftrightarrow> distinct (map key t)"

lemma tbl_find_None: "tbl_find key k t = None \<longleftrightarrow> k \<notin> key ` set t"
  by (auto simp: tbl_find_def find_None_iff)

lemma tbl_find_Some_in: "tbl_find key k t = Some r \<Longrightarrow> r \<in> set t \<and> key r = k"
  by (auto simp: tbl_find_def find_Some_iff)

lemma tbl_find_Nil [simp]: "tbl_find key k [] = None"
  by (simp add: tbl_find_def)

lemma tbl_find_Cons [simp]:
  "tbl_find key k (r # t) = (if key r = k then Some r else tbl_find key k t)"
  by (simp add: tbl_find_def)

lemma tbl_find_append:
  "tbl_find key k (t @ u) = (case tbl_find key k t of None \<Rightarrow> tbl_find key k u | Some r \<Rightarrow> Some r)"
  by (induction t) auto

lemma tbl_find_in:
  "tbl_pk key t \<Longrightarrow> r \<in> set t \<Longrightarrow> tbl_find key (key r) t = Some r"
proof (induction t)
  case (Cons x t)
  then show ?case by (cases "r = x") (force simp: tbl_pk_def)+
qed simp

lemma tbl_find_iff:
  "tbl_pk key t \<Longrightarrow> tbl_find key k t = Some r \<longleftrightarrow> r \<in> set t \<and> key r = k"
  by (blast dest: tbl_find_in tbl_find_Some_in)

lemma tbl_pk_insert:
  "tbl_pk key t \<Longrightarrow> tbl_find key (key r) t = None \<Longrightarrow> tbl_pk key (t @ [r])"
  by (auto simp: tbl_pk_def tbl_find_None)

lemma length_tbl_upd [simp]: "length (tbl_upd key k f t) = length t"
  by (simp add: tbl_upd_def)

lemma set_tbl_upd:
  "set (tbl_upd key k f t) = (\<lambda>r. if key r = k then f r else r) ` set t"
  by (simp add: tbl_upd_def)

lemma tbl_upd_absent: "tbl_find key k t = None \<Longrightarrow> tbl_upd key k f t = t"
  unfolding tbl_upd_def tbl_find_None by (rule map_idI) auto

lemma tbl_upd_append: "tbl_upd key k f (t @ u) = tbl_upd key k f t @ tbl_upd key k f u"
  by (simp add: tbl_upd_def)

text \<open>
  An UPDATE whose SET clause leaves the primary key alone: the contract every row update of
  the modules meets, and what follows from it for lookups and for the key's uniqueness.
\<close>

locale pk_update =
  fixes key :: "'r \<Rightarrow> 'k" and f :: "'r \<Rightarrow> 'r"
  assumes key_stable: "key (f r) = key r"
begin

lemma keys_upd: "map key (tbl_upd key k f t) = map key t"
  by (induction t) (auto simp: tbl_upd_def key_stable)

lemma pk_upd: "tbl_pk key (tbl_upd key k f t) = tbl_pk key t"
  by (simp add: tbl_pk_def keys_upd)

lemma find_upd:
  "tbl_find key j (tbl_upd key k f t) =
     (if j = k then map_option f (tbl_find key j t) else tbl_find key j t)"
  by (induction t) (auto simp: tbl_upd_def key_stable)

lemma find_upd_same: "tbl_find key k (tbl_upd key k f t) = map_option f (tbl_find key k t)"
  by (simp add: find_upd)

lemma find_upd_other: "j \<noteq> k \<Longrightarrow> tbl_find key j (tbl_upd key k f t) = tbl_find key j t"
  by (simp add: find_upd)

end

section \<open>Reachable states and invariants\<close>

inductive reach :: "('s \<Rightarrow> bool) \<Rightarrow> ('s \<Rightarrow> 's \<Rightarrow> bool) \<Rightarrow> 's \<Rightarrow> bool" for init step where
  reach_init: "init s \<Longrightarrow> reach init step s"
| reach_step: "reach init step s \<Longrightarrow> step s t \<Longrightarrow> reach init step t"

text \<open>The contract between a component's step relation and its invariant.\<close>

locale invariant_system =
  fixes init :: "'s \<Rightarrow> bool" and step :: "'s \<Rightarrow> 's \<Rightarrow> bool" and inv :: "'s \<Rightarrow> bool"
  assumes init_inv: "init s \<Longrightarrow> inv s"
    and step_inv: "inv s \<Longrightarrow> step s t \<Longrightarrow> inv t"
begin

lemma reach_inv: "reach init step s \<Longrightarrow> inv s"
  by (induction rule: reach.induct) (auto intro: init_inv step_inv)

lemma steps_inv: "step\<^sup>*\<^sup>* s t \<Longrightarrow> inv s \<Longrightarrow> inv t"
  by (induction rule: rtranclp_induct) (auto intro: step_inv)

end

section \<open>Lists\<close>

lemma sum_list_map_upd:
  fixes g :: "'r \<Rightarrow> int"
  assumes "tbl_pk key t" and "tbl_find key k t = Some r"
  shows "sum_list (map g (tbl_upd key k f t)) = sum_list (map g t) - g r + g (f r)"
  using assms
proof (induction t)
  case Nil
  then show ?case by simp
next
  case (Cons x t)
  show ?case
  proof (cases "key x = k")
    case True
    with Cons.prems have "tbl_find key k t = None" and "x = r"
      by (auto simp: tbl_pk_def tbl_find_None)
    then have "tbl_upd key k f (x # t) = f r # t"
      using True by (simp add: tbl_upd_absent[of key k t f, unfolded tbl_upd_def] tbl_upd_def)
    with \<open>x = r\<close> show ?thesis by simp
  next
    case False
    with Cons show ?thesis by (simp add: tbl_pk_def tbl_upd_def)
  qed
qed

lemma sum_list_map_nonneg:
  fixes g :: "'r \<Rightarrow> int"
  shows "(\<And>r. r \<in> set t \<Longrightarrow> 0 \<le> g r) \<Longrightarrow> 0 \<le> sum_list (map g t)"
  by (induction t) auto

lemma length_filter_sum: "int (length (filter P t)) = sum_list (map (\<lambda>r. if P r then 1 else 0) t)"
  by (induction t) auto

lemma length_filter_upd:
  assumes "tbl_pk key t" and "tbl_find key k t = Some r"
  shows "int (length (filter P (tbl_upd key k f t))) =
           int (length (filter P t)) - (if P r then 1 else 0) + (if P (f r) then 1 else 0)"
  unfolding length_filter_sum by (rule sum_list_map_upd[OF assms])

lemma length_filter_map_le:
  "(\<And>x. x \<in> set xs \<Longrightarrow> P (h x) \<Longrightarrow> P x) \<Longrightarrow> length (filter P (map h xs)) \<le> length (filter P xs)"
proof (induction xs)
  case (Cons x xs)
  then show ?case by (cases "P x") (auto simp: le_Suc_eq)
qed simp

section \<open>Python strings\<close>

definition is_space :: "char \<Rightarrow> bool" where
  "is_space c \<longleftrightarrow> of_char c \<in> {9, 10, 11, 12, 13, 28, 29, 30, 31, 32, 133, 160 :: nat}"

definition lower_char :: "char \<Rightarrow> char" where
  "lower_char c =
     (let n = of_char c :: nat
      in if 65 \<le> n \<and> n \<le> 90 \<or> 192 \<le> n \<and> n \<le> 222 \<and> n \<noteq> 215 then char_of (n + 32) else c)"

definition py_lower :: "string \<Rightarrow> string" where
  "py_lower s = map lower_char s"

fun split_ws_from :: "string \<Rightarrow> string \<Rightarrow> string list" where
  "split_ws_from w [] = (if w = [] then [] else [w])"
| "split_ws_from w (c # cs) =
     (if is_space c then (if w = [] then split_ws_from [] cs else w # split_ws_from [] cs)
      else split_ws_from (w @ [c]) cs)"

definition py_split :: "string \<Rightarrow> string list" where
  "py_split s = split_ws_from [] s"

fun py_join :: "string \<Rightarrow> string list \<Rightarrow> string" where
  "py_join sep [] = []"
| "py_join sep [w] = w"
| "py_join sep (w # v # ws) = w @ sep @ py_join sep (v # ws)"

definition py_strip :: "string \<Rightarrow> string" where
  "py_strip s = rev (dropWhile is_space (rev (dropWhile is_space s)))"

fun py_in :: "string \<Rightarrow> string \<Rightarrow> bool" where
  "py_in p [] = (p = [])"
| "py_in p (c # cs) = (take (length p) (c # cs) = p \<or> py_in p cs)"

definition utf8_len :: "string \<Rightarrow> nat" where
  "utf8_len s = sum_list (map (\<lambda>c. if of_char c < (128::nat) then 1 else 2) s)"

definition digit_char :: "nat \<Rightarrow> char" where
  "digit_char d = char_of (48 + d)"

fun nat_str :: "nat \<Rightarrow> string" where
  "nat_str n = (if n < 10 then [digit_char n] else nat_str (n div 10) @ [digit_char (n mod 10)])"

declare nat_str.simps [simp del]

definition int_str :: "int \<Rightarrow> string" where
  "int_str i = (if i < 0 then ''-'' @ nat_str (nat (- i)) else nat_str (nat i))"

definition bool_str :: "bool \<Rightarrow> string" where
  "bool_str b = (if b then ''True'' else ''False'')"

definition str_or :: "string option \<Rightarrow> string \<Rightarrow> string" where
  "str_or o_s d = (case o_s of None \<Rightarrow> d | Some s \<Rightarrow> if s = [] then d else s)"

lemma utf8_len_append [simp]: "utf8_len (s @ t) = utf8_len s + utf8_len t"
  by (simp add: utf8_len_def)

lemma utf8_len_bounds: "length s \<le> utf8_len s \<and> utf8_len s \<le> 2 * length s"
  by (induction s) (auto simp: utf8_len_def)

section \<open>Numbers\<close>

text \<open>\<^verbatim>\<open>timedelta(seconds=x)\<close> rounds to whole microseconds, halves to the even one.\<close>

definition round_half_even :: "rat \<Rightarrow> int" where
  "round_half_even x =
     (let f = \<lfloor>x\<rfloor>; d = x - of_int f
      in if d < 1 / 2 then f else if d > 1 / 2 then f + 1 else if even f then f else f + 1)"

text \<open>
  A float is carried as the rational it denotes. Where rounding can decide a comparison the
  operations round as IEEE doubles do: \<open>fl\<close> picks the quantum that leaves a 53-bit significand,
  by doubling or halving from that of [1, 2); 60 steps are enough for magnitudes from 2^-60 to
  2^60, which is all it is used for.
\<close>

fun float_quantum :: "nat \<Rightarrow> rat \<Rightarrow> rat \<Rightarrow> rat" where
  "float_quantum 0 q x = q"
| "float_quantum (Suc n) q x =
     (if x < 2 ^ 52 * q then float_quantum n (q / 2) x
      else if 2 ^ 53 * q \<le> x then float_quantum n (q * 2) x else q)"

definition fl :: "rat \<Rightarrow> rat" where
  "fl x = (let q = float_quantum 60 (1 / 2 ^ 52) \<bar>x\<bar> in of_int (round_half_even (x / q)) * q)"

text \<open>\<^verbatim>\<open>f"{x:.2f}"\<close> of a non-negative float.\<close>

definition fmt2 :: "rat \<Rightarrow> string" where
  "fmt2 x =
     (let n = nat (round_half_even (x * 100))
      in nat_str (n div 100) @ ''.'' @ [digit_char (n mod 100 div 10), digit_char (n mod 10)])"

lemma float_quantum_numeral:
  "float_quantum (numeral v) q x =
     (if x < 2 ^ 52 * q then float_quantum (pred_numeral v) (q / 2) x
      else if 2 ^ 53 * q \<le> x then float_quantum (pred_numeral v) (q * 2) x else q)"
  by (simp add: numeral_eq_Suc)

lemma floor_fraction:
  "\<lfloor>(numeral a :: rat) / numeral b\<rfloor> = numeral a div numeral b"
  "\<lfloor>- ((numeral a :: rat) / numeral b)\<rfloor> = (- numeral a) div numeral b"
  using floor_divide_of_int_eq[of "numeral a" "numeral b", where ?'a = rat]
    floor_divide_of_int_eq[of "- numeral a" "numeral b", where ?'a = rat] by simp_all

lemmas fl_eval = fl_def float_quantum_numeral round_half_even_def Let_def floor_fraction

end
