(* ===== verification/Event_Kinds.thy ===== *)
theory Event_Kinds
  imports Prelude
begin

text \<open>
  \<^verbatim>\<open>modules/event_store/kinds.py\<close> and \<^verbatim>\<open>modules/event_store/payloads.py\<close>: the catalogue of event
  kinds, JSON values and their compact text, and the payload schema registered for each kind.
  Validation itself is pydantic's, which is not part of the repository: it is a parameter, and
  the locale \<open>pydantic\<close> states the documented behaviour the modules rely on
  (\<^verbatim>\<open>extra="forbid"\<close>, required fields, values of the declared type kept as they are, defaults
  filled in by the dump).
\<close>

section \<open>Kinds\<close>

datatype (plugins only: code size) event_kind =
    MESSAGE_SENT | MESSAGE_DELIVERED
  | TOOL_CALLED | TOOL_RESULT | TOOL_DENIED
  | AGENT_CREATED | AGENT_FIRED | AGENT_HIRED | AGENT_FIRE_NOTIFY | AGENT_ORPHANED
  | AGENT_HEARTBEAT | AGENT_HEALTH_ALERT | AGENT_TURN_TRUNCATED | AGENT_TURN_COMPLETED
  | AGENT_FEEDBACK_GIVEN | AGENT_PROMOTED | AGENT_REASSIGNED
  | EXPENSE_CHARGED | BUDGET_WARNING | BUDGET_BLOCKED
  | APPROVAL_REQUESTED | APPROVAL_DECIDED | APPROVAL_TIMEOUT
  | SECURITY_FLAG | SECURITY_VETO
  | EXTERNAL_CALL
  | QUOTA_WARNING | QUOTA_EXCEEDED | QUOTA_DRIFT
  | CLOCK_PAUSED | CLOCK_RESUMED | DAY_TICK
  | COMPANY_CREATED | COMPANY_CLOSED
  | LINK_REQUESTED | LINK_APPROVED
  | EFFICIENCY_FINDING_OPENED | EFFICIENCY_FINDING_CLOSED

fun kind_value :: "event_kind \<Rightarrow> string" where
  "kind_value MESSAGE_SENT = ''message.sent''"
| "kind_value MESSAGE_DELIVERED = ''message.delivered''"
| "kind_value TOOL_CALLED = ''tool.called''"
| "kind_value TOOL_RESULT = ''tool.result''"
| "kind_value TOOL_DENIED = ''tool.denied''"
| "kind_value AGENT_CREATED = ''agent.created''"
| "kind_value AGENT_FIRED = ''agent.fired''"
| "kind_value AGENT_HIRED = ''agent.hired''"
| "kind_value AGENT_FIRE_NOTIFY = ''agent.fire_notify''"
| "kind_value AGENT_ORPHANED = ''agent.orphaned''"
| "kind_value AGENT_HEARTBEAT = ''agent.heartbeat''"
| "kind_value AGENT_HEALTH_ALERT = ''agent.health_alert''"
| "kind_value AGENT_TURN_TRUNCATED = ''agent.turn_truncated''"
| "kind_value AGENT_TURN_COMPLETED = ''agent.turn_completed''"
| "kind_value AGENT_FEEDBACK_GIVEN = ''agent.feedback_given''"
| "kind_value AGENT_PROMOTED = ''agent.promoted''"
| "kind_value AGENT_REASSIGNED = ''agent.reassigned''"
| "kind_value EXPENSE_CHARGED = ''expense.charged''"
| "kind_value BUDGET_WARNING = ''budget.warning''"
| "kind_value BUDGET_BLOCKED = ''budget.blocked''"
| "kind_value APPROVAL_REQUESTED = ''approval.requested''"
| "kind_value APPROVAL_DECIDED = ''approval.decided''"
| "kind_value APPROVAL_TIMEOUT = ''approval.timeout''"
| "kind_value SECURITY_FLAG = ''security.flag''"
| "kind_value SECURITY_VETO = ''security.veto''"
| "kind_value EXTERNAL_CALL = ''connector.external_call''"
| "kind_value QUOTA_WARNING = ''quota.warning''"
| "kind_value QUOTA_EXCEEDED = ''quota.exceeded''"
| "kind_value QUOTA_DRIFT = ''quota.drift''"
| "kind_value CLOCK_PAUSED = ''clock.paused''"
| "kind_value CLOCK_RESUMED = ''clock.resumed''"
| "kind_value DAY_TICK = ''clock.day_tick''"
| "kind_value COMPANY_CREATED = ''company.created''"
| "kind_value COMPANY_CLOSED = ''company.closed''"
| "kind_value LINK_REQUESTED = ''link.requested''"
| "kind_value LINK_APPROVED = ''link.approved''"
| "kind_value EFFICIENCY_FINDING_OPENED = ''efficiency.finding.opened''"
| "kind_value EFFICIENCY_FINDING_CLOSED = ''efficiency.finding.closed''"

text \<open>The members of the enum in declaration order; \<open>EventKind(text)\<close> looks a value up in them.\<close>

definition all_kinds :: "event_kind list" where
  "all_kinds =
    [MESSAGE_SENT, MESSAGE_DELIVERED, TOOL_CALLED, TOOL_RESULT, TOOL_DENIED, AGENT_CREATED,
     AGENT_FIRED, AGENT_HIRED, AGENT_FIRE_NOTIFY, AGENT_ORPHANED, AGENT_HEARTBEAT,
     AGENT_HEALTH_ALERT, AGENT_TURN_TRUNCATED, AGENT_TURN_COMPLETED, AGENT_FEEDBACK_GIVEN,
     AGENT_PROMOTED, AGENT_REASSIGNED, EXPENSE_CHARGED, BUDGET_WARNING, BUDGET_BLOCKED,
     APPROVAL_REQUESTED, APPROVAL_DECIDED, APPROVAL_TIMEOUT, SECURITY_FLAG, SECURITY_VETO,
     EXTERNAL_CALL, QUOTA_WARNING, QUOTA_EXCEEDED, QUOTA_DRIFT, CLOCK_PAUSED, CLOCK_RESUMED,
     DAY_TICK, COMPANY_CREATED, COMPANY_CLOSED, LINK_REQUESTED, LINK_APPROVED,
     EFFICIENCY_FINDING_OPENED, EFFICIENCY_FINDING_CLOSED]"

definition kind_of_value :: "string \<Rightarrow> event_kind option" where
  "kind_of_value v = find (\<lambda>k. kind_value k = v) all_kinds"

lemma kind_of_kind_value: "kind_of_value (kind_value k) = Some k"
  by (cases k) (simp_all add: kind_of_value_def all_kinds_def)

section \<open>JSON\<close>

text \<open>A float is carried as an exact rational; its text is given by the parameter of
  \<open>json_dumps\<close> (Python's shortest \<^verbatim>\<open>repr\<close>).\<close>

datatype json =
    JNull
  | JBool bool
  | JInt int
  | JFloat rat
  | JStr string
  | JList "json list"
  | JObj "(string \<times> json) list"

type_synonym payload = "(string \<times> json) list"

definition hex_digit :: "nat \<Rightarrow> char" where
  "hex_digit n = (if n < 10 then char_of (48 + n) else char_of (87 + n))"

definition json_esc :: "char \<Rightarrow> string" where
  "json_esc c =
     (let n = of_char c :: nat in
      if n = 34 then [CHR 0x5C, CHR 0x22]
      else if n = 92 then [CHR 0x5C, CHR 0x5C]
      else if n = 10 then [CHR 0x5C, CHR ''n'']
      else if n = 13 then [CHR 0x5C, CHR ''r'']
      else if n = 9 then [CHR 0x5C, CHR ''t'']
      else if n = 8 then [CHR 0x5C, CHR ''b'']
      else if n = 12 then [CHR 0x5C, CHR ''f'']
      else if 32 \<le> n \<and> n \<le> 126 then [c]
      else [CHR 0x5C, CHR ''u'', CHR ''0'', CHR ''0'', hex_digit (n div 16), hex_digit (n mod 16)])"

definition json_quote :: "string \<Rightarrow> string" where
  "json_quote s = [CHR 0x22] @ concat (map json_esc s) @ [CHR 0x22]"

text \<open>\<^verbatim>\<open>json.dumps(value, separators=(",", ":"), sort_keys=True)\<close>.\<close>

fun json_dumps :: "(rat \<Rightarrow> string) \<Rightarrow> json \<Rightarrow> string"
  and dumps_list :: "(rat \<Rightarrow> string) \<Rightarrow> json list \<Rightarrow> string list"
  and dumps_items :: "(rat \<Rightarrow> string) \<Rightarrow> (string \<times> json) list \<Rightarrow> (string \<times> string) list"
where
  "json_dumps fr JNull = ''null''"
| "json_dumps fr (JBool b) = (if b then ''true'' else ''false'')"
| "json_dumps fr (JInt i) = int_str i"
| "json_dumps fr (JFloat q) = fr q"
| "json_dumps fr (JStr s) = json_quote s"
| "json_dumps fr (JList xs) = ''['' @ py_join '','' (dumps_list fr xs) @ '']''"
| "json_dumps fr (JObj kvs) =
     ''{'' @ py_join '','' (map (\<lambda>(k, t). json_quote k @ '':'' @ t)
                             (sort_key fst (dumps_items fr kvs))) @ ''}''"
| "dumps_list fr [] = []"
| "dumps_list fr (x # xs) = json_dumps fr x # dumps_list fr xs"
| "dumps_items fr [] = []"
| "dumps_items fr ((k, v) # kvs) = (k, json_dumps fr v) # dumps_items fr kvs"

section \<open>Schemas\<close>

text \<open>The annotations the payload classes use, and whether a field has a default.\<close>

datatype ftype = TStr | TOptStr | TInt | TOptInt | TBool | TFloat | TObj | TOptObj

datatype fdefault = Required | Default json

type_synonym schema = "(string \<times> ftype \<times> fdefault) list"

abbreviation optstr :: "string \<Rightarrow> string \<times> ftype \<times> fdefault" where
  "optstr n \<equiv> (n, TOptStr, Default JNull)"

abbreviation str_field :: "string \<Rightarrow> string \<times> ftype \<times> fdefault" where
  "str_field n \<equiv> (n, TStr, Required)"

abbreviation int_field :: "string \<Rightarrow> string \<times> ftype \<times> fdefault" where
  "int_field n \<equiv> (n, TInt, Required)"

definition MessageSentPayload :: schema where
  "MessageSentPayload =
     [str_field ''from_agent'', str_field ''to_agent'', str_field ''content'', optstr ''thread_id'']"

definition MessageDeliveredPayload :: schema where
  "MessageDeliveredPayload = [str_field ''message_id'', str_field ''to_agent'', optstr ''thread_id'']"

definition ToolCalledPayload :: schema where
  "ToolCalledPayload =
     [str_field ''tool'', (''arguments'', TObj, Default (JObj [])), str_field ''request_id'']"

definition ToolResultPayload :: schema where
  "ToolResultPayload =
     [str_field ''tool'', str_field ''request_id'', (''ok'', TBool, Required),
      (''result'', TOptObj, Default JNull), optstr ''error'']"

definition ToolDeniedPayload :: schema where
  "ToolDeniedPayload = [str_field ''tool'', str_field ''request_id'', str_field ''reason'']"

definition AgentCreatedPayload :: schema where
  "AgentCreatedPayload =
     [str_field ''agent_id'', str_field ''role'', optstr ''manager_id'', optstr ''first_name'',
      optstr ''last_name'', optstr ''role_title'']"

definition AgentFiredPayload :: schema where
  "AgentFiredPayload = [str_field ''agent_id'', str_field ''by_agent_id'', optstr ''reason'']"

definition AgentHiredPayload :: schema where
  "AgentHiredPayload =
     [str_field ''agent_id'', str_field ''role'', str_field ''by_agent_id'', optstr ''manager_id'',
      optstr ''first_name'', optstr ''last_name'', optstr ''role_title'']"

definition AgentFireNotifyPayload :: schema where
  "AgentFireNotifyPayload =
     [str_field ''to_agent'', str_field ''fired_agent'', str_field ''actor'', optstr ''reason'']"

definition AgentOrphanedPayload :: schema where
  "AgentOrphanedPayload = [str_field ''agent_id'', str_field ''former_manager_id'']"

definition AgentHeartbeatPayload :: schema where
  "AgentHeartbeatPayload = [str_field ''agent_id'', str_field ''state'']"

definition AgentHealthAlertPayload :: schema where
  "AgentHealthAlertPayload =
     [str_field ''agent_id'', str_field ''issue'', (''severity'', TStr, Default (JStr ''warn'')),
      optstr ''detail'']"

definition AgentTurnTruncatedPayload :: schema where
  "AgentTurnTruncatedPayload =
     [str_field ''agent_id'', str_field ''reason'', (''tool_invocations'', TInt, Default (JInt 0))]"

definition AgentTurnCompletedPayload :: schema where
  "AgentTurnCompletedPayload =
     [str_field ''agent_id'', (''task_done'', TBool, Required),
      (''duration_seconds'', TFloat, Required), (''tool_invocations'', TInt, Default (JInt 0))]"

definition AgentFeedbackGivenPayload :: schema where
  "AgentFeedbackGivenPayload =
     [str_field ''feedback_id'', str_field ''target_agent_id'', str_field ''from_agent_id'',
      int_field ''rating'']"

definition AgentPromotedPayload :: schema where
  "AgentPromotedPayload =
     [str_field ''agent_id'', str_field ''by_agent_id'', optstr ''old_role_title'',
      str_field ''new_role_title'', optstr ''old_role_description'',
      str_field ''new_role_description'', optstr ''approval_id'']"

definition ExpenseChargedPayload :: schema where
  "ExpenseChargedPayload =
     [int_field ''amount_cents'', str_field ''category'', optstr ''note'', str_field ''request_id'']"

definition BudgetWarningPayload :: schema where
  "BudgetWarningPayload =
     [str_field ''scope'', int_field ''used_cents'', int_field ''limit_cents'',
      (''ratio'', TFloat, Required)]"

definition BudgetBlockedPayload :: schema where
  "BudgetBlockedPayload =
     [str_field ''scope'', int_field ''used_cents'', int_field ''limit_cents'',
      int_field ''attempted_cents'']"

definition ApprovalRequestedPayload :: schema where
  "ApprovalRequestedPayload =
     [str_field ''approval_id'', str_field ''requested_by'', str_field ''subject'',
      (''details'', TObj, Default (JObj []))]"

definition ApprovalDecidedPayload :: schema where
  "ApprovalDecidedPayload =
     [str_field ''approval_id'', str_field ''decided_by'', str_field ''decision'', optstr ''note'']"

definition ApprovalTimeoutPayload :: schema where
  "ApprovalTimeoutPayload = [str_field ''approval_id'']"

definition SecurityFlagPayload :: schema where
  "SecurityFlagPayload =
     [str_field ''severity'', str_field ''target'', str_field ''rule'', optstr ''note'']"

definition SecurityVetoPayload :: schema where
  "SecurityVetoPayload = [str_field ''target'', str_field ''rule'', optstr ''note'']"

definition ExternalCallPayload :: schema where
  "ExternalCallPayload =
     [str_field ''service'', str_field ''endpoint'', str_field ''request_id'',
      str_field ''status'', (''duration_ms'', TOptInt, Default JNull)]"

definition QuotaWarningPayload :: schema where
  "QuotaWarningPayload =
     [str_field ''agent_id'', int_field ''used'', int_field ''limit'', (''ratio'', TFloat, Required)]"

definition QuotaExceededPayload :: schema where
  "QuotaExceededPayload =
     [str_field ''scope'', optstr ''agent_id'', int_field ''limit'', int_field ''would_use'']"

definition QuotaDriftPayload :: schema where
  "QuotaDriftPayload = [str_field ''agent_id'', int_field ''drift_bytes'']"

definition ClockPausedPayload :: schema where
  "ClockPausedPayload = [optstr ''by'']"

definition ClockResumedPayload :: schema where
  "ClockResumedPayload = [optstr ''by'']"

definition DayTickPayload :: schema where
  "DayTickPayload = [int_field ''day'']"

definition CompanyCreatedPayload :: schema where
  "CompanyCreatedPayload = [str_field ''company_id'', str_field ''name'']"

definition CompanyClosedPayload :: schema where
  "CompanyClosedPayload = [str_field ''company_id'', optstr ''reason'']"

definition LinkRequestedPayload :: schema where
  "LinkRequestedPayload =
     [str_field ''link_id'', str_field ''from_company'', str_field ''to_company'',
      str_field ''purpose'']"

definition LinkApprovedPayload :: schema where
  "LinkApprovedPayload = [str_field ''link_id'']"

definition EfficiencyFindingOpenedPayload :: schema where
  "EfficiencyFindingOpenedPayload =
     [str_field ''finding_id'', str_field ''detector_code'', str_field ''severity'',
      str_field ''subject_type'', optstr ''subject_id'', (''evidence'', TObj, Default (JObj [])),
      optstr ''recommendation'']"

definition EfficiencyFindingClosedPayload :: schema where
  "EfficiencyFindingClosedPayload =
     [str_field ''finding_id'', str_field ''detector_code'', str_field ''reason'']"

text \<open>The registry \<^verbatim>\<open>PAYLOAD_MODELS\<close>, entry by entry; a kind without an entry is a
  \<^verbatim>\<open>KeyError\<close> of \<^verbatim>\<open>model_for\<close>.\<close>

fun model_for :: "event_kind \<Rightarrow> schema option" where
  "model_for MESSAGE_SENT = Some MessageSentPayload"
| "model_for MESSAGE_DELIVERED = Some MessageDeliveredPayload"
| "model_for TOOL_CALLED = Some ToolCalledPayload"
| "model_for TOOL_RESULT = Some ToolResultPayload"
| "model_for TOOL_DENIED = Some ToolDeniedPayload"
| "model_for AGENT_CREATED = Some AgentCreatedPayload"
| "model_for AGENT_FIRED = Some AgentFiredPayload"
| "model_for AGENT_HIRED = Some AgentHiredPayload"
| "model_for AGENT_FIRE_NOTIFY = Some AgentFireNotifyPayload"
| "model_for AGENT_ORPHANED = Some AgentOrphanedPayload"
| "model_for AGENT_HEARTBEAT = Some AgentHeartbeatPayload"
| "model_for AGENT_HEALTH_ALERT = Some AgentHealthAlertPayload"
| "model_for AGENT_TURN_TRUNCATED = Some AgentTurnTruncatedPayload"
| "model_for AGENT_TURN_COMPLETED = Some AgentTurnCompletedPayload"
| "model_for AGENT_FEEDBACK_GIVEN = Some AgentFeedbackGivenPayload"
| "model_for AGENT_PROMOTED = Some AgentPromotedPayload"
| "model_for EXPENSE_CHARGED = Some ExpenseChargedPayload"
| "model_for BUDGET_WARNING = Some BudgetWarningPayload"
| "model_for BUDGET_BLOCKED = Some BudgetBlockedPayload"
| "model_for APPROVAL_REQUESTED = Some ApprovalRequestedPayload"
| "model_for APPROVAL_DECIDED = Some ApprovalDecidedPayload"
| "model_for APPROVAL_TIMEOUT = Some ApprovalTimeoutPayload"
| "model_for SECURITY_FLAG = Some SecurityFlagPayload"
| "model_for SECURITY_VETO = Some SecurityVetoPayload"
| "model_for EXTERNAL_CALL = Some ExternalCallPayload"
| "model_for QUOTA_WARNING = Some QuotaWarningPayload"
| "model_for QUOTA_EXCEEDED = Some QuotaExceededPayload"
| "model_for QUOTA_DRIFT = Some QuotaDriftPayload"
| "model_for CLOCK_PAUSED = Some ClockPausedPayload"
| "model_for CLOCK_RESUMED = Some ClockResumedPayload"
| "model_for DAY_TICK = Some DayTickPayload"
| "model_for COMPANY_CREATED = Some CompanyCreatedPayload"
| "model_for COMPANY_CLOSED = Some CompanyClosedPayload"
| "model_for LINK_REQUESTED = Some LinkRequestedPayload"
| "model_for LINK_APPROVED = Some LinkApprovedPayload"
| "model_for EFFICIENCY_FINDING_OPENED = Some EfficiencyFindingOpenedPayload"
| "model_for EFFICIENCY_FINDING_CLOSED = Some EfficiencyFindingClosedPayload"
| "model_for AGENT_REASSIGNED = None"

lemmas payload_schemas =
  MessageSentPayload_def MessageDeliveredPayload_def ToolCalledPayload_def ToolResultPayload_def
  ToolDeniedPayload_def AgentCreatedPayload_def AgentFiredPayload_def AgentHiredPayload_def
  AgentFireNotifyPayload_def AgentOrphanedPayload_def AgentHeartbeatPayload_def
  AgentHealthAlertPayload_def AgentTurnTruncatedPayload_def AgentTurnCompletedPayload_def
  AgentFeedbackGivenPayload_def AgentPromotedPayload_def ExpenseChargedPayload_def
  BudgetWarningPayload_def BudgetBlockedPayload_def ApprovalRequestedPayload_def
  ApprovalDecidedPayload_def ApprovalTimeoutPayload_def SecurityFlagPayload_def
  SecurityVetoPayload_def ExternalCallPayload_def QuotaWarningPayload_def
  QuotaExceededPayload_def QuotaDriftPayload_def ClockPausedPayload_def ClockResumedPayload_def
  DayTickPayload_def CompanyCreatedPayload_def CompanyClosedPayload_def LinkRequestedPayload_def
  LinkApprovedPayload_def EfficiencyFindingOpenedPayload_def EfficiencyFindingClosedPayload_def

section \<open>What a valid payload is\<close>

fun has_ftype :: "ftype \<Rightarrow> json \<Rightarrow> bool" where
  "has_ftype TStr (JStr _) = True"
| "has_ftype TOptStr JNull = True"
| "has_ftype TOptStr (JStr _) = True"
| "has_ftype TInt (JInt _) = True"
| "has_ftype TOptInt JNull = True"
| "has_ftype TOptInt (JInt _) = True"
| "has_ftype TBool (JBool _) = True"
| "has_ftype TFloat (JFloat _) = True"
| "has_ftype TObj (JObj _) = True"
| "has_ftype TOptObj JNull = True"
| "has_ftype TOptObj (JObj _) = True"
| "has_ftype _ _ = False"

definition valid_payload :: "schema \<Rightarrow> payload \<Rightarrow> bool" where
  "valid_payload sch p \<longleftrightarrow>
     distinct (map fst p) \<and>
     list_all (\<lambda>kv. fst kv \<in> fst ` set sch) p \<and>
     list_all (\<lambda>(n, t, d).
        case map_of p n of Some v \<Rightarrow> has_ftype t v | None \<Rightarrow> d \<noteq> Required) sch"

definition payload_dump :: "schema \<Rightarrow> payload \<Rightarrow> payload" where
  "payload_dump sch p =
     map (\<lambda>(n, t, d). (n, case map_of p n of
                            Some v \<Rightarrow> v
                          | None \<Rightarrow> (case d of Default v \<Rightarrow> v | Required \<Rightarrow> JNull))) sch"

text \<open>\<^verbatim>\<open>model_cls.model_validate(payload).model_dump(mode="json")\<close>; \<open>None\<close> for a ValidationError.\<close>

type_synonym validator = "schema \<Rightarrow> payload \<Rightarrow> payload option"

locale pydantic =
  fixes validate :: validator
  assumes forbid_extra: "k \<in> fst ` set p \<Longrightarrow> k \<notin> fst ` set sch \<Longrightarrow> validate sch p = None"
    and missing_field: "(n, t, Required) \<in> set sch \<Longrightarrow> n \<notin> fst ` set p \<Longrightarrow> validate sch p = None"
    and exact_values: "valid_payload sch p \<Longrightarrow> validate sch p = Some (payload_dump sch p)"
begin

lemma rejects_extra: "(k, v) \<in> set p \<Longrightarrow> k \<notin> fst ` set sch \<Longrightarrow> validate sch p = None"
  by (rule forbid_extra) (auto intro: rev_image_eqI)

lemma accepts: "valid_payload sch p \<Longrightarrow> validate sch p \<noteq> None"
  by (simp add: exact_values)

end

text \<open>The strict reading of the contract (no coercion at all) satisfies it: it is the instance
  the examples are evaluated with.\<close>

definition strict_validate :: validator where
  "strict_validate sch p = (if valid_payload sch p then Some (payload_dump sch p) else None)"

interpretation strict: pydantic strict_validate
proof unfold_locales
  fix k and p :: payload and sch :: schema
  assume "k \<in> fst ` set p" and "k \<notin> fst ` set sch"
  then have "\<not> list_all (\<lambda>kv. fst kv \<in> fst ` set sch) p"
    by (auto simp: list_all_iff)
  then show "strict_validate sch p = None"
    by (simp add: strict_validate_def valid_payload_def)
next
  fix n t and p :: payload and sch :: schema
  assume req: "(n, t, Required) \<in> set sch" and "n \<notin> fst ` set p"
  then have "map_of p n = None" by (simp add: map_of_eq_None_iff)
  with req have "\<not> list_all (\<lambda>(n, t, d).
      case map_of p n of Some v \<Rightarrow> has_ftype t v | None \<Rightarrow> d \<noteq> Required) sch"
    by (force simp: list_all_iff)
  then have "\<not> valid_payload sch p"
    by (simp add: valid_payload_def)
  then show "strict_validate sch p = None"
    by (simp add: strict_validate_def)
qed (simp add: strict_validate_def)

end
