(* ===== verification/Event_Store.thy ===== *)
theory Event_Store
  imports Event_Kinds
begin

text \<open>
  \<^verbatim>\<open>modules/event_store/store.py\<close>: the append-only event log of one company, its filtered read,
  the synchronous subscribers and the asynchronous streams.

  The row list \<open>es_events\<close> is the table \<^verbatim>\<open>events\<close> and \<open>es_seq\<close> its AUTOINCREMENT counter. The two
  clock readings an append makes are arbitrary: \<open>es_clock_company n\<close> and \<open>es_clock_real n\<close> are the
  values read for the event that gets id \<open>n\<close>. Callbacks are outside the model: \<open>es_sub_log\<close>
  records which subscriber was handed which event. A stream is the state machine of the async
  generator, one step per resumption, interleaved with appends and with the event loop.
\<close>

section \<open>State\<close>

record event =
  ev_id :: int
  ev_company_id :: string
  ev_kind :: event_kind
  ev_payload :: payload
  ev_actor_agent_id :: "string option"
  ev_correlation_id :: "string option"
  ev_ts_company :: int
  ev_ts_real :: int

text \<open>\<^verbatim>\<open>_StreamSubscription\<close>: the asyncio queue, the calls the loop has still to run, the drops.\<close>

record stream_sub =
  ss_maxsize :: int
  ss_queue :: "event list"
  ss_calls :: "event list"
  ss_drops :: nat

record event_store =
  es_company_id :: string
  es_migrated :: bool
  es_events :: "event list"
  es_seq :: int
  es_max_payload_bytes :: int
  es_stream_buffer_size :: int
  es_validate :: validator
  es_float_repr :: "rat \<Rightarrow> string"
  es_clock_company :: "int \<Rightarrow> int"
  es_clock_real :: "int \<Rightarrow> int"
  es_subscribers :: "string list"
  es_sub_log :: "(string \<times> int) list"
  es_streams :: "string \<Rightarrow> stream_sub option"

definition es_migrate :: "event_store \<Rightarrow> event_store" where
  "es_migrate s = s\<lparr>es_migrated := True\<rparr>"

section \<open>Appending\<close>

fun coerce_kind :: "event_kind + string \<Rightarrow> exn + event_kind" where
  "coerce_kind (Inl k) = Inr k"
| "coerce_kind (Inr v) =
     (case kind_of_value v of Some k \<Rightarrow> Inr k | None \<Rightarrow> Inl (UnknownEventKind v))"

definition es_validate_payload :: "event_store \<Rightarrow> event_kind \<Rightarrow> payload \<Rightarrow> exn + payload" where
  "es_validate_payload s k p =
     (case model_for k of
        None \<Rightarrow> Inl (UnknownEventKind (kind_value k))
      | Some sch \<Rightarrow>
          (case es_validate s sch p of
             None \<Rightarrow> Inl (PayloadValidationError (kind_value k))
           | Some v \<Rightarrow> Inr v))"

text \<open>\<^verbatim>\<open>_StreamSubscription.deliver\<close> hands the event to the loop; \<^verbatim>\<open>_enqueue\<close> is what the loop runs.
  A queue with \<^verbatim>\<open>maxsize <= 0\<close> is never full.\<close>

definition ss_deliver :: "event \<Rightarrow> stream_sub \<Rightarrow> stream_sub" where
  "ss_deliver e sub = sub\<lparr>ss_calls := ss_calls sub @ [e]\<rparr>"

definition queue_full :: "stream_sub \<Rightarrow> bool" where
  "queue_full sub \<longleftrightarrow> 0 < ss_maxsize sub \<and> ss_maxsize sub \<le> int (length (ss_queue sub))"

definition ss_enqueue :: "event \<Rightarrow> stream_sub \<Rightarrow> stream_sub" where
  "ss_enqueue e sub =
     (let sub1 = (if queue_full sub
                  then sub\<lparr>ss_queue := tl (ss_queue sub), ss_drops := Suc (ss_drops sub)\<rparr>
                  else sub)
      in if queue_full sub1 then sub1\<lparr>ss_drops := Suc (ss_drops sub1)\<rparr>
         else sub1\<lparr>ss_queue := ss_queue sub1 @ [e]\<rparr>)"

definition es_broadcast :: "event \<Rightarrow> event_store \<Rightarrow> event_store" where
  "es_broadcast e s =
     s\<lparr>es_sub_log := es_sub_log s @ map (\<lambda>i. (i, ev_id e)) (es_subscribers s),
       es_streams := (\<lambda>i. map_option (ss_deliver e) (es_streams s i))\<rparr>"

definition es_append ::
  "event_kind + string \<Rightarrow> payload \<Rightarrow> string option \<Rightarrow> string option \<Rightarrow> event_store
   \<Rightarrow> (event, event_store) outcome" where
  "es_append kind p actor corr s =
     (case coerce_kind kind of Inl e \<Rightarrow> (Inl e, s) | Inr k \<Rightarrow>
      (case es_validate_payload s k p of Inl e \<Rightarrow> (Inl e, s) | Inr v \<Rightarrow>
       (if int (utf8_len (json_dumps (es_float_repr s) (JObj v))) > es_max_payload_bytes s
        then (Inl (PayloadTooLarge (kind_value k)), s)
        else if \<not> es_migrated s then (Inl (OperationalError ''no such table: events''), s)
        else
          let i = es_seq s + 1;
              ev = \<lparr>ev_id = i, ev_company_id = es_company_id s, ev_kind = k, ev_payload = v,
                    ev_actor_agent_id = actor, ev_correlation_id = corr,
                    ev_ts_company = es_clock_company s i, ev_ts_real = es_clock_real s i\<rparr>
          in (Inr ev,
              es_broadcast ev (s\<lparr>es_events := es_events s @ [ev], es_seq := i\<rparr>)))))"

text \<open>Several appends by one actor, in order; the first one that raises ends the list.\<close>

fun append_all ::
  "(event_kind \<times> payload) list \<Rightarrow> string option \<Rightarrow> event_store \<Rightarrow> (unit, event_store) outcome" where
  "append_all [] actor es = (Inr (), es)"
| "append_all ((k, p) # rest) actor es =
     andthen (es_append (Inl k) p actor None es) (\<lambda>_ es'. append_all rest actor es')"

definition opt_json :: "string option \<Rightarrow> json" where
  "opt_json x = (case x of None \<Rightarrow> JNull | Some s \<Rightarrow> JStr s)"

section \<open>Reading\<close>

definition read_match ::
  "int option \<Rightarrow> int option \<Rightarrow> event_kind list \<Rightarrow> string option \<Rightarrow> string option \<Rightarrow> event \<Rightarrow> bool" where
  "read_match since until kinds actor corr e \<longleftrightarrow>
     (case since of None \<Rightarrow> True | Some n \<Rightarrow> n < ev_id e) \<and>
     (case until of None \<Rightarrow> True | Some n \<Rightarrow> ev_id e \<le> n) \<and>
     (kinds = [] \<or> ev_kind e \<in> set kinds) \<and>
     (case actor of None \<Rightarrow> True | Some a \<Rightarrow> ev_actor_agent_id e = Some a) \<and>
     (case corr of None \<Rightarrow> True | Some c \<Rightarrow> ev_correlation_id e = Some c)"

definition es_read ::
  "int option \<Rightarrow> int option \<Rightarrow> event_kind list \<Rightarrow> string option \<Rightarrow> string option \<Rightarrow> int
   \<Rightarrow> event_store \<Rightarrow> exn + event list" where
  "es_read since until kinds actor corr limit s =
     (if limit \<le> 0 then Inl (ValueError ''limit must be positive'')
      else if \<not> es_migrated s then Inr []
      else Inr (take (nat limit)
             (sort_key ev_id (filter (read_match since until kinds actor corr) (es_events s)))))"

section \<open>Subscribers\<close>

definition es_subscribe :: "string \<Rightarrow> event_store \<Rightarrow> event_store" where
  "es_subscribe h s =
     s\<lparr>es_subscribers := filter (\<lambda>i. i \<noteq> h) (es_subscribers s) @ [h]\<rparr>"

definition es_unsubscribe :: "string \<Rightarrow> event_store \<Rightarrow> event_store" where
  "es_unsubscribe h s = s\<lparr>es_subscribers := filter (\<lambda>i. i \<noteq> h) (es_subscribers s)\<rparr>"

section \<open>Streams\<close>

text \<open>Where the generator stands: before its first resumption, replaying the backlog (whole and
  remaining), waiting on the queue with \<open>last_id\<close>, or closed.\<close>

datatype stream_phase = Starting | Replaying "event list" "event list" | Tailing int | Closed

definition new_sub :: "int \<Rightarrow> event_store \<Rightarrow> stream_sub" where
  "new_sub buffer_size s =
     \<lparr>ss_maxsize = (if buffer_size = 0 then es_stream_buffer_size s else buffer_size),
      ss_queue = [], ss_calls = [], ss_drops = 0\<rparr>"

definition backlog_limit :: int where
  "backlog_limit = 10000"

definition stream_backlog :: "int \<Rightarrow> event_store \<Rightarrow> event list" where
  "stream_backlog since s =
     (case es_read (Some since) None [] None None backlog_limit s of Inr es \<Rightarrow> es | Inl _ \<Rightarrow> [])"

definition stream_last :: "int \<Rightarrow> event list \<Rightarrow> int" where
  "stream_last since backlog = (if backlog = [] then since else ev_id (last backlog))"

text \<open>One stream running against its store; \<open>sr_read_seq\<close> and \<open>sr_reg_seq\<close> remember the table's
  counter when the backlog was read and when the queue was registered.\<close>

record stream_run =
  sr_store :: event_store
  sr_id :: string
  sr_since :: int
  sr_buffer :: int
  sr_phase :: stream_phase
  sr_yielded :: "event list"
  sr_read_seq :: int
  sr_reg_seq :: int

text \<open>One resumption of the generator: \<open>None\<close> when it is suspended on an empty queue or done.\<close>

definition stream_resume :: "stream_run \<Rightarrow> stream_run option" where
  "stream_resume r =
     (case sr_phase r of
        Starting \<Rightarrow>
          (let b = stream_backlog (sr_since r) (sr_store r)
           in Some (r\<lparr>sr_phase := Replaying b b, sr_read_seq := es_seq (sr_store r)\<rparr>))
      | Replaying b (e # rest) \<Rightarrow>
          Some (r\<lparr>sr_phase := Replaying b rest, sr_yielded := sr_yielded r @ [e]\<rparr>)
      | Replaying b [] \<Rightarrow>
          Some (r\<lparr>sr_phase := Tailing (stream_last (sr_since r) b),
                  sr_reg_seq := es_seq (sr_store r),
                  sr_store := (sr_store r)\<lparr>es_streams :=
                    (es_streams (sr_store r))(sr_id r \<mapsto> new_sub (sr_buffer r) (sr_store r))\<rparr>\<rparr>)
      | Tailing n \<Rightarrow>
          (case es_streams (sr_store r) (sr_id r) of
             None \<Rightarrow> None
           | Some sub \<Rightarrow>
               (case ss_queue sub of
                  [] \<Rightarrow> None
                | e # q \<Rightarrow>
                    let r1 = r\<lparr>sr_store := (sr_store r)\<lparr>es_streams :=
                               (es_streams (sr_store r))(sr_id r \<mapsto> sub\<lparr>ss_queue := q\<rparr>)\<rparr>\<rparr>
                    in if ev_id e \<le> n then Some r1
                       else Some (r1\<lparr>sr_phase := Tailing (ev_id e),
                                     sr_yielded := sr_yielded r @ [e]\<rparr>)))
      | Closed \<Rightarrow> None)"

definition stream_close :: "stream_run \<Rightarrow> stream_run" where
  "stream_close r =
     r\<lparr>sr_phase := Closed,
       sr_store := (sr_store r)\<lparr>es_streams := (es_streams (sr_store r))(sr_id r := None)\<rparr>\<rparr>"

text \<open>The loop runs the first call that \<^verbatim>\<open>call_soon_threadsafe\<close> left for the stream.\<close>

definition loop_run_call :: "stream_run \<Rightarrow> stream_run option" where
  "loop_run_call r =
     (case es_streams (sr_store r) (sr_id r) of
        None \<Rightarrow> None
      | Some sub \<Rightarrow>
          (case ss_calls sub of
             [] \<Rightarrow> None
           | e # cs \<Rightarrow>
               Some (r\<lparr>sr_store := (sr_store r)\<lparr>es_streams := (es_streams (sr_store r))
                         (sr_id r \<mapsto> ss_enqueue e (sub\<lparr>ss_calls := cs\<rparr>))\<rparr>\<rparr>)))"

inductive stream_step :: "stream_run \<Rightarrow> stream_run \<Rightarrow> bool" where
  sst_append: "stream_step r (r\<lparr>sr_store := snd (es_append k p a c (sr_store r))\<rparr>)"
| sst_resume: "stream_resume r = Some r' \<Longrightarrow> stream_step r r'"
| sst_loop: "loop_run_call r = Some r' \<Longrightarrow> stream_step r r'"
| sst_close: "stream_step r (stream_close r)"

inductive_cases stream_stepE: "stream_step r r'"

section \<open>The log\<close>

definition log_inv :: "event_store \<Rightarrow> bool" where
  "log_inv s \<longleftrightarrow>
     sorted_wrt (<) (map ev_id (es_events s)) \<and>
     (\<forall>e\<in>set (es_events s). 0 < ev_id e \<and> ev_id e \<le> es_seq s \<and> model_for (ev_kind e) \<noteq> None) \<and>
     0 \<le> es_seq s \<and> (\<not> es_migrated s \<longrightarrow> es_events s = [])"

text \<open>What an append may change, for the components that emit: the log grows at its end, the
  configuration stays.\<close>

definition log_extends :: "event_store \<Rightarrow> event_store \<Rightarrow> bool" where
  "log_extends s t \<longleftrightarrow>
     (\<exists>new. es_events t = es_events s @ new) \<and>
     es_company_id t = es_company_id s \<and> es_migrated t = es_migrated s \<and>
     es_max_payload_bytes t = es_max_payload_bytes s \<and> es_validate t = es_validate s \<and>
     es_float_repr t = es_float_repr s"

lemma log_extends_refl [simp, intro]: "log_extends s s"
  by (simp add: log_extends_def)

lemma log_extends_trans [trans]: "log_extends s t \<Longrightarrow> log_extends t u \<Longrightarrow> log_extends s u"
  by (auto simp: log_extends_def)

lemma es_broadcast_simps [simp]:
  "es_events (es_broadcast e s) = es_events s" "es_seq (es_broadcast e s) = es_seq s"
  "es_migrated (es_broadcast e s) = es_migrated s"
  "es_company_id (es_broadcast e s) = es_company_id s"
  "es_max_payload_bytes (es_broadcast e s) = es_max_payload_bytes s"
  "es_validate (es_broadcast e s) = es_validate s"
  "es_float_repr (es_broadcast e s) = es_float_repr s"
  "es_subscribers (es_broadcast e s) = es_subscribers s"
  "es_streams (es_broadcast e s) i = map_option (ss_deliver e) (es_streams s i)"
  "es_stream_buffer_size (es_broadcast e s) = es_stream_buffer_size s"
  by (simp_all add: es_broadcast_def)

lemma validate_kind: "es_validate_payload s k p = Inr v \<Longrightarrow> model_for k \<noteq> None"
  by (auto simp: es_validate_payload_def split: option.splits)

lemma es_append_cases:
  obtains e where "es_append kind p a c s = (Inl e, s)"
  | k v ev where "coerce_kind kind = Inr k" "es_validate_payload s k p = Inr v" "es_migrated s"
      "int (utf8_len (json_dumps (es_float_repr s) (JObj v))) \<le> es_max_payload_bytes s"
      "ev = \<lparr>ev_id = es_seq s + 1, ev_company_id = es_company_id s, ev_kind = k, ev_payload = v,
             ev_actor_agent_id = a, ev_correlation_id = c,
             ev_ts_company = es_clock_company s (es_seq s + 1),
             ev_ts_real = es_clock_real s (es_seq s + 1)\<rparr>"
      "es_append kind p a c s =
         (Inr ev, es_broadcast ev (s\<lparr>es_events := es_events s @ [ev], es_seq := es_seq s + 1\<rparr>))"
proof (cases "coerce_kind kind")
  case (Inl e)
  then show thesis by (intro that(1)[of e]) (simp add: es_append_def)
next
  case (Inr k)
  show thesis
  proof (cases "es_validate_payload s k p")
    case (Inl e)
    with Inr show thesis by (intro that(1)[of e]) (simp add: es_append_def)
  next
    case (Inr v)
    note steps = \<open>coerce_kind kind = Inr k\<close> Inr
    show thesis
    proof (cases "int (utf8_len (json_dumps (es_float_repr s) (JObj v))) > es_max_payload_bytes s")
      case True
      with steps show thesis
        by (intro that(1)[of "PayloadTooLarge (kind_value k)"]) (simp add: es_append_def)
    next
      case False
      note small = False
      show thesis
      proof (cases "es_migrated s")
        case True
        show thesis
          by (rule that(2)[OF steps True _ refl]) (use steps small True in \<open>simp_all add: es_append_def Let_def\<close>)
      next
        case False
        with steps small show thesis
          by (intro that(1)[of "OperationalError ''no such table: events''"])
             (simp add: es_append_def)
      qed
    qed
  qed
qed

lemma es_appended:
  assumes "es_append (Inl k) p a c s = (Inr ev, t)"
  shows "es_events t = es_events s @ [ev]" and "ev_kind ev = k" and "ev_actor_agent_id ev = a"
    and "ev_correlation_id ev = c" and "es_migrated t"
    and "\<exists>sch. model_for k = Some sch \<and> es_validate s sch p = Some (ev_payload ev)"
  using assms
  by (rule_tac es_append_cases[of "Inl k" p a c s];
      auto simp: es_validate_payload_def split: option.splits)+

lemma es_append_extends: "log_extends s (snd (es_append k p a c s))"
  by (rule es_append_cases[of k p a c s]) (auto simp: log_extends_def)

lemma append_all_extends: "log_extends es (snd (append_all evs a es))"
proof (induction evs arbitrary: es)
  case (Cons e evs)
  obtain k p where e: "e = (k, p)" by (cases e)
  obtain r es1 where app: "es_append (Inl k) p a None es = (r, es1)"
    by (cases "es_append (Inl k) p a None es")
  then have "log_extends es es1" using es_append_extends[of es "Inl k" p a None] by simp
  with Cons.IH[of es1] app e show ?case
    by (cases r) (auto intro: log_extends_trans)
qed simp

declare append_all.simps [simp del]

lemma append_all_Nil [simp]: "append_all [] a es = (Inr (), es)"
  by (simp add: append_all.simps)

lemma es_append_error: "es_append k p a c s = (Inl e, t) \<Longrightarrow> t = s"
  by (rule es_append_cases[of k p a c s]) auto

lemma es_append_log_inv:
  assumes "log_inv s" shows "log_inv (snd (es_append kind p a c s))"
proof (rule es_append_cases[of kind p a c s])
  fix k v ev
  assume val: "es_validate_payload s k p = Inr v" and mig: "es_migrated s"
    and ev: "ev = \<lparr>ev_id = es_seq s + 1, ev_company_id = es_company_id s, ev_kind = k,
        ev_payload = v, ev_actor_agent_id = a, ev_correlation_id = c,
        ev_ts_company = es_clock_company s (es_seq s + 1),
        ev_ts_real = es_clock_real s (es_seq s + 1)\<rparr>"
    and app: "es_append kind p a c s =
         (Inr ev, es_broadcast ev (s\<lparr>es_events := es_events s @ [ev], es_seq := es_seq s + 1\<rparr>))"
  show ?thesis
    using assms mig validate_kind[OF val]
    by (fastforce simp: app log_inv_def sorted_wrt_append ev)
qed (use assms in simp)

lemma log_inv_read:
  assumes "log_inv s" and "0 < limit"
  shows "es_read since until kinds actor corr limit s =
           Inr (take (nat limit) (filter (read_match since until kinds actor corr) (es_events s)))"
proof -
  let ?P = "read_match since until kinds actor corr"
  have "sorted (map ev_id (es_events s))"
    using assms(1) by (simp add: log_inv_def strict_sorted_imp_sorted)
  then have "sorted (map ev_id (filter ?P (es_events s)))"
    by (rule sorted_filter)
  then have "sort_key ev_id (filter ?P (es_events s)) = filter ?P (es_events s)"
    by (rule sort_key_id_if_sorted)
  with assms show ?thesis
    by (cases "es_migrated s") (auto simp: es_read_def log_inv_def)
qed

lemma es_read_never_fails: "0 < limit \<Longrightarrow> \<exists>evs. es_read si u ks ac co limit s = Inr evs"
  by (simp add: es_read_def)

section \<open>Streams against the log\<close>

definition stream_init :: "stream_run \<Rightarrow> bool" where
  "stream_init r \<longleftrightarrow>
     log_inv (sr_store r) \<and> sr_phase r = Starting \<and> sr_yielded r = [] \<and>
     es_streams (sr_store r) (sr_id r) = None"

abbreviation ids_increasing :: "event list \<Rightarrow> bool" where
  "ids_increasing es \<equiv> sorted_wrt (<) (map ev_id es)"

text \<open>The events a stream delivers when its queue never overflows: the backlog read at the start,
  then what is appended after the registration.\<close>

definition backlog_part :: "stream_run \<Rightarrow> event list" where
  "backlog_part r =
     take 10000 (filter (\<lambda>e. sr_since r < ev_id e \<and> ev_id e \<le> sr_read_seq r) (es_events (sr_store r)))"

definition tail_part :: "stream_run \<Rightarrow> event list" where
  "tail_part r =
     filter (\<lambda>e. sr_since r < ev_id e \<and> sr_reg_seq r < ev_id e) (es_events (sr_store r))"

definition sub_pending :: "stream_sub \<Rightarrow> event list" where
  "sub_pending sub = ss_queue sub @ ss_calls sub"

definition yielded_ok :: "stream_run \<Rightarrow> bool" where
  "yielded_ok r \<longleftrightarrow>
     ids_increasing (sr_yielded r) \<and> set (sr_yielded r) \<subseteq> set (es_events (sr_store r)) \<and>
     (\<forall>e\<in>set (sr_yielded r). sr_since r < ev_id e)"

definition tail_ok :: "stream_run \<Rightarrow> int \<Rightarrow> stream_sub \<Rightarrow> bool" where
  "tail_ok r n sub \<longleftrightarrow>
     sr_since r \<le> n \<and> (n = sr_since r \<or> n \<le> es_seq (sr_store r)) \<and>
     (\<forall>e\<in>set (sr_yielded r). ev_id e \<le> n) \<and>
     ids_increasing (sub_pending sub) \<and>
     set (sub_pending sub) \<subseteq> set (es_events (sr_store r)) \<and>
     (0 < ss_maxsize sub \<longrightarrow> int (length (ss_queue sub)) \<le> ss_maxsize sub) \<and>
     (ss_drops sub = 0 \<longrightarrow>
        sr_yielded r @ filter (\<lambda>e. n < ev_id e) (sub_pending sub) = backlog_part r @ tail_part r)"

definition stream_inv :: "stream_run \<Rightarrow> bool" where
  "stream_inv r \<longleftrightarrow>
     log_inv (sr_store r) \<and> yielded_ok r \<and>
     (case sr_phase r of
        Starting \<Rightarrow> sr_yielded r = [] \<and> es_streams (sr_store r) (sr_id r) = None
      | Replaying b rest \<Rightarrow>
          b = backlog_part r \<and> sr_yielded r @ rest = b \<and> sr_read_seq r \<le> es_seq (sr_store r) \<and>
          es_streams (sr_store r) (sr_id r) = None
      | Tailing n \<Rightarrow>
          sr_read_seq r \<le> sr_reg_seq r \<and> sr_reg_seq r \<le> es_seq (sr_store r) \<and>
          (case es_streams (sr_store r) (sr_id r) of None \<Rightarrow> False | Some sub \<Rightarrow> tail_ok r n sub)
      | Closed \<Rightarrow> True)"

lemma ids_increasing_sub:
  "ids_increasing es \<Longrightarrow> ids_increasing (filter P es)"
  "ids_increasing es \<Longrightarrow> ids_increasing (take n es)"
  by (auto simp: sorted_wrt_map sorted_wrt_filter sorted_wrt_take)

lemma log_inv_increasing: "log_inv s \<Longrightarrow> ids_increasing (es_events s)"
  by (simp add: log_inv_def)

lemma backlog_read:
  assumes "log_inv s"
  shows "stream_backlog since s =
           take 10000 (filter (\<lambda>e. since < ev_id e \<and> ev_id e \<le> es_seq s) (es_events s))"
proof -
  have "filter (read_match (Some since) None [] None None) (es_events s) =
        filter (\<lambda>e. since < ev_id e \<and> ev_id e \<le> es_seq s) (es_events s)"
    using assms by (intro filter_cong) (auto simp: read_match_def log_inv_def)
  then show ?thesis
    using assms by (simp add: stream_backlog_def backlog_limit_def log_inv_read)
qed

lemma resume_start_inv:
  assumes "stream_inv r" and "sr_phase r = Starting" and "stream_resume r = Some r'"
  shows "stream_inv r'"
  using assms backlog_read[of "sr_store r" "sr_since r"]
  by (auto simp: stream_inv_def stream_resume_def yielded_ok_def backlog_part_def Let_def)

lemma resume_replay_inv:
  assumes "stream_inv r" and "sr_phase r = Replaying b (e # rest)" and "stream_resume r = Some r'"
  shows "stream_inv r'"
proof -
  have r': "r' = r\<lparr>sr_phase := Replaying b rest, sr_yielded := sr_yielded r @ [e]\<rparr>"
    using assms by (simp add: stream_resume_def)
  have log: "log_inv (sr_store r)" and b: "sr_yielded r @ e # rest = backlog_part r"
    using assms by (auto simp: stream_inv_def)
  have "ids_increasing (sr_yielded r @ e # rest)"
    unfolding b backlog_part_def using log_inv_increasing[OF log] by (intro ids_increasing_sub)
  moreover have "set (sr_yielded r @ e # rest) \<subseteq>
      {x \<in> set (es_events (sr_store r)). sr_since r < ev_id x}"
    unfolding b backlog_part_def by (auto dest: in_set_takeD)
  ultimately have "yielded_ok r'"
    by (auto simp: yielded_ok_def r' sorted_wrt_append)
  then show ?thesis
    using assms by (auto simp: stream_inv_def r' backlog_part_def)
qed

lemma log_inv_streams [simp]: "log_inv (s\<lparr>es_streams := f\<rparr>) = log_inv s"
  by (simp add: log_inv_def)

lemma resume_register_inv:
  assumes "stream_inv r" and "sr_phase r = Replaying b []" and "stream_resume r = Some r'"
  shows "stream_inv r'"
proof -
  have log: "log_inv (sr_store r)" and y: "sr_yielded r = backlog_part r" and b: "b = backlog_part r"
    and rs: "sr_read_seq r \<le> es_seq (sr_store r)" and yok: "yielded_ok r"
    using assms by (auto simp: stream_inv_def)
  have "ids_increasing b"
    unfolding b backlog_part_def using log_inv_increasing[OF log] by (intro ids_increasing_sub)
  then have last: "\<forall>e\<in>set b. ev_id e \<le> ev_id (last b)"
    by (cases b rule: rev_cases) (auto simp: sorted_wrt_append)
  have mem: "\<forall>e\<in>set b. sr_since r < ev_id e \<and> ev_id e \<le> es_seq (sr_store r)"
    unfolding b backlog_part_def using log by (auto dest!: in_set_takeD simp: log_inv_def)
  define n where "n = stream_last (sr_since r) b"
  have n: "sr_since r \<le> n" "n = sr_since r \<or> n \<le> es_seq (sr_store r)" "\<forall>e\<in>set b. ev_id e \<le> n"
    using last mem by (auto simp: n_def stream_last_def less_imp_le)
  have r': "r' = r\<lparr>sr_phase := Tailing n, sr_reg_seq := es_seq (sr_store r),
      sr_store := (sr_store r)\<lparr>es_streams := (es_streams (sr_store r))
        (sr_id r \<mapsto> new_sub (sr_buffer r) (sr_store r))\<rparr>\<rparr>"
    using assms(2,3) by (simp add: stream_resume_def n_def)
  have tail: "tail_part r' = []"
    using log by (auto simp: r' tail_part_def filter_empty_conv log_inv_def)
  have bp: "backlog_part r' = backlog_part r"
    by (simp add: r' backlog_part_def)
  have "tail_ok r' n (new_sub (sr_buffer r) (sr_store r))"
    unfolding tail_ok_def tail bp using n y b by (simp add: r' new_sub_def sub_pending_def)
  moreover have "yielded_ok r'"
    using yok by (simp add: yielded_ok_def r')
  ultimately show ?thesis
    using log rs by (simp add: stream_inv_def r')
qed

lemma resume_get_inv:
  assumes "stream_inv r" and "sr_phase r = Tailing n" and "stream_resume r = Some r'"
  shows "stream_inv r'"
proof -
  obtain sub where sub: "es_streams (sr_store r) (sr_id r) = Some sub" and ok: "tail_ok r n sub"
    and log: "log_inv (sr_store r)" and yok: "yielded_ok r"
    and seqs: "sr_read_seq r \<le> sr_reg_seq r" "sr_reg_seq r \<le> es_seq (sr_store r)"
    using assms by (auto simp: stream_inv_def split: option.splits)
  obtain e q where q: "ss_queue sub = e # q"
    using assms sub by (auto simp: stream_resume_def split: list.splits)
  have inc: "ids_increasing (e # q @ ss_calls sub)"
    and e_log: "e \<in> set (es_events (sr_store r))"
    using ok by (simp_all add: tail_ok_def sub_pending_def q)
  have e_seq: "ev_id e \<le> es_seq (sr_store r)"
    using log e_log by (simp add: log_inv_def)
  define sub1 where "sub1 = sub\<lparr>ss_queue := q\<rparr>"
  define r1 where "r1 = r\<lparr>sr_store := (sr_store r)\<lparr>es_streams :=
      (es_streams (sr_store r))(sr_id r \<mapsto> sub1)\<rparr>\<rparr>"
  define m where "m = (if ev_id e \<le> n then n else ev_id e)"
  define y where "y = (if ev_id e \<le> n then [] else [e])"
  have "r' = r1\<lparr>sr_phase := Tailing m, sr_yielded := sr_yielded r @ y\<rparr>"
    using assms(2,3) sub q
    by (cases r) (auto simp: stream_resume_def Let_def r1_def sub1_def m_def y_def split: if_splits)
  then have r': "r' = r\<lparr>sr_store := sr_store r1, sr_phase := Tailing m,
      sr_yielded := sr_yielded r @ y\<rparr>"
    by (simp add: r1_def)
  have same: "es_events (sr_store r1) = es_events (sr_store r)" "es_seq (sr_store r1) = es_seq (sr_store r)"
    by (simp_all add: r1_def)
  have parts: "backlog_part r' = backlog_part r" "tail_part r' = tail_part r"
    by (simp_all add: r' backlog_part_def tail_part_def same)
  have "filter (\<lambda>x. m < ev_id x) (q @ ss_calls sub) = filter (\<lambda>x. n < ev_id x) (q @ ss_calls sub)"
    using inc by (intro filter_cong) (auto simp: m_def)
  then have split: "y @ filter (\<lambda>x. m < ev_id x) (sub_pending sub1)
      = filter (\<lambda>x. n < ev_id x) (sub_pending sub)"
    by (simp add: sub_pending_def sub1_def q y_def)
  have bounds: "sr_since r \<le> m" "m = sr_since r \<or> m \<le> es_seq (sr_store r)" "n \<le> m"
    "\<forall>x\<in>set y. x = e \<and> n < ev_id x \<and> ev_id x \<le> m"
    using ok e_seq by (auto simp: tail_ok_def m_def y_def)
  have pend: "sub_pending sub = e # sub_pending sub1"
    by (simp add: sub_pending_def sub1_def q)
  have below: "\<forall>x\<in>set (sr_yielded r @ y). ev_id x \<le> m"
    using ok bounds by (auto simp: tail_ok_def)
  have complete: "ss_drops sub1 = 0 \<longrightarrow>
      (sr_yielded r @ y) @ filter (\<lambda>x. m < ev_id x) (sub_pending sub1) = backlog_part r @ tail_part r"
    using ok unfolding append_assoc split by (simp add: tail_ok_def sub1_def)
  have room: "0 < ss_maxsize sub1 \<longrightarrow> int (length (ss_queue sub1)) \<le> ss_maxsize sub1"
    using ok by (auto simp: tail_ok_def sub1_def q)
  have rest: "ids_increasing (sub_pending sub1)"
    "set (sub_pending sub1) \<subseteq> set (es_events (sr_store r))"
    using ok by (simp_all add: tail_ok_def pend)
  have fields: "sr_since r' = sr_since r" "sr_yielded r' = sr_yielded r @ y"
    "es_events (sr_store r') = es_events (sr_store r)" "es_seq (sr_store r') = es_seq (sr_store r)"
    by (simp_all add: r' same)
  have "tail_ok r' m sub1"
    unfolding tail_ok_def parts fields
    by (intro conjI bounds(1,2) below complete room rest)
  moreover have "yielded_ok r'"
  proof -
    have old: "\<forall>x\<in>set (sr_yielded r). ev_id x \<le> n" and "sr_since r \<le> n"
      using ok by (simp_all add: tail_ok_def)
    have "ids_increasing (sr_yielded r @ y)"
      using yok old by (cases "ev_id e \<le> n") (force simp: yielded_ok_def sorted_wrt_append y_def)+
    moreover have "set y \<subseteq> {x \<in> set (es_events (sr_store r)). sr_since r < ev_id x}"
      using e_log \<open>sr_since r \<le> n\<close> by (simp add: y_def)
    ultimately show ?thesis
      using yok by (auto simp: yielded_ok_def fields)
  qed
  ultimately show ?thesis
    using log seqs by (simp add: stream_inv_def r' same r1_def)
qed

lemma resume_inv:
  assumes "stream_inv r" and "stream_resume r = Some r'"
  shows "stream_inv r'"
proof (cases "sr_phase r")
  case (Replaying b rest)
  then show ?thesis
    using assms by (cases rest) (auto intro: resume_replay_inv resume_register_inv)
qed (use assms in \<open>auto intro: resume_start_inv resume_get_inv simp: stream_resume_def\<close>)

lemma stream_append_inv:
  assumes inv: "stream_inv r"
  shows "stream_inv (r\<lparr>sr_store := snd (es_append kind p a c (sr_store r))\<rparr>)"
proof (rule es_append_cases[of kind p a c "sr_store r"])
  fix e
  assume "es_append kind p a c (sr_store r) = (Inl e, sr_store r)"
  with inv show ?thesis by (cases r) simp
next
  let ?s = "sr_store r"
  fix k v ev
  assume "ev = \<lparr>ev_id = es_seq ?s + 1, ev_company_id = es_company_id ?s, ev_kind = k, ev_payload = v,
             ev_actor_agent_id = a, ev_correlation_id = c,
             ev_ts_company = es_clock_company ?s (es_seq ?s + 1),
             ev_ts_real = es_clock_real ?s (es_seq ?s + 1)\<rparr>"
    and app: "es_append kind p a c ?s =
         (Inr ev, es_broadcast ev (?s\<lparr>es_events := es_events ?s @ [ev], es_seq := es_seq ?s + 1\<rparr>))"
  then have evid: "ev_id ev = es_seq ?s + 1" by simp
  define r' where "r' = r\<lparr>sr_store := snd (es_append kind p a c ?s)\<rparr>"
  have log: "log_inv ?s" and yok: "yielded_ok r"
    using inv by (auto simp: stream_inv_def)
  have log': "log_inv (sr_store r')"
    using es_append_log_inv[OF log] by (simp add: r'_def)
  have same: "sr_phase r' = sr_phase r" "sr_yielded r' = sr_yielded r" "sr_since r' = sr_since r"
    "sr_read_seq r' = sr_read_seq r" "sr_reg_seq r' = sr_reg_seq r" "sr_id r' = sr_id r"
    by (simp_all add: r'_def)
  have st: "es_events (sr_store r') = es_events ?s @ [ev]" "es_seq (sr_store r') = es_seq ?s + 1"
    "es_streams (sr_store r') (sr_id r) = map_option (ss_deliver ev) (es_streams ?s (sr_id r))"
    by (simp_all add: r'_def app)
  have yok': "yielded_ok r'"
    using yok by (auto simp: yielded_ok_def same st)
  have bp: "backlog_part r' = backlog_part r" if "sr_read_seq r \<le> es_seq ?s"
    using that by (simp add: backlog_part_def same st evid)
  have tp: "tail_part r' = tail_part r @ (if sr_since r < ev_id ev then [ev] else [])"
    if "sr_reg_seq r \<le> es_seq ?s"
    using that by (simp add: tail_part_def same st evid)
  show ?thesis
  proof (cases "sr_phase r")
    case (Tailing n)
    then obtain sub where sub: "es_streams ?s (sr_id r) = Some sub" and ok: "tail_ok r n sub"
      and seqs: "sr_read_seq r \<le> sr_reg_seq r" "sr_reg_seq r \<le> es_seq ?s"
      using inv by (auto simp: stream_inv_def split: option.splits)
    have pend: "sub_pending (ss_deliver ev sub) = sub_pending sub @ [ev]"
      by (simp add: sub_pending_def ss_deliver_def)
    have n: "n < ev_id ev \<longleftrightarrow> sr_since r < ev_id ev"
      using ok by (auto simp: tail_ok_def evid)
    have old: "\<forall>x\<in>set (sub_pending sub). ev_id x \<le> es_seq ?s"
      using ok log by (auto simp: tail_ok_def log_inv_def)
    have inc: "ids_increasing (sub_pending sub @ [ev])"
      using ok old by (auto simp: tail_ok_def sorted_wrt_append evid)
    have complete: "ss_drops sub = 0 \<longrightarrow>
        sr_yielded r' @ filter (\<lambda>x. n < ev_id x) (sub_pending sub @ [ev])
        = backlog_part r' @ tail_part r'"
      using ok tp bp seqs n by (auto simp: tail_ok_def same)
    have "tail_ok r' n (ss_deliver ev sub)"
      unfolding tail_ok_def pend using ok inc complete
      by (auto simp: tail_ok_def same st ss_deliver_def)
    then show ?thesis
      using log' yok' seqs sub Tailing
      unfolding r'_def[symmetric] by (simp add: stream_inv_def same st)
  qed (use inv log' yok' bp in \<open>auto simp: stream_inv_def same st r'_def[symmetric]\<close>)
qed

lemma enqueue_room:
  "\<not> queue_full sub \<Longrightarrow> ss_enqueue e sub = sub\<lparr>ss_queue := ss_queue sub @ [e]\<rparr>"
  by (simp add: ss_enqueue_def)

lemma enqueue_full:
  assumes "queue_full sub" and "int (length (ss_queue sub)) \<le> ss_maxsize sub"
  shows "ss_enqueue e sub =
           sub\<lparr>ss_queue := tl (ss_queue sub) @ [e], ss_drops := Suc (ss_drops sub)\<rparr>"
  using assms by (cases "ss_queue sub") (auto simp: ss_enqueue_def queue_full_def Let_def)

lemma enqueue_tail_ok:
  assumes ok: "tail_ok r n sub" and calls: "ss_calls sub = e # cs"
  shows "tail_ok r n (ss_enqueue e (sub\<lparr>ss_calls := cs\<rparr>))"
proof (cases "queue_full sub")
  case False
  then have enq: "ss_enqueue e (sub\<lparr>ss_calls := cs\<rparr>)
      = sub\<lparr>ss_calls := cs, ss_queue := ss_queue sub @ [e]\<rparr>"
    by (subst enqueue_room) (auto simp: queue_full_def)
  have "sub_pending (sub\<lparr>ss_calls := cs, ss_queue := ss_queue sub @ [e]\<rparr>) = sub_pending sub"
    by (simp add: sub_pending_def calls)
  then show ?thesis
    using ok False by (auto simp: enq tail_ok_def queue_full_def)
next
  case True
  have len: "int (length (ss_queue sub)) \<le> ss_maxsize sub" and "ss_queue sub \<noteq> []"
    using ok True by (auto simp: tail_ok_def queue_full_def)
  then obtain d q where q: "ss_queue sub = d # q"
    by (cases "ss_queue sub") auto
  define sub' where "sub' = sub\<lparr>ss_calls := cs, ss_queue := q @ [e], ss_drops := Suc (ss_drops sub)\<rparr>"
  have enq: "ss_enqueue e (sub\<lparr>ss_calls := cs\<rparr>) = sub'"
    using True len q by (subst enqueue_full) (auto simp: queue_full_def sub'_def)
  have "sub_pending sub = d # sub_pending sub'"
    by (simp add: sub_pending_def calls q sub'_def)
  then show ?thesis
    using ok len by (simp add: enq tail_ok_def) (simp add: sub'_def q)
qed

lemma loop_run_inv:
  assumes inv: "stream_inv r" and run: "loop_run_call r = Some r'"
  shows "stream_inv r'"
proof -
  obtain sub e cs where sub: "es_streams (sr_store r) (sr_id r) = Some sub"
    and calls: "ss_calls sub = e # cs"
    and r': "r' = r\<lparr>sr_store := (sr_store r)\<lparr>es_streams := (es_streams (sr_store r))
                         (sr_id r \<mapsto> ss_enqueue e (sub\<lparr>ss_calls := cs\<rparr>))\<rparr>\<rparr>"
    using run by (auto simp: loop_run_call_def split: option.splits list.splits)
  have parts: "backlog_part r' = backlog_part r" "tail_part r' = tail_part r"
    "yielded_ok r' = yielded_ok r"
    by (simp_all add: r' backlog_part_def tail_part_def yielded_ok_def)
  have "tail_ok r' n x = tail_ok r n x" for n x
    unfolding tail_ok_def parts by (simp add: r')
  then show ?thesis
    using inv sub enqueue_tail_ok[OF _ calls, of r] parts
    by (cases "sr_phase r") (simp_all add: stream_inv_def r')
qed

interpretation stream: invariant_system stream_init stream_step stream_inv
proof unfold_locales
  show "stream_inv r" if "stream_init r" for r
    using that by (simp add: stream_init_def stream_inv_def yielded_ok_def)
  show "stream_inv r'" if "stream_inv r" and "stream_step r r'" for r r'
    using that(2,1)
  proof cases
    case sst_close
    with that(1) show ?thesis
      by (simp add: stream_inv_def stream_close_def yielded_ok_def)
  qed (auto intro: stream_append_inv resume_inv loop_run_inv that(1))
qed

section \<open>The store as a system\<close>

definition es_init :: "event_store \<Rightarrow> bool" where
  "es_init s \<longleftrightarrow> es_events s = [] \<and> es_seq s = 0 \<and> es_streams s = (\<lambda>_. None)"

inductive es_step :: "event_store \<Rightarrow> event_store \<Rightarrow> bool" where
  "es_step s (snd (es_append k p a c s))"
| "es_step s (es_migrate s)"
| "es_step s (es_subscribe h s)"
| "es_step s (es_unsubscribe h s)"
| "es_step s (s\<lparr>es_streams := f\<rparr>)"

definition log_dense :: "event_store \<Rightarrow> bool" where
  "log_dense s \<longleftrightarrow> log_inv s \<and> map ev_id (es_events s) = [1..es_seq s]"

interpretation store: invariant_system es_init es_step log_dense
proof unfold_locales
  show "log_dense s" if "es_init s" for s
    using that by (simp add: es_init_def log_dense_def log_inv_def)
  show "log_dense t" if "log_dense s" and "es_step s t" for s t
    using that(2)
  proof cases
    case (1 k p a c)
    have "map ev_id (es_events (snd (es_append k p a c s))) = [1..es_seq (snd (es_append k p a c s))]"
      by (rule es_append_cases[of k p a c s])
         (use that(1) in \<open>auto simp: log_dense_def log_inv_def upto_rec2\<close>)
    with that(1) 1 es_append_log_inv[of s k p a c] show ?thesis
      by (simp add: log_dense_def)
  qed (use that(1) in \<open>simp_all add: log_dense_def log_inv_def es_migrate_def es_subscribe_def
         es_unsubscribe_def\<close>)
qed

section \<open>Example runs\<close>

text \<open>A migrated, empty store, and scripts of stream steps: what the examples evaluate.\<close>

definition demo_store :: event_store where
  "demo_store =
     \<lparr>es_company_id = ''acme'', es_migrated = True, es_events = [], es_seq = 0,
      es_max_payload_bytes = 262144, es_stream_buffer_size = 1000, es_validate = strict_validate,
      es_float_repr = (\<lambda>_. ''0.5''), es_clock_company = (\<lambda>n. n), es_clock_real = (\<lambda>n. n),
      es_subscribers = [], es_sub_log = [], es_streams = (\<lambda>_. None)\<rparr>"

datatype stream_act = ActAppend event_kind payload | ActResume | ActLoop

fun do_act :: "stream_act \<Rightarrow> stream_run \<Rightarrow> stream_run" where
  "do_act (ActAppend k p) r = r\<lparr>sr_store := snd (es_append (Inl k) p None None (sr_store r))\<rparr>"
| "do_act ActResume r = (case stream_resume r of None \<Rightarrow> r | Some r' \<Rightarrow> r')"
| "do_act ActLoop r = (case loop_run_call r of None \<Rightarrow> r | Some r' \<Rightarrow> r')"

definition do_acts :: "stream_act list \<Rightarrow> stream_run \<Rightarrow> stream_run" where
  "do_acts as r = fold do_act as r"

definition demo_run :: stream_run where
  "demo_run =
     \<lparr>sr_store = demo_store, sr_id = ''s1'', sr_since = 0, sr_buffer = 0, sr_phase = Starting,
      sr_yielded = [], sr_read_seq = 0, sr_reg_seq = 0\<rparr>"

definition demo_script :: "stream_act list" where
  "demo_script =
     [ActAppend DAY_TICK [(''day'', JInt 1)], ActResume, ActResume,
      ActAppend DAY_TICK [(''day'', JInt 2)], ActResume,
      ActAppend DAY_TICK [(''day'', JInt 3)], ActLoop, ActResume]"

lemma do_act_reach: "reach stream_init stream_step r \<Longrightarrow> reach stream_init stream_step (do_act a r)"
  by (cases a) (auto intro: reach_step stream_step.intros split: option.splits)

lemma do_acts_reach:
  "reach stream_init stream_step r \<Longrightarrow> reach stream_init stream_step (do_acts as r)"
  unfolding do_acts_def by (induction as arbitrary: r) (auto intro: do_act_reach)

lemma demo_reach: "reach stream_init stream_step (do_acts as demo_run)"
  by (rule do_acts_reach, rule reach_init)
     (simp add: stream_init_def log_inv_def demo_run_def demo_store_def)

lemma demo_store_reach: "reach es_init es_step demo_store"
  by (rule reach_init) (simp add: es_init_def demo_store_def)

definition run_summary :: "stream_run \<Rightarrow> stream_phase \<times> int list \<times> int list \<times> nat option" where
  "run_summary r =
     (sr_phase r, map ev_id (sr_yielded r), map ev_id (es_events (sr_store r)),
      map_option ss_drops (es_streams (sr_store r) (sr_id r)))"

lemma demo_script_summary:
  "run_summary (do_acts demo_script demo_run) = (Tailing 3, [1, 3], [1, 2, 3], Some 0)"
  by code_simp

lemma demo_script_result:
  "sr_phase (do_acts demo_script demo_run) = Tailing 3"
  "map ev_id (sr_yielded (do_acts demo_script demo_run)) = [1, 3]"
  "map ev_id (es_events (sr_store (do_acts demo_script demo_run))) = [1, 2, 3]"
  "map_option ss_drops (es_streams (sr_store (do_acts demo_script demo_run))
     (sr_id (do_acts demo_script demo_run))) = Some 0"
  using demo_script_summary by (simp_all add: run_summary_def)

section \<open>Properties\<close>

text \<open>
  C1. Every append either raises and leaves the whole store as it was, or adds exactly one row at
  the end of the log, with the next id, for a kind that has a schema, a payload the schema
  accepted and whose JSON fits the configured size, and hands it to every stream.
\<close>

theorem append_log:
  "case es_append kind p actor corr s of
     (Inl e, t) \<Rightarrow> t = s
   | (Inr ev, t) \<Rightarrow>
       es_events t = es_events s @ [ev] \<and> es_seq t = es_seq s + 1 \<and> ev_id ev = es_seq s + 1 \<and>
       coerce_kind kind = Inr (ev_kind ev) \<and>
       (\<exists>sch. model_for (ev_kind ev) = Some sch \<and> es_validate s sch p = Some (ev_payload ev)) \<and>
       int (utf8_len (json_dumps (es_float_repr s) (JObj (ev_payload ev)))) \<le> es_max_payload_bytes s \<and>
       ev_actor_agent_id ev = actor \<and> ev_correlation_id ev = corr \<and>
       es_streams t = (\<lambda>i. map_option (ss_deliver ev) (es_streams s i))"
proof (rule es_append_cases[of kind p actor corr s])
  fix k v ev
  assume "coerce_kind kind = Inr k" "es_validate_payload s k p = Inr v" "es_migrated s"
      "int (utf8_len (json_dumps (es_float_repr s) (JObj v))) \<le> es_max_payload_bytes s"
      "ev = \<lparr>ev_id = es_seq s + 1, ev_company_id = es_company_id s, ev_kind = k, ev_payload = v,
             ev_actor_agent_id = actor, ev_correlation_id = corr,
             ev_ts_company = es_clock_company s (es_seq s + 1),
             ev_ts_real = es_clock_real s (es_seq s + 1)\<rparr>"
      "es_append kind p actor corr s =
         (Inr ev, es_broadcast ev (s\<lparr>es_events := es_events s @ [ev], es_seq := es_seq s + 1\<rparr>))"
  then show ?thesis
    by (auto simp: es_validate_payload_def fun_eq_iff split: option.splits)
qed simp

text \<open>
  C2. In every reachable store the ids of the log are exactly 1, 2, ..., n in the order of the
  rows (no gap, no reuse, no reordering), n being the AUTOINCREMENT counter.
\<close>

theorem log_ids_dense: "reach es_init es_step s \<Longrightarrow> map ev_id (es_events s) = [1..es_seq s]"
  by (drule store.reach_inv) (simp add: log_dense_def)

lemma log_ids_dense_witness:
  "reach es_init es_step demo_store \<and> map ev_id (es_events demo_store) = [1..es_seq demo_store]"
  using log_ids_dense[OF demo_store_reach] demo_store_reach by simp

text \<open>
  On a reachable store a filtered read with a positive limit returns the first \<open>limit\<close> rows
  of the log that match all the filters, in the order they were appended.
\<close>

theorem read_first_matches:
  assumes "reach es_init es_step s" and "0 < limit"
  shows "es_read since until kinds actor corr limit s =
           Inr (take (nat limit) (filter (read_match since until kinds actor corr) (es_events s)))"
  using store.reach_inv[OF assms(1)] assms(2) by (simp add: log_dense_def log_inv_read)

lemma read_first_matches_witness:
  "es_read (Some 0) None [DAY_TICK] None None 5 demo_store = Inr []"
  using read_first_matches[OF demo_store_reach, of 5 "Some 0" None "[DAY_TICK]" None None]
  by (simp add: demo_store_def)

text \<open>
  C4. A stream never yields an event twice or out of order, yields only events of the log with an
  id above \<open>since\<close>, and a bounded queue never holds more than its maximum, whatever appends and
  event-loop steps are interleaved with it.
\<close>

theorem stream_ordered_bounded:
  assumes "reach stream_init stream_step r"
  shows "ids_increasing (sr_yielded r) \<and> set (sr_yielded r) \<subseteq> set (es_events (sr_store r)) \<and>
         (\<forall>e\<in>set (sr_yielded r). sr_since r < ev_id e) \<and>
         (case (sr_phase r, es_streams (sr_store r) (sr_id r)) of
            (Tailing n, Some sub) \<Rightarrow>
              ss_maxsize sub \<le> 0 \<or> int (length (ss_queue sub)) \<le> ss_maxsize sub
          | _ \<Rightarrow> True)"
  using stream.reach_inv[OF assms]
  by (auto simp: stream_inv_def yielded_ok_def tail_ok_def split: stream_phase.splits option.splits)

lemma stream_ordered_bounded_witness:
  "ids_increasing (sr_yielded (do_acts demo_script demo_run)) \<and>
   map ev_id (sr_yielded (do_acts demo_script demo_run)) = [1, 3]"
  using stream_ordered_bounded[OF demo_reach[of demo_script]] demo_script_result by simp

text \<open>
  C5. As long as its queue has dropped nothing, a stream that is tailing the log delivers
  (yielded already, or still queued) exactly: the first 10,000 events above \<open>since\<close> present when
  the backlog was read, then every event appended after the queue was registered. What is
  appended between the two moments, and a backlog beyond 10,000, is not part of it.
\<close>

theorem stream_complete_but_gap:
  assumes "reach stream_init stream_step r" and "sr_phase r = Tailing n"
    and "es_streams (sr_store r) (sr_id r) = Some sub" and "ss_drops sub = 0"
  shows "sr_yielded r @ filter (\<lambda>e. n < ev_id e) (sub_pending sub) =
           take 10000 (filter (\<lambda>e. sr_since r < ev_id e \<and> ev_id e \<le> sr_read_seq r)
                         (es_events (sr_store r))) @
           filter (\<lambda>e. sr_since r < ev_id e \<and> sr_reg_seq r < ev_id e) (es_events (sr_store r))"
  using stream.reach_inv[OF assms(1)] assms(2-4)
  by (simp add: stream_inv_def tail_ok_def backlog_part_def tail_part_def)

lemma stream_complete_but_gap_witness:
  "\<exists>n sub. sr_phase (do_acts demo_script demo_run) = Tailing n \<and>
     sr_yielded (do_acts demo_script demo_run) @ filter (\<lambda>e. n < ev_id e) (sub_pending sub) =
     backlog_part (do_acts demo_script demo_run) @ tail_part (do_acts demo_script demo_run)"
proof -
  let ?r = "do_acts demo_script demo_run"
  obtain sub where sub: "es_streams (sr_store ?r) (sr_id ?r) = Some sub" "ss_drops sub = 0"
    using demo_script_result(4) by (cases "es_streams (sr_store ?r) (sr_id ?r)") auto
  show ?thesis
    using stream_complete_but_gap[OF demo_reach demo_script_result(1) sub] demo_script_result(1)
    unfolding backlog_part_def tail_part_def by blast
qed

text \<open>
  The registration gap is real: a run exists in which an event that is in the log and above
  \<open>since\<close> is passed over for good (a later one has been yielded) although the queue never
  overflowed.
\<close>

theorem stream_loses_event:
  "\<exists>r e. reach stream_init stream_step r \<and> e \<in> set (es_events (sr_store r)) \<and>
         sr_since r < ev_id e \<and> e \<notin> set (sr_yielded r) \<and>
         (\<exists>l\<in>set (sr_yielded r). ev_id e < ev_id l) \<and>
         map_option ss_drops (es_streams (sr_store r) (sr_id r)) = Some 0"
proof -
  define r where "r = do_acts demo_script demo_run"
  have r: "reach stream_init stream_step r" "map ev_id (sr_yielded r) = [1, 3]"
    "map ev_id (es_events (sr_store r)) = [1, 2, 3]"
    "map_option ss_drops (es_streams (sr_store r) (sr_id r)) = Some 0"
    by (simp_all only: r_def demo_reach demo_script_result)
  have since: "sr_since r = 0" unfolding r_def by code_simp
  have "3 \<in> set (map ev_id (sr_yielded r))" and "2 \<in> set (map ev_id (es_events (sr_store r)))"
    unfolding r by simp_all
  then obtain l e where l: "l \<in> set (sr_yielded r)" "ev_id l = 3"
    and e: "e \<in> set (es_events (sr_store r))" "ev_id e = 2"
    by auto
  have "ev_id e \<notin> set (map ev_id (sr_yielded r))"
    unfolding r(2) e(2) by simp
  then have "e \<notin> set (sr_yielded r)" by auto
  with r l e since show ?thesis
    by (intro exI[of _ r] exI[of _ e] conjI bexI[of _ l]) simp_all
qed

text \<open>
  Each kind is found again from its text, the only kind without a payload schema is
  \<^verbatim>\<open>agent.reassigned\<close>, and so appending that kind raises on every store and payload.
\<close>

theorem kinds_and_schemas:
  "kind_of_value (kind_value k) = Some k \<and> (model_for k = None \<longleftrightarrow> k = AGENT_REASSIGNED) \<and>
   es_append (Inl AGENT_REASSIGNED) p a c s = (Inl (UnknownEventKind ''agent.reassigned''), s)"
proof (intro conjI)
  show "model_for k = None \<longleftrightarrow> k = AGENT_REASSIGNED" by (cases k) simp_all
  show "es_append (Inl AGENT_REASSIGNED) p a c s = (Inl (UnknownEventKind ''agent.reassigned''), s)"
    by (simp add: es_append_def es_validate_payload_def)
qed (rule kind_of_kind_value)

end
