(* ===== verification/Identity_Org.thy ===== *)
theory Identity_Org
  imports Event_Store
begin

text \<open>
  \<^verbatim>\<open>modules/identity/org.py\<close>, \<^verbatim>\<open>models.py\<close>: the org chart of one company. The state is the pair
  of the two tables (\<open>org\<close>) and the event store; a method takes the fresh id and the clock
  reading it makes as arguments. A transaction that raises leaves the tables alone; an event
  append that raises after the commit leaves the committed change.
\<close>

section \<open>Data\<close>

datatype role = CEO | HR | SECURITY | MEMBER

fun role_value :: "role \<Rightarrow> string" where
  "role_value CEO = ''ceo''"
| "role_value HR = ''hr''"
| "role_value SECURITY = ''security''"
| "role_value MEMBER = ''member''"

definition special_roles :: "role list" where
  "special_roles = [CEO, HR, SECURITY]"

datatype agent_status = ACTIVE | FIRED

datatype fire_result = DIRECT_FIRED | PENDING_APPROVAL | FIRE_DENIED

datatype fire_decision = FIRE_APPROVED | FIRE_REJECTED

record agent =
  ag_id :: string
  ag_role :: role
  ag_persona_ref :: string
  ag_reports_to :: "string option"
  ag_status :: agent_status
  ag_hired_at :: int
  ag_first_name :: string
  ag_last_name :: string
  ag_role_title :: "string option"
  ag_role_description :: "string option"
  ag_fired_at :: "int option"
  ag_fired_by :: "string option"
  ag_fire_reason :: "string option"

record fire_outcome =
  fo_result :: fire_result
  fo_reason :: "string option"
  fo_request_id :: "string option"

record fire_pending =
  fp_request_id :: string
  fp_actor_id :: string
  fp_target_id :: string
  fp_reason :: string
  fp_decider_id :: string
  fp_created_at :: int

text \<open>The tables \<^verbatim>\<open>agents\<close> and \<^verbatim>\<open>fire_pending\<close>; \<open>og_fire_requests\<close> records the calls to the
  injected ApprovalRequester (request, actor, target, decider, reason).\<close>

record org =
  og_agents :: "agent list"
  og_fire_pending :: "fire_pending list"
  og_fire_requests :: "(string \<times> string \<times> string \<times> string \<times> string) list"

type_synonym 'a org_out = "('a, org \<times> event_store) outcome"

definition MAX_ACTIVE_AGENTS :: nat where "MAX_ACTIVE_AGENTS = 100"

definition direct_report_limit :: "role \<Rightarrow> nat" where
  "direct_report_limit r = (if r = CEO then 5 else 4)"

definition MIN_FIRE_REASON_CHARS :: nat where "MIN_FIRE_REASON_CHARS = 8"

definition invalid_fire_phrases :: "string list" where
  "invalid_fire_phrases =
     [''this is a test'', ''test to check'', ''system functionality'', ''no reason'']"

definition clean_reason :: "string \<Rightarrow> string" where
  "clean_reason s = py_join '' '' (py_split s)"

definition validate_fire_reason :: "string \<Rightarrow> string option" where
  "validate_fire_reason reason =
     (let cleaned = clean_reason reason in
      if length cleaned < MIN_FIRE_REASON_CHARS then Some ''fire_reason_too_short:8''
      else let lowered = py_lower cleaned in
        if lowered \<in> {''n/a'', ''na'', ''none'', ''test''} then Some ''fire_reason_invalid''
        else if list_ex (\<lambda>p. py_in p lowered) invalid_fire_phrases
        then Some ''fire_reason_invalid''
        else None)"

section \<open>Queries\<close>

definition is_active :: "agent \<Rightarrow> bool" where
  "is_active a \<longleftrightarrow> ag_status a = ACTIVE"

definition reports_under :: "string \<Rightarrow> agent \<Rightarrow> bool" where
  "reports_under m a \<longleftrightarrow> ag_reports_to a = Some m \<and> is_active a"

definition org_get :: "org \<Rightarrow> string \<Rightarrow> exn + agent" where
  "org_get g a = (case tbl_find ag_id a (og_agents g) of None \<Rightarrow> Inl (KeyError a) | Some r \<Rightarrow> Inr r)"

definition org_all :: "org \<Rightarrow> agent_status option \<Rightarrow> agent list" where
  "org_all g st =
     sort_key ag_hired_at
       (case st of None \<Rightarrow> og_agents g | Some x \<Rightarrow> filter (\<lambda>a. ag_status a = x) (og_agents g))"

definition org_active_count :: "org \<Rightarrow> nat" where
  "org_active_count g = length (filter is_active (og_agents g))"

definition org_has_role :: "org \<Rightarrow> role \<Rightarrow> agent_status \<Rightarrow> bool" where
  "org_has_role g r st = list_ex (\<lambda>a. ag_role a = r \<and> ag_status a = st) (og_agents g)"

definition org_is_special :: "org \<Rightarrow> string \<Rightarrow> exn + bool" where
  "org_is_special g a =
     (case org_get g a of Inl e \<Rightarrow> Inl e | Inr r \<Rightarrow> Inr (ag_role r \<in> set special_roles))"

definition org_manager_of :: "org \<Rightarrow> string \<Rightarrow> exn + string option" where
  "org_manager_of g a =
     (case tbl_find ag_id a (og_agents g) of
        None \<Rightarrow> Inl (KeyError a) | Some r \<Rightarrow> Inr (ag_reports_to r))"

definition org_direct_report_count :: "org \<Rightarrow> string \<Rightarrow> nat" where
  "org_direct_report_count g m = length (filter (reports_under m) (og_agents g))"

definition org_direct_reports :: "org \<Rightarrow> string \<Rightarrow> string list" where
  "org_direct_reports g m =
     map ag_id (sort_key ag_hired_at (filter (reports_under m) (og_agents g)))"

definition org_get_active :: "org \<Rightarrow> string \<Rightarrow> agent option" where
  "org_get_active g a = find (\<lambda>r. ag_id r = a \<and> is_active r) (og_agents g)"

definition org_has_other_active_hr :: "org \<Rightarrow> string \<Rightarrow> bool" where
  "org_has_other_active_hr g x =
     list_ex (\<lambda>a. ag_role a = HR \<and> is_active a \<and> ag_id a \<noteq> x) (og_agents g)"

definition org_can_read_workspace :: "org \<Rightarrow> string \<Rightarrow> string \<Rightarrow> bool" where
  "org_can_read_workspace g reader owner =
     (if reader = owner then True
      else case org_manager_of g owner of Inl _ \<Rightarrow> False | Inr m \<Rightarrow> m = Some reader)"

section \<open>Walks up and down the chart\<close>

text \<open>The three loops over \<^verbatim>\<open>reports_to\<close>. \<^verbatim>\<open>depth\<close> and the cycle check of \<^verbatim>\<open>reassign\<close> have no guard
  of their own, so not returning is the value \<open>None\<close>; \<^verbatim>\<open>chain_up\<close> keeps a \<^verbatim>\<open>seen\<close> set.\<close>

partial_function (option) depth_walk ::
  "org \<Rightarrow> string \<Rightarrow> int \<times> string option \<Rightarrow> (exn + int option) option" where
  "depth_walk g anc st =
     (case st of (d, cur) \<Rightarrow>
       (case cur of
          None \<Rightarrow> Some (Inr None)
        | Some c \<Rightarrow>
            if c = anc then Some (Inr (Some (d + 1)))
            else (case tbl_find ag_id c (og_agents g) of
                    None \<Rightarrow> Some (Inl (KeyError c))
                  | Some r \<Rightarrow> depth_walk g anc (d + 1, ag_reports_to r))))"

definition org_depth :: "org \<Rightarrow> string \<Rightarrow> string \<Rightarrow> (exn + int option) option" where
  "org_depth g anc desc =
     (if anc = desc then Some (Inr (Some 0))
      else case org_manager_of g desc of
             Inl e \<Rightarrow> Some (Inl e)
           | Inr m \<Rightarrow> depth_walk g anc (0, m))"

partial_function (option) reassign_walk :: "org \<Rightarrow> string \<Rightarrow> string option \<Rightarrow> bool option" where
  "reassign_walk g target cur =
     (case cur of
        None \<Rightarrow> Some False
      | Some c \<Rightarrow>
          if c = target then Some True
          else (case tbl_find ag_id c (og_agents g) of
                  None \<Rightarrow> Some False
                | Some r \<Rightarrow> reassign_walk g target (ag_reports_to r)))"

function chain_walk :: "org \<Rightarrow> string list \<Rightarrow> string option \<Rightarrow> exn + string list" where
  "chain_walk g seen None = Inr []"
| "chain_walk g seen (Some c) =
     (if c \<in> set seen then Inl (CycleDetected (''cycle_at:'' @ c))
      else case org_manager_of g c of
             Inl e \<Rightarrow> Inl e
           | Inr m \<Rightarrow> map_sum id (\<lambda>cs. c # cs) (chain_walk g (c # seen) m))"
  by pat_completeness auto
termination
proof (relation "measure (\<lambda>(g, seen, _). card (ag_id ` set (og_agents g) - set seen))")
  fix g seen c and m :: "string option"
  assume new: "c \<notin> set seen" and m: "org_manager_of g c = Inr m"
  then have "c \<in> ag_id ` set (og_agents g)"
    by (auto simp: org_manager_of_def split: option.splits dest!: tbl_find_Some_in)
  with new have "ag_id ` set (og_agents g) - set (c # seen) \<subset> ag_id ` set (og_agents g) - set seen"
    by auto
  then show "((g, c # seen, m), g, seen, Some c)
      \<in> measure (\<lambda>(g, seen, _). card (ag_id ` set (og_agents g) - set seen))"
    by (simp add: psubset_card_mono)
qed simp

definition org_chain_up :: "org \<Rightarrow> string \<Rightarrow> exn + string list" where
  "org_chain_up g a =
     (case org_manager_of g a of Inl e \<Rightarrow> Inl e | Inr m \<Rightarrow> chain_walk g [a] m)"

partial_function (option) descend :: "org \<Rightarrow> string list \<Rightarrow> string list \<Rightarrow> string list option" where
  "descend g out frontier =
     (if frontier = [] then Some out
      else descend g (out @ [last frontier])
             (butlast frontier @ org_direct_reports g (last frontier)))"

definition org_all_descendants :: "org \<Rightarrow> string \<Rightarrow> string list option" where
  "org_all_descendants g a = descend g [] (org_direct_reports g a)"

section \<open>Hiring, promotion, reassignment\<close>

text \<open>The checks of \<^verbatim>\<open>add_agent\<close> in its transaction, before the INSERT.\<close>

definition hire_check :: "org \<Rightarrow> string \<Rightarrow> role \<Rightarrow> string option \<Rightarrow> bool \<Rightarrow> exn option" where
  "hire_check g agent_id role reports_to bootstrap =
     (if org_active_count g \<ge> MAX_ACTIVE_AGENTS
      then Some (HireDenied ''company_headcount_limit_exceeded:100'')
      else
        (case reports_to of
           None \<Rightarrow> None
         | Some m \<Rightarrow>
             (case tbl_find ag_id m (og_agents g) of
                None \<Rightarrow> Some (HireDenied (''manager_not_found:'' @ m))
              | Some p \<Rightarrow>
                  if \<not> is_active p then Some (HireDenied (''manager_not_active:'' @ m))
                  else if ag_id p = agent_id then Some (CycleDetected ''self_report'')
                  else if \<not> bootstrap \<and> ag_role p = HR \<and> role \<noteq> HR
                  then Some (HireDenied (''hr_can_only_manage_hr:'' @ m))
                  else if org_direct_report_count g m \<ge> direct_report_limit (ag_role p)
                  then Some (HireDenied (''direct_report_limit_exceeded:'' @ m @ '':'' @
                               nat_str (direct_report_limit (ag_role p))))
                  else None)))"

definition org_add_agent ::
  "string \<Rightarrow> int \<Rightarrow> role \<Rightarrow> string \<Rightarrow> string option \<Rightarrow> string \<Rightarrow> bool \<Rightarrow> bool \<Rightarrow> string \<Rightarrow> string
   \<Rightarrow> string option \<Rightarrow> string option \<Rightarrow> org \<times> event_store \<Rightarrow> agent org_out" where
  "org_add_agent agent_id now role persona_ref reports_to requested_by via_hr bootstrap
     first_name last_name role_title role_description s =
     (let g = fst s in
      if \<not> bootstrap \<and> \<not> via_hr then (Inl (HireDenied ''must_route_via_hr''), s)
      else if \<not> bootstrap \<and> reports_to = None then (Inl (HireDenied ''manager_required''), s)
      else
        case hire_check g agent_id role reports_to bootstrap of
          Some e \<Rightarrow> (Inl e, s)
        | None \<Rightarrow>
            if tbl_find ag_id agent_id (og_agents g) \<noteq> None
            then (Inl (IntegrityError ''UNIQUE constraint failed: agents.id''), s)
            else
              let a = \<lparr>ag_id = agent_id, ag_role = role, ag_persona_ref = persona_ref,
                       ag_reports_to = reports_to, ag_status = ACTIVE, ag_hired_at = now,
                       ag_first_name = first_name, ag_last_name = last_name,
                       ag_role_title = role_title, ag_role_description = role_description,
                       ag_fired_at = None, ag_fired_by = None, ag_fire_reason = None\<rparr>;
                  payload = [(''agent_id'', JStr agent_id), (''role'', JStr (role_value role)),
                             (''manager_id'', opt_json reports_to),
                             (''first_name'', JStr first_name), (''last_name'', JStr last_name),
                             (''role_title'', opt_json role_title)] @
                            (if bootstrap then [] else [(''by_agent_id'', JStr requested_by)]);
                  (r, es) = es_append (Inl (if bootstrap then AGENT_CREATED else AGENT_HIRED))
                              payload (Some requested_by) None (snd s)
              in (map_sum id (\<lambda>_. a) r, g\<lparr>og_agents := og_agents g @ [a]\<rparr>, es))"

definition set_role_details :: "string \<Rightarrow> string \<Rightarrow> agent \<Rightarrow> agent" where
  "set_role_details t d a = a\<lparr>ag_role_title := Some t, ag_role_description := Some d\<rparr>"

definition org_update_role_details ::
  "string \<Rightarrow> string \<Rightarrow> string \<Rightarrow> org \<times> event_store \<Rightarrow> agent org_out" where
  "org_update_role_details target title description s =
     (let g = fst s in
      case org_get_active g target of
        None \<Rightarrow> (Inl (KeyError target), s)
      | Some a \<Rightarrow>
          (Inr (set_role_details title description a),
           g\<lparr>og_agents :=
               tbl_upd ag_id target (set_role_details title description) (og_agents g)\<rparr>, snd s))"

definition set_reports_to :: "string option \<Rightarrow> agent \<Rightarrow> agent" where
  "set_reports_to m a = a\<lparr>ag_reports_to := m\<rparr>"

text \<open>The checks of \<^verbatim>\<open>reassign\<close> inside the transaction, up to the cycle walk: an exception, the
  target row as a no-op, or the roles are fine (\<open>None\<close>).\<close>

definition reassign_check ::
  "org \<Rightarrow> string \<Rightarrow> string \<Rightarrow> string \<Rightarrow> (exn + agent) option" where
  "reassign_check g actor_id target_id new_mgr =
     (case tbl_find ag_id target_id (og_agents g) of
        None \<Rightarrow> Some (Inl (FireDenied (''target_not_found:'' @ target_id)))
      | Some t \<Rightarrow>
          if \<not> is_active t then Some (Inl (FireDenied (''target_not_active:'' @ target_id)))
          else if ag_role t \<in> set special_roles
          then Some (Inl (SpecialRoleProtected
                      (''cannot_reassign_special_role:'' @ role_value (ag_role t))))
          else
            (case tbl_find ag_id new_mgr (og_agents g) of
               None \<Rightarrow> Some (Inl (FireDenied (''manager_not_found:'' @ new_mgr)))
             | Some m \<Rightarrow>
                 if \<not> is_active m then Some (Inl (FireDenied (''manager_not_active:'' @ new_mgr)))
                 else if ag_reports_to t = Some new_mgr then Some (Inr t)
                 else
                   (case tbl_find ag_id actor_id (og_agents g) of
                      None \<Rightarrow> Some (Inl (FireDenied (''actor_not_active:'' @ actor_id)))
                    | Some ac \<Rightarrow>
                        if \<not> is_active ac
                        then Some (Inl (FireDenied (''actor_not_active:'' @ actor_id)))
                        else if ag_role ac \<noteq> CEO \<and> Some actor_id \<noteq> ag_reports_to t
                        then Some (Inl (FireDenied ''only_current_manager_or_ceo_may_reassign''))
                        else if ag_role m = HR \<and> ag_role t \<noteq> HR
                        then Some (Inl (HireDenied (''hr_can_only_manage_hr:'' @ new_mgr)))
                        else if org_direct_report_count g new_mgr \<ge> direct_report_limit (ag_role m)
                        then Some (Inl (HireDenied (''direct_report_limit_exceeded:'' @ new_mgr @
                               '':'' @ nat_str (direct_report_limit (ag_role m)))))
                        else None)))"

text \<open>\<^verbatim>\<open>reassign\<close>: \<open>None\<close> if the cycle walk does not return.\<close>

definition org_reassign ::
  "string \<Rightarrow> string \<Rightarrow> string \<Rightarrow> string \<Rightarrow> org \<times> event_store \<Rightarrow> agent org_out option" where
  "org_reassign actor_id target_id new_mgr reason s =
     (let g = fst s; cleaned = clean_reason reason in
      if length cleaned < MIN_FIRE_REASON_CHARS
      then Some (Inl (FireDenied ''reassign_reason_too_short:8''), s)
      else if target_id = new_mgr then Some (Inl (CycleDetected ''self_report''), s)
      else
        case reassign_check g actor_id target_id new_mgr of
          Some r \<Rightarrow> Some (r, s)
        | None \<Rightarrow>
           (case tbl_find ag_id new_mgr (og_agents g) of
              None \<Rightarrow> None
            | Some m \<Rightarrow>
               (case reassign_walk g target_id (ag_reports_to m) of
                  None \<Rightarrow> None
                | Some True \<Rightarrow>
                    Some (Inl (CycleDetected (''cycle:'' @ target_id @ ''->'' @ new_mgr)), s)
                | Some False \<Rightarrow>
                   (case tbl_find ag_id target_id (og_agents g) of
                      None \<Rightarrow> None
                    | Some t \<Rightarrow>
                       let g' = g\<lparr>og_agents := tbl_upd ag_id target_id
                                   (set_reports_to (Some new_mgr)) (og_agents g)\<rparr>;
                           (r, es) = es_append (Inl AGENT_REASSIGNED)
                             [(''agent_id'', JStr target_id),
                              (''from_manager_id'', opt_json (ag_reports_to t)),
                              (''to_manager_id'', JStr new_mgr), (''by_agent_id'', JStr actor_id),
                              (''reason'', JStr cleaned)] (Some actor_id) None (snd s)
                       in Some (map_sum id (\<lambda>_. set_reports_to (Some new_mgr) t) r, g', es)))))"

section \<open>Firing\<close>

definition mark_fired :: "int \<Rightarrow> string \<Rightarrow> string \<Rightarrow> agent \<Rightarrow> agent" where
  "mark_fired now actor reason a =
     a\<lparr>ag_status := FIRED, ag_fired_at := Some now, ag_fired_by := Some actor,
       ag_fire_reason := Some reason\<rparr>"

definition detach_reports :: "string \<Rightarrow> agent list \<Rightarrow> agent list" where
  "detach_reports m = map (\<lambda>a. if reports_under m a then set_reports_to None a else a)"

text \<open>The events of a fire, in order.\<close>

definition fire_events ::
  "string \<Rightarrow> string \<Rightarrow> string \<Rightarrow> bool \<Rightarrow> string option \<Rightarrow> string list \<Rightarrow> (event_kind \<times> payload) list" where
  "fire_events actor target reason notify former orphans =
     [(AGENT_FIRED, [(''agent_id'', JStr target), (''by_agent_id'', JStr actor),
                     (''reason'', JStr reason)])] @
     (case former of
        None \<Rightarrow> []
      | Some m \<Rightarrow>
          if notify \<and> m \<noteq> [] \<and> m \<noteq> actor
          then [(AGENT_FIRE_NOTIFY, [(''to_agent'', JStr m), (''fired_agent'', JStr target),
                                     (''actor'', JStr actor), (''reason'', JStr reason)])]
          else []) @
     map (\<lambda>x. (AGENT_ORPHANED, [(''agent_id'', JStr x), (''former_manager_id'', JStr target)]))
       orphans"

definition org_do_fire ::
  "int \<Rightarrow> string \<Rightarrow> string \<Rightarrow> string \<Rightarrow> bool \<Rightarrow> org \<times> event_store \<Rightarrow> unit org_out" where
  "org_do_fire now actor target reason notify s =
     (let g = fst s in
      case tbl_find ag_id target (og_agents g) of
        None \<Rightarrow> (Inl (KeyError target), s)
      | Some t \<Rightarrow>
          if ag_role t = HR \<and> \<not> org_has_other_active_hr g target
          then (Inl (SpecialRoleProtected ''no_hr_replacement''), s)
          else if tbl_find ag_id actor (og_agents g) = None
          then (Inl (IntegrityError ''FOREIGN KEY constraint failed''), s)
          else
            let orphans = org_direct_reports g target;
                g' = g\<lparr>og_agents := detach_reports target
                        (tbl_upd ag_id target (mark_fired now actor reason) (og_agents g))\<rparr>;
                (r, es) = append_all (fire_events actor target reason notify (ag_reports_to t) orphans)
                            (Some actor) (snd s)
            in (r, g', es))"

definition denied_fire :: "string \<Rightarrow> fire_outcome" where
  "denied_fire why = \<lparr>fo_result = FIRE_DENIED, fo_reason = Some why, fo_request_id = None\<rparr>"

definition org_fire ::
  "int \<Rightarrow> string \<Rightarrow> string \<Rightarrow> string \<Rightarrow> bool \<Rightarrow> org \<times> event_store \<Rightarrow> fire_outcome org_out option" where
  "org_fire now actor_id target_id reason via_hr s =
     (let g = fst s in
      if \<not> via_hr then Some (Inr (denied_fire ''must_route_via_hr''), s)
      else
       (case org_get_active g actor_id of
          None \<Rightarrow> Some (Inr (denied_fire ''actor_not_active''), s)
        | Some actor \<Rightarrow>
         (case org_get_active g target_id of
            None \<Rightarrow> Some (Inr (denied_fire ''target_not_active''), s)
          | Some target \<Rightarrow>
             if ag_id actor = ag_id target then Some (Inr (denied_fire ''self_fire''), s)
             else if ag_role target = CEO
             then Some (Inr (denied_fire ''ceo_cannot_be_fired_directly''), s)
             else if ag_role target = HR \<and> \<not> org_has_other_active_hr g (ag_id target)
             then Some (Inr (denied_fire ''no_hr_replacement''), s)
             else
              (case org_depth g (ag_id actor) (ag_id target) of
                 None \<Rightarrow> None
               | Some (Inl e) \<Rightarrow> Some (Inl e, s)
               | Some (Inr d) \<Rightarrow>
                  if (case d of None \<Rightarrow> True | Some n \<Rightarrow> n \<le> 0)
                  then Some (Inr (denied_fire ''not_subordinate''), s)
                  else
                   (case validate_fire_reason reason of
                      Some why \<Rightarrow> Some (Inr (denied_fire why), s)
                    | None \<Rightarrow>
                       Some (andthen (org_do_fire now (ag_id actor) (ag_id target) reason True s)
                         (\<lambda>_ s'. (Inr \<lparr>fo_result = DIRECT_FIRED, fo_reason = None,
                                        fo_request_id = None\<rparr>, s'))))))))"

definition org_complete_fire ::
  "int \<Rightarrow> string \<Rightarrow> fire_decision \<Rightarrow> org \<times> event_store \<Rightarrow> unit org_out" where
  "org_complete_fire now request_id decision s =
     (let g = fst s in
      case tbl_find fp_request_id request_id (og_fire_pending g) of
        None \<Rightarrow> (Inl (KeyError request_id), s)
      | Some row \<Rightarrow>
          let g' = g\<lparr>og_fire_pending := tbl_del fp_request_id request_id (og_fire_pending g)\<rparr>
          in case decision of
               FIRE_REJECTED \<Rightarrow> (Inr (), g', snd s)
             | FIRE_APPROVED \<Rightarrow>
                 org_do_fire now (fp_actor_id row) (fp_target_id row) (fp_reason row) True
                   (g', snd s))"

text \<open>\<^verbatim>\<open>_enqueue_pending_fire\<close> has no caller in the repository; it is modelled, not part of the steps.\<close>

definition org_enqueue_pending_fire ::
  "string \<Rightarrow> int \<Rightarrow> string \<Rightarrow> string \<Rightarrow> string \<Rightarrow> string \<Rightarrow> org \<times> event_store \<Rightarrow> fire_outcome org_out" where
  "org_enqueue_pending_fire request_id now actor target reason decider s =
     (let g = fst s;
          pending = (\<lambda>i. \<lparr>fo_result = PENDING_APPROVAL, fo_reason = None, fo_request_id = Some i\<rparr>) in
      case tbl_find fp_target_id target (og_fire_pending g) of
        Some row \<Rightarrow> (Inr (pending (fp_request_id row)), s)
      | None \<Rightarrow>
          if tbl_find fp_request_id request_id (og_fire_pending g) \<noteq> None
          then (Inl (IntegrityError ''UNIQUE constraint failed: fire_pending.request_id''), s)
          else
            (Inr (pending request_id),
             g\<lparr>og_fire_pending := og_fire_pending g @
                 [\<lparr>fp_request_id = request_id, fp_actor_id = actor, fp_target_id = target,
                   fp_reason = reason, fp_decider_id = decider, fp_created_at = now\<rparr>],
               og_fire_requests := og_fire_requests g @
                 [(request_id, actor, target, decider, reason)]\<rparr>, snd s))"

section \<open>The invariant of the chart\<close>

definition mgr_rel :: "org \<Rightarrow> (string \<times> string) set" where
  "mgr_rel g = {(ag_id a, m) | a m. a \<in> set (og_agents g) \<and> ag_reports_to a = Some m}"

definition org_ids :: "org \<Rightarrow> string set" where
  "org_ids g = ag_id ` set (og_agents g)"

definition chart_ok :: "org \<Rightarrow> bool" where
  "chart_ok g \<longleftrightarrow>
     tbl_pk ag_id (og_agents g) \<and> snd ` mgr_rel g \<subseteq> org_ids g \<and> acyclic (mgr_rel g)"

definition staff_ok :: "org \<Rightarrow> bool" where
  "staff_ok g \<longleftrightarrow>
     (\<forall>a\<in>set (og_agents g). \<forall>m. is_active a \<and> ag_reports_to a = Some m \<longrightarrow>
        (\<exists>b\<in>set (og_agents g). ag_id b = m \<and> is_active b)) \<and>
     (\<forall>b\<in>set (og_agents g). is_active b \<longrightarrow>
        org_direct_report_count g (ag_id b) \<le> direct_report_limit (ag_role b)) \<and>
     org_active_count g \<le> MAX_ACTIVE_AGENTS"

definition org_inv :: "org \<times> event_store \<Rightarrow> bool" where
  "org_inv s \<longleftrightarrow> chart_ok (fst s) \<and> staff_ok (fst s) \<and> og_fire_pending (fst s) = []"

interpretation role_details: pk_update ag_id "set_role_details t d"
  by unfold_locales (simp add: set_role_details_def)

interpretation reports_to: pk_update ag_id "set_reports_to m"
  by unfold_locales (simp add: set_reports_to_def)

interpretation fired: pk_update ag_id "mark_fired now actor reason"
  by unfold_locales (simp add: mark_fired_def)

subsection \<open>The manager relation\<close>

lemma finite_mgr_rel: "finite (mgr_rel g)"
proof (rule finite_subset)
  show "mgr_rel g \<subseteq> (\<lambda>a. (ag_id a, the (ag_reports_to a))) ` set (og_agents g)"
    by (force simp: mgr_rel_def)
qed simp

lemma chart_wf: "chart_ok g \<Longrightarrow> wf ((mgr_rel g)\<inverse>)"
  by (simp add: chart_ok_def finite_acyclic_wf_converse finite_mgr_rel)

lemma mgr_rel_find:
  assumes "chart_ok g"
  shows "(c, m) \<in> mgr_rel g \<longleftrightarrow>
           (\<exists>r. tbl_find ag_id c (og_agents g) = Some r \<and> ag_reports_to r = Some m)"
  using assms by (auto simp: mgr_rel_def chart_ok_def tbl_find_iff)

lemma org_ids_find: "c \<in> org_ids g \<longleftrightarrow> tbl_find ag_id c (og_agents g) \<noteq> None"
  by (simp add: org_ids_def tbl_find_None)

lemma mgr_in_ids: "chart_ok g \<Longrightarrow> (c, m) \<in> mgr_rel g \<Longrightarrow> c \<in> org_ids g \<and> m \<in> org_ids g"
  by (rule conjI, force simp: mgr_rel_def org_ids_def) (force simp: chart_ok_def)

lemma mgr_step:
  assumes "chart_ok g" and "tbl_find ag_id c (og_agents g) = Some r" and "c \<noteq> x"
  shows "(c, x) \<in> (mgr_rel g)\<^sup>* \<longleftrightarrow> (\<exists>m. ag_reports_to r = Some m \<and> (m, x) \<in> (mgr_rel g)\<^sup>*)"
proof
  assume "(c, x) \<in> (mgr_rel g)\<^sup>*"
  then obtain m where "(c, m) \<in> mgr_rel g" "(m, x) \<in> (mgr_rel g)\<^sup>*"
    using assms(3) by (auto elim: converse_rtranclE)
  with assms show "\<exists>m. ag_reports_to r = Some m \<and> (m, x) \<in> (mgr_rel g)\<^sup>*"
    by (auto simp: mgr_rel_find)
next
  assume "\<exists>m. ag_reports_to r = Some m \<and> (m, x) \<in> (mgr_rel g)\<^sup>*"
  with assms show "(c, x) \<in> (mgr_rel g)\<^sup>*"
    by (auto simp: mgr_rel_find intro: converse_rtrancl_into_rtrancl)
qed

lemma chart_induct [consumes 2, case_names step]:
  assumes "chart_ok g" and "c \<in> org_ids g"
    and "\<And>c r. tbl_find ag_id c (og_agents g) = Some r \<Longrightarrow>
           (\<And>m. ag_reports_to r = Some m \<Longrightarrow> m \<in> org_ids g \<and> P m) \<Longrightarrow> P c"
  shows "P c"
  using chart_wf[OF assms(1)] assms(2)
proof (induction c rule: wf_induct_rule)
  case (less c)
  then obtain r where r: "tbl_find ag_id c (og_agents g) = Some r"
    by (auto simp: org_ids_find)
  show ?case
  proof (rule assms(3)[OF r])
    fix m assume "ag_reports_to r = Some m"
    with r assms(1) have "(c, m) \<in> mgr_rel g" by (simp add: mgr_rel_find)
    with less.IH[of m] mgr_in_ids[OF assms(1), of c m]
    show "m \<in> org_ids g \<and> P m" by simp
  qed
qed

subsection \<open>The walks return\<close>

lemma reassign_walk_result:
  assumes "chart_ok g" and "c \<in> org_ids g"
  shows "reassign_walk g target (Some c) = Some ((c, target) \<in> (mgr_rel g)\<^sup>*)"
  using assms
proof (induction rule: chart_induct)
  case (step c r)
  show ?case
  proof (cases "c = target")
    case False
    with step.hyps mgr_step[OF assms(1) step.hyps(1) False] step.IH show ?thesis
      by (cases "ag_reports_to r") (simp_all add: reassign_walk.simps)
  qed (simp add: reassign_walk.simps)
qed

lemma depth_walk_result:
  assumes "chart_ok g" and "c \<in> org_ids g"
  shows "\<exists>res. depth_walk g anc (d, Some c) = Some (Inr res) \<and>
           (case res of None \<Rightarrow> (c, anc) \<notin> (mgr_rel g)\<^sup>*
                      | Some n \<Rightarrow> \<exists>k. n = d + 1 + int k \<and> (c, anc) \<in> mgr_rel g ^^ k)"
  using assms
proof (induction arbitrary: d rule: chart_induct)
  case (step c r)
  show ?case
  proof (cases "c = anc")
    case True
    then show ?thesis
      by (intro exI[of _ "Some (d + 1)"] conjI) (auto simp: depth_walk.simps intro: exI[of _ 0])
  next
    case False
    note up = mgr_step[OF assms(1) step.hyps(1) False]
    show ?thesis
    proof (cases "ag_reports_to r")
      case None
      with step.hyps False up show ?thesis
        by (intro exI[of _ None]) (simp add: depth_walk.simps)
    next
      case (Some m)
      have cm: "(c, m) \<in> mgr_rel g"
        using assms(1) step.hyps Some by (simp add: mgr_rel_find)
      obtain res where res: "depth_walk g anc (d + 1, Some m) = Some (Inr res)"
        "case res of None \<Rightarrow> (m, anc) \<notin> (mgr_rel g)\<^sup>*
           | Some n \<Rightarrow> \<exists>k. n = d + 1 + 1 + int k \<and> (m, anc) \<in> mgr_rel g ^^ k"
        using step.IH[OF Some, THEN conjunct2] by blast
      have "depth_walk g anc (d, Some c) = Some (Inr res)"
        using step.hyps False Some res(1) by (subst depth_walk.simps) simp
      moreover have "case res of None \<Rightarrow> (c, anc) \<notin> (mgr_rel g)\<^sup>*
           | Some n \<Rightarrow> \<exists>k. n = d + 1 + int k \<and> (c, anc) \<in> mgr_rel g ^^ k"
      proof (cases res)
        case None
        with res(2) up Some show ?thesis by simp
      next
        case (Some n)
        with res(2) obtain k where "n = d + 1 + int (Suc k)" and "(m, anc) \<in> mgr_rel g ^^ k"
          by auto
        with Some cm show ?thesis
          by (auto intro!: exI[of _ "Suc k"] relpow_Suc_I2)
      qed
      ultimately show ?thesis by blast
    qed
  qed
qed

subsection \<open>Every operation keeps the invariant\<close>

lemma staff_okD:
  assumes "staff_ok g" and "a \<in> set (og_agents g)" and "is_active a"
  shows "ag_reports_to a = Some m \<Longrightarrow> \<exists>b\<in>set (og_agents g). ag_id b = m \<and> is_active b"
    and "org_direct_report_count g (ag_id a) \<le> direct_report_limit (ag_role a)"
  using assms by (auto simp: staff_ok_def)

lemma insert_agent_inv:
  assumes chart: "chart_ok g" and staff: "staff_ok g"
    and fresh: "tbl_find ag_id (ag_id a) (og_agents g) = None" and act: "is_active a"
    and head: "org_active_count g < MAX_ACTIVE_AGENTS"
    and mgr: "\<And>m. ag_reports_to a = Some m \<Longrightarrow> \<exists>b. tbl_find ag_id m (og_agents g) = Some b \<and>
                is_active b \<and> org_direct_report_count g m < direct_report_limit (ag_role b)"
    and g': "og_agents g' = og_agents g @ [a]"
  shows "chart_ok g' \<and> staff_ok g'"
proof
  have new: "ag_id a \<notin> org_ids g"
    using fresh by (simp add: org_ids_find)
  have rel: "mgr_rel g' = mgr_rel g \<union> {(ag_id a, m) | m. ag_reports_to a = Some m}"
    by (auto simp: mgr_rel_def g')
  have ids: "org_ids g' = insert (ag_id a) (org_ids g)"
    by (simp add: org_ids_def g')
  have "acyclic (mgr_rel g')"
  proof (cases "ag_reports_to a")
    case None
    with chart show ?thesis by (simp add: rel chart_ok_def)
  next
    case (Some m)
    then have "m \<in> org_ids g" using mgr by (auto simp: org_ids_find)
    have "(m, ag_id a) \<notin> (mgr_rel g)\<^sup>*"
    proof
      assume "(m, ag_id a) \<in> (mgr_rel g)\<^sup>*"
      then show False
        using mgr_in_ids[OF chart] new \<open>m \<in> org_ids g\<close> by (cases rule: rtranclE) auto
    qed
    with Some chart show ?thesis by (simp add: rel chart_ok_def acyclic_insert)
  qed
  moreover have "tbl_pk ag_id (og_agents g')"
    using chart fresh by (simp add: g' chart_ok_def tbl_pk_insert)
  moreover have "snd ` mgr_rel g' \<subseteq> org_ids g'"
    using chart mgr by (fastforce simp: rel ids chart_ok_def org_ids_find)
  ultimately show "chart_ok g'" by (simp add: chart_ok_def)
next
  have cnt: "org_direct_report_count g' m =
      org_direct_report_count g m + (if ag_reports_to a = Some m then 1 else 0)" for m
    using act by (simp add: org_direct_report_count_def reports_under_def g')
  have none: "org_direct_report_count g' (ag_id a) = 0"
  proof -
    have "\<not> reports_under (ag_id a) x" if "x \<in> set (og_agents g')" for x
      using that fresh mgr mgr_in_ids[OF chart, of "ag_id x" "ag_id a"]
      by (auto simp: g' reports_under_def org_ids_find mgr_rel_def)
    then show ?thesis by (simp add: org_direct_report_count_def)
  qed
  have old: "org_direct_report_count g' (ag_id b) \<le> direct_report_limit (ag_role b)"
    if b: "b \<in> set (og_agents g)" "is_active b" for b
  proof (cases "ag_reports_to a = Some (ag_id b)")
    case True
    from mgr[OF this] chart b have "org_direct_report_count g (ag_id b) < direct_report_limit (ag_role b)"
      by (auto simp: chart_ok_def tbl_find_in)
    with True show ?thesis by (simp add: cnt)
  next
    case False
    with b staff show ?thesis by (simp add: cnt staff_ok_def)
  qed
  have "\<exists>b\<in>set (og_agents g'). ag_id b = m \<and> is_active b"
    if "x \<in> set (og_agents g')" "is_active x" "ag_reports_to x = Some m" for x m
    using that staff mgr by (force simp: g' staff_ok_def dest: tbl_find_Some_in)
  with old none head act show "staff_ok g'"
    by (auto simp: staff_ok_def g' org_active_count_def)
qed

lemma same_shape_inv:
  assumes "og_agents g' = map h (og_agents g)"
    and "\<And>a. ag_id (h a) = ag_id a" "\<And>a. ag_role (h a) = ag_role a"
      "\<And>a. ag_reports_to (h a) = ag_reports_to a" "\<And>a. ag_status (h a) = ag_status a"
  shows "chart_ok g' = chart_ok g \<and> staff_ok g' = staff_ok g"
proof -
  have rel: "mgr_rel f = {(c, m). \<exists>a\<in>set (og_agents f). ag_id a = c \<and> ag_reports_to a = Some m}" for f
    by (auto simp: mgr_rel_def)
  have "mgr_rel g' = mgr_rel g" "org_ids g' = org_ids g"
    using assms by (simp_all add: rel org_ids_def image_image)
  moreover have "tbl_pk ag_id (og_agents g') = tbl_pk ag_id (og_agents g)"
    using assms by (simp add: tbl_pk_def comp_def)
  moreover have "reports_under x \<circ> h = reports_under x" "is_active \<circ> h = is_active" for x
    using assms by (simp_all add: fun_eq_iff reports_under_def is_active_def)
  then have "org_direct_report_count g' x = org_direct_report_count g x"
    "org_active_count g' = org_active_count g" for x
    using assms(1) by (simp_all add: org_direct_report_count_def org_active_count_def filter_map)
  ultimately show ?thesis
    using assms by (simp add: chart_ok_def staff_ok_def is_active_def)
qed

lemma move_agent_inv:
  assumes chart: "chart_ok g" and staff: "staff_ok g"
    and t: "tbl_find ag_id t (og_agents g) = Some a" and act: "is_active a"
    and m: "tbl_find ag_id m (og_agents g) = Some b" "is_active b"
      "org_direct_report_count g m < direct_report_limit (ag_role b)"
    and nocycle: "(m, t) \<notin> (mgr_rel g)\<^sup>*"
    and g': "og_agents g' = tbl_upd ag_id t (set_reports_to (Some m)) (og_agents g)"
  shows "chart_ok g' \<and> staff_ok g'"
proof
  have pk: "tbl_pk ag_id (og_agents g)" using chart by (simp add: chart_ok_def)
  have rel: "mgr_rel g' \<subseteq> insert (t, m) (mgr_rel g)"
    by (auto simp: mgr_rel_def g' tbl_upd_def set_reports_to_def split: if_splits)
  have ids: "org_ids g' = org_ids g"
    using reports_to.keys_upd[of t "Some m" "og_agents g"]
    by (metis org_ids_def g' list.set_map)
  have "acyclic (insert (t, m) (mgr_rel g))"
    using chart nocycle by (simp add: chart_ok_def acyclic_insert)
  then have "acyclic (mgr_rel g')" using rel by (rule acyclic_subset)
  moreover have "m \<in> org_ids g" using m by (simp add: org_ids_find)
  with chart have "snd ` insert (t, m) (mgr_rel g) \<subseteq> org_ids g" by (simp add: chart_ok_def)
  with rel have "snd ` mgr_rel g' \<subseteq> org_ids g'" unfolding ids by blast
  ultimately show "chart_ok g'"
    using pk by (simp add: chart_ok_def g' reports_to.pk_upd)
next
  have pk: "tbl_pk ag_id (og_agents g)" using chart by (simp add: chart_ok_def)
  have cnt: "org_direct_report_count g' x \<le> org_direct_report_count g x + (if x = m then 1 else 0)" for x
    using length_filter_upd[OF pk t, of "reports_under x" "set_reports_to (Some m)"] act
    by (auto simp: org_direct_report_count_def g' reports_under_def set_reports_to_def
        split: if_splits)
  have act_cnt: "org_active_count g' = org_active_count g"
    using length_filter_upd[OF pk t, of is_active "set_reports_to (Some m)"] act
    by (simp add: org_active_count_def g' is_active_def set_reports_to_def)
  have shape: "x \<in> set (og_agents g') \<Longrightarrow> \<exists>y\<in>set (og_agents g). ag_id x = ag_id y \<and>
      is_active x = is_active y \<and> ag_role x = ag_role y \<and>
      (ag_reports_to x = Some m \<or> ag_reports_to x = ag_reports_to y)" for x
    by (auto simp: g' tbl_upd_def set_reports_to_def is_active_def)
  have keep: "y \<in> set (og_agents g) \<Longrightarrow>
      \<exists>x\<in>set (og_agents g'). ag_id x = ag_id y \<and> is_active x = is_active y" for y
    by (rule bexI[of _ "if ag_id y = t then set_reports_to (Some m) y else y"])
       (auto simp: g' tbl_upd_def set_reports_to_def is_active_def)
  have b: "b \<in> set (og_agents g)" "ag_id b = m"
    using m(1) by (auto dest: tbl_find_Some_in)
  have lim: "org_direct_report_count g' (ag_id x) \<le> direct_report_limit (ag_role x)"
    if x: "x \<in> set (og_agents g')" "is_active x" for x
  proof -
    obtain y where y: "y \<in> set (og_agents g)" "ag_id x = ag_id y" "is_active y" "ag_role x = ag_role y"
      using shape[OF x(1)] x(2) by auto
    show ?thesis
    proof (cases "ag_id x = m")
      case True
      then have "y = b" using pk m(1) y by (metis tbl_find_in option.inject)
      with True m(3) cnt[of m] y show ?thesis by simp
    next
      case False
      with cnt[of "ag_id x"] staff_okD(2)[OF staff y(1) y(3)] y show ?thesis by simp
    qed
  qed
  have "\<exists>z\<in>set (og_agents g'). ag_id z = n \<and> is_active z"
    if x: "x \<in> set (og_agents g')" "is_active x" "ag_reports_to x = Some n" for x n
  proof -
    have "\<exists>z\<in>set (og_agents g). ag_id z = n \<and> is_active z"
      using shape[OF x(1)] x(2,3) b m(2) staff_okD(1)[OF staff] by force
    then show ?thesis using keep by metis
  qed
  with lim act_cnt staff show "staff_ok g'" by (simp add: staff_ok_def)
qed

lemma fire_agent_inv:
  assumes chart: "chart_ok g" and staff: "staff_ok g"
    and g': "og_agents g' = detach_reports t (tbl_upd ag_id t (mark_fired now actor reason) (og_agents g))"
  shows "chart_ok g' \<and> staff_ok g'"
proof -
  define h where "h a = (let b = (if ag_id a = t then mark_fired now actor reason a else a) in
      if reports_under t b then set_reports_to None b else b)" for a
  have map: "og_agents g' = map h (og_agents g)"
    by (simp add: g' detach_reports_def tbl_upd_def h_def Let_def)
  have h: "ag_id (h a) = ag_id a" "ag_role (h a) = ag_role a"
    "ag_reports_to (h a) = Some m \<Longrightarrow> ag_reports_to a = Some m"
    "is_active (h a) \<Longrightarrow> is_active a" "is_active (h a) \<longleftrightarrow> is_active a \<and> ag_id a \<noteq> t"
    "is_active (h a) \<Longrightarrow> ag_reports_to (h a) \<noteq> Some t" for a m
    by (auto simp: h_def Let_def mark_fired_def set_reports_to_def reports_under_def is_active_def
        split: if_splits)
  have rel: "mgr_rel g' \<subseteq> mgr_rel g"
  proof clarify
    fix c m assume "(c, m) \<in> mgr_rel g'"
    then obtain a where "a \<in> set (og_agents g)" "c = ag_id a" "ag_reports_to (h a) = Some m"
      by (auto simp: mgr_rel_def map h(1))
    then show "(c, m) \<in> mgr_rel g"
      using h(3)[of a m] unfolding mgr_rel_def by blast
  qed
  have ids: "org_ids g' = org_ids g"
    by (simp add: org_ids_def map image_image h(1))
  have "chart_ok g'"
    using chart rel ids acyclic_subset[of "mgr_rel g" "mgr_rel g'"]
    by (auto simp: chart_ok_def tbl_pk_def map comp_def h(1))
  moreover have cnt: "org_direct_report_count g' m \<le> org_direct_report_count g m" for m
    unfolding org_direct_report_count_def map
    by (rule length_filter_map_le) (use h(3,4) in \<open>unfold reports_under_def, blast\<close>)
  have act: "org_active_count g' \<le> org_active_count g"
    unfolding org_active_count_def map by (rule length_filter_map_le) (rule h(4))
  have "org_direct_report_count g' (ag_id b) \<le> direct_report_limit (ag_role b)"
    if b: "b \<in> set (og_agents g')" "is_active b" for b
  proof -
    obtain b0 where b0: "b0 \<in> set (og_agents g)" "b = h b0" using b(1) by (auto simp: map)
    with b(2) h(4) have "is_active b0" by simp
    from staff_okD(2)[OF staff b0(1) this] cnt[of "ag_id b0"] show ?thesis
      unfolding b0(2) h(1,2) by (rule order_trans[rotated])
  qed
  moreover have "\<exists>b\<in>set (og_agents g'). ag_id b = m \<and> is_active b"
    if a: "a \<in> set (og_agents g')" "is_active a" "ag_reports_to a = Some m" for a m
  proof -
    obtain a0 where a0: "a0 \<in> set (og_agents g)" "a = h a0" using a(1) by (auto simp: map)
    then obtain b where "b \<in> set (og_agents g)" "ag_id b = m" "is_active b"
      using staff_okD(1)[OF staff a0(1)] h(3,4) a(2,3) by metis
    moreover have "m \<noteq> t" using a a0 h(6) by auto
    ultimately show ?thesis using h(1,5) by (intro bexI[of _ "h b"]) (auto simp: map)
  qed
  ultimately show ?thesis using act staff by (simp add: staff_ok_def)
qed

lemma hire_checked:
  assumes "hire_check g i r m boot = None"
  shows "org_active_count g < MAX_ACTIVE_AGENTS"
    and "m = Some x \<Longrightarrow> \<exists>b. tbl_find ag_id x (og_agents g) = Some b \<and> is_active b \<and>
           org_direct_report_count g x < direct_report_limit (ag_role b) \<and>
           (\<not> boot \<and> ag_role b = HR \<longrightarrow> r = HR)"
  using assms by (auto simp: hire_check_def split: option.splits if_splits)

lemma add_agent_cases:
  obtains (error) e where "org_add_agent i now r p m by hr boot fn lnm rt rd s = (Inl e, s)"
  | (added) a res es where
      "org_add_agent i now r p m by hr boot fn lnm rt rd s =
         (res, (fst s)\<lparr>og_agents := og_agents (fst s) @ [a]\<rparr>, es)"
      "hire_check (fst s) i r m boot = None" "tbl_find ag_id i (og_agents (fst s)) = None"
      "ag_id a = i" "ag_role a = r" "ag_reports_to a = m" "is_active a" "boot \<or> hr"
      "log_extends (snd s) es"
proof -
  let ?out = "org_add_agent i now r p m by hr boot fn lnm rt rd s"
  consider "\<not> boot \<and> \<not> hr" | "boot \<or> hr" "\<not> boot \<and> m = None"
    | e where "boot \<or> hr" "boot \<or> m \<noteq> None" "hire_check (fst s) i r m boot = Some e"
    | "boot \<or> hr" "boot \<or> m \<noteq> None" "hire_check (fst s) i r m boot = None" by fastforce
  then show thesis
  proof cases
    case 4
    show thesis
    proof (cases "tbl_find ag_id i (og_agents (fst s)) = None")
      case True
      define a where "a = \<lparr>ag_id = i, ag_role = r, ag_persona_ref = p, ag_reports_to = m,
          ag_status = ACTIVE, ag_hired_at = now, ag_first_name = fn, ag_last_name = lnm,
          ag_role_title = rt, ag_role_description = rd, ag_fired_at = None, ag_fired_by = None,
          ag_fire_reason = None\<rparr>"
      define pl where "pl = [(''agent_id'', JStr i), (''role'', JStr (role_value r)),
          (''manager_id'', opt_json m), (''first_name'', JStr fn), (''last_name'', JStr lnm),
          (''role_title'', opt_json rt)] @ (if boot then [] else [(''by_agent_id'', JStr by)])"
      define k :: "event_kind + string"
        where "k = Inl (if boot then AGENT_CREATED else AGENT_HIRED)"
      obtain res es where app: "es_append k pl (Some by) None (snd s) = (res, es)"
        by (cases "es_append k pl (Some by) None (snd s)")
      have "?out = (map_sum id (\<lambda>_. a) res, (fst s)\<lparr>og_agents := og_agents (fst s) @ [a]\<rparr>, es)"
        unfolding org_add_agent_def Let_def a_def[symmetric] pl_def[symmetric] k_def[symmetric] app
        using 4 True by auto
      moreover have "log_extends (snd s) es"
        using es_append_extends[of "snd s" k pl "Some by" None] app by simp
      moreover have "ag_id a = i" "ag_role a = r" "ag_reports_to a = m" "is_active a"
        by (simp_all add: a_def is_active_def)
      ultimately show thesis
        using 4(1,3) True added by blast
    qed (use 4 in \<open>auto intro: error simp: org_add_agent_def\<close>)
  qed (auto intro: error simp: org_add_agent_def)
qed

lemma add_agent_inv:
  assumes "org_inv s"
  shows "org_inv (snd (org_add_agent i now r p m by hr boot fn lnm rt rd s))"
proof (cases rule: add_agent_cases[of i now r p m "by" hr boot fn lnm rt rd s])
  case (added a res es)
  have "chart_ok ((fst s)\<lparr>og_agents := og_agents (fst s) @ [a]\<rparr>) \<and>
        staff_ok ((fst s)\<lparr>og_agents := og_agents (fst s) @ [a]\<rparr>)"
  proof (rule insert_agent_inv)
    show "tbl_find ag_id (ag_id a) (og_agents (fst s)) = None" using added by simp
    show "org_active_count (fst s) < MAX_ACTIVE_AGENTS" using hire_checked(1)[OF added(2)] .
    show "\<exists>b. tbl_find ag_id x (og_agents (fst s)) = Some b \<and> is_active b \<and>
        org_direct_report_count (fst s) x < direct_report_limit (ag_role b)"
      if "ag_reports_to a = Some x" for x
      using hire_checked(2)[OF added(2)] added(6) that by blast
  qed (use assms added in \<open>simp_all add: org_inv_def\<close>)
  with assms added show ?thesis by (simp add: org_inv_def)
qed (use assms in simp)

lemma update_role_details_inv:
  assumes "org_inv s" shows "org_inv (snd (org_update_role_details i t d s))"
proof (cases "org_get_active (fst s) i")
  case (Some a)
  have "chart_ok g' = chart_ok (fst s) \<and> staff_ok g' = staff_ok (fst s)"
    if "g' = (fst s)\<lparr>og_agents := tbl_upd ag_id i (set_role_details t d) (og_agents (fst s))\<rparr>" for g'
    by (rule same_shape_inv[where h = "\<lambda>r. if ag_id r = i then set_role_details t d r else r"])
       (simp_all add: that tbl_upd_def set_role_details_def)
  with assms Some show ?thesis by (simp add: org_update_role_details_def org_inv_def Let_def)
qed (use assms in \<open>simp add: org_update_role_details_def Let_def\<close>)

lemma reassign_checked:
  assumes "reassign_check g actor t m = None"
  obtains a b where "tbl_find ag_id t (og_agents g) = Some a" "is_active a"
    "ag_role a \<notin> set special_roles"
    "tbl_find ag_id m (og_agents g) = Some b" "is_active b" "ag_reports_to a \<noteq> Some m"
    "org_direct_report_count g m < direct_report_limit (ag_role b)"
    "ag_role b = HR \<longrightarrow> ag_role a = HR"
  using assms by (auto simp: reassign_check_def split: option.splits if_splits)

lemma reassign_cases [consumes 1, case_names same moved]:
  assumes chart: "chart_ok (fst s)"
  obtains (same) r where "org_reassign actor t m reason s = Some (r, s)"
  | (moved) a b res es where
      "org_reassign actor t m reason s =
         Some (res, (fst s)\<lparr>og_agents := tbl_upd ag_id t (set_reports_to (Some m)) (og_agents (fst s))\<rparr>,
               es)"
      "res = Inl (UnknownEventKind ''agent.reassigned'')" "es = snd s"
      "tbl_find ag_id t (og_agents (fst s)) = Some a" "is_active a" "ag_role a \<notin> set special_roles"
      "tbl_find ag_id m (og_agents (fst s)) = Some b" "is_active b"
      "org_direct_report_count (fst s) m < direct_report_limit (ag_role b)"
      "ag_role b = HR \<longrightarrow> ag_role a = HR" "(m, t) \<notin> (mgr_rel (fst s))\<^sup>*"
proof (cases "length (clean_reason reason) < MIN_FIRE_REASON_CHARS \<or> t = m")
  case True
  then have "\<exists>r. org_reassign actor t m reason s = Some (r, s)"
    by (auto simp: org_reassign_def Let_def)
  with same show thesis by blast
next
  case ok: False
  show thesis
  proof (cases "reassign_check (fst s) actor t m")
    case (Some r)
    with ok show thesis by (intro same[of r]) (simp add: org_reassign_def)
  next
    case None
    obtain a b where ab: "tbl_find ag_id t (og_agents (fst s)) = Some a" "is_active a"
      "ag_role a \<notin> set special_roles" "tbl_find ag_id m (og_agents (fst s)) = Some b" "is_active b"
      "org_direct_report_count (fst s) m < direct_report_limit (ag_role b)"
      "ag_role b = HR \<longrightarrow> ag_role a = HR"
      by (rule reassign_checked[OF None])
    have walk: "reassign_walk (fst s) t (ag_reports_to b) = Some ((m, t) \<in> (mgr_rel (fst s))\<^sup>*)"
    proof (cases "ag_reports_to b")
      case None
      with mgr_step[OF chart ab(4)] ok show ?thesis by (auto simp: reassign_walk.simps)
    next
      case (Some c)
      then have "(m, c) \<in> mgr_rel (fst s)" using ab(4) chart by (simp add: mgr_rel_find)
      with mgr_in_ids[OF chart] have "c \<in> org_ids (fst s)" by blast
      with Some mgr_step[OF chart ab(4), of t] ok show ?thesis
        by (auto simp: reassign_walk_result[OF chart])
    qed
    show thesis
    proof (cases "(m, t) \<in> (mgr_rel (fst s))\<^sup>*")
      case True
      with ok None ab walk show thesis by (auto intro: same simp: org_reassign_def)
    next
      case False
      have "es_append (Inl AGENT_REASSIGNED) p x c (snd s)
          = (Inl (UnknownEventKind ''agent.reassigned''), snd s)" for p x c
        by (simp add: es_append_def es_validate_payload_def)
      with ok None ab walk False show thesis
        by (intro moved[OF _ refl refl ab False]) (simp add: org_reassign_def Let_def)
    qed
  qed
qed

lemma reassign_inv:
  assumes inv: "org_inv s" and run: "org_reassign actor t m reason s = Some out"
  shows "org_inv (snd out)"
  using conjunct1[OF inv[unfolded org_inv_def]]
proof (cases rule: reassign_cases[of s actor t m reason])
  case (same r)
  with run inv show ?thesis by auto
next
  case (moved a b res es)
  have "chart_ok (fst (snd out)) \<and> staff_ok (fst (snd out))"
    by (rule move_agent_inv[of "fst s" t a m b])
       (use moved inv run in \<open>auto simp: org_inv_def\<close>)
  with moved inv run show ?thesis by (auto simp: org_inv_def)
qed

lemma do_fire_cases:
  obtains (error) e where "org_do_fire now actor t reason n s = (Inl e, s)"
  | (fired) a res es where
      "org_do_fire now actor t reason n s =
         (res, (fst s)\<lparr>og_agents := detach_reports t
                  (tbl_upd ag_id t (mark_fired now actor reason) (og_agents (fst s)))\<rparr>, es)"
      "tbl_find ag_id t (og_agents (fst s)) = Some a"
      "ag_role a = HR \<longrightarrow> org_has_other_active_hr (fst s) t"
      "append_all (fire_events actor t reason n (ag_reports_to a) (org_direct_reports (fst s) t))
         (Some actor) (snd s) = (res, es)"
proof (cases "tbl_find ag_id t (og_agents (fst s))")
  case None
  then show thesis by (auto intro: error simp: org_do_fire_def)
next
  case (Some a)
  show thesis
  proof (cases "ag_role a = HR \<and> \<not> org_has_other_active_hr (fst s) t \<or>
      tbl_find ag_id actor (og_agents (fst s)) = None")
    case True
    with Some have "\<exists>e. org_do_fire now actor t reason n s = (Inl e, s)"
      by (auto simp: org_do_fire_def Let_def)
    with error show thesis by blast
  next
    case False
    obtain res es where app: "append_all (fire_events actor t reason n (ag_reports_to a)
        (org_direct_reports (fst s) t)) (Some actor) (snd s) = (res, es)"
      by (meson surj_pair)
    show thesis
      by (rule fired[OF _ Some _ app]) (use Some False app in \<open>auto simp: org_do_fire_def Let_def\<close>)
  qed
qed

lemma do_fire_inv:
  assumes "org_inv s" shows "org_inv (snd (org_do_fire now actor t reason n s))"
proof (cases rule: do_fire_cases[of now actor t reason n s])
  case (fired a res es)
  have "chart_ok (fst (snd (org_do_fire now actor t reason n s))) \<and>
        staff_ok (fst (snd (org_do_fire now actor t reason n s)))"
    by (rule fire_agent_inv[of "fst s"]) (use assms fired in \<open>auto simp: org_inv_def\<close>)
  with fired assms show ?thesis by (simp add: org_inv_def)
qed (use assms in simp)

lemma get_active_find:
  assumes "tbl_pk ag_id (og_agents g)"
  shows "org_get_active g i = Some a \<longleftrightarrow> tbl_find ag_id i (og_agents g) = Some a \<and> is_active a"
proof
  assume "org_get_active g i = Some a"
  then show "tbl_find ag_id i (og_agents g) = Some a \<and> is_active a"
    using assms by (auto simp: org_get_active_def find_Some_iff tbl_find_iff)
next
  assume a: "tbl_find ag_id i (og_agents g) = Some a \<and> is_active a"
  then obtain b where b: "org_get_active g i = Some b"
    by (cases "org_get_active g i")
       (auto simp: org_get_active_def find_None_iff dest: tbl_find_Some_in)
  then have "tbl_find ag_id i (og_agents g) = Some b"
    using assms by (auto simp: org_get_active_def find_Some_iff tbl_find_iff)
  with a b show "org_get_active g i = Some a" by simp
qed

lemma depth_result:
  assumes chart: "chart_ok g" and t: "tbl_find ag_id t (og_agents g) = Some a" and ne: "x \<noteq> t"
  shows "\<exists>res. org_depth g x t = Some (Inr res) \<and>
           (case res of None \<Rightarrow> (t, x) \<notin> (mgr_rel g)\<^sup>+
                      | Some n \<Rightarrow> 0 < n \<and> (t, x) \<in> mgr_rel g ^^ nat n)"
proof (cases "ag_reports_to a")
  case None
  with t chart have "(t, x) \<notin> (mgr_rel g)\<^sup>+"
    by (auto simp: mgr_rel_find dest: tranclD)
  with None t ne show ?thesis
    by (auto simp: org_depth_def org_manager_of_def depth_walk.simps intro!: exI[of _ None])
next
  case (Some m)
  with t chart have tm: "(t, m) \<in> mgr_rel g" by (simp add: mgr_rel_find)
  then obtain res where res: "depth_walk g x (0, Some m) = Some (Inr res)"
    "case res of None \<Rightarrow> (m, x) \<notin> (mgr_rel g)\<^sup>*
       | Some n \<Rightarrow> \<exists>k. n = 0 + 1 + int k \<and> (m, x) \<in> mgr_rel g ^^ k"
    using depth_walk_result[OF chart, of m x 0] mgr_in_ids[OF chart tm] by blast
  have "org_depth g x t = Some (Inr res)"
    using Some t ne res(1) by (simp add: org_depth_def org_manager_of_def)
  moreover have "case res of None \<Rightarrow> (t, x) \<notin> (mgr_rel g)\<^sup>+
       | Some n \<Rightarrow> 0 < n \<and> (t, x) \<in> mgr_rel g ^^ nat n"
  proof (cases res)
    case None
    have "m' = m" if "(t, m') \<in> mgr_rel g" for m'
      using that tm chart by (auto simp: mgr_rel_find)
    with None res(2) show ?thesis by (auto dest: tranclD)
  next
    case (Some n)
    with res(2) obtain k where k: "n = 1 + int k" "(m, x) \<in> mgr_rel g ^^ k" by auto
    with tm have "(t, x) \<in> mgr_rel g ^^ Suc k" by (intro relpow_Suc_I2)
    moreover have "nat n = Suc k" using k(1) by simp
    ultimately show ?thesis using Some k(1) by simp
  qed
  ultimately show ?thesis by blast
qed

text \<open>When a fire is authorised, and what the caller gets otherwise.\<close>

definition fire_authorised :: "org \<Rightarrow> string \<Rightarrow> string \<Rightarrow> string \<Rightarrow> bool \<Rightarrow> bool" where
  "fire_authorised g actor target reason via_hr \<longleftrightarrow>
     via_hr \<and> actor \<noteq> target \<and>
     (\<exists>a. tbl_find ag_id actor (og_agents g) = Some a \<and> is_active a) \<and>
     (\<exists>t. tbl_find ag_id target (og_agents g) = Some t \<and> is_active t \<and> ag_role t \<noteq> CEO \<and>
        (ag_role t = HR \<longrightarrow> org_has_other_active_hr g target)) \<and>
     (target, actor) \<in> (mgr_rel g)\<^sup>+ \<and> validate_fire_reason reason = None"

lemma fire_authorised_runs:
  assumes chart: "chart_ok (fst s)" and ok: "fire_authorised (fst s) actor target reason via_hr"
  shows "org_fire now actor target reason via_hr s =
           Some (andthen (org_do_fire now actor target reason True s)
             (\<lambda>_ s'. (Inr \<lparr>fo_result = DIRECT_FIRED, fo_reason = None, fo_request_id = None\<rparr>, s')))"
proof -
  let ?g = "fst s"
  have pk: "tbl_pk ag_id (og_agents ?g)" using chart by (simp add: chart_ok_def)
  obtain a t where auth: "via_hr" "actor \<noteq> target"
    "tbl_find ag_id actor (og_agents ?g) = Some a" "is_active a"
    "tbl_find ag_id target (og_agents ?g) = Some t" "is_active t" "ag_role t \<noteq> CEO"
    "\<not> (ag_role t = HR \<and> \<not> org_has_other_active_hr ?g target)"
    "(target, actor) \<in> (mgr_rel ?g)\<^sup>+" "validate_fire_reason reason = None"
    using ok by (auto simp: fire_authorised_def)
  have ids: "ag_id a = actor" "ag_id t = target"
    using auth(3,5) by (auto dest: tbl_find_Some_in)
  obtain n where "org_depth ?g actor target = Some (Inr (Some n))" "(n \<le> 0) = False"
    using depth_result[OF chart auth(5) auth(2)] auth(9) by (auto split: option.splits)
  with auth ids show ?thesis
    by (simp only: org_fire_def get_active_find[OF pk, THEN iffD2] Let_def option.case sum.case
        if_True if_False simp_thms)
qed

lemma fire_refused:
  assumes chart: "chart_ok (fst s)" and no: "\<not> fire_authorised (fst s) actor target reason via_hr"
  shows "\<exists>why. org_fire now actor target reason via_hr s = Some (Inr (denied_fire why), s)"
proof -
  let ?g = "fst s"
  have pk: "tbl_pk ag_id (og_agents ?g)" using chart by (simp add: chart_ok_def)
  show ?thesis
  proof (cases "via_hr \<and> org_get_active ?g actor \<noteq> None \<and> org_get_active ?g target \<noteq> None")
    case False
    then show ?thesis by (auto simp: org_fire_def Let_def split: option.splits)
  next
    case True
    then obtain a t where a: "org_get_active ?g actor = Some a" and t: "org_get_active ?g target = Some t"
      and via: "via_hr" by auto
    then have at: "tbl_find ag_id actor (og_agents ?g) = Some a" "is_active a"
      "tbl_find ag_id target (og_agents ?g) = Some t" "is_active t"
      by (simp_all add: get_active_find[OF pk])
    have ids: "ag_id a = actor" "ag_id t = target"
      using at(1,3) by (auto dest: tbl_find_Some_in)
    show ?thesis
    proof (cases "actor = target \<or> ag_role t = CEO \<or>
        ag_role t = HR \<and> \<not> org_has_other_active_hr ?g target")
      case True
      with a t via ids show ?thesis by (auto simp: org_fire_def Let_def)
    next
      case False
      obtain res where res: "org_depth ?g actor target = Some (Inr res)"
        "case res of None \<Rightarrow> (target, actor) \<notin> (mgr_rel ?g)\<^sup>+
           | Some n \<Rightarrow> 0 < n \<and> (target, actor) \<in> mgr_rel ?g ^^ nat n"
        using depth_result[OF chart at(3), of actor] False by blast
      have "res \<noteq> None \<Longrightarrow> (target, actor) \<in> (mgr_rel ?g)\<^sup>+"
        using res(2) by (auto simp: trancl_power intro!: exI[of _ "nat (the res)"])
      with no False at via have "res = None \<or> validate_fire_reason reason \<noteq> None"
        by (auto simp: fire_authorised_def)
      with False a t via ids res show ?thesis
        by (cases res) (auto simp: org_fire_def Let_def)
    qed
  qed
qed

section \<open>The steps of the chart\<close>

inductive org_step :: "bool \<Rightarrow> org \<times> event_store \<Rightarrow> org \<times> event_store \<Rightarrow> bool" for boot where
  ost_hire: "org_step boot s
     (snd (org_add_agent i now r p m who hr (boot \<and> b) fn lnm rt rd s))"
| ost_details: "org_step boot s (snd (org_update_role_details i t d s))"
| ost_reassign: "org_reassign actor t m reason s = Some out \<Longrightarrow> org_step boot s (snd out)"
| ost_fire: "org_fire now actor t reason hr s = Some out \<Longrightarrow> org_step boot s (snd out)"
| ost_complete: "org_step boot s (snd (org_complete_fire now rid dec s))"

definition org_init :: "org \<times> event_store \<Rightarrow> bool" where
  "org_init s \<longleftrightarrow> og_agents (fst s) = [] \<and> og_fire_pending (fst s) = []"

lemma fire_inv:
  assumes inv: "org_inv s" and run: "org_fire now actor t reason hr s = Some out"
  shows "org_inv (snd out)"
proof -
  have chart: "chart_ok (fst s)" using inv by (simp add: org_inv_def)
  show ?thesis
  proof (cases "fire_authorised (fst s) actor t reason hr")
    case True
    have "snd out = snd (org_do_fire now actor t reason True s)"
      using run fire_authorised_runs[OF chart True, of now]
      by (cases "org_do_fire now actor t reason True s"; cases "fst (org_do_fire now actor t reason True s)")
         auto
    then show ?thesis using do_fire_inv[OF inv] by simp
  next
    case False
    with fire_refused[OF chart False, of now] run inv show ?thesis by auto
  qed
qed

lemma complete_fire_no_pending:
  "og_fire_pending (fst s) = [] \<Longrightarrow> org_complete_fire now rid dec s = (Inl (KeyError rid), s)"
  by (simp add: org_complete_fire_def)

interpretation chart: invariant_system org_init "org_step boot" org_inv
proof unfold_locales
  show "org_inv s" if "org_init s" for s :: "org \<times> event_store"
    using that
    by (simp add: org_init_def org_inv_def chart_ok_def staff_ok_def mgr_rel_def tbl_pk_def
        org_active_count_def MAX_ACTIVE_AGENTS_def acyclic_def)
  show "org_inv t" if "org_inv s" and "org_step boot s t" for s t
    using that(2)
  proof cases
    case (ost_complete now rid dec)
    with that(1) show ?thesis by (simp add: complete_fire_no_pending org_inv_def)
  qed (auto intro: that(1) add_agent_inv update_role_details_inv reassign_inv fire_inv)
qed

subsection \<open>Nobody but HR under HR, leadership is kept\<close>

definition hr_under_hr :: "org \<Rightarrow> bool" where
  "hr_under_hr g \<longleftrightarrow>
     (\<forall>a\<in>set (og_agents g). \<forall>b\<in>set (og_agents g).
        is_active a \<and> ag_reports_to a = Some (ag_id b) \<and> ag_role b = HR \<longrightarrow> ag_role a = HR)"

definition active_role :: "org \<Rightarrow> role \<Rightarrow> string \<Rightarrow> bool" where
  "active_role g r i \<longleftrightarrow> (\<exists>a\<in>set (og_agents g). ag_id a = i \<and> ag_role a = r \<and> is_active a)"

lemma fired_agents:
  "set (detach_reports t (tbl_upd ag_id t (mark_fired now actor reason) ags)) =
     (\<lambda>a. if ag_id a = t then mark_fired now actor reason a
          else if reports_under t a then set_reports_to None a else a) ` set ags"
  unfolding detach_reports_def tbl_upd_def set_map image_image
  by (rule image_cong) (auto simp: mark_fired_def reports_under_def is_active_def)

lemma step_cases [consumes 2, case_names same added details moved fired]:
  assumes inv: "org_inv s" and step: "org_step boot s s'"
  obtains "fst s' = fst s"
  | a where "og_agents (fst s') = og_agents (fst s) @ [a]" "is_active a"
      "tbl_find ag_id (ag_id a) (og_agents (fst s)) = None"
      "\<And>m b. \<not> boot \<Longrightarrow> ag_reports_to a = Some m \<Longrightarrow> tbl_find ag_id m (og_agents (fst s)) = Some b \<Longrightarrow>
         ag_role b = HR \<Longrightarrow> ag_role a = HR"
  | i t d where "og_agents (fst s') = tbl_upd ag_id i (set_role_details t d) (og_agents (fst s))"
  | t m a b where "og_agents (fst s') = tbl_upd ag_id t (set_reports_to (Some m)) (og_agents (fst s))"
      "tbl_find ag_id t (og_agents (fst s)) = Some a" "tbl_find ag_id m (og_agents (fst s)) = Some b"
      "ag_role b = HR \<longrightarrow> ag_role a = HR" "is_active a" "ag_role a \<notin> set special_roles"
  | t now actor reason a where
      "og_agents (fst s') = detach_reports t
         (tbl_upd ag_id t (mark_fired now actor reason) (og_agents (fst s)))"
      "tbl_find ag_id t (og_agents (fst s)) = Some a" "is_active a" "ag_role a \<noteq> CEO"
      "ag_role a = HR \<longrightarrow> org_has_other_active_hr (fst s) t"
proof -
  have chart: "chart_ok (fst s)" using inv by (simp add: org_inv_def)
  note same = that(1) and added = that(2) and details = that(3) and moved = that(4) and fired = that(5)
  from step show thesis
  proof cases
    case (ost_hire i now r p m who hr b fn lnm rt rd)
    show thesis
    proof (cases rule: add_agent_cases[of i now r p m who hr "boot \<and> b" fn lnm rt rd s])
      case (error e)
      with ost_hire same show thesis by simp
    next
      case (added a res es)
      have "ag_role a = HR" if "\<not> boot" "ag_reports_to a = Some x"
          "tbl_find ag_id x (og_agents (fst s)) = Some c" "ag_role c = HR" for x c
        using hire_checked(2)[OF added(2), of x] added(5,6) that by auto
      with added ost_hire that(2)[of a] show thesis by simp
    qed
  next
    case (ost_details i t d)
    show thesis
      by (cases "org_get_active (fst s) i")
         (use ost_details same details[of i t d] in \<open>simp_all add: org_update_role_details_def Let_def\<close>)
  next
    case (ost_reassign actor t m reason out)
    from chart show thesis
    proof (cases rule: reassign_cases[of s actor t m reason])
      case (same r)
      with ost_reassign that(1) show thesis by auto
    next
      case (moved a b res es)
      with ost_reassign show thesis by (intro that(4)[of t m a b]) auto
    qed
  next
    case (ost_fire now actor t reason hr out)
    show thesis
    proof (cases "fire_authorised (fst s) actor t reason hr")
      case False
      with fire_refused[OF chart False, of now] ost_fire same show thesis by auto
    next
      case True
      then obtain a where a: "tbl_find ag_id t (og_agents (fst s)) = Some a" "is_active a" "ag_role a \<noteq> CEO"
        "ag_role a = HR \<longrightarrow> org_has_other_active_hr (fst s) t"
        by (auto simp: fire_authorised_def)
      have out: "snd out = snd (org_do_fire now actor t reason True s)"
        using ost_fire fire_authorised_runs[OF chart True, of now]
        by (cases "org_do_fire now actor t reason True s"; cases "fst (org_do_fire now actor t reason True s)")
           auto
      show thesis
      proof (cases rule: do_fire_cases[of now actor t reason True s])
        case (error e)
        with out ost_fire same show thesis by simp
      next
        case (fired a' res es)
        with out ost_fire a show thesis by (intro that(5)[of t now actor reason a]) auto
      qed
    qed
  next
    case (ost_complete now rid dec)
    with inv same show thesis by (simp add: complete_fire_no_pending org_inv_def)
  qed
qed

lemma active_role_upd:
  assumes "\<And>a. ag_id (f a) = ag_id a" "\<And>a. ag_role (f a) = ag_role a" "\<And>a. ag_status (f a) = ag_status a"
    and "og_agents g' = tbl_upd ag_id k f (og_agents g)"
    and "active_role g r i"
  shows "active_role g' r i"
proof -
  obtain a where a: "a \<in> set (og_agents g)" "ag_id a = i" "ag_role a = r" "is_active a"
    using assms(5) by (auto simp: active_role_def)
  let ?a = "if ag_id a = k then f a else a"
  have "?a \<in> set (og_agents g')" unfolding assms(4) set_tbl_upd using a(1) by (rule imageI)
  moreover have "ag_id ?a = i" "ag_role ?a = r" "is_active ?a"
    using a assms(1-3) by (simp_all add: is_active_def)
  ultimately show ?thesis unfolding active_role_def by blast
qed

lemma active_role_fired:
  assumes g': "og_agents g' = detach_reports t (tbl_upd ag_id t (mark_fired now actor reason) (og_agents g))"
    and "active_role g r i" and "i \<noteq> t"
  shows "active_role g' r i"
proof -
  obtain a where a: "a \<in> set (og_agents g)" "ag_id a = i" "ag_role a = r" "is_active a"
    using assms(2) by (auto simp: active_role_def)
  let ?a = "if reports_under t a then set_reports_to None a else a"
  have "?a \<in> set (og_agents g')"
    unfolding g' fired_agents using a assms(3) by (intro image_eqI[of _ _ a]) auto
  moreover have "ag_id ?a = i" "ag_role ?a = r" "is_active ?a"
    using a by (simp_all add: set_reports_to_def is_active_def)
  ultimately show ?thesis unfolding active_role_def by blast
qed

lemma leadership_step:
  assumes inv: "org_inv s" and step: "org_step boot s s'"
  shows "active_role (fst s) CEO i \<Longrightarrow> active_role (fst s') CEO i"
    and "\<exists>i. active_role (fst s) HR i \<Longrightarrow> \<exists>i. active_role (fst s') HR i"
proof -
  have pk: "tbl_pk ag_id (og_agents (fst s))" using inv by (simp add: org_inv_def chart_ok_def)
  have ceo_hr: "(active_role (fst s) CEO i \<longrightarrow> active_role (fst s') CEO i) \<and>
      ((\<exists>i. active_role (fst s) HR i) \<longrightarrow> (\<exists>i. active_role (fst s') HR i))"
    using inv step
  proof (cases rule: step_cases)
    case (added a)
    then have "set (og_agents (fst s)) \<subseteq> set (og_agents (fst s'))" by auto
    then show ?thesis unfolding active_role_def by blast
  next
    case (details j t d)
    have "active_role (fst s) r x \<Longrightarrow> active_role (fst s') r x" for r x
      by (rule active_role_upd[OF _ _ _ details]) (simp_all add: set_role_details_def)
    then show ?thesis by blast
  next
    case (moved t m a b)
    have "active_role (fst s) r x \<Longrightarrow> active_role (fst s') r x" for r x
      by (rule active_role_upd[OF _ _ _ moved(1)]) (simp_all add: set_reports_to_def)
    then show ?thesis by blast
  next
    case (fired t now actor reason a)
    have uniq: "ag_role a = r" if "active_role (fst s) r t" for r
      using that fired(2) pk by (auto simp: active_role_def dest: tbl_find_in)
    have "\<exists>j. active_role (fst s) HR j \<and> j \<noteq> t" if "active_role (fst s) HR j0" for j0
      using that uniq[of HR] fired(5)
      by (cases "j0 = t") (auto simp: org_has_other_active_hr_def list_ex_iff active_role_def)
    with uniq[of CEO] fired(4) active_role_fired[OF fired(1)] show ?thesis by blast
  qed simp
  show "active_role (fst s') CEO i" if "active_role (fst s) CEO i" using that ceo_hr by blast
  show "\<exists>i. active_role (fst s') HR i" if "\<exists>i. active_role (fst s) HR i" using that ceo_hr by blast
qed

lemma hr_under_hr_shadow:
  assumes hr: "hr_under_hr g"
    and shadow: "\<And>x. x \<in> set (og_agents g') \<Longrightarrow> \<exists>a\<in>set (og_agents g). ag_id a = ag_id x \<and>
      ag_role a = ag_role x \<and> (is_active x \<longrightarrow> is_active a) \<and>
      (\<forall>m. ag_reports_to x = Some m \<longrightarrow> ag_reports_to a = Some m \<or>
         (\<forall>b\<in>set (og_agents g). ag_id b = m \<and> ag_role b = HR \<longrightarrow> ag_role x = HR))"
  shows "hr_under_hr g'"
  unfolding hr_under_hr_def
proof (intro ballI impI)
  fix x y
  assume x: "x \<in> set (og_agents g')" and y: "y \<in> set (og_agents g')"
    and xy: "is_active x \<and> ag_reports_to x = Some (ag_id y) \<and> ag_role y = HR"
  obtain a where a: "a \<in> set (og_agents g)" "ag_role a = ag_role x" "is_active x \<longrightarrow> is_active a"
    "ag_reports_to a = Some (ag_id y) \<or>
     (\<forall>b\<in>set (og_agents g). ag_id b = ag_id y \<and> ag_role b = HR \<longrightarrow> ag_role x = HR)"
    using shadow[OF x] xy by blast
  obtain b where b: "b \<in> set (og_agents g)" "ag_id b = ag_id y" "ag_role b = ag_role y"
    using shadow[OF y] by blast
  from a(4) show "ag_role x = HR"
  proof
    assume "ag_reports_to a = Some (ag_id y)"
    with a(3) b xy have "is_active a \<and> ag_reports_to a = Some (ag_id b) \<and> ag_role b = HR" by simp
    with hr a(1) b(1) have "ag_role a = HR" unfolding hr_under_hr_def by blast
    with a(2) show ?thesis by simp
  next
    assume "\<forall>b\<in>set (og_agents g). ag_id b = ag_id y \<and> ag_role b = HR \<longrightarrow> ag_role x = HR"
    with b(1) b(2) b(3) xy show ?thesis by metis
  qed
qed

lemma hr_under_hr_step:
  assumes inv: "org_inv s" and step: "org_step False s s'" and hr: "hr_under_hr (fst s)"
  shows "hr_under_hr (fst s')"
proof -
  have pk: "tbl_pk ag_id (og_agents (fst s))" and chart: "chart_ok (fst s)"
    using inv by (auto simp: org_inv_def chart_ok_def)
  show ?thesis
    using inv step
  proof (cases rule: step_cases)
    case same
    with hr show ?thesis by simp
  next
    case (added a)
    have "ag_role a = HR" if "b \<in> set (og_agents (fst s))" "ag_reports_to a = Some (ag_id b)" "ag_role b = HR" for b
      using added(4)[OF _ that(2) tbl_find_in[OF pk that(1)] that(3)] by simp
    moreover have "ag_reports_to x \<noteq> Some (ag_id a)" if "x \<in> set (og_agents (fst s))" for x
      using that added(3) mgr_in_ids[OF chart, of "ag_id x" "ag_id a"]
      by (auto simp: org_ids_find mgr_rel_def)
    ultimately show ?thesis
      using hr by (auto simp: hr_under_hr_def added(1))
  next
    case (details i t d)
    from hr show ?thesis
      by (rule hr_under_hr_shadow)
         (auto simp: details tbl_upd_def set_role_details_def is_active_def)
  next
    case (moved t m a b)
    have ab: "x = a \<or> ag_id x \<noteq> t" "x = b \<or> ag_id x \<noteq> m" if "x \<in> set (og_agents (fst s))" for x
      using tbl_find_in[OF pk that] moved(2,3) by auto
    have "ag_id a = t" "a \<in> set (og_agents (fst s))" using moved(2) by (auto dest: tbl_find_Some_in)
    show ?thesis
    proof (rule hr_under_hr_shadow[OF hr])
      fix x assume "x \<in> set (og_agents (fst s'))"
      then obtain y where y: "y \<in> set (og_agents (fst s))"
        "x = (if ag_id y = t then set_reports_to (Some m) y else y)"
        by (auto simp: moved(1) tbl_upd_def)
      have "ag_role x = HR" if "ag_reports_to x = Some n" "ag_reports_to y \<noteq> Some n"
          "c \<in> set (og_agents (fst s))" "ag_id c = n" "ag_role c = HR" for n c
        using that y ab(1)[OF y(1)] ab(2)[OF that(3)] moved(4)
        by (auto simp: set_reports_to_def split: if_splits)
      then have "\<forall>m. ag_reports_to x = Some m \<longrightarrow> ag_reports_to y = Some m \<or>
          (\<forall>b\<in>set (og_agents (fst s)). ag_id b = m \<and> ag_role b = HR \<longrightarrow> ag_role x = HR)"
        by blast
      moreover have "ag_id y = ag_id x" "ag_role y = ag_role x" "is_active x \<longrightarrow> is_active y"
        using y(2) by (simp_all add: set_reports_to_def is_active_def split: if_splits)
      ultimately show "\<exists>a\<in>set (og_agents (fst s)). ag_id a = ag_id x \<and> ag_role a = ag_role x \<and>
          (is_active x \<longrightarrow> is_active a) \<and> (\<forall>m. ag_reports_to x = Some m \<longrightarrow> ag_reports_to a = Some m \<or>
          (\<forall>b\<in>set (og_agents (fst s)). ag_id b = m \<and> ag_role b = HR \<longrightarrow> ag_role x = HR))"
        using y(1) by (intro bexI[of _ y] conjI)
    qed
  next
    case (fired t now actor reason a)
    from hr show ?thesis
      by (rule hr_under_hr_shadow)
         (auto simp: fired(1) fired_agents set_reports_to_def mark_fired_def is_active_def
           intro: bexI[rotated])
  qed
qed

lemma chain_walk_result:
  assumes chart: "chart_ok g" and "c \<in> org_ids g"
    and "\<And>x. x \<in> set seen \<Longrightarrow> (x, c) \<in> (mgr_rel g)\<^sup>+"
  shows "\<exists>cs. chain_walk g seen (Some c) = Inr cs \<and> set cs = {m. (c, m) \<in> (mgr_rel g)\<^sup>*}"
  using chart assms(2,3)
proof (induction arbitrary: seen rule: chart_induct)
  case (step c r)
  have acy: "acyclic (mgr_rel g)" using chart by (simp add: chart_ok_def)
  then have new: "c \<notin> set seen" using step.prems by (auto simp: acyclic_def)
  show ?case
  proof (cases "ag_reports_to r")
    case None
    then have "x = c" if "(c, x) \<in> (mgr_rel g)\<^sup>*" for x
      using that mgr_step[OF chart step.hyps(1), of x] by (cases "c = x") auto
    then have "{m. (c, m) \<in> (mgr_rel g)\<^sup>*} = {c}" by blast
    with None new step.hyps show ?thesis by (simp add: org_manager_of_def)
  next
    case (Some m)
    have cm: "(c, m) \<in> mgr_rel g" using Some step.hyps chart by (simp add: mgr_rel_find)
    have "(x, m) \<in> (mgr_rel g)\<^sup>+" if "x \<in> set (c # seen)" for x
      using that cm step.prems[of x] by (auto intro: trancl_into_trancl)
    then obtain cs where cs: "chain_walk g (c # seen) (Some m) = Inr cs"
      "set cs = {x. (m, x) \<in> (mgr_rel g)\<^sup>*}"
      using step.IH[OF Some] by blast
    have "{x. (c, x) \<in> (mgr_rel g)\<^sup>*} = insert c {x. (m, x) \<in> (mgr_rel g)\<^sup>*}"
      using mgr_step[OF chart step.hyps(1)] Some cm
      by (auto intro: converse_rtrancl_into_rtrancl)
    with cs Some new step.hyps show ?thesis by (simp add: org_manager_of_def)
  qed
qed

lemma chain_up_result:
  assumes chart: "chart_ok g" and a: "a \<in> org_ids g"
  shows "\<exists>cs. org_chain_up g a = Inr cs \<and> set cs = {m. (a, m) \<in> (mgr_rel g)\<^sup>+}"
proof -
  obtain r where r: "tbl_find ag_id a (og_agents g) = Some r" using a by (auto simp: org_ids_find)
  show ?thesis
  proof (cases "ag_reports_to r")
    case None
    then have "(a, m) \<notin> (mgr_rel g)\<^sup>+" for m
      using r chart by (auto simp: mgr_rel_find dest: tranclD)
    with None r show ?thesis by (simp add: org_chain_up_def org_manager_of_def)
  next
    case (Some m)
    have am: "(a, m) \<in> mgr_rel g" using Some r chart by (simp add: mgr_rel_find)
    have eq: "(a, x) \<in> (mgr_rel g)\<^sup>+ \<longleftrightarrow> (m, x) \<in> (mgr_rel g)\<^sup>*" for x
      using am r Some chart
      by (auto simp: mgr_rel_find dest!: tranclD intro: rtrancl_into_trancl2)
    obtain cs where "chain_walk g [a] (Some m) = Inr cs" "set cs = {x. (m, x) \<in> (mgr_rel g)\<^sup>*}"
      using chain_walk_result[OF chart, of m "[a]"] am mgr_in_ids[OF chart am] by auto
    with r Some eq show ?thesis by (simp add: org_chain_up_def org_manager_of_def)
  qed
qed

section \<open>Examples\<close>

definition demo_org0 :: "org \<times> event_store" where
  "demo_org0 = (\<lparr>og_agents = [], og_fire_pending = [], og_fire_requests = []\<rparr>, demo_store)"

definition demo_add :: "string \<Rightarrow> role \<Rightarrow> string option \<Rightarrow> org \<times> event_store \<Rightarrow> org \<times> event_store" where
  "demo_add i r m s =
     snd (org_add_agent i 0 r ''p'' m ''board'' True True ''Ann'' ''Lee'' None None s)"

definition demo_org :: "org \<times> event_store" where
  "demo_org =
     demo_add ''bob'' MEMBER (Some ''cto'') (demo_add ''cto'' MEMBER (Some ''ceo'')
       (demo_add ''hr'' HR (Some ''ceo'') (demo_add ''ceo'' CEO None demo_org0)))"

lemma demo_add_reach:
  "reach org_init (org_step True) s \<Longrightarrow> reach org_init (org_step True) (demo_add i r m s)"
  using ost_hire[of True s i 0 r "''p''" m "''board''" True True "''Ann''" "''Lee''" None None]
  by (auto simp: demo_add_def intro: reach_step)

lemma demo_org_reach: "reach org_init (org_step True) demo_org"
  unfolding demo_org_def
  by (intro demo_add_reach reach_init) (simp add: org_init_def demo_org0_def)

lemma demo_org_agents:
  "map (\<lambda>a. (ag_id a, ag_role a, ag_reports_to a, ag_status a)) (og_agents (fst demo_org)) =
     [(''ceo'', CEO, None, ACTIVE), (''hr'', HR, Some ''ceo'', ACTIVE),
      (''cto'', MEMBER, Some ''ceo'', ACTIVE), (''bob'', MEMBER, Some ''cto'', ACTIVE)]"
  by code_simp

lemma demo_org_ok: "active_role (fst demo_org) CEO ''ceo'' \<and> hr_under_hr (fst demo_org)"
  by code_simp

lemma fire_effect:
  assumes chart: "chart_ok (fst s)" and auth: "fire_authorised (fst s) actor target reason via_hr"
  shows "\<exists>res g es t. org_fire now actor target reason via_hr s = Some (res, g, es) \<and>
           ((\<exists>e. res = Inl e) \<or>
            res = Inr \<lparr>fo_result = DIRECT_FIRED, fo_reason = None, fo_request_id = None\<rparr>) \<and>
           tbl_find ag_id target (og_agents g) = Some t \<and> ag_status t = FIRED \<and>
           ag_fired_by t = Some actor \<and>
           (\<forall>a\<in>set (og_agents g). \<not> reports_under target a) \<and>
           org_ids g = org_ids (fst s) \<and> log_extends (snd s) es"
proof -
  let ?g = "fst s"
  have pk: "tbl_pk ag_id (og_agents ?g)" using chart by (simp add: chart_ok_def)
  obtain a t where at: "tbl_find ag_id actor (og_agents ?g) = Some a"
    "tbl_find ag_id target (og_agents ?g) = Some t" "ag_role t = HR \<longrightarrow> org_has_other_active_hr ?g target"
    using auth by (auto simp: fire_authorised_def)
  obtain res es where app: "append_all (fire_events actor target reason True (ag_reports_to t)
      (org_direct_reports ?g target)) (Some actor) (snd s) = (res, es)"
    by (meson surj_pair)
  define g where "g = ?g\<lparr>og_agents := detach_reports target
      (tbl_upd ag_id target (mark_fired now actor reason) (og_agents ?g))\<rparr>"
  have run: "org_do_fire now actor target reason True s = (res, g, es)"
    using at app by (auto simp: org_do_fire_def Let_def g_def)
  have ext: "log_extends (snd s) es" using append_all_extends[of "snd s"] app by (metis snd_conv)
  have t_in: "t \<in> set (og_agents ?g)" "ag_id t = target"
    using at(2) by (auto dest: tbl_find_Some_in)
  have agents: "set (og_agents g) = (\<lambda>a. if ag_id a = target then mark_fired now actor reason a
      else if reports_under target a then set_reports_to None a else a) ` set (og_agents ?g)"
    by (simp add: g_def fired_agents)
  have keys: "map ag_id (og_agents g) = map ag_id (og_agents ?g)"
    by (simp add: g_def detach_reports_def tbl_upd_def mark_fired_def set_reports_to_def)
  then have ids: "org_ids g = org_ids ?g" and pk': "tbl_pk ag_id (og_agents g)"
    using pk by (simp_all add: org_ids_def tbl_pk_def flip: set_map)
  have "mark_fired now actor reason t \<in> set (og_agents g)"
    unfolding agents using t_in by (intro image_eqI[of _ _ t]) auto
  from tbl_find_in[OF pk' this] t_in
  have found: "tbl_find ag_id target (og_agents g) = Some (mark_fired now actor reason t)"
    by (simp add: mark_fired_def)
  have none: "\<forall>a\<in>set (og_agents g). \<not> reports_under target a"
    unfolding agents by (auto simp: reports_under_def mark_fired_def set_reports_to_def is_active_def)
  have "\<exists>res'. org_fire now actor target reason via_hr s = Some (res', g, es) \<and>
      ((\<exists>e. res' = Inl e) \<or>
       res' = Inr \<lparr>fo_result = DIRECT_FIRED, fo_reason = None, fo_request_id = None\<rparr>)"
    unfolding fire_authorised_runs[OF chart auth] run by (cases res) auto
  moreover have "ag_status (mark_fired now actor reason t) = FIRED"
    "ag_fired_by (mark_fired now actor reason t) = Some actor"
    by (simp_all add: mark_fired_def)
  ultimately show ?thesis using found none ids ext by blast
qed

section \<open>Properties\<close>

text \<open>
  C8. The chart invariant: in every reachable state ids are unique, every manager exists, no chain
  of managers is a cycle (fired rows included), an active agent reports to an active one, no
  active manager exceeds the span of control (CEO 5, others 4), at most 100 agents are active,
  and no fire request is pending.
\<close>

theorem org_chart_invariant:
  assumes "reach org_init (org_step boot) s"
  shows "distinct (map ag_id (og_agents (fst s))) \<and> snd ` mgr_rel (fst s) \<subseteq> org_ids (fst s) \<and>
         acyclic (mgr_rel (fst s)) \<and>
         (\<forall>a\<in>set (og_agents (fst s)). \<forall>m. is_active a \<and> ag_reports_to a = Some m \<longrightarrow>
            (\<exists>b\<in>set (og_agents (fst s)). ag_id b = m \<and> is_active b)) \<and>
         (\<forall>b\<in>set (og_agents (fst s)). is_active b \<longrightarrow>
            org_direct_report_count (fst s) (ag_id b) \<le> (if ag_role b = CEO then 5 else 4)) \<and>
         org_active_count (fst s) \<le> 100 \<and> og_fire_pending (fst s) = []"
  using chart.reach_inv[OF assms]
  unfolding org_inv_def chart_ok_def staff_ok_def tbl_pk_def direct_report_limit_def
    MAX_ACTIVE_AGENTS_def by blast

lemma org_chart_invariant_witness:
  "acyclic (mgr_rel (fst demo_org)) \<and> org_active_count (fst demo_org) \<le> 100"
  using org_chart_invariant[OF demo_org_reach] by blast

text \<open>
  C9. In every reachable state the unguarded walks over \<^verbatim>\<open>reports_to\<close> return, with the right answer:
  \<^verbatim>\<open>depth\<close> is the number of levels exactly for the agents above, \<^verbatim>\<open>None\<close> otherwise; the cycle check of
  \<^verbatim>\<open>reassign\<close> finds the target exactly if it is above; \<^verbatim>\<open>chain_up\<close> lists exactly the agents above.
\<close>

theorem manager_walks_return:
  assumes "reach org_init (org_step boot) s" and "t \<in> org_ids (fst s)" and "x \<noteq> t"
  shows "(\<exists>res. org_depth (fst s) x t = Some (Inr res) \<and>
            (case res of None \<Rightarrow> (t, x) \<notin> (mgr_rel (fst s))\<^sup>+
                       | Some n \<Rightarrow> 0 < n \<and> (t, x) \<in> mgr_rel (fst s) ^^ nat n)) \<and>
         reassign_walk (fst s) x (Some t) = Some ((t, x) \<in> (mgr_rel (fst s))\<^sup>*) \<and>
         (\<exists>cs. org_chain_up (fst s) t = Inr cs \<and> set cs = {m. (t, m) \<in> (mgr_rel (fst s))\<^sup>+})"
proof -
  have chart: "chart_ok (fst s)" using chart.reach_inv[OF assms(1)] by (simp add: org_inv_def)
  obtain a where "tbl_find ag_id t (og_agents (fst s)) = Some a"
    using assms(2) by (auto simp: org_ids_find)
  with depth_result[OF chart this assms(3)] reassign_walk_result[OF chart assms(2)]
    chain_up_result[OF chart assms(2)] show ?thesis by simp
qed

lemma manager_walks_return_witness:
  "\<exists>cs. org_chain_up (fst demo_org) ''bob'' = Inr cs \<and> set cs = {m. (''bob'', m) \<in> (mgr_rel (fst demo_org))\<^sup>+}"
proof -
  have "''bob'' \<in> set (map ag_id (og_agents (fst demo_org)))"
    using arg_cong[OF demo_org_agents, of "map fst"] by (simp add: comp_def)
  then have "''bob'' \<in> org_ids (fst demo_org)" by (simp add: org_ids_def)
  from manager_walks_return[OF demo_org_reach this, of "''ceo''"] show ?thesis by simp
qed



text \<open>
  C11. Leadership survives every operation: an active CEO row stays an active CEO row, and once
  some HR agent is active some HR agent is active for ever.
\<close>

theorem leadership_kept:
  assumes "reach org_init (org_step boot) s" and "(org_step boot)\<^sup>*\<^sup>* s t"
  shows "(active_role (fst s) CEO i \<longrightarrow> active_role (fst t) CEO i) \<and>
         ((\<exists>h. active_role (fst s) HR h) \<longrightarrow> (\<exists>h. active_role (fst t) HR h))"
  using assms(2)
proof (induction rule: rtranclp_induct)
  case (step t u)
  have "org_inv t" using chart.steps_inv[OF step.hyps(1)] chart.reach_inv[OF assms(1)] by blast
  with step.IH leadership_step[OF _ step.hyps(2)] show ?case by blast
qed blast

lemma leadership_kept_witness:
  "active_role (fst (snd (org_update_role_details ''bob'' ''Dev'' ''Builds'' demo_org))) CEO ''ceo''"
proof -
  have "org_step True demo_org (snd (org_update_role_details ''bob'' ''Dev'' ''Builds'' demo_org))"
    by (rule ost_details)
  from leadership_kept[OF demo_org_reach r_into_rtranclp[of "org_step True", OF this], of "''ceo''"]
  show ?thesis using demo_org_ok by blast
qed

text \<open>
  Outside bootstrap only HR agents are put under an HR manager: if it holds in a reachable
  state, it holds after any sequence of hires, reassignments and fires.
\<close>

theorem hr_manages_only_hr:
  assumes "reach org_init (org_step boot) s" and "hr_under_hr (fst s)" and "(org_step False)\<^sup>*\<^sup>* s t"
  shows "hr_under_hr (fst t)"
proof -
  have "org_inv t \<and> hr_under_hr (fst t)"
    using assms(3)
  proof (induction rule: rtranclp_induct)
    case base
    with assms(2) chart.reach_inv[OF assms(1)] show ?case by simp
  next
    case (step t u)
    with hr_under_hr_step[of t u] chart.step_inv[of t False u] show ?case by blast
  qed
  then show ?thesis by simp
qed

lemma hr_manages_only_hr_witness:
  "hr_under_hr (fst (snd (org_update_role_details ''bob'' ''Dev'' ''Builds'' demo_org)))"
proof -
  have "org_step False demo_org (snd (org_update_role_details ''bob'' ''Dev'' ''Builds'' demo_org))"
    by (rule ost_details)
  from hr_manages_only_hr[OF demo_org_reach _ r_into_rtranclp[of "org_step False", OF this]]
  show ?thesis using demo_org_ok by blast
qed

text \<open>
  \<^verbatim>\<open>reassign\<close> never reports a completed move: in a reachable state it returns, and either the
  state is untouched, or the target has been moved under the new manager (committed) and the
  call raises UnknownEventKind, because the kind it emits has no schema.
\<close>

theorem reassign_moves_then_raises:
  assumes "reach org_init (org_step boot) s"
  shows "\<exists>res s'. org_reassign actor t m reason s = Some (res, s') \<and>
           (s' = s \<or>
            res = Inl (UnknownEventKind ''agent.reassigned'') \<and> snd s' = snd s \<and>
            og_agents (fst s') = tbl_upd ag_id t (set_reports_to (Some m)) (og_agents (fst s)))"
proof -
  have "chart_ok (fst s)" using chart.reach_inv[OF assms(1)] by (simp add: org_inv_def)
  then show ?thesis
  proof (cases rule: reassign_cases[of s actor t m reason])
    case (moved a b res es)
    show ?thesis unfolding moved(1) by (simp add: moved(2,3))
  qed auto
qed

lemma reassign_moves_then_raises_witness:
  "\<exists>res s'. org_reassign ''ceo'' ''bob'' ''ceo'' ''promotion to the top'' demo_org = Some (res, s')"
  using reassign_moves_then_raises[OF demo_org_reach, of "''ceo''" "''bob''" "''ceo''" "''promotion to the top''"]
  by blast

end
