(* ===== verification/Cost_Budget.thy ===== *)
theory Cost_Budget
  imports Event_Store "HOL-Library.Multiset"
begin

text \<open>
  \<^verbatim>\<open>modules/cost\<close>: money, the budget with its charges, reservations and thresholds, subscriptions,
  and the pricing catalogue. A Decimal is an exact rational (the code's 28-digit context is exact
  for the amounts it quantises to four places); the tables are row lists; the state of a method is
  the pair of the cost tables and the event store. Threshold events are appended after the commit.
\<close>

section \<open>Money\<close>

datatype money = Money (amount_usd: rat)

text \<open>\<^verbatim>\<open>ROUND_HALF_UP\<close> rounds half away from zero.\<close>

definition round_half_up :: "rat \<Rightarrow> int" where
  "round_half_up q = (if q \<ge> 0 then \<lfloor>q + 1/2\<rfloor> else - \<lfloor>- q + 1/2\<rfloor>)"

definition to_decimal :: "rat \<Rightarrow> rat" where
  "to_decimal q = of_int (round_half_up (q * 10000)) / 10000"

definition mk_money :: "rat \<Rightarrow> exn + money" where
  "mk_money q =
     (let n = to_decimal q in
      if n < 0 then Inl (ValueError ''Money cannot be negative'') else Inr (Money n))"

definition money_of :: "rat \<Rightarrow> exn + money" where
  "money_of q = mk_money (to_decimal q)"

definition from_units :: "int \<Rightarrow> exn + money" where
  "from_units u = mk_money (of_int u / 10000)"

definition to_units :: "money \<Rightarrow> int" where
  "to_units m = round_half_up (amount_usd m * 10000)"

definition money_add :: "money \<Rightarrow> money \<Rightarrow> exn + money" where
  "money_add a b = mk_money (amount_usd a + amount_usd b)"

definition money_sub :: "money \<Rightarrow> money \<Rightarrow> exn + money" where
  "money_sub a b = mk_money (amount_usd a - amount_usd b)"

section \<open>Tables\<close>

datatype category =
  CAT_LLM | CAT_TOOL | CAT_HOSTING | CAT_DOMAIN | CAT_EMAIL | CAT_ADS | CAT_PAYMENT | CAT_OTHER

fun category_value :: "category \<Rightarrow> string" where
  "category_value CAT_LLM = ''llm''"
| "category_value CAT_TOOL = ''tool''"
| "category_value CAT_HOSTING = ''hosting''"
| "category_value CAT_DOMAIN = ''domain''"
| "category_value CAT_EMAIL = ''email''"
| "category_value CAT_ADS = ''ads''"
| "category_value CAT_PAYMENT = ''payment''"
| "category_value CAT_OTHER = ''other''"

datatype reservation_status = OPEN | COMMITTED | RELEASED

record expense =
  ex_id :: string
  ex_agent_id :: "string option"
  ex_units :: int
  ex_category :: category
  ex_memo :: string
  ex_approval_id :: "string option"
  ex_ts :: int

record reservation =
  rs_id :: string
  rs_units :: int
  rs_ref :: string
  rs_status :: reservation_status
  rs_created_at :: int

record subscription =
  su_id :: string
  su_description :: string
  su_units :: int
  su_category :: category
  su_next_day :: int
  su_period :: int
  su_cancelled :: bool

text \<open>The single row of \<^verbatim>\<open>budget_state\<close> and the three tables.\<close>

record cost =
  ct_total :: int
  ct_blocked :: bool
  ct_last_pct :: rat
  ct_expenses :: "expense list"
  ct_reservations :: "reservation list"
  ct_subs :: "subscription list"

type_synonym 'a cost_out = "('a, cost \<times> event_store) outcome"

record charge_result =
  cr_ok :: bool
  cr_reason :: "string option"
  cr_expense_id :: "string option"

record budget_state =
  bs_total :: money
  bs_spent :: money
  bs_reserved :: money
  bs_remaining :: money
  bs_by_category :: "(category \<times> money) list"
  bs_blocked :: bool

section \<open>Reading the budget\<close>

definition WARNING_PCT :: rat where "WARNING_PCT = 80"

definition BLOCKED_PCT :: rat where "BLOCKED_PCT = 100"

definition units_to_cents :: "int \<Rightarrow> int" where
  "units_to_cents u = (u + 50) div 100"

definition sum_expenses :: "cost \<Rightarrow> int" where
  "sum_expenses c = sum_list (map ex_units (ct_expenses c))"

definition open_units :: "reservation \<Rightarrow> int" where
  "open_units r = (if rs_status r = OPEN then rs_units r else 0)"

definition sum_open_reservations :: "cost \<Rightarrow> int" where
  "sum_open_reservations c = sum_list (map open_units (ct_reservations c))"

definition money_units :: "int \<Rightarrow> money" where
  "money_units u = (case from_units u of Inr m \<Rightarrow> m | Inl _ \<Rightarrow> Money 0)"

definition all_categories :: "category list" where
  "all_categories =
     [CAT_LLM, CAT_TOOL, CAT_HOSTING, CAT_DOMAIN, CAT_EMAIL, CAT_ADS, CAT_PAYMENT, CAT_OTHER]"

definition category_sums :: "cost \<Rightarrow> (category \<times> money) list" where
  "category_sums c =
     map (\<lambda>k. (k, money_units (sum_list (map ex_units
            (filter (\<lambda>e. ex_category e = k) (ct_expenses c))))))
       (filter (\<lambda>k. k \<in> ex_category ` set (ct_expenses c)) all_categories)"

definition budget_get_state :: "cost \<Rightarrow> budget_state" where
  "budget_get_state c =
     \<lparr>bs_total = money_units (ct_total c), bs_spent = money_units (sum_expenses c),
      bs_reserved = money_units (sum_open_reservations c),
      bs_remaining =
        money_units (max 0 (ct_total c - sum_expenses c - sum_open_reservations c)),
      bs_by_category = category_sums c, bs_blocked = ct_blocked c\<rparr>"

definition can_afford :: "cost \<Rightarrow> money \<Rightarrow> bool" where
  "can_afford c amount =
     (let s = budget_get_state c in
      if bs_blocked s then False
      else to_units (bs_spent s) + to_units (bs_reserved s) + to_units amount
             \<le> to_units (bs_total s))"

definition budget_reservations :: "cost \<Rightarrow> reservation list" where
  "budget_reservations c = filter (\<lambda>r. rs_status r = OPEN) (ct_reservations c)"

section \<open>Thresholds\<close>

definition blocked_payload :: "int \<Rightarrow> int \<Rightarrow> int \<Rightarrow> payload" where
  "blocked_payload used limit attempted =
     [(''scope'', JStr ''company''), (''used_cents'', JInt (units_to_cents used)),
      (''limit_cents'', JInt (units_to_cents limit)), (''attempted_cents'', JInt attempted)]"

definition usage_pct :: "int \<Rightarrow> int \<Rightarrow> rat" where
  "usage_pct used tot = (if tot \<le> 0 then 0 else of_int used / of_int tot * 100)"

text \<open>\<^verbatim>\<open>_evaluate_thresholds_locked\<close>: the events to emit after the commit, and the new row.\<close>

definition evaluate_thresholds :: "cost \<Rightarrow> (event_kind \<times> payload) list \<times> cost" where
  "evaluate_thresholds c =
     (let tot = ct_total c; last = ct_last_pct c; blocked = ct_blocked c;
          used = sum_expenses c + sum_open_reservations c;
          pct = usage_pct used tot;
          (out, last1, blocked1) =
            (if pct \<ge> BLOCKED_PCT \<and> last < BLOCKED_PCT
             then ([(BUDGET_BLOCKED, blocked_payload used tot 0)], BLOCKED_PCT, True)
             else if pct \<ge> WARNING_PCT \<and> last < WARNING_PCT
             then ([(BUDGET_WARNING,
                     [(''scope'', JStr ''company''), (''used_cents'', JInt (units_to_cents used)),
                      (''limit_cents'', JInt (units_to_cents tot)),
                      (''ratio'', JFloat (pct / 100))])], WARNING_PCT, blocked)
             else ([], last, blocked));
          last2 = (if pct < WARNING_PCT \<and> last \<ge> WARNING_PCT then 0
                   else if pct < BLOCKED_PCT \<and> last \<ge> BLOCKED_PCT then WARNING_PCT
                   else last1);
          blocked2 = (if pct < BLOCKED_PCT \<and> blocked then False else blocked1)
      in (out, c\<lparr>ct_last_pct := last2, ct_blocked := blocked2\<rparr>))"

section \<open>Charges and reservations\<close>

definition budget_set_total :: "money \<Rightarrow> cost \<times> event_store \<Rightarrow> unit cost_out" where
  "budget_set_total amount s =
     (let (post, c') = evaluate_thresholds ((fst s)\<lparr>ct_total := to_units amount\<rparr>);
          (r, es) = append_all post None (snd s)
      in (r, c', es))"

text \<open>What a refused charge or commit writes in \<^verbatim>\<open>budget_state\<close>.\<close>

definition set_blocked :: "cost \<Rightarrow> cost" where
  "set_blocked c = c\<lparr>ct_blocked := True, ct_last_pct := BLOCKED_PCT\<rparr>"

definition refused_result :: charge_result where
  "refused_result = \<lparr>cr_ok = False, cr_reason = Some ''over_budget'', cr_expense_id = None\<rparr>"

definition ok_result :: "string \<Rightarrow> charge_result" where
  "ok_result i = \<lparr>cr_ok = True, cr_reason = None, cr_expense_id = Some i\<rparr>"

definition expense_event :: "int \<Rightarrow> category \<Rightarrow> string \<Rightarrow> string \<Rightarrow> event_kind \<times> payload" where
  "expense_event units cat note i =
     (EXPENSE_CHARGED,
      [(''amount_cents'', JInt (units_to_cents units)), (''category'', JStr (category_value cat)),
       (''note'', JStr note), (''request_id'', JStr i)])"

definition budget_charge ::
  "string \<Rightarrow> int \<Rightarrow> string option \<Rightarrow> money \<Rightarrow> category \<Rightarrow> string \<Rightarrow> string option
   \<Rightarrow> cost \<times> event_store \<Rightarrow> charge_result cost_out" where
  "budget_charge expense_id now agent amount cat memo approval s =
     (let c = fst s; units = to_units amount;
          spent = sum_expenses c; reserved = sum_open_reservations c;
          refuse = (BUDGET_BLOCKED,
            blocked_payload spent (ct_total c) (units_to_cents units))
      in
      if units < 0 then (Inl (ValueError ''charge amount must be non-negative''), s)
      else if ct_blocked c \<or> spent + reserved + units > ct_total c
      then
        (let c' = (if ct_blocked c then c else set_blocked c);
             (r, es) = append_all [refuse] agent (snd s)
         in (map_sum id (\<lambda>_. refused_result) r, c', es))
      else if tbl_find ex_id expense_id (ct_expenses c) \<noteq> None
      then (Inl (IntegrityError ''UNIQUE constraint failed: expenses.id''), s)
      else
        (let row = \<lparr>ex_id = expense_id, ex_agent_id = agent, ex_units = units, ex_category = cat,
                    ex_memo = memo, ex_approval_id = approval, ex_ts = now\<rparr>;
             (post, c') = evaluate_thresholds (c\<lparr>ct_expenses := ct_expenses c @ [row]\<rparr>);
             (r, es) = append_all (expense_event units cat memo expense_id # post) agent (snd s)
         in (map_sum id (\<lambda>_. ok_result expense_id) r, c', es)))"

definition budget_reserve ::
  "string \<Rightarrow> int \<Rightarrow> money \<Rightarrow> string \<Rightarrow> cost \<times> event_store \<Rightarrow> reservation cost_out" where
  "budget_reserve rid now amount ref s =
     (let c = fst s; units = to_units amount in
      if units < 0 then (Inl (ValueError ''reservation amount must be non-negative''), s)
      else if ct_blocked c \<or> sum_expenses c + sum_open_reservations c + units > ct_total c
      then (Inl (CostOverBudget ''reserve refused''), s)
      else if tbl_find rs_id rid (ct_reservations c) \<noteq> None
      then (Inl (IntegrityError ''UNIQUE constraint failed: reservations.id''), s)
      else
        (let row = \<lparr>rs_id = rid, rs_units = units, rs_ref = ref, rs_status = OPEN,
                    rs_created_at = now\<rparr>;
             (post, c') = evaluate_thresholds (c\<lparr>ct_reservations := ct_reservations c @ [row]\<rparr>);
             (r, es) = append_all post None (snd s)
         in (map_sum id (\<lambda>_. row) r, c', es)))"

definition set_rs_status :: "reservation_status \<Rightarrow> reservation \<Rightarrow> reservation" where
  "set_rs_status st r = r\<lparr>rs_status := st\<rparr>"

definition close_reservation :: "reservation_status \<Rightarrow> string \<Rightarrow> cost \<Rightarrow> cost" where
  "close_reservation st rid c =
     c\<lparr>ct_reservations := tbl_upd rs_id rid (set_rs_status st) (ct_reservations c)\<rparr>"

definition budget_release :: "string \<Rightarrow> cost \<times> event_store \<Rightarrow> unit cost_out" where
  "budget_release rid s =
     (case tbl_find rs_id rid (ct_reservations (fst s)) of
        None \<Rightarrow> (Inl (UnknownReservation rid), s)
      | Some r \<Rightarrow>
          if rs_status r \<noteq> OPEN then (Inl (ReservationAlreadyClosed rid), s)
          else (Inr (), close_reservation RELEASED rid (fst s), snd s))"

definition budget_commit ::
  "string \<Rightarrow> int \<Rightarrow> string \<Rightarrow> money \<Rightarrow> cost \<times> event_store \<Rightarrow> charge_result cost_out" where
  "budget_commit expense_id now rid actual s =
     (let c = fst s; units = to_units actual in
      if units < 0 then (Inl (ValueError ''actual amount must be non-negative''), s)
      else
       (case tbl_find rs_id rid (ct_reservations c) of
          None \<Rightarrow> (Inl (UnknownReservation rid), s)
        | Some row \<Rightarrow>
            if rs_status row \<noteq> OPEN then (Inl (ReservationAlreadyClosed rid), s)
            else
             (let spent = sum_expenses c;
                  other = sum_open_reservations c - rs_units row;
                  note = ''commit:'' @ rs_ref row
              in
              if ct_blocked c \<or> spent + other + units > ct_total c
              then
                (let (r, es) = append_all
                       [(BUDGET_BLOCKED, blocked_payload spent (ct_total c) (units_to_cents units))]
                       None (snd s)
                 in (map_sum id (\<lambda>_. refused_result) r,
                     set_blocked (close_reservation RELEASED rid c), es))
              else if tbl_find ex_id expense_id (ct_expenses c) \<noteq> None
              then (Inl (IntegrityError ''UNIQUE constraint failed: expenses.id''), s)
              else
                (let e = \<lparr>ex_id = expense_id, ex_agent_id = None, ex_units = units,
                          ex_category = CAT_OTHER, ex_memo = note, ex_approval_id = None,
                          ex_ts = now\<rparr>;
                     c1 = close_reservation COMMITTED rid c;
                     (post, c') = evaluate_thresholds (c1\<lparr>ct_expenses := ct_expenses c1 @ [e]\<rparr>);
                     (r, es) = append_all (expense_event units CAT_OTHER note expense_id # post)
                       None (snd s)
                 in (map_sum id (\<lambda>_. ok_result expense_id) r, c', es)))))"

section \<open>Subscriptions\<close>

definition subs_add ::
  "string \<Rightarrow> string \<Rightarrow> money \<Rightarrow> category \<Rightarrow> int \<Rightarrow> int \<Rightarrow> cost \<times> event_store \<Rightarrow> subscription cost_out" where
  "subs_add sub_id description amount cat next_day period s =
     (if period \<le> 0 then (Inl (ValueError ''period_days must be positive''), s)
      else if tbl_find su_id sub_id (ct_subs (fst s)) \<noteq> None
      then (Inl (IntegrityError ''UNIQUE constraint failed: subscriptions.id''), s)
      else
        let row = \<lparr>su_id = sub_id, su_description = description, su_units = to_units amount,
                   su_category = cat, su_next_day = next_day, su_period = period,
                   su_cancelled = False\<rparr>
        in (Inr row, (fst s)\<lparr>ct_subs := ct_subs (fst s) @ [row]\<rparr>, snd s))"

definition cancel_sub :: "subscription \<Rightarrow> subscription" where
  "cancel_sub r = r\<lparr>su_cancelled := True\<rparr>"

definition set_next_day :: "int \<Rightarrow> subscription \<Rightarrow> subscription" where
  "set_next_day d r = r\<lparr>su_next_day := d\<rparr>"

definition subs_remove :: "string \<Rightarrow> cost \<times> event_store \<Rightarrow> unit cost_out" where
  "subs_remove i s =
     (Inr (), (fst s)\<lparr>ct_subs := tbl_upd su_id i cancel_sub (ct_subs (fst s))\<rparr>, snd s)"

definition subs_all :: "bool \<Rightarrow> cost \<Rightarrow> subscription list" where
  "subs_all include_cancelled c =
     (if include_cancelled then ct_subs c else filter (\<lambda>r. \<not> su_cancelled r) (ct_subs c))"

definition sub_due :: "int \<Rightarrow> subscription \<Rightarrow> bool" where
  "sub_due day r \<longleftrightarrow> \<not> su_cancelled r \<and> su_next_day r \<le> day"

definition subs_due :: "int \<Rightarrow> cost \<Rightarrow> subscription list" where
  "subs_due day c =
     sort_key su_next_day (sort_key su_id (filter (sub_due day) (ct_subs c)))"

text \<open>The loop of \<^verbatim>\<open>on_day_tick\<close> over the due rows read at its start; \<open>eid\<close> gives the fresh expense
  id of each charge. A raise ends the loop where it is.\<close>

fun tick_loop ::
  "(string \<Rightarrow> string) \<Rightarrow> int \<Rightarrow> subscription list \<Rightarrow> cost \<times> event_store \<Rightarrow> unit cost_out" where
  "tick_loop eid now [] s = (Inr (), s)"
| "tick_loop eid now (sub # rest) s =
     andthen
       (budget_charge (eid (su_id sub)) now None (money_units (su_units sub)) (su_category sub)
          (''subscription:'' @ su_description sub) None s)
       (\<lambda>res s1. tick_loop eid now rest
          ((fst s1)\<lparr>ct_subs := tbl_upd su_id (su_id sub)
             (if cr_ok res then set_next_day (su_next_day sub + su_period sub) else cancel_sub)
             (ct_subs (fst s1))\<rparr>, snd s1))"

definition subs_on_day_tick ::
  "(string \<Rightarrow> string) \<Rightarrow> int \<Rightarrow> int \<Rightarrow> cost \<times> event_store \<Rightarrow> unit cost_out" where
  "subs_on_day_tick eid now day s = tick_loop eid now (subs_due day (fst s)) s"

section \<open>Lemmas on money and sums\<close>

lemma round_half_up_int [simp]: "round_half_up (of_int n) = n"
  unfolding round_half_up_def by (auto simp: floor_eq_iff)

lemma to_decimal_units [simp]: "to_decimal (of_int u / 10000) = of_int u / 10000"
  by (simp add: to_decimal_def)

lemma from_units_ok: "0 \<le> u \<Longrightarrow> from_units u = Inr (Money (of_int u / 10000))"
  by (simp add: from_units_def mk_money_def)

lemma to_units_Money [simp]: "to_units (Money (of_int u / 10000)) = u"
  by (simp add: to_units_def)

lemma to_units_money_units: "0 \<le> u \<Longrightarrow> to_units (money_units u) = u"
  by (simp add: money_units_def from_units_ok)

definition used_units :: "cost \<Rightarrow> int" where
  "used_units c = sum_expenses c + sum_open_reservations c"

interpretation rs_close: pk_update rs_id "set_rs_status st"
  by unfold_locales (simp add: set_rs_status_def)

interpretation su_cancel: pk_update su_id cancel_sub
  by unfold_locales (simp add: cancel_sub_def)

interpretation su_advance: pk_update su_id "set_next_day d"
  by unfold_locales (simp add: set_next_day_def)

lemma sum_closed:
  assumes "tbl_pk rs_id (ct_reservations c)" and "tbl_find rs_id rid (ct_reservations c) = Some r"
    and "rs_status r = OPEN" and "st \<noteq> OPEN"
  shows "sum_open_reservations (close_reservation st rid c) = sum_open_reservations c - rs_units r"
  using sum_list_map_upd[OF assms(1,2), of open_units "set_rs_status st"] assms(3,4)
  by (simp add: sum_open_reservations_def close_reservation_def open_units_def set_rs_status_def)

lemma close_simps [simp]:
  "ct_total (close_reservation st i c) = ct_total c"
  "ct_blocked (close_reservation st i c) = ct_blocked c"
  "ct_last_pct (close_reservation st i c) = ct_last_pct c"
  "ct_expenses (close_reservation st i c) = ct_expenses c"
  "ct_subs (close_reservation st i c) = ct_subs c"
  by (simp_all add: close_reservation_def)

section \<open>Thresholds settle on a level\<close>

definition level :: "rat \<Rightarrow> rat" where
  "level pct = (if pct \<ge> 100 then 100 else if pct \<ge> 80 then 80 else 0)"

definition flag_ok :: "cost \<Rightarrow> bool" where
  "flag_ok c \<longleftrightarrow> ct_last_pct c \<in> {0, 80, 100} \<and> (ct_blocked c \<longleftrightarrow> ct_last_pct c = 100)"

definition cost_pct :: "cost \<Rightarrow> rat" where
  "cost_pct c = usage_pct (used_units c) (ct_total c)"

definition threshold_events :: "cost \<Rightarrow> (event_kind \<times> payload) list" where
  "threshold_events c =
     (if level (cost_pct c) \<le> ct_last_pct c then []
      else if cost_pct c \<ge> 100
      then [(BUDGET_BLOCKED, blocked_payload (used_units c) (ct_total c) 0)]
      else [(BUDGET_WARNING,
             [(''scope'', JStr ''company''), (''used_cents'', JInt (units_to_cents (used_units c))),
              (''limit_cents'', JInt (units_to_cents (ct_total c))),
              (''ratio'', JFloat (cost_pct c / 100))])])"

lemma evaluate_thresholds_result:
  assumes "flag_ok c"
  shows "evaluate_thresholds c =
           (threshold_events c,
            c\<lparr>ct_last_pct := level (cost_pct c), ct_blocked := cost_pct c \<ge> 100\<rparr>)"
proof -
  consider "ct_last_pct c = 0" "\<not> ct_blocked c" | "ct_last_pct c = 80" "\<not> ct_blocked c"
    | "ct_last_pct c = 100" "ct_blocked c"
    using assms by (auto simp: flag_ok_def)
  then show ?thesis
    by cases
       (auto simp: evaluate_thresholds_def threshold_events_def Let_def cost_pct_def used_units_def
         level_def WARNING_PCT_def BLOCKED_PCT_def)
qed

lemma used_units_flags [simp]:
  "used_units (c\<lparr>ct_last_pct := l, ct_blocked := b\<rparr>) = used_units c"
  "used_units (c\<lparr>ct_total := n\<rparr>) = used_units c"
  "used_units (c\<lparr>ct_subs := us\<rparr>) = used_units c"
  "used_units (set_blocked c) = used_units c"
  by (simp_all add: used_units_def sum_expenses_def sum_open_reservations_def set_blocked_def)

lemma used_units_expense [simp]:
  "used_units (c\<lparr>ct_expenses := ct_expenses c @ [e]\<rparr>) = used_units c + ex_units e"
  by (simp add: used_units_def sum_expenses_def sum_open_reservations_def)

lemma used_units_reservation [simp]:
  "used_units (c\<lparr>ct_reservations := ct_reservations c @ [r]\<rparr>) = used_units c + open_units r"
  by (simp add: used_units_def sum_expenses_def sum_open_reservations_def)

section \<open>The invariant\<close>

definition cost_inv :: "cost \<times> event_store \<Rightarrow> bool" where
  "cost_inv s \<longleftrightarrow>
     flag_ok (fst s) \<and> tbl_pk ex_id (ct_expenses (fst s)) \<and> tbl_pk rs_id (ct_reservations (fst s)) \<and>
     tbl_pk su_id (ct_subs (fst s)) \<and>
     (\<forall>e\<in>set (ct_expenses (fst s)). 0 \<le> ex_units e) \<and>
     (\<forall>r\<in>set (ct_reservations (fst s)). 0 \<le> rs_units r)"

lemma flag_ok_level [simp]:
  "flag_ok (c\<lparr>ct_last_pct := level p, ct_blocked := 100 \<le> p\<rparr>)"
  by (simp add: flag_ok_def level_def)

lemma flag_ok_cong [simp]:
  "flag_ok (c\<lparr>ct_total := n\<rparr>) = flag_ok c" "flag_ok (c\<lparr>ct_expenses := es\<rparr>) = flag_ok c"
  "flag_ok (c\<lparr>ct_reservations := rs\<rparr>) = flag_ok c" "flag_ok (c\<lparr>ct_subs := us\<rparr>) = flag_ok c"
  "flag_ok (close_reservation st i c) = flag_ok c" "flag_ok (set_blocked c)"
  by (simp_all add: flag_ok_def set_blocked_def BLOCKED_PCT_def)

text \<open>The state a charge leaves, by case.\<close>

lemma charge_cases:
  assumes "flag_ok (fst s)"
  obtains (error) e where "budget_charge i now ag m cat memo ap s = (Inl e, s)"
      "to_units m < 0 \<or> tbl_find ex_id i (ct_expenses (fst s)) \<noteq> None"
  | (refused) r es where
      "budget_charge i now ag m cat memo ap s =
         (map_sum id (\<lambda>_. refused_result) r, if ct_blocked (fst s) then fst s else set_blocked (fst s), es)"
      "append_all [(BUDGET_BLOCKED, blocked_payload (sum_expenses (fst s)) (ct_total (fst s))
          (units_to_cents (to_units m)))] ag (snd s) = (r, es)"
      "ct_blocked (fst s) \<or> used_units (fst s) + to_units m > ct_total (fst s)" "0 \<le> to_units m"
  | (charged) r es row c1 where
      "budget_charge i now ag m cat memo ap s =
         (map_sum id (\<lambda>_. ok_result i) r,
          c1\<lparr>ct_last_pct := level (cost_pct c1), ct_blocked := cost_pct c1 \<ge> 100\<rparr>, es)"
      "c1 = (fst s)\<lparr>ct_expenses := ct_expenses (fst s) @ [row]\<rparr>"
      "append_all (expense_event (to_units m) cat memo i # threshold_events c1) ag (snd s) = (r, es)"
      "row = \<lparr>ex_id = i, ex_agent_id = ag, ex_units = to_units m, ex_category = cat,
              ex_memo = memo, ex_approval_id = ap, ex_ts = now\<rparr>"
      "0 \<le> to_units m" "\<not> ct_blocked (fst s)"
      "used_units (fst s) + to_units m \<le> ct_total (fst s)"
      "tbl_find ex_id i (ct_expenses (fst s)) = None"
proof -
  let ?c = "fst s"
  consider "to_units m < 0"
    | "0 \<le> to_units m" "ct_blocked ?c \<or> used_units ?c + to_units m > ct_total ?c"
    | "0 \<le> to_units m" "\<not> ct_blocked ?c" "used_units ?c + to_units m \<le> ct_total ?c"
      "tbl_find ex_id i (ct_expenses ?c) \<noteq> None"
    | "0 \<le> to_units m" "\<not> ct_blocked ?c" "used_units ?c + to_units m \<le> ct_total ?c"
      "tbl_find ex_id i (ct_expenses ?c) = None"
    by (metis not_le)
  then show thesis
  proof cases
    case 1
    then show thesis by (intro error) (auto simp: budget_charge_def Let_def)
  next
    case 2
    obtain r es where app: "append_all [(BUDGET_BLOCKED, blocked_payload (sum_expenses ?c) (ct_total ?c)
        (units_to_cents (to_units m)))] ag (snd s) = (r, es)" by (meson surj_pair)
    have "budget_charge i now ag m cat memo ap s =
        (map_sum id (\<lambda>_. refused_result) r, if ct_blocked ?c then ?c else set_blocked ?c, es)"
      using 2 app by (simp add: budget_charge_def Let_def used_units_def add.assoc)
    then show thesis using refused app 2 by blast
  next
    case 3
    then show thesis
      by (intro error) (auto simp: budget_charge_def Let_def used_units_def)
  next
    case 4
    define row where "row = \<lparr>ex_id = i, ex_agent_id = ag, ex_units = to_units m, ex_category = cat,
        ex_memo = memo, ex_approval_id = ap, ex_ts = now\<rparr>"
    define c1 where "c1 = ?c\<lparr>ct_expenses := ct_expenses ?c @ [row]\<rparr>"
    have ev: "evaluate_thresholds c1 =
        (threshold_events c1, c1\<lparr>ct_last_pct := level (cost_pct c1), ct_blocked := cost_pct c1 \<ge> 100\<rparr>)"
      by (rule evaluate_thresholds_result) (simp add: c1_def assms)
    obtain r es where app: "append_all (expense_event (to_units m) cat memo i # threshold_events c1)
        ag (snd s) = (r, es)" by (meson surj_pair)
    have "budget_charge i now ag m cat memo ap s =
        (map_sum id (\<lambda>_. ok_result i) r,
         c1\<lparr>ct_last_pct := level (cost_pct c1), ct_blocked := cost_pct c1 \<ge> 100\<rparr>, es)"
      using 4 ev app
      by (simp add: budget_charge_def Let_def used_units_def add.assoc row_def[symmetric] c1_def[symmetric])
    then show thesis using charged[OF _ c1_def app row_def] 4 by blast
  qed
qed

lemma reserve_cases:
  assumes "flag_ok (fst s)"
  obtains (error) e where "budget_reserve i now m ref s = (Inl e, s)"
      "to_units m < 0 \<or> ct_blocked (fst s) \<or> used_units (fst s) + to_units m > ct_total (fst s) \<or>
       tbl_find rs_id i (ct_reservations (fst s)) \<noteq> None"
  | (reserved) r es row c1 where
      "budget_reserve i now m ref s =
         (map_sum id (\<lambda>_. row) r,
          c1\<lparr>ct_last_pct := level (cost_pct c1), ct_blocked := cost_pct c1 \<ge> 100\<rparr>, es)"
      "c1 = (fst s)\<lparr>ct_reservations := ct_reservations (fst s) @ [row]\<rparr>"
      "append_all (threshold_events c1) None (snd s) = (r, es)"
      "row = \<lparr>rs_id = i, rs_units = to_units m, rs_ref = ref, rs_status = OPEN, rs_created_at = now\<rparr>"
      "0 \<le> to_units m" "\<not> ct_blocked (fst s)" "used_units (fst s) + to_units m \<le> ct_total (fst s)"
      "tbl_find rs_id i (ct_reservations (fst s)) = None"
proof (cases "to_units m < 0 \<or> ct_blocked (fst s) \<or> used_units (fst s) + to_units m > ct_total (fst s) \<or>
       tbl_find rs_id i (ct_reservations (fst s)) \<noteq> None")
  case True
  then have "\<exists>e. budget_reserve i now m ref s = (Inl e, s)"
    by (auto simp: budget_reserve_def Let_def used_units_def)
  with True error show thesis by blast
next
  case False
  define row where "row = \<lparr>rs_id = i, rs_units = to_units m, rs_ref = ref, rs_status = OPEN,
      rs_created_at = now\<rparr>"
  define c1 where "c1 = (fst s)\<lparr>ct_reservations := ct_reservations (fst s) @ [row]\<rparr>"
  have ev: "evaluate_thresholds c1 =
      (threshold_events c1, c1\<lparr>ct_last_pct := level (cost_pct c1), ct_blocked := cost_pct c1 \<ge> 100\<rparr>)"
    by (rule evaluate_thresholds_result) (simp add: c1_def assms)
  obtain r es where app: "append_all (threshold_events c1) None (snd s) = (r, es)" by (meson surj_pair)
  have "budget_reserve i now m ref s = (map_sum id (\<lambda>_. row) r,
      c1\<lparr>ct_last_pct := level (cost_pct c1), ct_blocked := cost_pct c1 \<ge> 100\<rparr>, es)"
    using False ev app
    by (simp add: budget_reserve_def Let_def used_units_def row_def[symmetric] c1_def[symmetric])
  then show thesis using reserved[OF _ c1_def app row_def] False by simp
qed

lemma release_cases:
  obtains (error) e where "budget_release rid s = (Inl e, s)"
  | (released) r where "budget_release rid s = (Inr (), close_reservation RELEASED rid (fst s), snd s)"
      "tbl_find rs_id rid (ct_reservations (fst s)) = Some r" "rs_status r = OPEN"
  by (cases "tbl_find rs_id rid (ct_reservations (fst s))"; cases "rs_status (the (tbl_find rs_id rid (ct_reservations (fst s)))) = OPEN")
     (auto simp: budget_release_def)

lemma commit_cases:
  assumes "flag_ok (fst s)"
  obtains (error) e where "budget_commit i now rid m s = (Inl e, s)"
  | (refused) r :: "exn + unit" and es row where
      "budget_commit i now rid m s =
         (map_sum id (\<lambda>_. refused_result) r, set_blocked (close_reservation RELEASED rid (fst s)), es)"
      "tbl_find rs_id rid (ct_reservations (fst s)) = Some row" "rs_status row = OPEN"
      "ct_blocked (fst s) \<or> used_units (fst s) - rs_units row + to_units m > ct_total (fst s)"
  | (committed) r :: "exn + unit" and es row e c1 where
      "budget_commit i now rid m s =
         (map_sum id (\<lambda>_. ok_result i) r,
          c1\<lparr>ct_last_pct := level (cost_pct c1), ct_blocked := cost_pct c1 \<ge> 100\<rparr>, es)"
      "c1 = (close_reservation COMMITTED rid (fst s))\<lparr>ct_expenses := ct_expenses (fst s) @ [e]\<rparr>"
      "tbl_find rs_id rid (ct_reservations (fst s)) = Some row" "rs_status row = OPEN"
      "ex_id e = i" "ex_units e = to_units m" "0 \<le> to_units m" "\<not> ct_blocked (fst s)"
      "used_units (fst s) - rs_units row + to_units m \<le> ct_total (fst s)"
      "tbl_find ex_id i (ct_expenses (fst s)) = None"
proof (cases "to_units m < 0 \<or> tbl_find rs_id rid (ct_reservations (fst s)) = None \<or>
    rs_status (the (tbl_find rs_id rid (ct_reservations (fst s)))) \<noteq> OPEN")
  case True
  then have "\<exists>e. budget_commit i now rid m s = (Inl e, s)"
    by (auto simp: budget_commit_def Let_def split: option.splits)
  with error show thesis by blast
next
  case False
  then obtain row where row: "tbl_find rs_id rid (ct_reservations (fst s)) = Some row"
    "rs_status row = OPEN" "0 \<le> to_units m" by auto
  let ?over = "ct_blocked (fst s) \<or> used_units (fst s) - rs_units row + to_units m > ct_total (fst s)"
  show thesis
  proof (cases ?over)
    case True
    then have "\<exists>(r :: exn + unit) es. budget_commit i now rid m s =
        (map_sum id (\<lambda>_. refused_result) r, set_blocked (close_reservation RELEASED rid (fst s)), es)"
    proof -
      obtain r es where "append_all [(BUDGET_BLOCKED, blocked_payload (sum_expenses (fst s))
          (ct_total (fst s)) (units_to_cents (to_units m)))] None (snd s) = (r, es)"
        by (meson surj_pair)
      with row True show ?thesis
        by (intro exI[of _ r] exI[of _ es])
           (simp add: budget_commit_def Let_def used_units_def algebra_simps)
    qed
    then show thesis using refused row True by blast
  next
    case False
    show thesis
    proof (cases "tbl_find ex_id i (ct_expenses (fst s)) = None")
      case True
      define e where "e = \<lparr>ex_id = i, ex_agent_id = None, ex_units = to_units m,
          ex_category = CAT_OTHER, ex_memo = ''commit:'' @ rs_ref row, ex_approval_id = None, ex_ts = now\<rparr>"
      define c1 where "c1 = (close_reservation COMMITTED rid (fst s))
          \<lparr>ct_expenses := ct_expenses (fst s) @ [e]\<rparr>"
      have ev: "evaluate_thresholds c1 =
          (threshold_events c1, c1\<lparr>ct_last_pct := level (cost_pct c1), ct_blocked := cost_pct c1 \<ge> 100\<rparr>)"
        by (rule evaluate_thresholds_result) (simp add: c1_def assms)
      have "\<exists>(r :: exn + unit) es. budget_commit i now rid m s = (map_sum id (\<lambda>_. ok_result i) r,
          c1\<lparr>ct_last_pct := level (cost_pct c1), ct_blocked := cost_pct c1 \<ge> 100\<rparr>, es)"
      proof -
        obtain r es where "append_all (expense_event (to_units m) CAT_OTHER (''commit:'' @ rs_ref row) i
            # threshold_events c1) None (snd s) = (r, es)" by (meson surj_pair)
        with False True row ev show ?thesis
          by (intro exI[of _ r] exI[of _ es])
             (simp add: budget_commit_def Let_def used_units_def e_def c1_def algebra_simps)
      qed
      moreover have "ex_id e = i" "ex_units e = to_units m" by (simp_all add: e_def)
      ultimately show thesis using committed[OF _ c1_def row(1,2)] False True row(3) by auto
    next
      case exists: False
      have "\<exists>e. budget_commit i now rid m s = (Inl e, s)"
        using False exists row
        by (auto simp: budget_commit_def Let_def used_units_def algebra_simps)
      with error show thesis by blast
    qed
  qed
qed

section \<open>Steps\<close>

text \<open>Everything but \<^verbatim>\<open>set_total\<close>; the last rule is one update of the day-tick loop.\<close>

inductive spend_step :: "cost \<times> event_store \<Rightarrow> cost \<times> event_store \<Rightarrow> bool" where
  sp_charge: "spend_step s (snd (budget_charge i now ag m cat memo ap s))"
| sp_reserve: "spend_step s (snd (budget_reserve i now m ref s))"
| sp_release: "spend_step s (snd (budget_release rid s))"
| sp_commit: "spend_step s (snd (budget_commit i now rid m s))"
| sp_subs_add: "spend_step s (snd (subs_add i d m cat n p s))"
| sp_subs_upd: "f = cancel_sub \<or> f = set_next_day d \<Longrightarrow>
     spend_step s ((fst s)\<lparr>ct_subs := tbl_upd su_id i f (ct_subs (fst s))\<rparr>, snd s)"

inductive cost_step :: "cost \<times> event_store \<Rightarrow> cost \<times> event_store \<Rightarrow> bool" where
  cs_spend: "spend_step s t \<Longrightarrow> cost_step s t"
| cs_total: "cost_step s (snd (budget_set_total m s))"

definition cost_init :: "cost \<times> event_store \<Rightarrow> bool" where
  "cost_init s \<longleftrightarrow>
     fst s = \<lparr>ct_total = 0, ct_blocked = False, ct_last_pct = 0, ct_expenses = [],
              ct_reservations = [], ct_subs = []\<rparr>"

lemma remove_steps: "spend_step s (snd (subs_remove i s))"
  using sp_subs_upd[of cancel_sub 0 s i] by (simp add: subs_remove_def)

lemma tick_loop_steps: "spend_step\<^sup>*\<^sup>* s (snd (tick_loop eid now subs s))"
proof (induction subs arbitrary: s)
  case (Cons sub rest)
  obtain r s1 where ch: "budget_charge (eid (su_id sub)) now None (money_units (su_units sub))
      (su_category sub) (''subscription:'' @ su_description sub) None s = (r, s1)"
    by (meson surj_pair)
  then have step: "spend_step s s1" using sp_charge by (metis snd_conv)
  show ?case
  proof (cases r)
    case (Inl e)
    with ch step show ?thesis by auto
  next
    case (Inr res)
    let ?f = "if cr_ok res then set_next_day (su_next_day sub + su_period sub) else cancel_sub"
    let ?s2 = "((fst s1)\<lparr>ct_subs := tbl_upd su_id (su_id sub) ?f (ct_subs (fst s1))\<rparr>, snd s1)"
    have "spend_step s1 ?s2"
      by (rule sp_subs_upd[where d = "su_next_day sub + su_period sub"]) auto
    then have "spend_step\<^sup>*\<^sup>* s1 (snd (tick_loop eid now rest ?s2))"
      by (rule converse_rtranclp_into_rtranclp) (rule Cons.IH)
    with step have "spend_step\<^sup>*\<^sup>* s (snd (tick_loop eid now rest ?s2))"
      by (rule converse_rtranclp_into_rtranclp)
    then show ?thesis unfolding tick_loop.simps ch Inr by simp
  qed
qed simp

subsection \<open>What one step can do\<close>

definition rs_kept :: "cost \<Rightarrow> cost \<Rightarrow> bool" where
  "rs_kept c d \<longleftrightarrow>
     (\<forall>i r. tbl_find rs_id i (ct_reservations c) = Some r \<longrightarrow>
        (\<exists>r'. tbl_find rs_id i (ct_reservations d) = Some r' \<and> rs_units r' = rs_units r \<and>
              rs_ref r' = rs_ref r \<and> (rs_status r \<noteq> OPEN \<longrightarrow> r' = r)))"

definition step_ok :: "cost \<times> event_store \<Rightarrow> cost \<times> event_store \<Rightarrow> bool" where
  "step_ok s t \<longleftrightarrow>
     cost_inv t \<and> ct_total (fst t) = ct_total (fst s) \<and>
     (ct_blocked (fst s) \<longrightarrow> ct_blocked (fst t)) \<and>
     (used_units (fst t) \<le> used_units (fst s) \<or> used_units (fst t) \<le> ct_total (fst t)) \<and>
     rs_kept (fst s) (fst t)"

lemma set_blocked_simps [simp]:
  "ct_total (set_blocked c) = ct_total c" "ct_blocked (set_blocked c)"
  "ct_expenses (set_blocked c) = ct_expenses c" "ct_reservations (set_blocked c) = ct_reservations c"
  "ct_subs (set_blocked c) = ct_subs c" "ct_last_pct (set_blocked c) = 100"
  by (simp_all add: set_blocked_def BLOCKED_PCT_def)

lemma rs_kept_same: "ct_reservations d = ct_reservations c \<Longrightarrow> rs_kept c d"
  by (simp add: rs_kept_def)

lemma rs_kept_close:
  assumes "tbl_find rs_id i (ct_reservations c) = Some r" and "rs_status r = OPEN"
  shows "rs_kept c (close_reservation st i c)"
  using assms by (auto simp: rs_kept_def close_reservation_def rs_close.find_upd set_rs_status_def)

lemma rs_kept_insert: "rs_kept c (c\<lparr>ct_reservations := ct_reservations c @ [r]\<rparr>)"
  by (auto simp: rs_kept_def tbl_find_append split: option.splits)

lemma cost_inv_flags:
  "cost_inv (c, es) \<Longrightarrow> cost_inv (c\<lparr>ct_last_pct := level p, ct_blocked := 100 \<le> p\<rparr>, es')"
  by (simp add: cost_inv_def)

lemma cost_inv_set_blocked: "cost_inv (c, es) \<Longrightarrow> cost_inv (set_blocked c, es')"
  unfolding cost_inv_def fst_conv by (auto simp: set_blocked_def flag_ok_def BLOCKED_PCT_def)

lemma cost_inv_es: "cost_inv (c, es) \<Longrightarrow> cost_inv (c, es')"
  by (simp add: cost_inv_def)

lemma cost_inv_close: "cost_inv (c, es) \<Longrightarrow> cost_inv (close_reservation st i c, es')"
  unfolding cost_inv_def fst_conv flag_ok_cong
  by (auto simp: close_reservation_def rs_close.pk_upd set_tbl_upd set_rs_status_def)

lemma cost_inv_expense:
  "cost_inv (c, es) \<Longrightarrow> tbl_find ex_id (ex_id e) (ct_expenses c) = None \<Longrightarrow> 0 \<le> ex_units e \<Longrightarrow>
     cost_inv (c\<lparr>ct_expenses := ct_expenses c @ [e]\<rparr>, es')"
  by (auto simp: cost_inv_def tbl_pk_insert)

lemma cost_inv_reservation:
  "cost_inv (c, es) \<Longrightarrow> tbl_find rs_id (rs_id r) (ct_reservations c) = None \<Longrightarrow> 0 \<le> rs_units r \<Longrightarrow>
     cost_inv (c\<lparr>ct_reservations := ct_reservations c @ [r]\<rparr>, es')"
  by (auto simp: cost_inv_def tbl_pk_insert)

lemma open_units_le:
  assumes "cost_inv s" and "tbl_find rs_id i (ct_reservations (fst s)) = Some r" and "rs_status r = OPEN"
    and "st \<noteq> OPEN"
  shows "used_units (close_reservation st i (fst s)) = used_units (fst s) - rs_units r" and "0 \<le> rs_units r"
  using assms sum_closed[of "fst s" i r st]
  by (auto simp: cost_inv_def used_units_def sum_expenses_def dest: tbl_find_Some_in)

lemma step_ok_refl: "cost_inv s \<Longrightarrow> step_ok s s"
  by (simp add: step_ok_def rs_kept_same)

lemma charge_step_ok:
  assumes inv: "cost_inv s" shows "step_ok s (snd (budget_charge i now ag m cat memo ap s))"
proof -
  obtain c es where s: "s = (c, es)" by (cases s)
  have "flag_ok (fst s)" using inv by (simp add: cost_inv_def)
  then show ?thesis
  proof (rule charge_cases[of s i now ag m cat memo ap])
    fix e assume "budget_charge i now ag m cat memo ap s = (Inl e, s)"
    with inv show ?thesis by (simp add: step_ok_refl)
  next
    fix r es1
    assume "budget_charge i now ag m cat memo ap s =
        (map_sum id (\<lambda>_. refused_result) r, if ct_blocked (fst s) then fst s else set_blocked (fst s), es1)"
    with inv cost_inv_set_blocked[of c es es1] cost_inv_es[of c es es1] show ?thesis
      by (auto simp: step_ok_def s rs_kept_same)
  next
    fix r es1 row c1
    assume a: "budget_charge i now ag m cat memo ap s = (map_sum id (\<lambda>_. ok_result i) r,
          c1\<lparr>ct_last_pct := level (cost_pct c1), ct_blocked := cost_pct c1 \<ge> 100\<rparr>, es1)"
      and c1: "c1 = (fst s)\<lparr>ct_expenses := ct_expenses (fst s) @ [row]\<rparr>"
      and row: "row = \<lparr>ex_id = i, ex_agent_id = ag, ex_units = to_units m, ex_category = cat,
              ex_memo = memo, ex_approval_id = ap, ex_ts = now\<rparr>"
      and fit: "0 \<le> to_units m" "\<not> ct_blocked (fst s)" "used_units (fst s) + to_units m \<le> ct_total (fst s)"
      "tbl_find ex_id i (ct_expenses (fst s)) = None"
    have "cost_inv (c1, es1)"
      unfolding c1 by (rule cost_inv_expense[of _ es]) (use inv fit in \<open>simp_all add: s row\<close>)
    then have "cost_inv (snd (budget_charge i now ag m cat memo ap s))"
      unfolding a snd_conv by (rule cost_inv_flags)
    with fit show ?thesis
      unfolding a by (simp add: step_ok_def rs_kept_same c1 row)
  qed
qed

lemma reserve_step_ok:
  assumes inv: "cost_inv s" shows "step_ok s (snd (budget_reserve i now m ref s))"
proof -
  obtain c es where s: "s = (c, es)" by (cases s)
  have "flag_ok (fst s)" using inv by (simp add: cost_inv_def)
  then show ?thesis
  proof (rule reserve_cases[of s i now m ref])
    fix e assume "budget_reserve i now m ref s = (Inl e, s)"
    with inv show ?thesis by (simp add: step_ok_refl)
  next
    fix r es1 row c1
    assume a: "budget_reserve i now m ref s = (map_sum id (\<lambda>_. row) r,
          c1\<lparr>ct_last_pct := level (cost_pct c1), ct_blocked := cost_pct c1 \<ge> 100\<rparr>, es1)"
      and c1: "c1 = (fst s)\<lparr>ct_reservations := ct_reservations (fst s) @ [row]\<rparr>"
      and row: "row = \<lparr>rs_id = i, rs_units = to_units m, rs_ref = ref, rs_status = OPEN, rs_created_at = now\<rparr>"
      and fit: "0 \<le> to_units m" "\<not> ct_blocked (fst s)" "used_units (fst s) + to_units m \<le> ct_total (fst s)"
      "tbl_find rs_id i (ct_reservations (fst s)) = None"
    have "cost_inv (c1, es1)"
      unfolding c1 by (rule cost_inv_reservation[of _ es]) (use inv fit in \<open>simp_all add: s row\<close>)
    then have "cost_inv (snd (budget_reserve i now m ref s))"
      unfolding a snd_conv by (rule cost_inv_flags)
    moreover have "rs_kept (fst s) (fst (snd (budget_reserve i now m ref s)))"
      unfolding a c1 using rs_kept_insert[of "fst s" row] by (simp add: rs_kept_def)
    ultimately show ?thesis
      using fit unfolding a by (simp add: step_ok_def c1 row open_units_def)
  qed
qed

lemma release_step_ok:
  assumes inv: "cost_inv s" shows "step_ok s (snd (budget_release rid s))"
proof (cases rule: release_cases[of rid s])
  case (released r)
  have "cost_inv (close_reservation RELEASED rid (fst s), snd s)"
    by (rule cost_inv_close[of _ "snd s"]) (simp add: inv)
  with open_units_le[OF inv released(2,3), of RELEASED] rs_kept_close[OF released(2,3)] show ?thesis
    by (simp add: released(1) step_ok_def)
qed (use inv in \<open>simp add: step_ok_refl\<close>)

lemma commit_step_ok:
  assumes inv: "cost_inv s" shows "step_ok s (snd (budget_commit i now rid m s))"
proof -
  have s: "cost_inv (fst s, snd s)" using inv by simp
  have "flag_ok (fst s)" using inv by (simp add: cost_inv_def)
  then show ?thesis
  proof (rule commit_cases[of s i now rid m])
    fix e assume "budget_commit i now rid m s = (Inl e, s)"
    with inv show ?thesis by (simp add: step_ok_refl)
  next
    fix r :: "exn + unit" and es1 row
    assume a: "budget_commit i now rid m s =
         (map_sum id (\<lambda>_. refused_result) r, set_blocked (close_reservation RELEASED rid (fst s)), es1)"
      and row: "tbl_find rs_id rid (ct_reservations (fst s)) = Some row" "rs_status row = OPEN"
    have "cost_inv (set_blocked (close_reservation RELEASED rid (fst s)), es1)"
      by (rule cost_inv_set_blocked, rule cost_inv_close, rule s)
    moreover have "rs_kept (fst s) (set_blocked (close_reservation RELEASED rid (fst s)))"
      using rs_kept_close[OF row, of RELEASED] by (simp add: rs_kept_def set_blocked_def)
    ultimately show ?thesis
      using open_units_le[OF inv row, of RELEASED] unfolding a by (simp add: step_ok_def)
  next
    fix r :: "exn + unit" and es1 row e c1
    assume a: "budget_commit i now rid m s = (map_sum id (\<lambda>_. ok_result i) r,
          c1\<lparr>ct_last_pct := level (cost_pct c1), ct_blocked := cost_pct c1 \<ge> 100\<rparr>, es1)"
      and c1: "c1 = (close_reservation COMMITTED rid (fst s))\<lparr>ct_expenses := ct_expenses (fst s) @ [e]\<rparr>"
      and row: "tbl_find rs_id rid (ct_reservations (fst s)) = Some row" "rs_status row = OPEN"
      and e: "ex_id e = i" "ex_units e = to_units m" "0 \<le> to_units m" "\<not> ct_blocked (fst s)"
      "used_units (fst s) - rs_units row + to_units m \<le> ct_total (fst s)"
      "tbl_find ex_id i (ct_expenses (fst s)) = None"
    define c2 where "c2 = close_reservation COMMITTED rid (fst s)"
    have c2: "c1 = c2\<lparr>ct_expenses := ct_expenses c2 @ [e]\<rparr>" by (simp add: c1 c2_def)
    have "cost_inv (c2, es1)" unfolding c2_def by (rule cost_inv_close, rule s)
    then have "cost_inv (c1, es1)"
      unfolding c2 by (rule cost_inv_expense) (use e in \<open>simp_all add: c2_def\<close>)
    then have "cost_inv (snd (budget_commit i now rid m s))"
      unfolding a snd_conv by (rule cost_inv_flags)
    moreover have "rs_kept (fst s) (fst (snd (budget_commit i now rid m s)))"
      unfolding a using rs_kept_close[OF row, of COMMITTED] by (simp add: rs_kept_def c2 c2_def)
    moreover have "used_units c2 = used_units (fst s) - rs_units row"
      using open_units_le(1)[OF inv row, of COMMITTED] by (simp add: c2_def)
    then have "used_units c1 \<le> ct_total (fst s)" unfolding c2 using e by simp
    ultimately show ?thesis
      using e unfolding a by (simp add: step_ok_def) (simp add: c2 c2_def)
  qed
qed

lemma spend_step_ok: "spend_step s t \<Longrightarrow> cost_inv s \<Longrightarrow> step_ok s t"
proof (induction rule: spend_step.induct)
  case (sp_subs_add s i d m cat n p)
  then show ?case
    by (auto simp: subs_add_def Let_def step_ok_def cost_inv_def rs_kept_same intro: tbl_pk_insert)
next
  case (sp_subs_upd f d s i)
  then have "tbl_pk su_id (tbl_upd su_id i f (ct_subs (fst s))) = tbl_pk su_id (ct_subs (fst s))"
    using su_cancel.pk_upd su_advance.pk_upd by blast
  with sp_subs_upd show ?case by (simp add: step_ok_def cost_inv_def rs_kept_same)
qed (auto intro: charge_step_ok reserve_step_ok release_step_ok commit_step_ok)

lemma set_total_inv:
  assumes "cost_inv s" shows "cost_inv (snd (budget_set_total m s))"
proof -
  let ?c = "(fst s)\<lparr>ct_total := to_units m\<rparr>"
  have ev: "evaluate_thresholds ?c = (threshold_events ?c,
      ?c\<lparr>ct_last_pct := level (cost_pct ?c), ct_blocked := cost_pct ?c \<ge> 100\<rparr>)"
    using assms by (intro evaluate_thresholds_result) (simp add: cost_inv_def)
  obtain r es where app: "append_all (threshold_events ?c) None (snd s) = (r, es)" by (meson surj_pair)
  have "snd (budget_set_total m s) =
      (?c\<lparr>ct_last_pct := level (cost_pct ?c), ct_blocked := cost_pct ?c \<ge> 100\<rparr>, es)"
    using ev app by (simp add: budget_set_total_def)
  moreover have "cost_inv (?c, es)" using assms by (simp add: cost_inv_def)
  ultimately show ?thesis using cost_inv_flags[of ?c es "cost_pct ?c" es] by simp
qed

interpretation budget: invariant_system cost_init cost_step cost_inv
proof unfold_locales
  show "cost_inv s" if "cost_init s" for s
    using that by (simp add: cost_init_def cost_inv_def flag_ok_def tbl_pk_def)
  show "cost_inv t" if "cost_inv s" and "cost_step s t" for s t
    using that(2) by cases (use that(1) spend_step_ok set_total_inv in \<open>auto simp: step_ok_def\<close>)
qed

lemma spend_steps_ok:
  assumes inv: "cost_inv s" and steps: "spend_step\<^sup>*\<^sup>* s t"
  shows "cost_inv t \<and> ct_total (fst t) = ct_total (fst s) \<and> (ct_blocked (fst s) \<longrightarrow> ct_blocked (fst t)) \<and>
         (used_units (fst s) \<le> ct_total (fst s) \<longrightarrow> used_units (fst t) \<le> ct_total (fst t)) \<and>
         rs_kept (fst s) (fst t)"
  using steps
proof (induction rule: rtranclp_induct)
  case base
  then show ?case using inv by (simp add: rs_kept_same)
next
  case (step t u)
  then have ok: "step_ok t u" using spend_step_ok by blast
  have "rs_kept (fst s) (fst u)"
    unfolding rs_kept_def
  proof (intro allI impI)
    fix i r assume "tbl_find rs_id i (ct_reservations (fst s)) = Some r"
    then obtain r1 where "tbl_find rs_id i (ct_reservations (fst t)) = Some r1" "rs_units r1 = rs_units r"
      "rs_ref r1 = rs_ref r" "rs_status r \<noteq> OPEN \<longrightarrow> r1 = r"
      using step.IH unfolding rs_kept_def by blast
    moreover then obtain r2 where "tbl_find rs_id i (ct_reservations (fst u)) = Some r2"
      "rs_units r2 = rs_units r1" "rs_ref r2 = rs_ref r1" "rs_status r1 \<noteq> OPEN \<longrightarrow> r2 = r1"
      using ok unfolding step_ok_def rs_kept_def by blast
    ultimately show "\<exists>r'. tbl_find rs_id i (ct_reservations (fst u)) = Some r' \<and> rs_units r' = rs_units r \<and>
        rs_ref r' = rs_ref r \<and> (rs_status r \<noteq> OPEN \<longrightarrow> r' = r)" by auto
  qed
  with step.IH ok show ?case by (auto simp: step_ok_def)
qed

section \<open>The day tick\<close>

lemma charge_keeps_subs:
  assumes "flag_ok (fst s)"
  shows "ct_subs (fst (snd (budget_charge i now ag m cat memo ap s))) = ct_subs (fst s)"
  by (rule charge_cases[OF assms, of i now ag m cat memo ap]) auto

lemma const_result [simp]:
  "map_sum id (\<lambda>_. x) r = Inr y \<longleftrightarrow> y = x \<and> (\<exists>u. r = Inr u)"
  by (cases r) auto

lemma charge_expenses:
  assumes flag: "flag_ok (fst s)" and run: "budget_charge i now ag m cat memo ap s = (Inr res, s1)"
  shows "length (ct_expenses (fst s1)) = length (ct_expenses (fst s)) + (if cr_ok res then 1 else 0)"
  using flag
proof (rule charge_cases[of s i now ag m cat memo ap])
  fix r es
  assume "budget_charge i now ag m cat memo ap s =
     (map_sum id (\<lambda>_. refused_result) r, if ct_blocked (fst s) then fst s else set_blocked (fst s), es)"
  with run have "map_sum id (\<lambda>_. refused_result) r = Inr res"
    and "ct_expenses (fst s1) = ct_expenses (fst s)" by auto
  then show ?thesis by (simp add: refused_result_def)
next
  fix r es row c1
  assume "budget_charge i now ag m cat memo ap s = (map_sum id (\<lambda>_. ok_result i) r,
          c1\<lparr>ct_last_pct := level (cost_pct c1), ct_blocked := cost_pct c1 \<ge> 100\<rparr>, es)"
    and c1: "c1 = (fst s)\<lparr>ct_expenses := ct_expenses (fst s) @ [row]\<rparr>"
  with run have "map_sum id (\<lambda>_. ok_result i) r = Inr res" and "ct_expenses (fst s1) = ct_expenses c1"
    by auto
  then show ?thesis by (simp add: c1 ok_result_def)
qed (use run in simp)

definition tick_row :: "(string \<Rightarrow> bool) \<Rightarrow> subscription \<Rightarrow> subscription" where
  "tick_row adv r =
     (if adv (su_id r) then set_next_day (su_next_day r + su_period r) r else cancel_sub r)"

lemma tick_loop_effect:
  assumes "tick_loop eid now subs s = (Inr (), t)" and "cost_inv s"
    and "distinct (map su_id subs)"
    and "\<And>r. r \<in> set subs \<Longrightarrow> tbl_find su_id (su_id r) (ct_subs (fst s)) = Some r"
  shows "\<exists>adv. (\<forall>r\<in>set subs. tbl_find su_id (su_id r) (ct_subs (fst t)) = Some (tick_row adv r)) \<and>
           (\<forall>i. i \<notin> su_id ` set subs \<longrightarrow>
              tbl_find su_id i (ct_subs (fst t)) = tbl_find su_id i (ct_subs (fst s))) \<and>
           length (ct_expenses (fst t)) =
             length (ct_expenses (fst s)) + length (filter (\<lambda>r. adv (su_id r)) subs)"
  using assms
proof (induction subs arbitrary: s)
  case Nil
  then show ?case by auto
next
  case (Cons sub rest)
  have flag: "flag_ok (fst s)" using Cons.prems(2) by (simp add: cost_inv_def)
  let ?ch = "budget_charge (eid (su_id sub)) now None (money_units (su_units sub)) (su_category sub)
      (''subscription:'' @ su_description sub) None s"
  obtain r s1 where ch: "?ch = (r, s1)" by (meson surj_pair)
  obtain res where res: "r = Inr res"
    using Cons.prems(1) ch by (cases r) auto
  let ?f = "if cr_ok res then set_next_day (su_next_day sub + su_period sub) else cancel_sub"
  let ?s2 = "((fst s1)\<lparr>ct_subs := tbl_upd su_id (su_id sub) ?f (ct_subs (fst s1))\<rparr>, snd s1)"
  have keep: "ct_subs (fst s1) = ct_subs (fst s)"
    using charge_keeps_subs[OF flag, of "eid (su_id sub)" now None "money_units (su_units sub)"
        "su_category sub" "''subscription:'' @ su_description sub" None] ch by simp
  have find2: "tbl_find su_id i (ct_subs (fst ?s2)) =
      (if i = su_id sub then map_option ?f (tbl_find su_id i (ct_subs (fst s)))
       else tbl_find su_id i (ct_subs (fst s)))" for i
    using su_advance.find_upd su_cancel.find_upd by (auto simp: keep)
  have inv1: "cost_inv s1"
  proof -
    have "step_ok s (snd ?ch)" by (rule charge_step_ok[OF Cons.prems(2)])
    then show ?thesis unfolding ch snd_conv step_ok_def by blast
  qed
  have inv2: "cost_inv ?s2"
    using spend_step_ok[OF sp_subs_upd[of ?f "su_next_day sub + su_period sub"] inv1]
    by (auto simp: step_ok_def)
  have run: "tick_loop eid now rest ?s2 = (Inr (), t)"
    using Cons.prems(1) unfolding tick_loop.simps ch res by simp
  have fresh: "su_id x \<noteq> su_id sub" if "x \<in> set rest" for x
    using that Cons.prems(3) by (metis distinct.simps(2) imageI list.set_map list.simps(9))
  have rest: "tbl_find su_id (su_id x) (ct_subs (fst ?s2)) = Some x" if "x \<in> set rest" for x
    using that fresh[OF that] Cons.prems(4)[of x] unfolding find2 by simp
  have "distinct (map su_id rest)" using Cons.prems(3) by simp
  from Cons.IH[OF run inv2 this rest] obtain adv where
    adv: "\<forall>r\<in>set rest. tbl_find su_id (su_id r) (ct_subs (fst t)) = Some (tick_row adv r)"
    "\<forall>i. i \<notin> su_id ` set rest \<longrightarrow> tbl_find su_id i (ct_subs (fst t)) = tbl_find su_id i (ct_subs (fst ?s2))"
    "length (ct_expenses (fst t)) =
       length (ct_expenses (fst ?s2)) + length (filter (\<lambda>r. adv (su_id r)) rest)"
    by blast
  define adv' where "adv' = adv(su_id sub := cr_ok res)"
  have other: "adv' (su_id x) = adv (su_id x)" if "x \<in> set rest" for x
    using fresh[OF that] by (simp add: adv'_def)
  have "tbl_find su_id (su_id sub) (ct_subs (fst t)) = Some (tick_row adv' sub)"
    using adv(2) Cons.prems(3) Cons.prems(4)[of sub] unfolding find2 by (simp add: tick_row_def adv'_def)
  moreover have "\<forall>r\<in>set rest. tbl_find su_id (su_id r) (ct_subs (fst t)) = Some (tick_row adv' r)"
    using adv(1) other by (simp add: tick_row_def)
  moreover have "length (ct_expenses (fst t)) =
      length (ct_expenses (fst s)) + length (filter (\<lambda>r. adv' (su_id r)) (sub # rest))"
  proof -
    have "filter (\<lambda>r. adv' (su_id r)) rest = filter (\<lambda>r. adv (su_id r)) rest"
      using other by (intro filter_cong) auto
    then show ?thesis
      using adv(3) charge_expenses[OF flag] ch res by (auto simp: adv'_def)
  qed
  moreover have "\<forall>i. i \<notin> su_id ` set (sub # rest) \<longrightarrow>
      tbl_find su_id i (ct_subs (fst t)) = tbl_find su_id i (ct_subs (fst s))"
    using adv(2) unfolding find2 by auto
  ultimately show ?case by (intro exI[of _ adv']) simp
qed

section \<open>Examples\<close>

definition demo_cost0 :: "cost \<times> event_store" where
  "demo_cost0 =
     (\<lparr>ct_total = 0, ct_blocked = False, ct_last_pct = 0, ct_expenses = [],
       ct_reservations = [], ct_subs = []\<rparr>, demo_store)"

definition usd :: "int \<Rightarrow> money" where
  "usd n = Money (of_int n)"

text \<open>A cap of 10 USD, and an open subscription of 3 USD.\<close>

definition demo_cost :: "cost \<times> event_store" where
  "demo_cost =
     snd (subs_add ''s'' ''host'' (usd 3) CAT_HOSTING 1 30 (snd (budget_set_total (usd 10) demo_cost0)))"

lemma demo_cost_reach: "reach cost_init cost_step demo_cost"
proof -
  have "reach cost_init cost_step demo_cost0"
    by (rule reach_init) (simp add: cost_init_def demo_cost0_def)
  then have "reach cost_init cost_step (snd (budget_set_total (usd 10) demo_cost0))"
    by (rule reach_step) (rule cs_total)
  then show ?thesis unfolding demo_cost_def by (rule reach_step) (rule cs_spend, rule sp_subs_add)
qed

lemma to_units_usd [simp]: "to_units (usd n) = n * 10000"
  using round_half_up_int[of "n * 10000"] by (simp add: to_units_def usd_def)

lemma demo_cost_eq:
  "demo_cost =
     (\<lparr>ct_total = 100000, ct_blocked = False, ct_last_pct = 0, ct_expenses = [], ct_reservations = [],
       ct_subs = [\<lparr>su_id = ''s'', su_description = ''host'', su_units = 30000,
         su_category = CAT_HOSTING, su_next_day = 1, su_period = 30, su_cancelled = False\<rparr>]\<rparr>,
      demo_store)"
  by (simp add: demo_cost_def demo_cost0_def budget_set_total_def evaluate_thresholds_def subs_add_def
      Let_def usage_pct_def sum_expenses_def sum_open_reservations_def WARNING_PCT_def BLOCKED_PCT_def)

lemma demo_cost_fields:
  "ct_total (fst demo_cost) = 100000 \<and> ct_blocked (fst demo_cost) = False \<and>
   ct_last_pct (fst demo_cost) = 0 \<and> ct_expenses (fst demo_cost) = [] \<and>
   ct_reservations (fst demo_cost) = [] \<and> used_units (fst demo_cost) = 0"
  by (simp add: demo_cost_eq used_units_def sum_expenses_def sum_open_reservations_def)

section \<open>Properties\<close>

text \<open>
  Rounding money to units loses at most half a unit and never goes below zero: \<^verbatim>\<open>Money.of\<close>
  accepts exactly the amounts that round to zero or more, and integer units come back unchanged
  through \<^verbatim>\<open>from_units\<close> and \<^verbatim>\<open>to_units\<close>.
\<close>

theorem money_units_roundtrip:
  "(case money_of q of
      Inl e \<Rightarrow> round_half_up (q * 10000) < 0
    | Inr m \<Rightarrow> 0 \<le> to_units m \<and> \<bar>q * 10000 - of_int (to_units m)\<bar> \<le> 1 / 2) \<and>
   (case from_units u of Inl e \<Rightarrow> u < 0 | Inr m \<Rightarrow> to_units m = u)"
proof
  let ?n = "round_half_up (q * 10000)"
  have near: "\<bar>x - of_int (round_half_up x)\<bar> \<le> 1 / 2" for x :: rat
  proof (cases "0 \<le> x")
    case True
    then have eq: "round_half_up x = \<lfloor>x + 1 / 2\<rfloor>" by (simp add: round_half_up_def)
    show ?thesis
      unfolding eq by (rule abs_leI) (use floor_correct[of "x + 1 / 2"] in linarith)+
  next
    case False
    then have eq: "round_half_up x = - \<lfloor>- x + 1 / 2\<rfloor>" by (simp add: round_half_up_def)
    show ?thesis
      unfolding eq of_int_minus by (rule abs_leI) (use floor_correct[of "- x + 1 / 2"] in linarith)+
  qed
  have "money_of q = (if ?n < 0 then Inl (ValueError ''Money cannot be negative'')
      else Inr (Money (of_int ?n / 10000)))"
    by (simp add: money_of_def mk_money_def to_decimal_def)
  then show "case money_of q of
      Inl e \<Rightarrow> ?n < 0
    | Inr m \<Rightarrow> 0 \<le> to_units m \<and> \<bar>q * 10000 - of_int (to_units m)\<bar> \<le> 1 / 2"
    using near[of "q * 10000"] by simp
  show "case from_units u of Inl e \<Rightarrow> u < 0 | Inr m \<Rightarrow> to_units m = u"
    by (simp add: from_units_def mk_money_def)
qed

text \<open>
  C12. Spending never exceeds the cap: from a reachable state within its total, no sequence of
  charges, reservations, releases, commits and subscription ticks makes spent plus reserved
  exceed the total (and none of them changes the total).
\<close>

theorem budget_never_overspent:
  assumes "reach cost_init cost_step s" and "spend_step\<^sup>*\<^sup>* s t"
    and "used_units (fst s) \<le> ct_total (fst s)"
  shows "used_units (fst t) \<le> ct_total (fst t) \<and> ct_total (fst t) = ct_total (fst s)"
  using spend_steps_ok[OF budget.reach_inv[OF assms(1)] assms(2)] assms(3) by simp

lemma budget_never_overspent_witness:
  "used_units (fst (snd (budget_charge ''e'' 0 None (usd 4) CAT_ADS ''ad'' None demo_cost))) \<le> 100000"
proof -
  have "spend_step\<^sup>*\<^sup>* demo_cost (snd (budget_charge ''e'' 0 None (usd 4) CAT_ADS ''ad'' None demo_cost))"
    by (rule r_into_rtranclp) (rule sp_charge)
  from budget_never_overspent[OF demo_cost_reach this] show ?thesis
    by (simp add: demo_cost_fields)
qed

text \<open>
  The blocked flag latches: once set, no charge, reservation, release, commit or day tick
  clears it (only \<^verbatim>\<open>set_total\<close> can), even if releases bring the usage far below the cap.
\<close>

theorem blocked_latch:
  assumes "reach cost_init cost_step s" and "spend_step\<^sup>*\<^sup>* s t" and "ct_blocked (fst s)"
  shows "ct_blocked (fst t)"
  using spend_steps_ok[OF budget.reach_inv[OF assms(1)] assms(2)] assms(3) by simp

lemma blocked_latch_witness:
  "ct_blocked (fst (snd (budget_release ''r''
     (snd (budget_charge ''e'' 0 None (usd 40) CAT_ADS ''ad'' None demo_cost)))))"
proof -
  let ?s = "snd (budget_charge ''e'' 0 None (usd 40) CAT_ADS ''ad'' None demo_cost)"
  have r: "reach cost_init cost_step ?s"
    by (rule reach_step[OF demo_cost_reach]) (rule cs_spend, rule sp_charge)
  have b: "ct_blocked (fst ?s)"
    by (simp add: demo_cost_eq budget_charge_def Let_def sum_expenses_def sum_open_reservations_def)
       (simp split: prod.split)
  have st: "spend_step\<^sup>*\<^sup>* ?s (snd (budget_release ''r'' ?s))"
    by (rule r_into_rtranclp) (rule sp_release)
  show ?thesis by (rule blocked_latch[OF r st b])
qed

text \<open>
  A reservation is never lost, resized or renamed, and once committed or released its row
  never changes again.
\<close>

theorem reservation_lifecycle:
  assumes "reach cost_init cost_step s" and "spend_step\<^sup>*\<^sup>* s t"
    and "tbl_find rs_id i (ct_reservations (fst s)) = Some r"
  shows "\<exists>r'. tbl_find rs_id i (ct_reservations (fst t)) = Some r' \<and> rs_units r' = rs_units r \<and>
           rs_ref r' = rs_ref r \<and> (rs_status r \<noteq> OPEN \<longrightarrow> r' = r)"
  using spend_steps_ok[OF budget.reach_inv[OF assms(1)] assms(2)] assms(3)
  unfolding rs_kept_def by blast

lemma reservation_lifecycle_witness:
  "\<exists>r'. tbl_find rs_id ''r'' (ct_reservations (fst (snd (budget_release ''r''
        (snd (budget_reserve ''r'' 0 (usd 2) ''job'' demo_cost)))))) = Some r' \<and> rs_units r' = 20000"
proof -
  let ?s = "snd (budget_reserve ''r'' 0 (usd 2) ''job'' demo_cost)"
  have "reach cost_init cost_step ?s"
    by (rule reach_step[OF demo_cost_reach]) (rule cs_spend, rule sp_reserve)
  moreover have "tbl_find rs_id ''r'' (ct_reservations (fst ?s)) =
      Some \<lparr>rs_id = ''r'', rs_units = 20000, rs_ref = ''job'', rs_status = OPEN, rs_created_at = 0\<rparr>"
    by (simp add: demo_cost_eq budget_reserve_def Let_def sum_expenses_def sum_open_reservations_def
        evaluate_thresholds_def split: prod.split)
  moreover have "spend_step\<^sup>*\<^sup>* ?s (snd (budget_release ''r'' ?s))"
    by (rule r_into_rtranclp) (rule sp_release)
  ultimately show ?thesis using reservation_lifecycle[of ?s] by (metis reservation.select_convs(2))
qed

text \<open>
  In a reachable state the threshold evaluation settles the row on the level of the current
  usage (0, 80 or 100 percent; blocked exactly at 100), emits an event exactly when the level
  rises, and evaluating again emits nothing and changes nothing.
\<close>

theorem thresholds_settle:
  assumes "reach cost_init cost_step s"
  shows "case evaluate_thresholds (fst s) of (evs, c) \<Rightarrow>
           c = (fst s)\<lparr>ct_last_pct := level (cost_pct (fst s)), ct_blocked := cost_pct (fst s) \<ge> 100\<rparr> \<and>
           (evs = [] \<longleftrightarrow> level (cost_pct (fst s)) \<le> ct_last_pct (fst s)) \<and>
           length evs \<le> 1 \<and> evaluate_thresholds c = ([], c)"
proof -
  have flag: "flag_ok (fst s)" using budget.reach_inv[OF assms] by (simp add: cost_inv_def)
  let ?c = "(fst s)\<lparr>ct_last_pct := level (cost_pct (fst s)), ct_blocked := cost_pct (fst s) \<ge> 100\<rparr>"
  have pct: "cost_pct ?c = cost_pct (fst s)" by (simp add: cost_pct_def)
  have "evaluate_thresholds ?c = ([], ?c)"
    using evaluate_thresholds_result[of ?c] by (simp add: threshold_events_def pct)
  with evaluate_thresholds_result[OF flag] show ?thesis by (simp add: threshold_events_def)
qed

lemma thresholds_settle_witness: "evaluate_thresholds (fst demo_cost) = ([], fst demo_cost)"
proof -
  have "cost_pct (fst demo_cost) = 0"
    by (simp add: cost_pct_def usage_pct_def demo_cost_fields)
  with thresholds_settle[OF demo_cost_reach] demo_cost_fields show ?thesis
    by (simp add: level_def demo_cost_eq split: prod.splits)
qed

text \<open>
  C13. A charge of a non-negative amount under a fresh id in a reachable state records exactly one
  expense of that amount if the budget is open and the amount fits, and records none, sets the
  blocked flag and answers over_budget otherwise (an exception can only come from the event
  store, after the commit).
\<close>

theorem charge_decision:
  assumes "reach cost_init cost_step s" and "0 \<le> to_units m"
    and "tbl_find ex_id i (ct_expenses (fst s)) = None"
  shows "\<exists>res c es. budget_charge i now ag m cat memo ap s = (res, c, es) \<and>
           (if \<not> ct_blocked (fst s) \<and> used_units (fst s) + to_units m \<le> ct_total (fst s)
            then (\<exists>row. ct_expenses c = ct_expenses (fst s) @ [row] \<and> ex_units row = to_units m \<and>
                    ex_id row = i) \<and>
                 (\<forall>y. res = Inr y \<longrightarrow> y = ok_result i)
            else ct_expenses c = ct_expenses (fst s) \<and> ct_blocked c \<and>
                 (\<forall>y. res = Inr y \<longrightarrow> y = refused_result))"
proof -
  have flag: "flag_ok (fst s)" using budget.reach_inv[OF assms(1)] by (simp add: cost_inv_def)
  then show ?thesis
  proof (cases rule: charge_cases[of s i now ag m cat memo ap])
    case (charged r es row c1)
    then show ?thesis by simp
  qed (use assms in auto)
qed

lemma charge_decision_witness:
  "\<exists>res c es. budget_charge ''e'' 0 None (usd 4) CAT_ADS ''ad'' None demo_cost = (res, c, es) \<and>
     (\<exists>row. ct_expenses c = [row] \<and> ex_units row = 40000)"
  using charge_decision[OF demo_cost_reach, of "usd 4" "''e''" 0 None CAT_ADS "''ad''" None]
  by (auto simp: demo_cost_fields)

text \<open>
  Reserving exactly what is left blocks the company, and the blocked flag then refuses the
  commit of that very reservation, whatever the actual amount (it is released instead).
\<close>

theorem exact_reservation_cannot_commit:
  assumes "reach cost_init cost_step s" and "0 < ct_total (fst s)"
    and "to_units m = ct_total (fst s) - used_units (fst s)"
    and "budget_reserve i now m ref s = (Inr row, t)"
  shows "ct_blocked (fst t) \<and>
         (case budget_commit eid now2 i actual t of (res, u) \<Rightarrow>
            (\<forall>y. res = Inr y \<longrightarrow> y = refused_result) \<and> ct_expenses (fst u) = ct_expenses (fst t))"
proof -
  have flag: "flag_ok (fst s)" using budget.reach_inv[OF assms(1)] by (simp add: cost_inv_def)
  have t: "snd (budget_reserve i now m ref s) = t" using assms(4) by simp
  have step: "spend_step s t" using sp_reserve[of s i now m ref] unfolding t .
  then have inv: "cost_inv t"
    using reach_step[OF assms(1) cs_spend] budget.reach_inv by blast
  then have flag_t: "flag_ok (fst t)" by (simp add: cost_inv_def)
  have blocked: "ct_blocked (fst t)"
    using flag
  proof (cases rule: reserve_cases[of s i now m ref])
    case (reserved r es row c1)
    have "used_units c1 = ct_total c1" "0 < ct_total c1"
      using assms(2,3) reserved by (simp_all add: open_units_def)
    then have "cost_pct c1 = 100" by (simp add: cost_pct_def usage_pct_def)
    then show ?thesis using reserved(1) t by auto
  qed (use assms(4) in simp)
  show ?thesis
    using flag_t
  proof (cases rule: commit_cases[of t eid now2 i actual])
    case (error e)
    with blocked show ?thesis by simp
  next
    case (refused r es row)
    with blocked show ?thesis by simp
  next
    case (committed r es row e c1)
    with blocked show ?thesis by simp
  qed
qed

lemma exact_reservation_cannot_commit_witness:
  "ct_blocked (fst (snd (budget_reserve ''r'' 0 (usd 10) ''job'' demo_cost)))"
proof -
  let ?o = "budget_reserve ''r'' 0 (usd 10) ''job'' demo_cost"
  let ?app = "append_all [(BUDGET_BLOCKED, blocked_payload 100000 100000 0)] None demo_store"
  have "fst ?app = Inr ()" by code_simp
  then have "?app = (Inr (), snd ?app)" by (simp only: prod_eq_iff fst_conv snd_conv)
  moreover have "?o = (case ?app of (r, es) \<Rightarrow>
      (map_sum id (\<lambda>_. \<lparr>rs_id = ''r'', rs_units = 100000, rs_ref = ''job'', rs_status = OPEN,
         rs_created_at = 0\<rparr>) r, fst (snd ?o), es))"
    by (simp add: demo_cost_eq budget_reserve_def Let_def sum_expenses_def sum_open_reservations_def
        open_units_def evaluate_thresholds_def usage_pct_def BLOCKED_PCT_def WARNING_PCT_def)
       (simp split: prod.split)
  ultimately have "?o = (case (Inr (), snd ?app) of (r, es) \<Rightarrow>
      (map_sum id (\<lambda>_. \<lparr>rs_id = ''r'', rs_units = 100000, rs_ref = ''job'', rs_status = OPEN,
         rs_created_at = 0\<rparr>) r, fst (snd ?o), es))" by (rule subst)
  then have "fst ?o = Inr \<lparr>rs_id = ''r'', rs_units = 100000, rs_ref = ''job'', rs_status = OPEN,
         rs_created_at = 0\<rparr>" by (simp only: case_prod_conv map_sum.simps prod_eq_iff fst_conv)
  then obtain row where "fst ?o = Inr row" by blast
  then have row: "?o = (Inr row, snd ?o)" by (simp only: prod_eq_iff fst_conv snd_conv)
  show ?thesis
    using exact_reservation_cannot_commit[OF demo_cost_reach _ _ row] by (simp add: demo_cost_fields)
qed



end
