(* ===== verification/Cost_Pricing.thy ===== *)
theory Cost_Pricing
  imports Cost_Budget
begin

text \<open>
  \<^verbatim>\<open>modules/cost/pricing.py\<close>: the registry of tool estimators and the LLM rates. An estimator is
  the caller's code: it raises, returns money, or returns something else (named by its type).
\<close>

datatype estimate_value = EstMoney money | EstOther string

type_synonym estimator = "payload \<Rightarrow> exn + estimate_value"

record llm_rate =
  lr_input_per_1k :: rat
  lr_output_per_1k :: rat

record token_usage =
  tu_input_tokens :: int
  tu_output_tokens :: int

record pricing =
  pr_tools :: "(string \<times> estimator \<times> category) list"
  pr_llm_rates :: "(string \<times> llm_rate) list"

definition pricing_register_tool ::
  "string \<Rightarrow> estimator \<Rightarrow> category \<Rightarrow> pricing \<Rightarrow> (unit, pricing) outcome" where
  "pricing_register_tool name est cat p =
     (if name = [] then (Inl (ValueError ''tool name must be non-empty''), p)
      else (Inr (), p\<lparr>pr_tools := (name, est, cat) # filter (\<lambda>e. fst e \<noteq> name) (pr_tools p)\<rparr>))"

definition pricing_category_of :: "pricing \<Rightarrow> string \<Rightarrow> exn + category" where
  "pricing_category_of p name =
     (case map_of (pr_tools p) name of
        None \<Rightarrow> Inl (CostUnknownTool name) | Some (est, cat) \<Rightarrow> Inr cat)"

definition pricing_list_tools :: "pricing \<Rightarrow> string list" where
  "pricing_list_tools p = sort (map fst (pr_tools p))"

definition pricing_estimate :: "pricing \<Rightarrow> string \<Rightarrow> payload \<Rightarrow> exn + money" where
  "pricing_estimate p name args =
     (case map_of (pr_tools p) name of
        None \<Rightarrow> Inl (CostUnknownTool name)
      | Some (est, cat) \<Rightarrow>
          (case est args of
             Inl e \<Rightarrow> Inl e
           | Inr (EstMoney m) \<Rightarrow> Inr m
           | Inr (EstOther t) \<Rightarrow>
               Inl (InvalidPricingFormula (name @ '' estimator must return Money, got '' @ t))))"

definition pricing_has_llm_rate :: "pricing \<Rightarrow> string \<Rightarrow> bool" where
  "pricing_has_llm_rate p model \<longleftrightarrow> map_of (pr_llm_rates p) model \<noteq> None"

definition pricing_rate :: "pricing \<Rightarrow> string \<Rightarrow> exn + llm_rate" where
  "pricing_rate p model =
     (case map_of (pr_llm_rates p) model of
        None \<Rightarrow> Inl (CostUnknownTool (''llm:'' @ model)) | Some r \<Rightarrow> Inr r)"

definition pricing_estimate_llm :: "pricing \<Rightarrow> string \<Rightarrow> int \<Rightarrow> int \<Rightarrow> exn + money" where
  "pricing_estimate_llm p model input_tokens output_tokens_max =
     (if input_tokens < 0 \<or> output_tokens_max < 0
      then Inl (ValueError ''token counts must be non-negative'')
      else case pricing_rate p model of
             Inl e \<Rightarrow> Inl e
           | Inr r \<Rightarrow>
               money_of ((of_int input_tokens * lr_input_per_1k r +
                          of_int output_tokens_max * lr_output_per_1k r) / 1000))"

definition pricing_actual_llm :: "pricing \<Rightarrow> string \<Rightarrow> token_usage \<Rightarrow> exn + money" where
  "pricing_actual_llm p model usage =
     pricing_estimate_llm p model (tu_input_tokens usage) (tu_output_tokens usage)"

section \<open>Lemmas\<close>

lemma round_half_up_mono:
  assumes "x \<le> y" shows "round_half_up x \<le> round_half_up y"
proof (cases "0 \<le> x \<or> y < 0")
  case True
  then show ?thesis
    using assms floor_mono[of "x + 1 / 2" "y + 1 / 2"] floor_mono[of "- y + 1 / 2" "- x + 1 / 2"]
    by (auto simp: round_half_up_def)
next
  case False
  then have "0 \<le> \<lfloor>- x + 1 / 2\<rfloor>" and "0 \<le> \<lfloor>y + 1 / 2\<rfloor>"
    by (simp_all add: le_floor_iff)
  moreover have "round_half_up x = - \<lfloor>- x + 1 / 2\<rfloor>" and "round_half_up y = \<lfloor>y + 1 / 2\<rfloor>"
    using False by (simp_all add: round_half_up_def)
  ultimately show ?thesis by linarith
qed

lemma money_of_nonneg:
  assumes "0 \<le> q"
  shows "money_of q = Inr (Money (of_int (round_half_up (q * 10000)) / 10000))"
proof -
  have "0 \<le> round_half_up (q * 10000)"
    using round_half_up_mono[of "of_int 0" "q * 10000"] round_half_up_int[of 0] assms by simp
  then show ?thesis by (simp add: money_of_def mk_money_def to_decimal_def)
qed

section \<open>Properties\<close>

text \<open>
  With non-negative rates for the model, an estimate made from the prompt size and the output
  limit succeeds, and so does the actual cost of any usage within them, which it covers.
\<close>

theorem llm_estimate_covers_actual:
  assumes "map_of (pr_llm_rates p) model = Some r"
    and "0 \<le> lr_input_per_1k r" and "0 \<le> lr_output_per_1k r"
    and "0 \<le> tu_input_tokens u" and "tu_input_tokens u \<le> i"
    and "0 \<le> tu_output_tokens u" and "tu_output_tokens u \<le> j"
  shows "\<exists>est act. pricing_estimate_llm p model i j = Inr est \<and> pricing_actual_llm p model u = Inr act \<and>
           0 \<le> to_units act \<and> to_units act \<le> to_units est"
proof -
  let ?q = "\<lambda>a b. (of_int a * lr_input_per_1k r + of_int b * lr_output_per_1k r) / 1000"
  let ?u = "tu_input_tokens u" and ?v = "tu_output_tokens u"
  have nonneg: "0 \<le> ?q a b" if "0 \<le> a" "0 \<le> b" for a b using that assms by simp
  have le: "?q ?u ?v \<le> ?q i j"
    using assms by (intro divide_right_mono add_mono mult_right_mono) auto
  have est: "pricing_estimate_llm p model a b =
      Inr (Money (of_int (round_half_up (?q a b * 10000)) / 10000))" if "0 \<le> a" "0 \<le> b" for a b
    using that assms(1) money_of_nonneg[OF nonneg[OF that]]
    by (simp add: pricing_estimate_llm_def pricing_rate_def)
  have "0 \<le> i" "0 \<le> j" using assms by linarith+
  have "0 \<le> round_half_up (?q ?u ?v * 10000)"
    using round_half_up_mono[of "of_int 0" "?q ?u ?v * 10000"] round_half_up_int[of 0]
      nonneg[OF assms(4,6)] by simp
  moreover have "round_half_up (?q ?u ?v * 10000) \<le> round_half_up (?q i j * 10000)"
    by (rule round_half_up_mono) (use le in \<open>simp add: divide_right_mono\<close>)
  ultimately show ?thesis
    using est[OF assms(4,6)] est[OF \<open>0 \<le> i\<close> \<open>0 \<le> j\<close>] by (simp add: pricing_actual_llm_def)
qed

definition demo_pricing :: pricing where
  "demo_pricing =
     \<lparr>pr_tools = [], pr_llm_rates = [(''m'', \<lparr>lr_input_per_1k = 1/2, lr_output_per_1k = 2\<rparr>)]\<rparr>"

lemma llm_estimate_covers_actual_witness:
  "\<exists>est act. pricing_estimate_llm demo_pricing ''m'' 1000 500 = Inr est \<and>
     pricing_actual_llm demo_pricing ''m'' \<lparr>tu_input_tokens = 900, tu_output_tokens = 10\<rparr> = Inr act \<and>
     0 \<le> to_units act \<and> to_units act \<le> to_units est"
  by (rule llm_estimate_covers_actual[where r = "\<lparr>lr_input_per_1k = 1/2, lr_output_per_1k = 2\<rparr>"])
     (simp_all add: demo_pricing_def)

end
