(* ===== verification/Approvals_Model.thy ===== *)
theory Approvals_Model
  imports Event_Store
begin

text \<open>
  \<^verbatim>\<open>modules/approvals\<close>: requests for approval, the security pre-veto leg and the main leg, cancel
  and timeout. The state is the pair of the table with the service's configuration
  (\<open>approvals\<close>) and the event store; \<open>ap_broadcasts\<close> records what the subscribers are handed.
\<close>

section \<open>Data\<close>

datatype approval_kind =
  AK_HIRE | AK_FIRE_DEPTH_1 | AK_EXPENSE | AK_EXTERNAL_ACTION | AK_INTER_COMPANY_LINK
| AK_SECURITY_FLAG | AK_BUDGET_INCREASE | AK_ROLE_CHANGE

fun approval_kind_value :: "approval_kind \<Rightarrow> string" where
  "approval_kind_value AK_HIRE = ''hire''"
| "approval_kind_value AK_FIRE_DEPTH_1 = ''fire_depth_1''"
| "approval_kind_value AK_EXPENSE = ''expense''"
| "approval_kind_value AK_EXTERNAL_ACTION = ''external_action''"
| "approval_kind_value AK_INTER_COMPANY_LINK = ''inter_company_link''"
| "approval_kind_value AK_SECURITY_FLAG = ''security_flag''"
| "approval_kind_value AK_BUDGET_INCREASE = ''budget_increase''"
| "approval_kind_value AK_ROLE_CHANGE = ''role_change''"

datatype approval_status = AP_PENDING | AP_APPROVED | AP_DENIED | AP_TIMEOUT | AP_CANCELLED

fun approval_status_value :: "approval_status \<Rightarrow> string" where
  "approval_status_value AP_PENDING = ''pending''"
| "approval_status_value AP_APPROVED = ''approved''"
| "approval_status_value AP_DENIED = ''denied''"
| "approval_status_value AP_TIMEOUT = ''timeout''"
| "approval_status_value AP_CANCELLED = ''cancelled''"

datatype decision = APPROVE | DENY

datatype route_target = BOARD | AGENT | TO_SECURITY

fun route_target_value :: "route_target \<Rightarrow> string" where
  "route_target_value BOARD = ''board''"
| "route_target_value AGENT = ''agent''"
| "route_target_value TO_SECURITY = ''security''"

record approval_route =
  ro_target :: route_target
  ro_agent_id :: "string option"
  ro_require_security :: bool

text \<open>\<^verbatim>\<open>ApprovalRoute.__post_init__\<close>.\<close>

definition mk_route :: "route_target \<Rightarrow> string option \<Rightarrow> bool \<Rightarrow> exn + approval_route" where
  "mk_route t a sec =
     (if t = AGENT \<and> (a = None \<or> a = Some [])
      then Inl (ValueError ''agent_id required when target is AGENT'')
      else if t \<noteq> AGENT \<and> a \<noteq> None
      then Inl (ValueError ''agent_id only valid when target is AGENT'')
      else if t = TO_SECURITY \<and> sec
      then Inl (ValueError ''require_security must be False when target is SECURITY'')
      else Inr \<lparr>ro_target = t, ro_agent_id = a, ro_require_security = sec\<rparr>)"

definition valid_route :: "approval_route \<Rightarrow> bool" where
  "valid_route r \<longleftrightarrow> mk_route (ro_target r) (ro_agent_id r) (ro_require_security r) = Inr r"

definition encode_target :: "approval_route \<Rightarrow> string" where
  "encode_target r =
     (if ro_target r = AGENT then ''agent:'' @ (case ro_agent_id r of None \<Rightarrow> ''None'' | Some a \<Rightarrow> a)
      else route_target_value (ro_target r))"

definition decode_route :: "string \<Rightarrow> bool \<Rightarrow> exn + approval_route" where
  "decode_route enc sec =
     (if take 6 enc = ''agent:'' then mk_route AGENT (Some (drop 6 enc)) sec
      else if enc = ''board'' then mk_route BOARD None sec
      else if enc = ''agent'' then mk_route AGENT None sec
      else if enc = ''security'' then mk_route TO_SECURITY None sec
      else Inl (ValueError ''not a valid RouteTarget''))"

record approval_row =
  ar_request_id :: string
  ar_kind :: approval_kind
  ar_requester_id :: string
  ar_payload :: payload
  ar_route_target :: string
  ar_require_security :: bool
  ar_security_decision :: "decision option"
  ar_security_decided_at :: "int option"
  ar_status :: approval_status
  ar_decided_by :: "string option"
  ar_decided_at :: "int option"
  ar_note :: "string option"
  ar_expires_at :: int
  ar_created_at :: int

record approval =
  av_row :: approval_row
  av_route :: approval_route

text \<open>\<^verbatim>\<open>_row_to_approval\<close>: the row's fields with the decoded route.\<close>

definition row_to_approval :: "approval_row \<Rightarrow> exn + approval" where
  "row_to_approval r =
     (case decode_route (ar_route_target r) (ar_require_security r) of
        Inl e \<Rightarrow> Inl e
      | Inr ro \<Rightarrow> Inr \<lparr>av_row = r, av_route = ro\<rparr>)"

record approvals =
  ap_rows :: "approval_row list"
  ap_timeouts :: "approval_kind \<Rightarrow> int option"
  ap_require_security_kinds :: "approval_kind list"
  ap_auto_deny_kinds :: "approval_kind list"
  ap_subscribers :: "string list"
  ap_broadcasts :: "(string \<times> string \<times> approval_status) list"

type_synonym 'a appr_out = "('a, approvals \<times> event_store) outcome"

text \<open>The tables of \<^verbatim>\<open>routing.py\<close>, in microseconds.\<close>

definition day_us :: int where "day_us = 86400000000"

definition hour_us :: int where "hour_us = 3600000000"

fun default_timeouts :: "approval_kind \<Rightarrow> int option" where
  "default_timeouts AK_HIRE = Some (7 * day_us)"
| "default_timeouts AK_FIRE_DEPTH_1 = Some (7 * day_us)"
| "default_timeouts AK_EXPENSE = Some (24 * hour_us)"
| "default_timeouts AK_EXTERNAL_ACTION = Some (24 * hour_us)"
| "default_timeouts AK_INTER_COMPANY_LINK = Some (30 * day_us)"
| "default_timeouts AK_SECURITY_FLAG = Some 300000000"
| "default_timeouts AK_BUDGET_INCREASE = Some (7 * day_us)"
| "default_timeouts AK_ROLE_CHANGE = Some (7 * day_us)"

definition AUTO_DENY_ON_TIMEOUT :: "approval_kind list" where
  "AUTO_DENY_ON_TIMEOUT = [AK_SECURITY_FLAG]"

definition DEFAULT_REQUIRE_SECURITY :: "approval_kind list" where
  "DEFAULT_REQUIRE_SECURITY = [AK_EXPENSE, AK_EXTERNAL_ACTION]"

definition appr_create ::
  "(approval_kind \<Rightarrow> int option) \<Rightarrow> approval_kind list option \<Rightarrow> approval_kind list option \<Rightarrow> approvals" where
  "appr_create timeouts sec_kinds deny_kinds =
     \<lparr>ap_rows = [],
      ap_timeouts = (\<lambda>k. case timeouts k of None \<Rightarrow> default_timeouts k | Some t \<Rightarrow> Some t),
      ap_require_security_kinds =
        (case sec_kinds of None \<Rightarrow> DEFAULT_REQUIRE_SECURITY | Some ks \<Rightarrow> ks),
      ap_auto_deny_kinds = (case deny_kinds of None \<Rightarrow> AUTO_DENY_ON_TIMEOUT | Some ks \<Rightarrow> ks),
      ap_subscribers = [], ap_broadcasts = []\<rparr>"

section \<open>Subscribers\<close>

definition appr_subscribe :: "string \<Rightarrow> approvals \<Rightarrow> approvals" where
  "appr_subscribe h s =
     s\<lparr>ap_subscribers := filter (\<lambda>i. i \<noteq> h) (ap_subscribers s) @ [h]\<rparr>"

definition appr_unsubscribe :: "string \<Rightarrow> approvals \<Rightarrow> approvals" where
  "appr_unsubscribe h s = s\<lparr>ap_subscribers := filter (\<lambda>i. i \<noteq> h) (ap_subscribers s)\<rparr>"

definition appr_broadcast :: "approval_row \<Rightarrow> approvals \<Rightarrow> approvals" where
  "appr_broadcast r s =
     s\<lparr>ap_broadcasts := ap_broadcasts s @
         map (\<lambda>h. (h, ar_request_id r, ar_status r)) (ap_subscribers s)\<rparr>"

section \<open>Operations\<close>

text \<open>Append an event after the commit; when that succeeds, tell the subscribers and answer.\<close>

definition announce ::
  "event_kind \<Rightarrow> payload \<Rightarrow> string option \<Rightarrow> approval_row \<Rightarrow> 'a \<Rightarrow> approvals \<Rightarrow> event_store \<Rightarrow> 'a appr_out" where
  "announce k p actor row res s es =
     (case es_append (Inl k) p actor None es of
        (Inl e, es') \<Rightarrow> (Inl e, s, es')
      | (Inr ev, es') \<Rightarrow> (Inr res, appr_broadcast row s, es'))"

definition appr_request ::
  "string \<Rightarrow> int \<Rightarrow> approval_kind \<Rightarrow> string \<Rightarrow> payload \<Rightarrow> approval_route \<Rightarrow> string option
   \<Rightarrow> int option \<Rightarrow> approvals \<times> event_store \<Rightarrow> approval appr_out" where
  "appr_request fresh now kind requester p route request_id timeout_seconds s =
     (let a = fst s;
          rid = str_or request_id fresh;
          timeout = (case timeout_seconds of
                       Some n \<Rightarrow> n * 1000000
                     | None \<Rightarrow> (case ap_timeouts a kind of Some t \<Rightarrow> t | None \<Rightarrow> 24 * hour_us));
          sec = (ro_require_security route \<or>
                 kind \<in> set (ap_require_security_kinds a) \<and> ro_target route \<noteq> TO_SECURITY)
      in
      case tbl_find ar_request_id rid (ap_rows a) of
        Some r \<Rightarrow> (row_to_approval r, s)
      | None \<Rightarrow>
          let row = \<lparr>ar_request_id = rid, ar_kind = kind, ar_requester_id = requester,
                     ar_payload = p, ar_route_target = encode_target route,
                     ar_require_security = sec, ar_security_decision = None,
                     ar_security_decided_at = None, ar_status = AP_PENDING, ar_decided_by = None,
                     ar_decided_at = None, ar_note = None, ar_expires_at = now + timeout,
                     ar_created_at = now\<rparr>;
              a1 = a\<lparr>ap_rows := ap_rows a @ [row]\<rparr>
          in case mk_route (ro_target route) (ro_agent_id route) sec of
               Inl e \<Rightarrow> (Inl e, a1, snd s)
             | Inr ro \<Rightarrow>
                 announce APPROVAL_REQUESTED
                   [(''approval_id'', JStr rid), (''requested_by'', JStr requester),
                    (''subject'', JStr (approval_kind_value kind)), (''details'', JObj p)]
                   (Some requester) row \<lparr>av_row = row, av_route = ro\<rparr> a1 (snd s))"

definition decided_status :: "decision \<Rightarrow> approval_status" where
  "decided_status d = (if d = APPROVE then AP_APPROVED else AP_DENIED)"

definition decision_event_value :: "decision \<Rightarrow> string" where
  "decision_event_value d = (if d = APPROVE then ''approved'' else ''rejected'')"

definition set_security :: "decision \<Rightarrow> int \<Rightarrow> approval_row \<Rightarrow> approval_row" where
  "set_security d now r = r\<lparr>ar_security_decision := Some d, ar_security_decided_at := Some now\<rparr>"

definition set_final ::
  "approval_status \<Rightarrow> string \<Rightarrow> int \<Rightarrow> string option \<Rightarrow> approval_row \<Rightarrow> approval_row" where
  "set_final st who now note r =
     r\<lparr>ar_status := st, ar_decided_by := Some who, ar_decided_at := Some now, ar_note := note\<rparr>"

text \<open>The UPDATE a decision makes on a pending row, and whether APPROVAL_DECIDED is emitted.\<close>

definition decide_row ::
  "string \<Rightarrow> decision \<Rightarrow> string option \<Rightarrow> int \<Rightarrow> approval_row \<Rightarrow> approval_row" where
  "decide_row who d note now r =
     (if ar_require_security r \<and> ar_security_decision r = None
      then (if d = DENY then set_final AP_DENIED who now note (set_security d now r)
            else set_security d now r)
      else set_final (decided_status d) who now note r)"

definition decide_emits :: "decision \<Rightarrow> approval_row \<Rightarrow> bool" where
  "decide_emits d r \<longleftrightarrow> \<not> (ar_require_security r \<and> ar_security_decision r = None) \<or> d = DENY"

definition appr_decide ::
  "int \<Rightarrow> string \<Rightarrow> string \<Rightarrow> decision \<Rightarrow> string option \<Rightarrow> approvals \<times> event_store \<Rightarrow> approval appr_out" where
  "appr_decide now rid who d note s =
     (let a = fst s in
      case tbl_find ar_request_id rid (ap_rows a) of
        None \<Rightarrow> (Inl (ApprovalNotFound rid), s)
      | Some r \<Rightarrow>
          if ar_status r \<noteq> AP_PENDING
          then (if ar_status r = decided_status d then (row_to_approval r, s)
                else (Inl (ApprovalConflict
                        (''already_'' @ approval_status_value (ar_status r) @ '':'' @ rid)), s))
          else
            let row = decide_row who d note now r;
                a1 = a\<lparr>ap_rows := tbl_upd ar_request_id rid (decide_row who d note now) (ap_rows a)\<rparr>
            in case row_to_approval row of
                 Inl e \<Rightarrow> (Inl e, a1, snd s)
               | Inr v \<Rightarrow>
                   if decide_emits d r
                   then announce APPROVAL_DECIDED
                          [(''approval_id'', JStr rid), (''decided_by'', JStr who),
                           (''decision'', JStr (decision_event_value d)), (''note'', opt_json note)]
                          (Some who) row v a1 (snd s)
                   else (Inr v, appr_broadcast row a1, snd s))"

definition appr_cancel ::
  "int \<Rightarrow> string \<Rightarrow> string \<Rightarrow> string \<Rightarrow> approvals \<times> event_store \<Rightarrow> approval appr_out" where
  "appr_cancel now rid who reason s =
     (let a = fst s in
      case tbl_find ar_request_id rid (ap_rows a) of
        None \<Rightarrow> (Inl (ApprovalNotFound rid), s)
      | Some r \<Rightarrow>
          if ar_status r \<noteq> AP_PENDING
          then (Inl (InvalidTransition
                  (''cannot_cancel_'' @ approval_status_value (ar_status r) @ '':'' @ rid)), s)
          else
            let upd = set_final AP_CANCELLED who now (Some reason);
                a1 = a\<lparr>ap_rows := tbl_upd ar_request_id rid upd (ap_rows a)\<rparr>
            in case row_to_approval (upd r) of
                 Inl e \<Rightarrow> (Inl e, a1, snd s)
               | Inr v \<Rightarrow>
                   announce APPROVAL_DECIDED
                     [(''approval_id'', JStr rid), (''decided_by'', JStr who),
                      (''decision'', JStr ''rejected''), (''note'', JStr (''cancelled:'' @ reason))]
                     (Some who) (upd r) v a1 (snd s))"

definition appr_get :: "approvals \<Rightarrow> string \<Rightarrow> exn + approval" where
  "appr_get a rid =
     (case tbl_find ar_request_id rid (ap_rows a) of
        None \<Rightarrow> Inl (ApprovalNotFound rid) | Some r \<Rightarrow> row_to_approval r)"

definition appr_pending_for :: "approvals \<Rightarrow> approval_route \<Rightarrow> approval_row list" where
  "appr_pending_for a decider =
     sort_key ar_created_at
       (filter (\<lambda>r. ar_status r = AP_PENDING \<and>
          (if ro_target decider = TO_SECURITY
           then ar_require_security r \<and> ar_security_decision r = None
           else ar_route_target r = encode_target decider \<and>
                (\<not> ar_require_security r \<or> ar_security_decision r \<noteq> None)))
         (ap_rows a))"

definition appr_is_blocked :: "approvals \<Rightarrow> string \<Rightarrow> bool" where
  "appr_is_blocked a agent =
     list_ex (\<lambda>r. ar_requester_id r = agent \<and> ar_status r = AP_PENDING) (ap_rows a)"

section \<open>Timeouts\<close>

definition expired :: "int \<Rightarrow> approval_row \<Rightarrow> bool" where
  "expired now r \<longleftrightarrow> ar_status r = AP_PENDING \<and> ar_expires_at r \<le> now"

definition time_out_row :: "approval_kind list \<Rightarrow> int \<Rightarrow> approval_row \<Rightarrow> approval_row" where
  "time_out_row deny_kinds now r =
     (let deny = (ar_kind r \<in> set deny_kinds) in
      r\<lparr>ar_status := (if deny then AP_DENIED else AP_TIMEOUT), ar_decided_at := Some now,
        ar_note := (case ar_note r of
                      Some n \<Rightarrow> Some n
                    | None \<Rightarrow> Some (if deny then ''auto_deny_on_timeout'' else ''expired''))\<rparr>)"

fun announce_timeouts :: "approval_row list \<Rightarrow> nat \<Rightarrow> approvals \<Rightarrow> event_store \<Rightarrow> nat appr_out" where
  "announce_timeouts [] n a es = (Inr n, a, es)"
| "announce_timeouts (r # rs) n a es =
     (case es_append (Inl APPROVAL_TIMEOUT) [(''approval_id'', JStr (ar_request_id r))] None None es of
        (Inl e, es') \<Rightarrow> (Inl e, a, es')
      | (Inr ev, es') \<Rightarrow> announce_timeouts rs n (appr_broadcast r a) es')"

definition row_decodes :: "approval_row \<Rightarrow> bool" where
  "row_decodes r = (case row_to_approval r of Inl _ \<Rightarrow> False | Inr _ \<Rightarrow> True)"

text \<open>A row that does not decode raises inside the transaction.\<close>

definition appr_process_timeouts :: "int \<Rightarrow> approvals \<times> event_store \<Rightarrow> nat appr_out" where
  "appr_process_timeouts now s =
     (let a = fst s;
          upd = time_out_row (ap_auto_deny_kinds a) now;
          out = map upd (filter (expired now) (ap_rows a));
          a1 = a\<lparr>ap_rows := map (\<lambda>r. if expired now r then upd r else r) (ap_rows a)\<rparr>
      in case find (\<lambda>r. \<not> row_decodes r) out of
           Some r \<Rightarrow> (map_sum id (\<lambda>_. 0) (row_to_approval r), s)
         | None \<Rightarrow> announce_timeouts out (length out) a1 (snd s))"

text \<open>The polling loop swallows what one round raises.\<close>

fun appr_timeout_loop :: "int list \<Rightarrow> approvals \<times> event_store \<Rightarrow> approvals \<times> event_store" where
  "appr_timeout_loop [] s = s"
| "appr_timeout_loop (now # rest) s = appr_timeout_loop rest (snd (appr_process_timeouts now s))"

section \<open>The invariant\<close>

definition row_ok :: "approval_row \<Rightarrow> bool" where
  "row_ok r \<longleftrightarrow>
     row_decodes r \<and>
     (ar_status r = AP_APPROVED \<and> ar_require_security r \<longrightarrow>
        ar_security_decision r = Some APPROVE \<and> ar_security_decided_at r \<noteq> None) \<and>
     (ar_security_decision r \<noteq> None \<longrightarrow> ar_security_decided_at r \<noteq> None) \<and>
     (ar_security_decision r = Some DENY \<longrightarrow> ar_status r = AP_DENIED)"

definition appr_inv :: "approvals \<times> event_store \<Rightarrow> bool" where
  "appr_inv s \<longleftrightarrow> tbl_pk ar_request_id (ap_rows (fst s)) \<and> (\<forall>r\<in>set (ap_rows (fst s)). row_ok r)"

text \<open>Nothing about a request changes but its decision, and a decided row is final.\<close>

definition same_request :: "approval_row \<Rightarrow> approval_row \<Rightarrow> bool" where
  "same_request r r' \<longleftrightarrow>
     ar_request_id r' = ar_request_id r \<and> ar_kind r' = ar_kind r \<and>
     ar_requester_id r' = ar_requester_id r \<and> ar_payload r' = ar_payload r \<and>
     ar_route_target r' = ar_route_target r \<and> ar_require_security r' = ar_require_security r \<and>
     ar_expires_at r' = ar_expires_at r \<and> ar_created_at r' = ar_created_at r"

definition rows_kept :: "approvals \<Rightarrow> approvals \<Rightarrow> bool" where
  "rows_kept a b \<longleftrightarrow>
     (\<forall>i r. tbl_find ar_request_id i (ap_rows a) = Some r \<longrightarrow>
        (\<exists>r'. tbl_find ar_request_id i (ap_rows b) = Some r' \<and> same_request r r' \<and>
              (ar_status r \<noteq> AP_PENDING \<longrightarrow> r' = r)))"

lemma same_request_refl [simp]: "same_request r r"
  by (simp add: same_request_def)

lemma rows_kept_refl: "ap_rows b = ap_rows a \<Longrightarrow> rows_kept a b"
  by (simp add: rows_kept_def)

lemma rows_kept_trans: "rows_kept a b \<Longrightarrow> rows_kept b c \<Longrightarrow> rows_kept a c"
  unfolding rows_kept_def
proof (intro allI impI)
  fix i r
  assume ab: "\<forall>i r. tbl_find ar_request_id i (ap_rows a) = Some r \<longrightarrow>
      (\<exists>r'. tbl_find ar_request_id i (ap_rows b) = Some r' \<and> same_request r r' \<and>
            (ar_status r \<noteq> AP_PENDING \<longrightarrow> r' = r))"
    and bc: "\<forall>i r. tbl_find ar_request_id i (ap_rows b) = Some r \<longrightarrow>
      (\<exists>r'. tbl_find ar_request_id i (ap_rows c) = Some r' \<and> same_request r r' \<and>
            (ar_status r \<noteq> AP_PENDING \<longrightarrow> r' = r))"
    and "tbl_find ar_request_id i (ap_rows a) = Some r"
  then obtain r1 where r1: "tbl_find ar_request_id i (ap_rows b) = Some r1" "same_request r r1"
    "ar_status r \<noteq> AP_PENDING \<longrightarrow> r1 = r" by blast
  with bc obtain r2 where r2: "tbl_find ar_request_id i (ap_rows c) = Some r2" "same_request r1 r2"
    "ar_status r1 \<noteq> AP_PENDING \<longrightarrow> r2 = r1" by blast
  have "same_request r r2" using r1(2) r2(2) by (simp add: same_request_def)
  with r1 r2 show "\<exists>r'. tbl_find ar_request_id i (ap_rows c) = Some r' \<and> same_request r r' \<and>
            (ar_status r \<noteq> AP_PENDING \<longrightarrow> r' = r)" by auto
qed

lemma same_request_decide [simp]: "same_request r (decide_row who d note now r)"
  by (simp add: same_request_def decide_row_def set_final_def set_security_def)

lemma same_request_final [simp]: "same_request r (set_final st who now note r)"
  by (simp add: same_request_def set_final_def)

lemma same_request_timeout [simp]: "same_request r (time_out_row ks now r)"
  by (simp add: same_request_def time_out_row_def Let_def)

interpretation decided: pk_update ar_request_id "decide_row who d note now"
  by unfold_locales (simp add: decide_row_def set_final_def set_security_def)

interpretation finalised: pk_update ar_request_id "set_final st who now note"
  by unfold_locales (simp add: set_final_def)

lemma row_decodes_same: "same_request r r' \<Longrightarrow> row_decodes r' = row_decodes r"
  by (simp add: row_decodes_def row_to_approval_def same_request_def split: sum.splits)

lemma row_ok_decide: "row_ok r \<Longrightarrow> ar_status r = AP_PENDING \<Longrightarrow> row_ok (decide_row who d note now r)"
  using row_decodes_same[OF same_request_decide, of who d "note" now r]
  by (cases d; cases "the (ar_security_decision r)")
     (auto simp: row_ok_def decide_row_def set_final_def set_security_def decided_status_def
       split: if_splits)

lemma row_ok_cancel: "row_ok r \<Longrightarrow> ar_status r = AP_PENDING \<Longrightarrow> row_ok (set_final AP_CANCELLED who now note r)"
  using row_decodes_same[OF same_request_final, of AP_CANCELLED who now "note" r]
  by (auto simp: row_ok_def set_final_def)

lemma row_ok_timeout: "row_ok r \<Longrightarrow> ar_status r = AP_PENDING \<Longrightarrow> row_ok (time_out_row ks now r)"
  using row_decodes_same[OF same_request_timeout, of ks now r]
  by (auto simp: row_ok_def time_out_row_def Let_def)

lemma announce_state:
  "fst (snd (announce k p actor row res a es)) = a \<or>
   fst (snd (announce k p actor row res a es)) = appr_broadcast row a"
  by (auto simp: announce_def split: prod.splits sum.splits)

lemma broadcast_rows [simp]: "ap_rows (appr_broadcast r a) = ap_rows a"
  by (simp add: appr_broadcast_def)

lemma announce_rows [simp]: "ap_rows (fst (snd (announce k p actor row res a es))) = ap_rows a"
  using announce_state[of k p actor row res a es] by auto

lemma announce_timeouts_rows [simp]:
  "ap_rows (fst (snd (announce_timeouts rs n a es))) = ap_rows a"
  by (induction rs n a es rule: announce_timeouts.induct) (auto split: prod.splits sum.splits)

lemma upd_one_kept:
  assumes r: "tbl_find ar_request_id i (ap_rows a) = Some r" and "ar_status r = AP_PENDING"
    and same: "\<And>r. same_request r (f r)" and b: "ap_rows b = tbl_upd ar_request_id i f (ap_rows a)"
  shows "rows_kept a b"
proof -
  have "pk_update ar_request_id f"
    using same by unfold_locales (simp add: same_request_def)
  note find = pk_update.find_upd[OF this, of _ i "ap_rows a"]
  show ?thesis
    unfolding rows_kept_def b find using assms(2) r same by auto
qed

lemma upd_one_inv:
  assumes inv: "appr_inv s" and r: "tbl_find ar_request_id i (ap_rows (fst s)) = Some r"
    and same: "\<And>r. same_request r (f r)" and ok: "row_ok (f r)"
    and b: "ap_rows b = tbl_upd ar_request_id i f (ap_rows (fst s))"
  shows "appr_inv (b, es)"
proof -
  have pk: "tbl_pk ar_request_id (ap_rows (fst s))" using inv by (simp add: appr_inv_def)
  have "pk_update ar_request_id f"
    using same by unfold_locales (simp add: same_request_def)
  then have "tbl_pk ar_request_id (ap_rows b)" by (simp add: b pk_update.pk_upd pk)
  moreover have "x = r" if "x \<in> set (ap_rows (fst s))" "ar_request_id x = i" for x
    using tbl_find_in[OF pk that(1)] that(2) r by simp
  ultimately show ?thesis
    using inv ok unfolding appr_inv_def by (auto simp: b set_tbl_upd)
qed

lemma decode_encode:
  "mk_route (ro_target r) (ro_agent_id r) sec = Inr ro \<Longrightarrow>
     decode_route (encode_target r) sec = Inr ro"
  by (cases "ro_target r")
     (auto simp: encode_target_def decode_route_def mk_route_def split: if_splits option.splits)

text \<open>What an operation does to the table, whatever it answers.\<close>

definition appr_ok :: "approvals \<times> event_store \<Rightarrow> approvals \<times> event_store \<Rightarrow> bool" where
  "appr_ok s t \<longleftrightarrow> appr_inv t \<and> rows_kept (fst s) (fst t)"

lemma appr_ok_same: "appr_inv s \<Longrightarrow> ap_rows (fst t) = ap_rows (fst s) \<Longrightarrow> appr_ok s t"
  by (simp add: appr_ok_def appr_inv_def rows_kept_refl)

lemma request_ok:
  assumes inv: "appr_inv s" and route: "valid_route route"
  shows "appr_ok s (snd (appr_request fresh now kind requester p route request_id ts s))"
proof -
  define rid where "rid = str_or request_id fresh"
  show ?thesis
  proof (cases "tbl_find ar_request_id rid (ap_rows (fst s))")
    case (Some r)
    with inv show ?thesis by (auto simp: appr_request_def rid_def Let_def intro: appr_ok_same)
  next
    case None
    define sec where "sec = (ro_require_security route \<or>
      kind \<in> set (ap_require_security_kinds (fst s)) \<and> ro_target route \<noteq> TO_SECURITY)"
    obtain ro where ro: "mk_route (ro_target route) (ro_agent_id route) sec = Inr ro"
      using route by (auto simp: valid_route_def mk_route_def sec_def split: if_splits)
    obtain row where row: "ap_rows (fst (snd (appr_request fresh now kind requester p route request_id ts s)))
        = ap_rows (fst s) @ [row]" "ar_request_id row = rid" "ar_status row = AP_PENDING"
      "ar_security_decision row = None" "ar_route_target row = encode_target route"
      "ar_require_security row = sec"
      using None ro
      by (simp add: appr_request_def rid_def[symmetric] sec_def[symmetric] Let_def)
    have "row_ok row"
      using row decode_encode[OF ro] by (simp add: row_ok_def row_decodes_def row_to_approval_def)
    with inv row None show ?thesis
      by (auto simp: appr_ok_def appr_inv_def tbl_pk_insert rows_kept_def tbl_find_append
          split: option.splits)
  qed
qed

lemma decide_rows:
  assumes "tbl_find ar_request_id rid (ap_rows (fst s)) = Some r" and "ar_status r = AP_PENDING"
  shows "ap_rows (fst (snd (appr_decide now rid who d note s))) =
     tbl_upd ar_request_id rid (decide_row who d note now) (ap_rows (fst s))"
  using assms by (simp add: appr_decide_def Let_def split: sum.splits)

lemma decide_ok:
  assumes inv: "appr_inv s" shows "appr_ok s (snd (appr_decide now rid who d note s))"
proof (cases "tbl_find ar_request_id rid (ap_rows (fst s))")
  case None
  with inv show ?thesis by (simp add: appr_decide_def Let_def appr_ok_same)
next
  case (Some r)
  let ?out = "appr_decide now rid who d note s"
  have r_ok: "row_ok r"
    using inv Some by (auto simp: appr_inv_def dest: tbl_find_Some_in)
  show ?thesis
  proof (cases "ar_status r = AP_PENDING")
    case False
    with inv Some show ?thesis by (auto simp: appr_decide_def Let_def intro: appr_ok_same)
  next
    case True
    note rows = decide_rows[OF Some True, of now who d "note"]
    show ?thesis
      using upd_one_inv[OF inv Some same_request_decide row_ok_decide[OF r_ok True] rows]
        upd_one_kept[OF Some True same_request_decide rows]
      unfolding appr_ok_def by (metis prod.collapse)
  qed
qed

lemma cancel_ok:
  assumes inv: "appr_inv s" shows "appr_ok s (snd (appr_cancel now rid who reason s))"
proof (cases "tbl_find ar_request_id rid (ap_rows (fst s))")
  case None
  with inv show ?thesis by (simp add: appr_cancel_def Let_def appr_ok_same)
next
  case (Some r)
  let ?out = "appr_cancel now rid who reason s"
  have r_ok: "row_ok r"
    using inv Some by (auto simp: appr_inv_def dest: tbl_find_Some_in)
  show ?thesis
  proof (cases "ar_status r = AP_PENDING")
    case False
    with inv Some show ?thesis by (auto simp: appr_cancel_def Let_def intro: appr_ok_same)
  next
    case True
    have rows: "ap_rows (fst (snd ?out)) =
        tbl_upd ar_request_id rid (set_final AP_CANCELLED who now (Some reason)) (ap_rows (fst s))"
      using Some True by (simp add: appr_cancel_def Let_def split: sum.splits)
    show ?thesis
      using upd_one_inv[OF inv Some same_request_final row_ok_cancel[OF r_ok True] rows]
        upd_one_kept[OF Some True same_request_final rows]
      unfolding appr_ok_def by (metis prod.collapse)
  qed
qed

lemma timeouts_run:
  assumes inv: "appr_inv s"
  shows "appr_process_timeouts now s =
     (let a = fst s; upd = time_out_row (ap_auto_deny_kinds a) now;
          out = map upd (filter (expired now) (ap_rows a))
      in announce_timeouts out (length out)
           (a\<lparr>ap_rows := map (\<lambda>r. if expired now r then upd r else r) (ap_rows a)\<rparr>) (snd s))"
proof -
  let ?upd = "time_out_row (ap_auto_deny_kinds (fst s)) now"
  have "row_decodes (?upd r)" if "r \<in> set (ap_rows (fst s))" for r
    using inv that row_decodes_same[OF same_request_timeout, of _ _ r] by (simp add: appr_inv_def row_ok_def)
  then have "find (\<lambda>r. \<not> row_decodes r) (map ?upd (filter (expired now) (ap_rows (fst s)))) = None"
    by (auto simp: find_None_iff)
  then show ?thesis by (simp add: appr_process_timeouts_def Let_def)
qed

lemma timeouts_rows:
  assumes inv: "appr_inv s"
  shows "ap_rows (fst (snd (appr_process_timeouts now s))) =
     map (\<lambda>r. if expired now r then time_out_row (ap_auto_deny_kinds (fst s)) now r else r) (ap_rows (fst s))"
  unfolding timeouts_run[OF inv] by (simp add: Let_def)

lemma timeouts_ok:
  assumes inv: "appr_inv s" shows "appr_ok s (snd (appr_process_timeouts now s))"
proof -
  let ?h = "\<lambda>r. if expired now r then time_out_row (ap_auto_deny_kinds (fst s)) now r else r"
  have key: "ar_request_id (?h r) = ar_request_id r" for r
    using same_request_timeout[of r] by (simp add: same_request_def)
  have "tbl_pk ar_request_id (map ?h (ap_rows (fst s)))"
    using inv key by (simp add: appr_inv_def tbl_pk_def comp_def)
  moreover have "row_ok (?h r)" if "r \<in> set (ap_rows (fst s))" for r
    using inv that row_ok_timeout[of r] by (simp add: appr_inv_def expired_def)
  ultimately have "appr_inv (snd (appr_process_timeouts now s))"
    unfolding appr_inv_def timeouts_rows[OF inv] set_map by blast
  moreover have "tbl_find ar_request_id i (map ?h xs) = map_option ?h (tbl_find ar_request_id i xs)" for i xs
    using key by (induction xs) auto
  then have "rows_kept (fst s) (fst (snd (appr_process_timeouts now s)))"
    unfolding rows_kept_def timeouts_rows[OF inv] by (auto simp: expired_def)
  ultimately show ?thesis by (simp add: appr_ok_def)
qed

inductive appr_step :: "approvals \<times> event_store \<Rightarrow> approvals \<times> event_store \<Rightarrow> bool" where
  aps_request: "valid_route route \<Longrightarrow>
     appr_step s (snd (appr_request fresh now kind requester p route request_id ts s))"
| aps_decide: "appr_step s (snd (appr_decide now rid who d note s))"
| aps_cancel: "appr_step s (snd (appr_cancel now rid who reason s))"
| aps_timeouts: "appr_step s (snd (appr_process_timeouts now s))"
| aps_subscribe: "appr_step s (appr_subscribe h (fst s), snd s)"
| aps_unsubscribe: "appr_step s (appr_unsubscribe h (fst s), snd s)"

definition appr_init :: "approvals \<times> event_store \<Rightarrow> bool" where
  "appr_init s \<longleftrightarrow> (\<exists>t k d. fst s = appr_create t k d)"

lemma appr_step_ok: "appr_inv s \<Longrightarrow> appr_step s t \<Longrightarrow> appr_ok s t"
  by (erule appr_step.cases)
     (auto intro: request_ok decide_ok cancel_ok timeouts_ok appr_ok_same
       simp: appr_subscribe_def appr_unsubscribe_def)

interpretation approvals: invariant_system appr_init appr_step appr_inv
proof unfold_locales
  show "appr_inv s" if "appr_init s" for s
    using that by (auto simp: appr_init_def appr_inv_def appr_create_def tbl_pk_def)
  show "appr_inv t" if "appr_inv s" "appr_step s t" for s t
    using appr_step_ok[OF that] by (simp add: appr_ok_def)
qed

lemma appr_steps_ok: "appr_step\<^sup>*\<^sup>* s t \<Longrightarrow> appr_inv s \<Longrightarrow> appr_ok s t"
proof (induction rule: rtranclp_induct)
  case (step t u)
  then have "appr_ok s t" by simp
  moreover then have "appr_ok t u" using appr_step_ok[of t u] step.hyps by (simp add: appr_ok_def)
  ultimately show ?case by (auto simp: appr_ok_def intro: rows_kept_trans)
qed (simp add: appr_ok_same)

section \<open>Examples\<close>

definition board_route :: approval_route where
  "board_route = \<lparr>ro_target = BOARD, ro_agent_id = None, ro_require_security = False\<rparr>"

definition demo_appr0 :: "approvals \<times> event_store" where
  "demo_appr0 = (appr_create (\<lambda>_. None) None None, demo_store)"

definition demo_appr :: "approvals \<times> event_store" where
  "demo_appr =
     snd (appr_request ''f'' 0 AK_EXPENSE ''bob'' [] board_route (Some ''r1'') (Some 60) demo_appr0)"

definition demo_row :: approval_row where
  "demo_row =
     \<lparr>ar_request_id = ''r1'', ar_kind = AK_EXPENSE, ar_requester_id = ''bob'', ar_payload = [],
      ar_route_target = ''board'', ar_require_security = True, ar_security_decision = None,
      ar_security_decided_at = None, ar_status = AP_PENDING, ar_decided_by = None,
      ar_decided_at = None, ar_note = None, ar_expires_at = 60000000, ar_created_at = 0\<rparr>"

lemma demo_appr_reach: "reach appr_init appr_step demo_appr"
proof -
  have "reach appr_init appr_step demo_appr0"
    by (rule reach_init) (auto simp: appr_init_def demo_appr0_def)
  moreover have "valid_route board_route"
    by (simp add: valid_route_def board_route_def mk_route_def)
  then have "appr_step demo_appr0 demo_appr"
    unfolding demo_appr_def by (rule aps_request)
  ultimately show ?thesis by (rule reach_step)
qed

lemma demo_appr_rows: "ap_rows (fst demo_appr) = [demo_row]"
  by (simp add: demo_appr_def demo_appr0_def appr_request_def appr_create_def str_or_def
      board_route_def mk_route_def DEFAULT_REQUIRE_SECURITY_def encode_target_def demo_row_def Let_def)

definition demo_decided :: "approvals \<times> event_store" where
  "demo_decided =
     snd (appr_decide 6 ''r1'' ''ceo'' APPROVE None (snd (appr_decide 5 ''r1'' ''sec'' APPROVE None demo_appr)))"

lemma demo_decided_reach: "reach appr_init appr_step demo_decided"
proof -
  have step: "reach appr_init appr_step (snd (appr_decide n ''r1'' a APPROVE None x))"
    if "reach appr_init appr_step x" for n a x
    using that by (rule reach_step) (rule aps_decide)
  show ?thesis unfolding demo_decided_def by (rule step[OF step[OF demo_appr_reach]])
qed

lemma demo_decided_rows:
  "ap_rows (fst demo_decided) =
     [decide_row ''ceo'' APPROVE None 6 (decide_row ''sec'' APPROVE None 5 demo_row)]"
proof -
  have one: "ap_rows (fst (snd (appr_decide 5 ''r1'' ''sec'' APPROVE None demo_appr))) =
      [decide_row ''sec'' APPROVE None 5 demo_row]"
    by (subst decide_rows[of _ _ demo_row]) (simp_all add: demo_appr_rows demo_row_def tbl_upd_def)
  show ?thesis
    unfolding demo_decided_def
    by (subst decide_rows[of _ _ "decide_row ''sec'' APPROVE None 5 demo_row"])
       (simp_all add: one tbl_upd_def demo_row_def decide_row_def set_security_def)
qed

section \<open>Properties\<close>

text \<open>
  C19. An approved request that requires security has a recorded security approval: the main leg
  alone can never approve it. And a security denial always ends in DENIED.
\<close>

theorem approval_needs_security:
  assumes "reach appr_init appr_step s" and "r \<in> set (ap_rows (fst s))"
  shows "(ar_status r = AP_APPROVED \<and> ar_require_security r \<longrightarrow>
            ar_security_decision r = Some APPROVE \<and> ar_security_decided_at r \<noteq> None) \<and>
         (ar_security_decision r = Some DENY \<longrightarrow> ar_status r = AP_DENIED)"
  using approvals.reach_inv[OF assms(1)] assms(2) by (auto simp: appr_inv_def row_ok_def)

lemma approval_needs_security_witness:
  "\<exists>r\<in>set (ap_rows (fst demo_decided)).
     ar_status r = AP_APPROVED \<and> ar_require_security r \<and> ar_security_decision r = Some APPROVE"
proof -
  define r where "r = decide_row ''ceo'' APPROVE None 6 (decide_row ''sec'' APPROVE None 5 demo_row)"
  have r: "r \<in> set (ap_rows (fst demo_decided))" by (simp add: demo_decided_rows r_def)
  moreover have "ar_status r = AP_APPROVED" "ar_require_security r"
    by (simp_all add: r_def decide_row_def demo_row_def set_security_def set_final_def decided_status_def)
  ultimately show ?thesis using approval_needs_security[OF demo_decided_reach r] by blast
qed

text \<open>
  C22. Requests are permanent and decisions final: under any sequence of operations a request keeps
  its id, kind, requester, payload, route and expiry, and once it is not pending its row never
  changes again.
\<close>

theorem decided_is_final:
  assumes "reach appr_init appr_step s" and "appr_step\<^sup>*\<^sup>* s t"
    and "tbl_find ar_request_id i (ap_rows (fst s)) = Some r"
  shows "\<exists>r'. tbl_find ar_request_id i (ap_rows (fst t)) = Some r' \<and> same_request r r' \<and>
           (ar_status r \<noteq> AP_PENDING \<longrightarrow> r' = r)"
  using appr_steps_ok[OF assms(2) approvals.reach_inv[OF assms(1)]] assms(3)
  unfolding appr_ok_def rows_kept_def by blast

lemma decided_is_final_witness:
  "\<exists>r'. tbl_find ar_request_id ''r1'' (ap_rows (fst (snd (appr_cancel 5 ''r1'' ''ceo'' ''no'' demo_appr)))) = Some r' \<and>
     same_request demo_row r'"
proof -
  have "appr_step\<^sup>*\<^sup>* demo_appr (snd (appr_cancel 5 ''r1'' ''ceo'' ''no'' demo_appr))"
    by (rule r_into_rtranclp) (rule aps_cancel)
  moreover have "tbl_find ar_request_id ''r1'' (ap_rows (fst demo_appr)) = Some demo_row"
    unfolding demo_appr_rows by (simp add: demo_row_def)
  ultimately show ?thesis using decided_is_final[OF demo_appr_reach] by blast
qed

text \<open>
  What a decision does: an unknown request raises; a decided one answers its row when the
  decision agrees and raises ApprovalConflict when it does not, unchanged either way; a pending one
  in the security leg stays pending after APPROVE and is DENIED after DENY; otherwise it gets the
  final status, the decider and the note.
\<close>

theorem decide_effect:
  assumes "reach appr_init appr_step s"
  shows "case appr_decide now rid who d nte s of (res, t) \<Rightarrow>
    (case tbl_find ar_request_id rid (ap_rows (fst s)) of
       None \<Rightarrow> res = Inl (ApprovalNotFound rid) \<and> t = s
     | Some r \<Rightarrow>
         if ar_status r \<noteq> AP_PENDING
         then t = s \<and> (if ar_status r = decided_status d then res = row_to_approval r
                       else \<exists>msg. res = Inl (ApprovalConflict msg))
         else \<exists>r'. tbl_find ar_request_id rid (ap_rows (fst t)) = Some r' \<and>
           (if ar_require_security r \<and> ar_security_decision r = None
            then ar_security_decision r' = Some d \<and>
                 ar_status r' = (if d = DENY then AP_DENIED else AP_PENDING)
            else ar_security_decision r' = ar_security_decision r \<and>
                 ar_status r' = decided_status d \<and> ar_decided_by r' = Some who \<and> ar_note r' = nte))"
proof (cases "tbl_find ar_request_id rid (ap_rows (fst s))")
  case None
  then show ?thesis by (simp add: appr_decide_def Let_def)
next
  case (Some r)
  show ?thesis
  proof (cases "ar_status r = AP_PENDING")
    case False
    with Some show ?thesis by (simp add: appr_decide_def Let_def)
  next
    case True
    obtain res t where run: "appr_decide now rid who d nte s = (res, t)" by (meson surj_pair)
    have "tbl_find ar_request_id rid (ap_rows (fst t)) = Some (decide_row who d nte now r)"
      using Some decide_rows[OF Some True, of now who d nte] by (simp add: run decided.find_upd)
    with Some True run show ?thesis
      by (auto simp: decide_row_def set_final_def set_security_def)
  qed
qed

lemma decide_effect_witness:
  "\<exists>r'. tbl_find ar_request_id ''r1''
      (ap_rows (fst (snd (appr_decide 5 ''r1'' ''sec'' APPROVE None demo_appr)))) = Some r' \<and>
    ar_status r' = AP_PENDING \<and> ar_security_decision r' = Some APPROVE"
proof -
  have row: "tbl_find ar_request_id ''r1'' (ap_rows (fst demo_appr)) = Some demo_row"
    unfolding demo_appr_rows by (simp add: demo_row_def)
  obtain res t where run: "appr_decide 5 ''r1'' ''sec'' APPROVE None demo_appr = (res, t)"
    by (meson surj_pair)
  have "ar_status demo_row = AP_PENDING" "ar_require_security demo_row"
    "ar_security_decision demo_row = None"
    by (simp_all add: demo_row_def)
  with decide_effect[OF demo_appr_reach, where now = 5 and rid = "''r1''" and who = "''sec''"
      and d = APPROVE and nte = None] row run
  show ?thesis by auto
qed

text \<open>A valid route survives being stored as text: decoding its encoding gives it back.\<close>

theorem route_roundtrip:
  assumes "valid_route r"
  shows "decode_route (encode_target r) (ro_require_security r) = Inr r"
  using decode_encode[of r "ro_require_security r" r] assms by (simp add: valid_route_def)

lemma route_roundtrip_witness: "decode_route (encode_target board_route) False = Inr board_route"
  using route_roundtrip[of board_route] by (simp add: valid_route_def board_route_def mk_route_def)

text \<open>
  Processing timeouts at a time leaves no request pending that expired by then, touches no
  other row, and doing it again at the same time transitions nothing and changes nothing.
\<close>

theorem timeouts_complete_idempotent:
  assumes "reach appr_init appr_step s"
  shows "case appr_process_timeouts now s of (res, t) \<Rightarrow>
           (\<forall>r\<in>set (ap_rows (fst t)). \<not> expired now r) \<and>
           (\<forall>r\<in>set (ap_rows (fst s)). \<not> expired now r \<longrightarrow> r \<in> set (ap_rows (fst t))) \<and>
           appr_process_timeouts now t = (Inr 0, t)"
proof -
  have inv: "appr_inv s" using approvals.reach_inv[OF assms] .
  obtain res t where run: "appr_process_timeouts now s = (res, t)" by (meson surj_pair)
  have rows: "ap_rows (fst t) =
     map (\<lambda>r. if expired now r then time_out_row (ap_auto_deny_kinds (fst s)) now r else r) (ap_rows (fst s))"
    using timeouts_rows[OF inv, of now] by (simp add: run)
  have none: "\<forall>r\<in>set (ap_rows (fst t)). \<not> expired now r"
    by (auto simp: rows expired_def time_out_row_def Let_def split: if_splits)
  have "appr_inv t" using timeouts_ok[OF inv, of now] by (simp add: run appr_ok_def)
  moreover have "filter (expired now) (ap_rows (fst t)) = []"
    using none by (simp add: filter_empty_conv)
  moreover have "map (\<lambda>r. if expired now r then f r else r) (ap_rows (fst t)) = ap_rows (fst t)" for f
    using none by (intro map_idI) simp
  ultimately have "appr_process_timeouts now t = (Inr 0, t)"
    by (cases t) (simp add: timeouts_run Let_def)
  moreover have "\<forall>r\<in>set (ap_rows (fst s)). \<not> expired now r \<longrightarrow> r \<in> set (ap_rows (fst t))"
    by (auto simp: rows image_iff intro: bexI[rotated])
  ultimately show ?thesis using none by (simp add: run)
qed

lemma timeouts_complete_idempotent_witness:
  "filter (expired 70000000) (ap_rows (fst (snd (appr_process_timeouts 70000000 demo_appr)))) = []"
  using timeouts_complete_idempotent[OF demo_appr_reach, of 70000000]
  by (simp add: filter_empty_conv split: prod.splits)

text \<open>
  Nobody checks who decides: the same arbitrary caller can give the security approval and then
  the main approval of a pending request that requires both, and it ends APPROVED.
\<close>

theorem one_caller_passes_both_legs:
  assumes "reach appr_init appr_step s" and "tbl_find ar_request_id rid (ap_rows (fst s)) = Some r"
    and "ar_status r = AP_PENDING" and "ar_require_security r" and "ar_security_decision r = None"
  shows "\<exists>r'. tbl_find ar_request_id rid (ap_rows (fst (snd
             (appr_decide now2 rid who APPROVE note2
                (snd (appr_decide now1 rid who APPROVE note1 s)))))) = Some r' \<and>
           ar_status r' = AP_APPROVED"
proof -
  let ?s1 = "snd (appr_decide now1 rid who APPROVE note1 s)"
  let ?r1 = "decide_row who APPROVE note1 now1 r"
  have r1: "tbl_find ar_request_id rid (ap_rows (fst ?s1)) = Some ?r1"
    unfolding decide_rows[OF assms(2,3)] decided.find_upd by (simp add: assms(2))
  have pend: "ar_status ?r1 = AP_PENDING"
    using assms(3-5) by (simp add: decide_row_def set_security_def)
  show ?thesis
    unfolding decide_rows[OF r1 pend] decided.find_upd r1 using assms(3-5)
    by (simp add: decide_row_def set_security_def set_final_def decided_status_def)
qed

lemma one_caller_passes_both_legs_witness:
  "\<exists>r'. tbl_find ar_request_id ''r1'' (ap_rows (fst (snd
       (appr_decide 6 ''r1'' ''bob'' APPROVE None
          (snd (appr_decide 5 ''r1'' ''bob'' APPROVE None demo_appr)))))) = Some r' \<and>
     ar_status r' = AP_APPROVED"
proof (rule one_caller_passes_both_legs[OF demo_appr_reach])
  show "tbl_find ar_request_id ''r1'' (ap_rows (fst demo_appr)) = Some demo_row"
    unfolding demo_appr_rows by (simp add: demo_row_def)
qed (simp_all add: demo_row_def)

end
