(* ===== verification/Rate_Limits.thy ===== *)
theory Rate_Limits
  imports Prelude
begin

text \<open>
  The two token-bucket rate limiters: \<^verbatim>\<open>modules/orchestrator/rate_limit.py\<close>, per agent and with
  one configuration for all, and \<^verbatim>\<open>modules/connector/rate_limit.py\<close>, per service and with one
  configuration each. Both keep \<open>tokens\<close> and the time \<open>last\<close> of the latest refill; the locale
  \<open>token_bucket\<close> is the contract of one consumption, and its rate bound is proved once.

  Floats are exact rationals; the monotonic clock's reading is the argument \<open>now\<close>.
\<close>

section \<open>A bucket\<close>

record bucket =
  bk_tokens :: rat
  bk_last :: rat

text \<open>The lazy refill both limiters start with: proportional to the elapsed time, capped.\<close>

definition refilled :: "rat \<Rightarrow> rat \<Rightarrow> rat \<Rightarrow> bucket \<Rightarrow> rat" where
  "refilled cap rate now b = min cap (bk_tokens b + max 0 (now - bk_last b) * rate)"

fun take_run :: "(rat \<Rightarrow> bucket \<Rightarrow> bool \<times> bucket) \<Rightarrow> rat list \<Rightarrow> bucket \<Rightarrow> nat \<times> bucket" where
  "take_run f [] b = (0, b)"
| "take_run f (t # ts) b =
     (case f t b of (ok, b1) \<Rightarrow>
        case take_run f ts b1 of (n, b2) \<Rightarrow> ((if ok then Suc n else n), b2))"

locale token_bucket =
  fixes cap rate :: rat and consume :: "rat \<Rightarrow> bucket \<Rightarrow> bool \<times> bucket"
  assumes rate_nonneg: "0 \<le> rate" and cap_nonneg: "0 \<le> cap"
    and last_now: "bk_last (snd (consume now b)) = now"
    and granted: "fst (consume now b) \<Longrightarrow>
       1 \<le> refilled cap rate now b \<and> bk_tokens (snd (consume now b)) = refilled cap rate now b - 1"
    and refused: "\<not> fst (consume now b) \<Longrightarrow> bk_tokens (snd (consume now b)) = refilled cap rate now b"
begin

text \<open>What is left after a call, the token it may have cost included, is what was there after the
  refill.\<close>

lemma balance:
  "bk_tokens (snd (consume now b)) + (if fst (consume now b) then 1 else 0) = refilled cap rate now b"
  using granted[of now b] refused[of now b] by auto

lemma tokens_nonneg: "0 \<le> bk_tokens b \<Longrightarrow> 0 \<le> bk_tokens (snd (consume now b))"
  using granted[of now b] refused[of now b] rate_nonneg cap_nonneg
  by (cases "fst (consume now b)") (auto simp: refilled_def)

lemma granted_after:
  assumes "sorted (t0 # ts)" and "bk_last b = t0" and "0 \<le> bk_tokens b"
  shows "of_nat (fst (take_run consume ts b)) \<le> bk_tokens b + rate * (last (t0 # ts) - t0)"
  using assms
proof (induction ts arbitrary: t0 b)
  case Nil
  then show ?case by simp
next
  case (Cons t ts)
  obtain ok b1 where run: "consume t b = (ok, b1)" by (meson surj_pair)
  have "0 \<le> bk_tokens b1" "bk_last b1 = t"
    using tokens_nonneg[OF Cons.prems(3), of t] last_now[of t b] by (simp_all add: run)
  with Cons.IH[of t b1] Cons.prems
  have "of_nat (fst (take_run consume ts b1)) \<le> bk_tokens b1 + rate * (last (t # ts) - t)" by simp
  moreover have "bk_tokens b1 + (if ok then 1 else 0) \<le> bk_tokens b + (t - t0) * rate"
    using balance[of t b] Cons.prems by (simp add: run refilled_def)
  ultimately show ?case
    by (auto simp: run algebra_simps split: prod.splits)
qed

text \<open>At most the capacity plus what the elapsed time refills.\<close>

lemma rate_bound:
  assumes "sorted ts" and "ts \<noteq> []" and "0 \<le> bk_tokens b"
  shows "of_nat (fst (take_run consume ts b)) \<le> cap + rate * (last ts - hd ts)"
proof -
  obtain t us where ts: "ts = t # us" using assms(2) by (cases ts) auto
  obtain ok b1 where run: "consume t b = (ok, b1)" by (meson surj_pair)
  have "0 \<le> bk_tokens b1" "bk_last b1 = t"
    using tokens_nonneg[OF assms(3), of t] last_now[of t b] by (simp_all add: run)
  with granted_after[of t us b1] assms(1)
  have "of_nat (fst (take_run consume us b1)) \<le> bk_tokens b1 + rate * (last (t # us) - t)"
    by (simp add: ts)
  moreover have "bk_tokens b1 + (if ok then 1 else 0) \<le> cap"
    using balance[of t b] by (simp add: run refilled_def)
  ultimately show ?thesis by (auto simp: ts run split: prod.splits)
qed

end

section \<open>The orchestrator's limiter\<close>

record rl_config =
  rc_capacity :: int
  rc_refill :: rat
  rc_system_exempt :: bool

definition rl_default :: rl_config where
  "rl_default = \<lparr>rc_capacity = 60, rc_refill = 1, rc_system_exempt = True\<rparr>"

record rate_limiter =
  rl_cfg :: rl_config
  rl_buckets :: "string \<Rightarrow> bucket option"

definition rl_create :: "rl_config option \<Rightarrow> rate_limiter" where
  "rl_create c = \<lparr>rl_cfg = (case c of None \<Rightarrow> rl_default | Some x \<Rightarrow> x), rl_buckets = (\<lambda>_. None)\<rparr>"

definition rl_configure :: "rat \<Rightarrow> string \<Rightarrow> int \<Rightarrow> rat \<Rightarrow> rate_limiter \<Rightarrow> rate_limiter" where
  "rl_configure now a capacity refill r =
     \<lparr>rl_cfg = \<lparr>rc_capacity = capacity, rc_refill = refill,
                rc_system_exempt = rc_system_exempt (rl_cfg r)\<rparr>,
      rl_buckets = (rl_buckets r)(a \<mapsto> \<lparr>bk_tokens = of_int capacity, bk_last = now\<rparr>)\<rparr>"

text \<open>The part of \<^verbatim>\<open>try_consume\<close> that works on the agent's bucket.\<close>

definition rl_take :: "rl_config \<Rightarrow> rat \<Rightarrow> rat \<Rightarrow> bucket \<Rightarrow> bool \<times> bucket" where
  "rl_take c cost now b =
     (let tokens = refilled (of_int (rc_capacity c)) (rc_refill c) now b
      in if cost \<le> tokens then (True, \<lparr>bk_tokens = tokens - cost, bk_last = now\<rparr>)
         else (False, \<lparr>bk_tokens = tokens, bk_last = now\<rparr>))"

definition rl_bucket :: "rate_limiter \<Rightarrow> string \<Rightarrow> rat \<Rightarrow> bucket" where
  "rl_bucket r a now =
     (case rl_buckets r a of
        None \<Rightarrow> \<lparr>bk_tokens = of_int (rc_capacity (rl_cfg r)), bk_last = now\<rparr>
      | Some b \<Rightarrow> b)"

definition rl_try_consume :: "rat \<Rightarrow> string \<Rightarrow> rat \<Rightarrow> rate_limiter \<Rightarrow> bool \<times> rate_limiter" where
  "rl_try_consume now a cost r =
     (case rl_take (rl_cfg r) cost now (rl_bucket r a now) of
        (ok, b) \<Rightarrow> (ok, r\<lparr>rl_buckets := (rl_buckets r)(a \<mapsto> b)\<rparr>))"

definition rl_tokens :: "rate_limiter \<Rightarrow> string \<Rightarrow> rat" where
  "rl_tokens r a =
     (case rl_buckets r a of None \<Rightarrow> of_int (rc_capacity (rl_cfg r)) | Some b \<Rightarrow> bk_tokens b)"

text \<open>Calls by many agents; how many of \<open>a\<close>'s are granted.\<close>

fun rl_run :: "string \<Rightarrow> (rat \<times> string) list \<Rightarrow> rate_limiter \<Rightarrow> nat \<times> rate_limiter" where
  "rl_run a [] r = (0, r)"
| "rl_run a ((t, x) # cs) r =
     (case rl_try_consume t x 1 r of (ok, r1) \<Rightarrow>
        case rl_run a cs r1 of (n, r2) \<Rightarrow> ((if ok \<and> x = a then Suc n else n), r2))"

section \<open>The connector's limiter\<close>

record rate_limit =
  rt_capacity :: int
  rt_refill :: rat

record conn_limiter =
  cl_buckets :: "string \<Rightarrow> bucket option"
  cl_configs :: "string \<Rightarrow> rate_limit option"

definition cl_create :: conn_limiter where
  "cl_create = \<lparr>cl_buckets = (\<lambda>_. None), cl_configs = (\<lambda>_. None)\<rparr>"

definition cl_configure :: "rat \<Rightarrow> string \<Rightarrow> rate_limit \<Rightarrow> conn_limiter \<Rightarrow> conn_limiter" where
  "cl_configure now sv lm r =
     r\<lparr>cl_configs := (cl_configs r)(sv \<mapsto> lm),
       cl_buckets := (cl_buckets r)(sv \<mapsto> \<lparr>bk_tokens = of_int (rt_capacity lm), bk_last = now\<rparr>)\<rparr>"

text \<open>The part of \<^verbatim>\<open>acquire\<close> that works on the service's bucket: what is raised, if anything.\<close>

definition cl_take :: "rate_limit \<Rightarrow> rat \<Rightarrow> bucket \<Rightarrow> exn option \<times> bucket" where
  "cl_take lm now b =
     (let tokens = refilled (of_int (rt_capacity lm)) (rt_refill lm) now b
      in if tokens < 1
         then (Some (RateLimited ((1 - tokens) / max (rt_refill lm) (1 / 10 ^ 9))),
               \<lparr>bk_tokens = tokens, bk_last = now\<rparr>)
         else (None, \<lparr>bk_tokens = tokens - 1, bk_last = now\<rparr>))"

definition cl_acquire :: "rat \<Rightarrow> string \<Rightarrow> conn_limiter \<Rightarrow> (unit, conn_limiter) outcome" where
  "cl_acquire now sv r =
     (case cl_configs r sv of
        None \<Rightarrow> (Inr (), r)
      | Some lm \<Rightarrow>
          (case cl_buckets r sv of
             None \<Rightarrow> (Inl (KeyError sv), r)
           | Some b \<Rightarrow>
               (case cl_take lm now b of
                  (e, b1) \<Rightarrow>
                    ((case e of None \<Rightarrow> Inr () | Some x \<Rightarrow> Inl x),
                     r\<lparr>cl_buckets := (cl_buckets r)(sv \<mapsto> b1)\<rparr>))))"

fun cl_run :: "string \<Rightarrow> (rat \<times> string) list \<Rightarrow> conn_limiter \<Rightarrow> nat \<times> conn_limiter" where
  "cl_run a [] r = (0, r)"
| "cl_run a ((t, x) # cs) r =
     (case cl_acquire t x r of (res, r1) \<Rightarrow>
        case cl_run a cs r1 of (n, r2) \<Rightarrow> ((if res = Inr () \<and> x = a then Suc n else n), r2))"

section \<open>Both meet the contract\<close>

lemma rl_token_bucket:
  "0 \<le> rc_capacity c \<Longrightarrow> 0 \<le> rc_refill c \<Longrightarrow>
     token_bucket (of_int (rc_capacity c)) (rc_refill c) (rl_take c 1)"
  by unfold_locales (auto simp: rl_take_def Let_def split: if_splits)

definition cl_grant :: "rate_limit \<Rightarrow> rat \<Rightarrow> bucket \<Rightarrow> bool \<times> bucket" where
  "cl_grant lm now b = (fst (cl_take lm now b) = None, snd (cl_take lm now b))"

lemma cl_token_bucket:
  "0 \<le> rt_capacity lm \<Longrightarrow> 0 \<le> rt_refill lm \<Longrightarrow>
     token_bucket (of_int (rt_capacity lm)) (rt_refill lm) (cl_grant lm)"
  by unfold_locales (auto simp: cl_grant_def cl_take_def Let_def split: if_splits)

interpretation default_limiter: token_bucket 60 1 "rl_take rl_default 1"
  using rl_token_bucket[of rl_default] by (simp add: rl_default_def)

lemma snd_cl_grant [simp]: "snd (cl_grant lm t b) = snd (cl_take lm t b)"
  by (simp add: cl_grant_def)

section \<open>Interleaved calls\<close>

definition times_of :: "string \<Rightarrow> (rat \<times> string) list \<Rightarrow> rat list" where
  "times_of a cs = map fst (filter (\<lambda>c. snd c = a) cs)"

lemma times_of_simps [simp]:
  "times_of a [] = []"
  "times_of a ((t, x) # cs) = (if x = a then t # times_of a cs else times_of a cs)"
  by (simp_all add: times_of_def)

lemma rl_consume_parts:
  "rl_try_consume t x c r = (ok, r1) \<Longrightarrow>
     rl_cfg r1 = rl_cfg r \<and> (x \<noteq> a \<longrightarrow> rl_buckets r1 a = rl_buckets r a) \<and>
     ok = fst (rl_take (rl_cfg r) c t (rl_bucket r x t)) \<and>
     rl_buckets r1 x = Some (snd (rl_take (rl_cfg r) c t (rl_bucket r x t)))"
  by (auto simp: rl_try_consume_def split: prod.splits)

lemma rl_run_one:
  "fst (rl_run a cs r) =
     fst (take_run (rl_take (rl_cfg r) 1) (times_of a cs) (rl_bucket r a (hd (times_of a cs))))"
proof (induction cs arbitrary: r)
  case (Cons c cs)
  obtain t x where c: "c = (t, x)" by (meson surj_pair)
  obtain ok r1 where run: "rl_try_consume t x 1 r = (ok, r1)" by (meson surj_pair)
  note parts = rl_consume_parts[OF run, of a]
  obtain n r2 where rest: "rl_run a cs r1 = (n, r2)" by (meson surj_pair)
  show ?case
  proof (cases "x = a")
    case True
    with parts have "rl_bucket r1 a t' = snd (rl_take (rl_cfg r) 1 t (rl_bucket r a t))" for t'
      by (simp add: rl_bucket_def)
    with Cons.IH[of r1] parts True rest run show ?thesis
      by (simp add: c case_prod_beta)
  next
    case False
    with parts have "rl_bucket r1 a t' = rl_bucket r a t'" for t'
      by (simp add: rl_bucket_def split: option.split)
    with Cons.IH[of r1] parts False rest run show ?thesis
      by (simp add: c)
  qed
qed simp

lemma cl_acquire_parts:
  assumes "cl_configs r a = Some lm" and "cl_buckets r a = Some b" and "cl_acquire t x r = (res, r1)"
  shows "cl_configs r1 = cl_configs r \<and>
     cl_buckets r1 a = Some (if x = a then snd (cl_take lm t b) else b) \<and>
     (x = a \<longrightarrow> (res = Inr () \<longleftrightarrow> fst (cl_grant lm t b)) \<and>
        (\<forall>e. fst (cl_take lm t b) = Some e \<longrightarrow> res = Inl e))"
  using assms by (cases "x = a") (auto simp: cl_acquire_def cl_grant_def split: option.splits prod.splits)

lemma cl_run_one:
  assumes "cl_configs r a = Some lm" and "cl_buckets r a = Some b"
  shows "fst (cl_run a cs r) = fst (take_run (cl_grant lm) (times_of a cs) b)"
  using assms
proof (induction cs arbitrary: r b)
  case (Cons c cs)
  obtain t x where c: "c = (t, x)" by (meson surj_pair)
  obtain res r1 where run: "cl_acquire t x r = (res, r1)" by (meson surj_pair)
  note parts = cl_acquire_parts[OF Cons.prems run]
  obtain n r2 where rest: "cl_run a cs r1 = (n, r2)" by (meson surj_pair)
  have "fst (cl_run a cs r1) =
      fst (take_run (cl_grant lm) (times_of a cs) (if x = a then snd (cl_take lm t b) else b))"
    by (rule Cons.IH) (use parts Cons.prems in simp_all)
  with parts rest run show ?case
    by (cases "x = a") (simp_all add: c case_prod_beta)
qed simp

section \<open>Properties\<close>



text \<open>
  A configured external service gets at most capacity + rate * (elapsed time) calls, and the
  delay a refusal names is right: acquiring again that many seconds later, nothing in between,
  succeeds.
\<close>

theorem service_rate_limited:
  assumes "cl_configs r sv = Some lm" and "cl_buckets r sv = Some b" and "0 \<le> bk_tokens b"
    and "1 \<le> rt_capacity lm" and "1 / 10 ^ 9 \<le> rt_refill lm"
  shows "(sorted (times_of sv cs) \<and> times_of sv cs \<noteq> [] \<longrightarrow>
            of_nat (fst (cl_run sv cs r)) \<le> of_int (rt_capacity lm) +
              rt_refill lm * (last (times_of sv cs) - hd (times_of sv cs))) \<and>
         (\<forall>t w r1. cl_acquire t sv r = (Inl (RateLimited w), r1) \<longrightarrow>
            0 < w \<and> fst (cl_acquire (t + w) sv r1) = Inr ())"
proof (intro conjI impI allI)
  assume "sorted (times_of sv cs) \<and> times_of sv cs \<noteq> []"
  moreover have "0 \<le> rt_refill lm"
    using assms(5) order_trans[of 0 "1 / 10 ^ 9" "rt_refill lm"] by simp
  ultimately show "of_nat (fst (cl_run sv cs r)) \<le> of_int (rt_capacity lm) +
      rt_refill lm * (last (times_of sv cs) - hd (times_of sv cs))"
    using token_bucket.rate_bound[OF cl_token_bucket, of lm "times_of sv cs" b] assms(3,4)
    by (simp add: cl_run_one[OF assms(1,2)])
next
  fix t w r1
  assume acq: "cl_acquire t sv r = (Inl (RateLimited w), r1)"
  note parts = cl_acquire_parts[OF assms(1,2) acq]
  have pos: "0 < rt_refill lm"
    using assms(5) by (rule less_le_trans[rotated]) simp
  define k where "k = refilled (of_int (rt_capacity lm)) (rt_refill lm) t b"
  have low: "k < 1" and b1: "cl_buckets r1 sv = Some \<lparr>bk_tokens = k, bk_last = t\<rparr>"
    and w: "w = (1 - k) / rt_refill lm"
    using parts assms(5) acq
    by (auto simp: cl_acquire_def assms cl_take_def Let_def k_def max_def split: if_splits)
  show "0 < w" using low pos by (simp add: w)
  have "refilled (of_int (rt_capacity lm)) (rt_refill lm) (t + w) \<lparr>bk_tokens = k, bk_last = t\<rparr> = 1"
    using assms(4) low pos by (simp add: refilled_def w)
  then show "fst (cl_acquire (t + w) sv r1) = Inr ()"
    using parts b1 assms(1) by (simp add: cl_acquire_def cl_take_def Let_def)
qed

definition demo_limiter :: conn_limiter where
  "demo_limiter = cl_configure 0 ''mail'' \<lparr>rt_capacity = 1, rt_refill = 1\<rparr> cl_create"

lemma service_rate_limited_witness:
  "of_nat (fst (cl_run ''mail'' [(0, ''mail''), (1, ''mail''), (1, ''mail'')] demo_limiter)) \<le> (2 :: rat)"
  using service_rate_limited[of demo_limiter "''mail''" "\<lparr>rt_capacity = 1, rt_refill = 1\<rparr>"
      "\<lparr>bk_tokens = 1, bk_last = 0\<rparr>" "[(0, ''mail''), (1, ''mail''), (1, ''mail'')]"]
  by (simp add: demo_limiter_def cl_configure_def cl_create_def)

end
