(* ===== verification/Loop_Detector.thy ===== *)
theory Loop_Detector
  imports Prelude
begin

text \<open>
  \<^verbatim>\<open>modules/orchestrator/loop_detector.py\<close>: the structural detector (the same edge again and again,
  or two agents answering each other) and the semantic one (near-duplicate contents), each over
  a bounded window per recipient or per pair. An absent window is the empty one
  (\<^verbatim>\<open>setdefault\<close>). The window sizes and thresholds of the configuration are naturals.
\<close>

section \<open>Windows\<close>

text \<open>\<^verbatim>\<open>deque(maxlen=n).append\<close> and the slice \<^verbatim>\<open>xs[-n:]\<close> (all of it when \<open>n\<close> is 0).\<close>

definition deque_append :: "nat \<Rightarrow> 'a list \<Rightarrow> 'a \<Rightarrow> 'a list" where
  "deque_append n w x = (let w' = w @ [x] in drop (length w' - n) w')"

definition last_n :: "nat \<Rightarrow> 'a list \<Rightarrow> 'a list" where
  "last_n n xs = drop (length xs - n) xs"

definition py_tail :: "nat \<Rightarrow> 'a list \<Rightarrow> 'a list" where
  "py_tail n xs = (if n = 0 then xs else drop (length xs - n) xs)"

lemma deque_append_last_n: "deque_append n (last_n n xs) x = last_n n (xs @ [x])"
  by (cases "length xs < n") (auto simp: deque_append_def last_n_def Let_def Suc_diff_le drop_Suc)

lemma length_last_n [simp]: "length (last_n n xs) = min n (length xs)"
  by (simp add: last_n_def)

lemma last_n_last_n: "m \<le> n \<Longrightarrow> last_n m (last_n n xs) = last_n m xs"
  by (cases "length xs \<le> n") (auto simp: last_n_def)

lemma last_n_Nil [simp]: "last_n n [] = []"
  by (simp add: last_n_def)

lemma py_tail_last_n: "0 < n \<Longrightarrow> py_tail n xs = last_n n xs"
  by (simp add: py_tail_def last_n_def)

section \<open>The detector\<close>

definition jaccard :: "string \<Rightarrow> string \<Rightarrow> rat" where
  "jaccard a b =
     (if a = [] \<or> b = [] then 0
      else
        let sa = set (py_split (py_lower a)); sb = set (py_split (py_lower b)) in
        if sa = {} \<or> sb = {} then 0
        else of_nat (card (sa \<inter> sb)) / of_nat (card (sa \<union> sb)))"

record loop_config =
  lc_structural_window :: nat
  lc_structural_threshold :: nat
  lc_pingpong_threshold :: nat
  lc_semantic_window :: nat
  lc_semantic_similarity :: rat
  lc_semantic_threshold :: nat

definition loop_default :: loop_config where
  "loop_default =
     \<lparr>lc_structural_window = 12, lc_structural_threshold = 5, lc_pingpong_threshold = 3,
      lc_semantic_window = 5, lc_semantic_similarity = 9 / 10, lc_semantic_threshold = 3\<rparr>"

type_synonym edge = "string option \<times> string"

record loop_detector =
  ld_cfg :: loop_config
  ld_edges :: "string \<Rightarrow> edge list"
  ld_pair_edges :: "string \<times> string \<Rightarrow> edge list"
  ld_contents :: "string \<Rightarrow> string list"

definition ld_create :: "loop_config option \<Rightarrow> loop_detector" where
  "ld_create c =
     \<lparr>ld_cfg = (case c of None \<Rightarrow> loop_default | Some x \<Rightarrow> x), ld_edges = (\<lambda>_. []),
      ld_pair_edges = (\<lambda>_. []), ld_contents = (\<lambda>_. [])\<rparr>"

definition pair_key :: "string \<Rightarrow> string \<Rightarrow> string \<times> string" where
  "pair_key a b = (if a \<le> b then (a, b) else (b, a))"

text \<open>\<^verbatim>\<open>tail[i] == (a if i % 2 == 0 else b)\<close> for every index.\<close>

fun alternates :: "'a \<Rightarrow> 'a \<Rightarrow> 'a list \<Rightarrow> bool" where
  "alternates a b [] = True"
| "alternates a b (x # xs) = (x = a \<and> alternates b a xs)"

definition same_edge_loop :: "nat \<Rightarrow> edge list \<Rightarrow> edge \<Rightarrow> bool" where
  "same_edge_loop n win e \<longleftrightarrow> n \<le> length win \<and> list_all (\<lambda>x. x = e) (py_tail n win)"

text \<open>The ping-pong test reads \<^verbatim>\<open>tail[0]\<close> and \<^verbatim>\<open>tail[1]\<close>, which a threshold of 0 may not have.\<close>

definition ping_pong :: "nat \<Rightarrow> edge list \<Rightarrow> exn + bool" where
  "ping_pong n win =
     (if n * 2 \<le> length win
      then (case py_tail (n * 2) win of
              a # b # rest \<Rightarrow> Inr (a \<noteq> b \<and> alternates a b (a # b # rest))
            | _ \<Rightarrow> Inl (IndexError ''list index out of range''))
      else Inr False)"

definition record_edge :: "string \<Rightarrow> edge \<Rightarrow> loop_detector \<Rightarrow> (bool, loop_detector) outcome" where
  "record_edge recipient e d =
     (let c = ld_cfg d;
          win = deque_append (lc_structural_window c) (ld_edges d recipient) e;
          d1 = d\<lparr>ld_edges := (ld_edges d)(recipient := win)\<rparr>
      in if same_edge_loop (lc_structural_threshold c) win e then (Inr True, d1)
         else (case fst e of
                 None \<Rightarrow> (Inr False, d1)
               | Some sender \<Rightarrow>
                   let key = pair_key sender (snd e);
                       pwin = deque_append (lc_structural_window c) (ld_pair_edges d1 key) e
                   in (ping_pong (lc_pingpong_threshold c) pwin,
                       d1\<lparr>ld_pair_edges := (ld_pair_edges d1)(key := pwin)\<rparr>)))"

definition record_content :: "string \<Rightarrow> string \<Rightarrow> loop_detector \<Rightarrow> bool \<times> loop_detector" where
  "record_content recipient content d =
     (let c = ld_cfg d; win = ld_contents d recipient;
          similar = length (filter (\<lambda>prev. lc_semantic_similarity c \<le> jaccard prev content) win)
      in (int similar \<ge> int (lc_semantic_threshold c) - 1,
          d\<lparr>ld_contents := (ld_contents d)(recipient :=
               deque_append (lc_semantic_window c) win content)\<rparr>))"

definition ld_check ::
  "string option \<Rightarrow> string \<Rightarrow> string \<Rightarrow> loop_detector \<Rightarrow> (string option, loop_detector) outcome" where
  "ld_check from_agent to_agent content d =
     (case record_edge to_agent (from_agent, to_agent) d of
        (Inl e, d1) \<Rightarrow> (Inl e, d1)
      | (Inr True, d1) \<Rightarrow> (Inr (Some ''structural''), d1)
      | (Inr False, d1) \<Rightarrow>
          (case record_content to_agent content d1 of
             (True, d2) \<Rightarrow> (Inr (Some ''semantic''), d2)
           | (False, d2) \<Rightarrow> (Inr None, d2)))"

section \<open>The windows as the ends of a history\<close>

text \<open>Every check is an entry of the history: sender, recipient, content.\<close>

type_synonym traffic = "(string option \<times> string \<times> string) list"

fun ld_run :: "traffic \<Rightarrow> loop_detector \<Rightarrow> loop_detector" where
  "ld_run [] d = d"
| "ld_run ((f, t, c) # h) d = ld_run h (snd (ld_check f t c d))"

definition edges_to :: "string \<Rightarrow> traffic \<Rightarrow> edge list" where
  "edges_to r h = map (\<lambda>(f, t, c). (f, t)) (filter (\<lambda>(f, t, c). t = r) h)"

lemma edges_to_append [simp]:
  "edges_to r (h @ [(f, t, c)]) = (if t = r then edges_to r h @ [(f, t)] else edges_to r h)"
  by (simp add: edges_to_def)

lemma record_content_parts [simp]:
  "ld_cfg (snd (record_content r c d)) = ld_cfg d"
  "ld_edges (snd (record_content r c d)) = ld_edges d"
  "ld_pair_edges (snd (record_content r c d)) = ld_pair_edges d"
  by (simp_all add: record_content_def Let_def)

lemma record_edge_parts [simp]:
  "ld_cfg (snd (record_edge r e d)) = ld_cfg d"
  "ld_edges (snd (record_edge r e d)) =
     (ld_edges d)(r := deque_append (lc_structural_window (ld_cfg d)) (ld_edges d r) e)"
  "ld_contents (snd (record_edge r e d)) = ld_contents d"
  by (simp_all add: record_edge_def Let_def split: option.split)

lemma ld_check_parts [simp]:
  "ld_cfg (snd (ld_check f t c d)) = ld_cfg d"
  "ld_edges (snd (ld_check f t c d)) =
     (ld_edges d)(t := deque_append (lc_structural_window (ld_cfg d)) (ld_edges d t) (f, t))"
proof -
  obtain res d1 where e: "record_edge t (f, t) d = (res, d1)" by (meson surj_pair)
  obtain b d2 where s: "record_content t c d1 = (b, d2)" by (meson surj_pair)
  note parts = record_edge_parts[of t "(f, t)" d, unfolded e snd_conv]
    record_content_parts[of t c d1, unfolded s snd_conv]
  show "ld_cfg (snd (ld_check f t c d)) = ld_cfg d"
    "ld_edges (snd (ld_check f t c d)) =
     (ld_edges d)(t := deque_append (lc_structural_window (ld_cfg d)) (ld_edges d t) (f, t))"
    using parts by (auto simp: ld_check_def e s split: sum.splits bool.splits)
qed

lemma ld_run_append: "ld_run (h @ [(f, t, c)]) d = snd (ld_check f t c (ld_run h d))"
  by (induction h d rule: ld_run.induct) auto

lemma ld_run_cfg [simp]: "ld_cfg (ld_run h d) = ld_cfg d"
  by (induction h d rule: ld_run.induct) auto

lemma ld_edges_history:
  "ld_edges (ld_run h (ld_create c)) r =
     last_n (lc_structural_window (ld_cfg (ld_create c))) (edges_to r h)"
proof (induction h arbitrary: r rule: rev_induct)
  case Nil
  then show ?case by (simp add: ld_create_def edges_to_def)
next
  case (snoc m h)
  obtain f t x where "m = (f, t, x)" by (metis prod_cases3)
  with snoc show ?case by (simp add: ld_run_append deque_append_last_n)
qed

lemma list_all_eq_replicate: "list_all (\<lambda>x. x = e) xs \<longleftrightarrow> xs = replicate (length xs) e"
  by (induction xs) auto

text \<open>
  The specification of the verdict, on whole histories. A message is pestering when it and the
  ones before it to the same recipient form a run of the same edge; the other agent messages make
  up the dialogue of their pair, which loops when its end alternates; what is not structural adds
  to the contents the semantic test compares with. \<open>past\<close> is the history, latest first.
\<close>

definition pestering :: "nat \<Rightarrow> traffic \<Rightarrow> string option \<Rightarrow> string \<Rightarrow> bool" where
  "pestering n past f t \<longleftrightarrow>
     n \<le> Suc (length (edges_to t (rev past))) \<and>
     list_all (\<lambda>e. e = (f, t)) (last_n n (edges_to t (rev past) @ [(f, t)]))"

fun dialogue :: "nat \<Rightarrow> string \<times> string \<Rightarrow> traffic \<Rightarrow> edge list" where
  "dialogue n k [] = []"
| "dialogue n k ((f, t, c) # past) =
     (case f of
        None \<Rightarrow> dialogue n k past
      | Some s \<Rightarrow> if pair_key s t = k \<and> \<not> pestering n past f t then dialogue n k past @ [(f, t)]
                 else dialogue n k past)"

definition alternating_end :: "nat \<Rightarrow> edge list \<Rightarrow> bool" where
  "alternating_end n es \<longleftrightarrow>
     n * 2 \<le> length es \<and>
     (let tl_es = last_n (n * 2) es in
      tl_es ! 0 \<noteq> tl_es ! 1 \<and> alternates (tl_es ! 0) (tl_es ! 1) tl_es)"

definition structural_loop :: "loop_config \<Rightarrow> traffic \<Rightarrow> string option \<Rightarrow> string \<Rightarrow> bool" where
  "structural_loop c past f t \<longleftrightarrow>
     pestering (lc_structural_threshold c) past f t \<or>
     (\<exists>s. f = Some s \<and>
        alternating_end (lc_pingpong_threshold c)
          (dialogue (lc_structural_threshold c) (pair_key s t) past @ [(f, t)]))"

fun plain_contents :: "loop_config \<Rightarrow> string \<Rightarrow> traffic \<Rightarrow> string list" where
  "plain_contents c r [] = []"
| "plain_contents c r ((f, t, x) # past) =
     (if t = r \<and> \<not> structural_loop c past f t then plain_contents c r past @ [x]
      else plain_contents c r past)"

definition semantic_loop :: "loop_config \<Rightarrow> traffic \<Rightarrow> string \<Rightarrow> string \<Rightarrow> bool" where
  "semantic_loop c past t x \<longleftrightarrow>
     lc_semantic_threshold c \<le> Suc (length (filter (\<lambda>prev. lc_semantic_similarity c \<le> jaccard prev x)
       (last_n (lc_semantic_window c) (plain_contents c t past))))"

definition verdict :: "loop_config \<Rightarrow> traffic \<Rightarrow> string option \<Rightarrow> string \<Rightarrow> string \<Rightarrow> string option" where
  "verdict c past f t x =
     (if structural_loop c past f t then Some ''structural''
      else if semantic_loop c past t x then Some ''semantic'' else None)"

text \<open>The windows must reach as far back as the thresholds look.\<close>

definition sane_config :: "loop_config \<Rightarrow> bool" where
  "sane_config c \<longleftrightarrow>
     0 < lc_structural_threshold c \<and> lc_structural_threshold c \<le> lc_structural_window c \<and>
     0 < lc_pingpong_threshold c \<and> lc_pingpong_threshold c * 2 \<le> lc_structural_window c"

definition tracks :: "loop_config \<Rightarrow> traffic \<Rightarrow> loop_detector \<Rightarrow> bool" where
  "tracks c past d \<longleftrightarrow>
     ld_cfg d = c \<and>
     (\<forall>r. ld_edges d r = last_n (lc_structural_window c) (edges_to r (rev past))) \<and>
     (\<forall>k. ld_pair_edges d k =
        last_n (lc_structural_window c) (dialogue (lc_structural_threshold c) k past)) \<and>
     (\<forall>r. ld_contents d r = last_n (lc_semantic_window c) (plain_contents c r past))"

lemma tracksD:
  assumes "tracks c past d"
  shows "ld_cfg d = c"
    and "ld_edges d r = last_n (lc_structural_window c) (edges_to r (rev past))"
    and "ld_pair_edges d k = last_n (lc_structural_window c) (dialogue (lc_structural_threshold c) k past)"
    and "ld_contents d r = last_n (lc_semantic_window c) (plain_contents c r past)"
  using assms unfolding tracks_def by (blast | simp only:)+

lemma same_edge_pestering:
  assumes "0 < n" and "n \<le> w"
  shows "same_edge_loop n (last_n w (edges_to t (rev past) @ [(f, t)])) (f, t) = pestering n past f t"
  using assms by (simp add: same_edge_loop_def pestering_def py_tail_last_n last_n_last_n min_le_iff_disj)

lemma ping_pong_alternating:
  assumes n: "0 < n" and w: "n * 2 \<le> w"
  shows "ping_pong n (last_n w es) = Inr (alternating_end n es)"
proof (cases "n * 2 \<le> length es")
  case True
  define te where "te = last_n (n * 2) es"
  have "2 \<le> length te" using True n by (simp add: te_def)
  then obtain a b rest where te: "te = a # b # rest"
    by (cases te; cases "tl te") auto
  have "py_tail (n * 2) (last_n w es) = te"
    using n w by (simp add: py_tail_last_n last_n_last_n te_def)
  with True w te show ?thesis
    by (simp add: ping_pong_def alternating_end_def te_def[symmetric] Let_def)
next
  case False
  then show ?thesis using w by (simp add: ping_pong_def alternating_end_def)
qed

lemma tracks_init: "tracks c [] (ld_create (Some c))"
  by (simp add: tracks_def ld_create_def edges_to_def)

lemma record_edge_tracks:
  assumes cfg: "sane_config c" and d: "tracks c past d"
  shows "fst (record_edge t (f, t) d) = Inr (structural_loop c past f t)"
    and "ld_pair_edges (snd (record_edge t (f, t) d)) k =
      last_n (lc_structural_window c) (dialogue (lc_structural_threshold c) k ((f, t, x) # past))"
proof -
  note sane = cfg[unfolded sane_config_def]
  note tr = tracksD[OF d]
  have win: "deque_append (lc_structural_window c) (ld_edges d t) (f, t) =
      last_n (lc_structural_window c) (edges_to t (rev past) @ [(f, t)])"
    using tr by (simp add: deque_append_last_n)
  have same: "same_edge_loop (lc_structural_threshold c)
      (last_n (lc_structural_window c) (edges_to t (rev past) @ [(f, t)])) (f, t) =
      pestering (lc_structural_threshold c) past f t"
    using sane by (intro same_edge_pestering) auto
  have pwin: "deque_append (lc_structural_window c) (ld_pair_edges d q) (f, t) =
      last_n (lc_structural_window c) (dialogue (lc_structural_threshold c) q past @ [(f, t)])" for q
    using tr by (simp add: deque_append_last_n)
  have pp: "ping_pong (lc_pingpong_threshold c) (last_n (lc_structural_window c) es) =
      Inr (alternating_end (lc_pingpong_threshold c) es)" for es
    using sane by (intro ping_pong_alternating) auto
  have c: "ld_cfg d = c" using tr by simp
  show "fst (record_edge t (f, t) d) = Inr (structural_loop c past f t)"
    using win same pwin
    by (cases f) (simp_all add: record_edge_def Let_def c pp structural_loop_def split_paired_All)
  show "ld_pair_edges (snd (record_edge t (f, t) d)) k =
      last_n (lc_structural_window c) (dialogue (lc_structural_threshold c) k ((f, t, x) # past))"
    using win same pwin tr(3)
    by (cases f) (auto simp: record_edge_def Let_def c)
qed

lemma ld_check_tracks:
  assumes cfg: "sane_config c" and d: "tracks c past d"
  shows "fst (ld_check f t x d) = Inr (verdict c past f t x) \<and>
         tracks c ((f, t, x) # past) (snd (ld_check f t x d))"
proof -
  obtain res d1 where e: "record_edge t (f, t) d = (res, d1)" by (meson surj_pair)
  note edge = record_edge_tracks[OF cfg d, of t f, unfolded e fst_conv snd_conv]
  note parts = record_edge_parts[of t "(f, t)" d, unfolded e snd_conv]
  obtain b d2 where s: "record_content t x d1 = (b, d2)" by (meson surj_pair)
  have b: "b = semantic_loop c past t x"
    and d2: "d2 = d1\<lparr>ld_contents := (ld_contents d1)(t :=
       deque_append (lc_semantic_window c) (ld_contents d1 t) x)\<rparr>"
    using s parts tracksD[OF d] by (auto simp: record_content_def Let_def semantic_loop_def)
  show ?thesis
  proof (cases "structural_loop c past f t")
    case True
    with edge have "ld_check f t x d = (Inr (Some ''structural''), d1)"
      by (simp add: ld_check_def e)
    moreover have "tracks c ((f, t, x) # past) d1"
      unfolding tracks_def
      using parts tracksD[OF d] edge(2)[where x = x] True
      by (simp add: deque_append_last_n del: dialogue.simps split_paired_All)
    ultimately show ?thesis using True by (simp add: verdict_def)
  next
    case False
    with edge have "ld_check f t x d = (Inr (if b then Some ''semantic'' else None), d2)"
      by (simp add: ld_check_def e s split: bool.split)
    moreover have "tracks c ((f, t, x) # past) d2"
      unfolding tracks_def
      using parts tracksD[OF d] edge(2)[where x = x] False
      by (simp add: deque_append_last_n d2 del: dialogue.simps split_paired_All)
    ultimately show ?thesis using False by (simp add: verdict_def b)
  qed
qed

lemma ld_run_tracks:
  assumes "sane_config c"
  shows "tracks c (rev h) (ld_run h (ld_create (Some c)))"
proof (induction h rule: rev_induct)
  case Nil
  then show ?case by (simp add: tracks_init)
next
  case (snoc m h)
  obtain f t x where m: "m = (f, t, x)" by (metis prod_cases3)
  show ?case
    using ld_check_tracks[OF assms snoc, of f t x] by (simp add: m ld_run_append)
qed

section \<open>Properties\<close>

text \<open>
  C28. After any traffic the detector's verdict on the next message, computed from its bounded
  windows, is the one the specification gives on the whole history: structural for a run of one
  edge or an alternating dialogue, semantic for enough near-duplicates, and it never raises.
\<close>

theorem loop_verdict_by_history:
  assumes "sane_config c"
  shows "fst (ld_check f t x (ld_run h (ld_create (Some c)))) = Inr (verdict c (rev h) f t x)"
  using ld_check_tracks[OF assms ld_run_tracks[OF assms]] by simp

lemma loop_verdict_by_history_witness:
  "fst (ld_check (Some ''b'') ''a'' ''x''
     (ld_run [(Some ''a'', ''b'', ''u''), (Some ''b'', ''a'', ''v''), (Some ''a'', ''b'', ''w''),
              (Some ''b'', ''a'', ''x''), (Some ''a'', ''b'', ''y'')] (ld_create (Some loop_default)))) =
     Inr (Some ''structural'')"
proof -
  have "sane_config loop_default" by (simp add: sane_config_def loop_default_def)
  moreover have "verdict loop_default
      (rev [(Some ''a'', ''b'', ''u''), (Some ''b'', ''a'', ''v''), (Some ''a'', ''b'', ''w''),
              (Some ''b'', ''a'', ''x''), (Some ''a'', ''b'', ''y'')]) (Some ''b'') ''a'' ''x'' =
      Some ''structural''"
    by (simp add: verdict_def structural_loop_def pestering_def edges_to_def last_n_def
        alternating_end_def loop_default_def pair_key_def numeral_2_eq_2)
  ultimately show ?thesis using loop_verdict_by_history by metis
qed

end
