(* ===== verification/Message_Queue.thy ===== *)
theory Message_Queue
  imports Prelude
begin

text \<open>
  \<^verbatim>\<open>modules/orchestrator/streams.py\<close>: the in-memory message queue (a FIFO bucket per agent, the
  correlation ids seen, the dead letters, one asyncio event per agent that wakes its consumer),
  with the envelope of \<^verbatim>\<open>models.py\<close> and the incoming message of \<^verbatim>\<open>agent_runtime/models.py\<close>. An
  absent bucket is the empty one, an absent waiter an event that is not set. The interface
  \<^verbatim>\<open>MessageQueue\<close> of \<^verbatim>\<open>protocols.py\<close> is the locale \<open>fifo_queue\<close>.
\<close>

section \<open>Data\<close>

datatype message_kind = USER_REQUEST | AGENT_MESSAGE | MK_APPROVAL_DECIDED | ORPHAN | NOTIFY

record envelope =
  en_msg_id :: string
  en_from :: "string option"
  en_to :: string
  en_content :: string
  en_kind :: message_kind
  en_corr :: "string option"
  en_enqueued_at :: int
  en_attempts :: nat

definition envelope_new ::
  "string \<Rightarrow> string option \<Rightarrow> string \<Rightarrow> string \<Rightarrow> message_kind \<Rightarrow> string option \<Rightarrow> int \<Rightarrow> envelope" where
  "envelope_new hex12 from_a to_a content kind corr now =
     \<lparr>en_msg_id = ''m-'' @ hex12, en_from = from_a, en_to = to_a, en_content = content,
      en_kind = kind, en_corr = corr, en_enqueued_at = now, en_attempts = 0\<rparr>"

record incoming_message =
  im_content :: string
  im_kind :: message_kind
  im_from :: "string option"
  im_corr :: "string option"

record dead_letter =
  dl_envelope :: envelope
  dl_reason :: string
  dl_moved_at :: int

record message_queue =
  mq_queues :: "string \<Rightarrow> envelope list"
  mq_seen :: "string \<Rightarrow> string list"
  mq_dlq :: "dead_letter list"
  mq_available :: bool
  mq_waiters :: "string \<Rightarrow> bool"

definition mq_create :: message_queue where
  "mq_create = \<lparr>mq_queues = (\<lambda>_. []), mq_seen = (\<lambda>_. []), mq_dlq = [], mq_available = True,
                mq_waiters = (\<lambda>_. False)\<rparr>"

section \<open>Operations\<close>

definition mq_set_available :: "bool \<Rightarrow> message_queue \<Rightarrow> message_queue" where
  "mq_set_available v q = q\<lparr>mq_available := v\<rparr>"

definition truthy :: "string option \<Rightarrow> bool" where
  "truthy c \<longleftrightarrow> c \<noteq> None \<and> c \<noteq> Some []"

definition mq_push :: "envelope \<Rightarrow> message_queue \<Rightarrow> (unit, message_queue) outcome" where
  "mq_push e q =
     (if \<not> mq_available q then (Inl (RedisUnavailable ''queue offline''), q)
      else
        (Inr (), q\<lparr>mq_queues := (mq_queues q)(en_to e := mq_queues q (en_to e) @ [e]),
                   mq_seen := (if truthy (en_corr e)
                     then (mq_seen q)(en_to e := List.insert (the (en_corr e)) (mq_seen q (en_to e)))
                     else mq_seen q),
                   mq_waiters := (mq_waiters q)(en_to e := True)\<rparr>))"

definition mq_pop :: "string \<Rightarrow> message_queue \<Rightarrow> envelope option \<times> message_queue" where
  "mq_pop a q =
     (case mq_queues q a of
        [] \<Rightarrow> (None, q)
      | e # rest \<Rightarrow>
          (Some e, q\<lparr>mq_queues := (mq_queues q)(a := rest),
                     mq_waiters := (if rest = [] then (mq_waiters q)(a := False)
                                    else mq_waiters q)\<rparr>))"

definition mq_pending_count :: "message_queue \<Rightarrow> string \<Rightarrow> nat" where
  "mq_pending_count q a = length (mq_queues q a)"

definition mq_has_correlation :: "message_queue \<Rightarrow> string \<Rightarrow> string \<Rightarrow> bool" where
  "mq_has_correlation q a c \<longleftrightarrow> c \<in> set (mq_seen q a)"

definition mq_to_dlq :: "envelope \<Rightarrow> string \<Rightarrow> int \<Rightarrow> message_queue \<Rightarrow> message_queue" where
  "mq_to_dlq e reason now q =
     q\<lparr>mq_dlq := mq_dlq q @ [\<lparr>dl_envelope = e, dl_reason = reason, dl_moved_at = now\<rparr>]\<rparr>"

text \<open>One resumption of the consumer's generator \<^verbatim>\<open>aiter\<close>: an envelope, or it goes to sleep on the
  waiter; \<open>None\<close> of the outer option is a generator that would spin, its event set and its bucket
  empty.\<close>

definition mq_aiter_next :: "string \<Rightarrow> message_queue \<Rightarrow> (envelope option \<times> message_queue) option" where
  "mq_aiter_next a q =
     (case mq_pop a q of
        (Some e, q1) \<Rightarrow> Some (Some e, q1)
      | (None, q1) \<Rightarrow> if mq_waiters q1 a then None else Some (None, q1))"

section \<open>The interface of a queue\<close>

datatype 'e queue_op = Push 'e | Pop string

fun q_run ::
  "('e \<Rightarrow> 'q \<Rightarrow> (unit, 'q) outcome) \<Rightarrow> (string \<Rightarrow> 'q \<Rightarrow> 'e option \<times> 'q) \<Rightarrow> ('e \<Rightarrow> string) \<Rightarrow> string
   \<Rightarrow> 'e queue_op list \<Rightarrow> 'q \<Rightarrow> 'e list \<times> 'e list \<times> 'q" where
  "q_run push pop dest a [] q = ([], [], q)"
| "q_run push pop dest a (Push e # ops) q =
     (case push e q of (r, q1) \<Rightarrow>
        case q_run push pop dest a ops q1 of (ins, outs, q2) \<Rightarrow>
          ((if r = Inr () \<and> dest e = a then e # ins else ins), outs, q2))"
| "q_run push pop dest a (Pop b # ops) q =
     (case pop b q of (r, q1) \<Rightarrow>
        case q_run push pop dest a ops q1 of (ins, outs, q2) \<Rightarrow>
          (ins, (if b = a then case_option [] (\<lambda>e. [e]) r else []) @ outs, q2))"

locale fifo_queue =
  fixes push :: "'e \<Rightarrow> 'q \<Rightarrow> (unit, 'q) outcome"
    and pop :: "string \<Rightarrow> 'q \<Rightarrow> 'e option \<times> 'q"
    and pending :: "'q \<Rightarrow> string \<Rightarrow> 'e list"
    and dest :: "'e \<Rightarrow> string"
  assumes push_ok: "push e q = (Inr (), q') \<Longrightarrow>
      pending q' a = (if a = dest e then pending q a @ [e] else pending q a)"
    and push_fails: "push e q = (Inl x, q') \<Longrightarrow> pending q' = pending q"
    and pop_some: "pop b q = (Some e, q') \<Longrightarrow>
      pending q b = e # pending q' b \<and> (a \<noteq> b \<longrightarrow> pending q' a = pending q a)"
    and pop_none: "pop b q = (None, q') \<Longrightarrow> pending q b = [] \<and> pending q' = pending q"
begin

text \<open>What was waiting and what was pushed is what was popped and what waits, in that order.\<close>

lemma fifo:
  "q_run push pop dest a ops q = (ins, outs, q') \<Longrightarrow> pending q a @ ins = outs @ pending q' a"
proof (induction ops arbitrary: q ins outs)
  case (Cons op ops)
  show ?case
  proof (cases op)
    case (Push e)
    obtain r q1 where p: "push e q = (r, q1)" by (meson surj_pair)
    obtain i o1 where rest: "q_run push pop dest a ops q1 = (i, o1, q')"
      using Cons.prems by (auto simp: Push p split: prod.splits)
    note Cons.IH[OF rest]
    then show ?thesis
      using Cons.prems push_ok[of e q q1 a] push_fails[of e q _ q1]
      by (cases r) (auto simp: Push p rest)
  next
    case (Pop b)
    obtain r q1 where p: "pop b q = (r, q1)" by (meson surj_pair)
    obtain i o1 where rest: "q_run push pop dest a ops q1 = (i, o1, q')"
      using Cons.prems by (auto simp: Pop p split: prod.splits)
    note ih = Cons.IH[OF rest]
    show ?thesis
    proof (cases r)
      case None
      then show ?thesis using Cons.prems pop_none[of b q q1] ih by (auto simp: Pop p rest)
    next
      case (Some e)
      then show ?thesis
        using Cons.prems pop_some[of b q e q1 a] pop_some[of b q e q1 b] ih by (auto simp: Pop p rest)
    qed
  qed
qed simp

end

interpretation mq: fifo_queue mq_push mq_pop mq_queues en_to
  by unfold_locales (auto simp: mq_push_def mq_pop_def split: if_splits list.splits)

section \<open>The waiters\<close>

text \<open>The event of an agent is set exactly while something waits in its bucket, so its consumer is
  never asleep with work to do.\<close>

definition mq_inv :: "message_queue \<Rightarrow> bool" where
  "mq_inv q \<longleftrightarrow>
     (\<forall>a. mq_waiters q a \<longleftrightarrow> mq_queues q a \<noteq> []) \<and>
     (\<forall>a. \<forall>e\<in>set (mq_queues q a). en_to e = a \<and>
        (truthy (en_corr e) \<longrightarrow> the (en_corr e) \<in> set (mq_seen q a)))"

inductive mq_step :: "message_queue \<Rightarrow> message_queue \<Rightarrow> bool" where
  mqs_push: "mq_step q (snd (mq_push e q))"
| mqs_pop: "mq_step q (snd (mq_pop a q))"
| mqs_dlq: "mq_step q (mq_to_dlq e reason now q)"
| mqs_available: "mq_step q (mq_set_available v q)"

inductive_cases mq_stepE: "mq_step q q'"

lemma mq_push_inv: "mq_inv q \<Longrightarrow> mq_inv (snd (mq_push e q))"
  by (auto simp: mq_push_def mq_inv_def)

lemma mq_pop_inv: "mq_inv q \<Longrightarrow> mq_inv (snd (mq_pop a q))"
  unfolding mq_pop_def mq_inv_def by (cases "mq_queues q a") auto

lemma mq_dlq_inv: "mq_inv q \<Longrightarrow> mq_inv (mq_to_dlq e reason now q)"
  by (simp add: mq_inv_def mq_to_dlq_def)

lemma mq_available_inv: "mq_inv q \<Longrightarrow> mq_inv (mq_set_available v q)"
  by (simp add: mq_inv_def mq_set_available_def)

lemma mq_create_inv: "mq_inv mq_create"
  by (simp add: mq_inv_def mq_create_def)

interpretation queue_system: invariant_system "\<lambda>q. q = mq_create" mq_step mq_inv
proof unfold_locales
  show "mq_inv q'" if "mq_inv q" "mq_step q q'" for q q'
    using that(2)
    by (rule mq_stepE)
       (use that(1) in \<open>simp_all add: mq_push_inv mq_pop_inv mq_dlq_inv mq_available_inv\<close>)
qed (simp add: mq_create_inv)

section \<open>Properties\<close>

text \<open>
  C29. The queue is first in, first out per agent and loses nothing: over any sequence of pushes and
  pops, what waited before followed by what was pushed is what was popped followed by what waits.
  And in every reachable state a consumer that asks gets the next envelope or sleeps on an empty
  bucket: it neither spins nor sleeps while work is waiting.
\<close>

theorem queue_fifo_no_lost_wakeup:
  assumes "reach (\<lambda>q. q = mq_create) mq_step q"
  shows "(case q_run mq_push mq_pop en_to a ops q of (ins, outs, q') \<Rightarrow>
            mq_queues q a @ ins = outs @ mq_queues q' a) \<and>
         (\<exists>r q'. mq_aiter_next a q = Some (r, q') \<and> (r = None \<longleftrightarrow> mq_queues q a = []))"
proof
  show "case q_run mq_push mq_pop en_to a ops q of (ins, outs, q') \<Rightarrow>
           mq_queues q a @ ins = outs @ mq_queues q' a"
    using mq.fifo by (auto split: prod.split)
  show "\<exists>r q'. mq_aiter_next a q = Some (r, q') \<and> (r = None \<longleftrightarrow> mq_queues q a = [])"
    using queue_system.reach_inv[OF assms]
    by (cases "mq_queues q a") (simp_all add: mq_aiter_next_def mq_pop_def mq_inv_def)
qed

definition demo_env :: envelope where
  "demo_env = envelope_new ''0123456789ab'' None ''bob'' ''hi'' NOTIFY (Some ''c1'') 0"

lemma queue_fifo_no_lost_wakeup_witness:
  "\<exists>r q'. mq_aiter_next ''bob'' (snd (mq_push demo_env mq_create)) = Some (r, q') \<and> r \<noteq> None"
proof -
  have "reach (\<lambda>q. q = mq_create) mq_step mq_create" by (rule reach_init) simp
  then have "reach (\<lambda>q. q = mq_create) mq_step (snd (mq_push demo_env mq_create))"
    by (rule reach_step) (rule mqs_push)
  from queue_fifo_no_lost_wakeup[OF this, of "''bob''"] show ?thesis
    by (auto simp: mq_push_def mq_create_def demo_env_def envelope_new_def)
qed

end
