(* ===== verification/Clock_Model.thy ===== *)
theory Clock_Model
  imports Event_Store
begin

text \<open>
  \<^verbatim>\<open>modules/clock\<close>: company time against wall time, pause and resume, day ticks, and the singleton
  row \<^verbatim>\<open>clock_state\<close> from which a restart restores the state. Datetimes are microseconds, the
  float seconds exact rationals; a wall-clock reading is the argument \<open>w\<close> of the operation that
  makes it, and what the idle probe answers is an argument too (\<open>None\<close> when it raises). The
  background task of \<^verbatim>\<open>start\<close> is a list of rounds.
\<close>

section \<open>State\<close>

datatype clock_state = RUNNING | PAUSING | PAUSED

fun clock_state_value :: "clock_state \<Rightarrow> string" where
  "clock_state_value RUNNING = ''running''"
| "clock_state_value PAUSING = ''pausing''"
| "clock_state_value PAUSED = ''paused''"

definition mk_rate :: "rat \<Rightarrow> exn + rat" where
  "mk_rate spd =
     (if spd \<le> 0 then Inl (ValueError ''real_seconds_per_company_day must be positive'') else Inr spd)"

definition rate_realtime :: rat where "rate_realtime = 3600"

definition rate_fast :: "rat \<Rightarrow> exn + rat" where
  "rate_fast speedup =
     (if speedup \<le> 0 then Inl (ValueError ''speedup must be positive'')
      else mk_rate (3600 / speedup))"

definition rate_factor :: "rat \<Rightarrow> rat" where
  "rate_factor spd = 86400 / spd"

record clock_row =
  cr_state :: clock_state
  cr_epoch_real :: int
  cr_epoch_company :: int
  cr_paused_total :: rat
  cr_pause_started :: "int option"
  cr_last_day :: int
  cr_rate :: rat

record clock =
  ck_row :: "clock_row option"
  ck_rate :: rat
  ck_state :: clock_state
  ck_epoch_real :: int
  ck_epoch_company :: int
  ck_paused_total :: rat
  ck_pause_started :: "int option"
  ck_last_day :: int
  ck_last_company :: "int option"
  ck_task :: bool

text \<open>\<^verbatim>\<open>__init__\<close> on the company's database, whose row may exist already.\<close>

definition ck_create :: "int \<Rightarrow> rat option \<Rightarrow> clock_row option \<Rightarrow> clock" where
  "ck_create w rate row =
     \<lparr>ck_row = row, ck_rate = (case rate of None \<Rightarrow> rate_realtime | Some r \<Rightarrow> r),
      ck_state = RUNNING, ck_epoch_real = w, ck_epoch_company = w, ck_paused_total = 0,
      ck_pause_started = None, ck_last_day = 0, ck_last_company = None, ck_task = False\<rparr>"

section \<open>Persistence\<close>

text \<open>The UPDATE of \<^verbatim>\<open>_persist\<close>: without a row it changes nothing.\<close>

definition ck_persist :: "clock \<Rightarrow> clock" where
  "ck_persist c =
     (case ck_row c of
        None \<Rightarrow> c
      | Some _ \<Rightarrow>
          c\<lparr>ck_row := Some \<lparr>cr_state = ck_state c, cr_epoch_real = ck_epoch_real c,
              cr_epoch_company = ck_epoch_company c, cr_paused_total = ck_paused_total c,
              cr_pause_started = ck_pause_started c, cr_last_day = ck_last_day c,
              cr_rate = ck_rate c\<rparr>\<rparr>)"

definition seconds :: "int \<Rightarrow> rat" where
  "seconds us = of_int us / 1000000"

definition ck_load_or_init :: "int \<Rightarrow> clock \<Rightarrow> clock" where
  "ck_load_or_init w c =
     (case ck_row c of
        None \<Rightarrow>
          c\<lparr>ck_state := RUNNING, ck_epoch_real := w, ck_epoch_company := w, ck_paused_total := 0,
            ck_pause_started := None, ck_last_day := 0,
            ck_row := Some \<lparr>cr_state = RUNNING, cr_epoch_real = w, cr_epoch_company = w,
               cr_paused_total = 0, cr_pause_started = None, cr_last_day = 0,
               cr_rate = ck_rate c\<rparr>\<rparr>
      | Some r \<Rightarrow>
          let c1 = c\<lparr>ck_state := cr_state r, ck_epoch_real := cr_epoch_real r,
                     ck_epoch_company := cr_epoch_company r, ck_paused_total := cr_paused_total r,
                     ck_pause_started := cr_pause_started r, ck_last_day := cr_last_day r\<rparr>
          in case cr_pause_started r of
               Some p \<Rightarrow>
                 if cr_state r \<noteq> RUNNING
                 then ck_persist (c1\<lparr>ck_paused_total := ck_paused_total c1 + max 0 (seconds (w - p)),
                                     ck_pause_started := Some w\<rparr>)
                 else c1
             | None \<Rightarrow> c1)"

text \<open>A crash: the process is gone, the row stays, a new clock is constructed and migrated.\<close>

definition ck_restart :: "int \<Rightarrow> int \<Rightarrow> clock \<Rightarrow> clock" where
  "ck_restart w1 w2 c = ck_load_or_init w2 (ck_create w1 (Some (ck_rate c)) (ck_row c))"

section \<open>Company time\<close>

definition ck_compute_company_time :: "int option \<Rightarrow> int \<Rightarrow> clock \<Rightarrow> int" where
  "ck_compute_company_time freeze_at w c =
     (let anchor = (case freeze_at of None \<Rightarrow> w | Some f \<Rightarrow> f);
          elapsed = seconds (anchor - ck_epoch_real c) - ck_paused_total c;
          elapsed1 = (if elapsed < 0 then 0 else elapsed)
      in ck_epoch_company c + round_half_even (elapsed1 * rate_factor (ck_rate c) * 1000000))"

text \<open>The value before the clamp.\<close>

definition ck_raw_time :: "int \<Rightarrow> clock \<Rightarrow> int" where
  "ck_raw_time w c =
     (if ck_state c \<noteq> RUNNING then ck_compute_company_time (ck_pause_started c) w c
      else ck_compute_company_time None w c)"

definition ck_now_company :: "int \<Rightarrow> clock \<Rightarrow> int \<times> clock" where
  "ck_now_company w c =
     (let value = ck_raw_time w c;
          value1 = (case ck_last_company c of
                      Some l \<Rightarrow> if value < l then l else value
                    | None \<Rightarrow> value)
      in (value1, c\<lparr>ck_last_company := Some value1\<rparr>))"

definition ck_is_accepting_messages :: "clock \<Rightarrow> bool" where
  "ck_is_accepting_messages c \<longleftrightarrow> ck_state c = RUNNING"

section \<open>Transitions\<close>

definition ck_maybe_finalise_pause :: "bool option \<Rightarrow> clock \<Rightarrow> clock" where
  "ck_maybe_finalise_pause idle c =
     (if ck_state c \<noteq> PAUSING then c
      else case idle of
             None \<Rightarrow> c
           | Some b \<Rightarrow> if b then ck_persist (c\<lparr>ck_state := PAUSED\<rparr>) else c)"

definition ck_pause ::
  "int \<Rightarrow> bool option \<Rightarrow> string option \<Rightarrow> clock \<times> event_store \<Rightarrow> (unit, clock \<times> event_store) outcome" where
  "ck_pause w idle requested_by s =
     (if ck_state (fst s) \<noteq> RUNNING then (Inr (), s)
      else
        let c1 = ck_persist ((fst s)\<lparr>ck_state := PAUSING, ck_pause_started := Some w\<rparr>) in
        case es_append (Inl CLOCK_PAUSED) [(''by'', opt_json requested_by)] None None (snd s) of
          (Inl e, es) \<Rightarrow> (Inl e, c1, es)
        | (Inr ev, es) \<Rightarrow> (Inr (), ck_maybe_finalise_pause idle c1, es))"

definition ck_resume ::
  "int \<Rightarrow> string option \<Rightarrow> clock \<times> event_store \<Rightarrow> (unit, clock \<times> event_store) outcome" where
  "ck_resume w requested_by s =
     (let c = fst s in
      if ck_state c = RUNNING then (Inr (), s)
      else
        let c1 = (case ck_pause_started c of
                    None \<Rightarrow> c
                  | Some p \<Rightarrow> c\<lparr>ck_paused_total := ck_paused_total c + max 0 (seconds (w - p)),
                                ck_pause_started := None\<rparr>);
            c2 = ck_persist (c1\<lparr>ck_state := RUNNING\<rparr>)
        in case es_append (Inl CLOCK_RESUMED) [(''by'', opt_json requested_by)] None None (snd s) of
             (Inl e, es) \<Rightarrow> (Inl e, c2, es)
           | (Inr ev, es) \<Rightarrow> (Inr (), c2, es))"

definition day_tick_events :: "int \<Rightarrow> int \<Rightarrow> (event_kind \<times> payload) list" where
  "day_tick_events lo hi = map (\<lambda>d. (DAY_TICK, [(''day'', JInt d)])) [lo..hi]"

definition ck_emit_day_ticks ::
  "int \<Rightarrow> clock \<times> event_store \<Rightarrow> (unit, clock \<times> event_store) outcome" where
  "ck_emit_day_ticks w s =
     (case ck_now_company w (fst s) of
        (now, c) \<Rightarrow>
          let current_day = (now - ck_epoch_company c) div 86400000000 in
          if current_day \<le> ck_last_day c then (Inr (), c, snd s)
          else case append_all (day_tick_events (ck_last_day c + 1) current_day) None (snd s) of
                 (Inl e, es) \<Rightarrow> (Inl e, c, es)
               | (Inr u, es) \<Rightarrow> (Inr (), ck_persist (c\<lparr>ck_last_day := current_day\<rparr>), es))"

definition ck_pump_once ::
  "int \<Rightarrow> bool option \<Rightarrow> clock \<times> event_store \<Rightarrow> (unit, clock \<times> event_store) outcome" where
  "ck_pump_once w idle s =
     andthen (ck_emit_day_ticks w s)
       (\<lambda>_ t. (Inr (), ck_maybe_finalise_pause idle (fst t), snd t))"

definition ck_start :: "clock \<Rightarrow> clock" where
  "ck_start c = (if ck_task c then c else c\<lparr>ck_task := True\<rparr>)"

definition ck_stop :: "clock \<Rightarrow> clock" where
  "ck_stop c = (if \<not> ck_task c then c else c\<lparr>ck_task := False\<rparr>)"

text \<open>The rounds of the background task; what a round raises is logged and dropped.\<close>

fun ck_run :: "(int \<times> bool option) list \<Rightarrow> clock \<times> event_store \<Rightarrow> clock \<times> event_store" where
  "ck_run [] s = s"
| "ck_run ((w, idle) # rounds) s = ck_run rounds (snd (ck_pump_once w idle s))"

section \<open>The invariant\<close>

definition row_of :: "clock \<Rightarrow> clock_row" where
  "row_of c = \<lparr>cr_state = ck_state c, cr_epoch_real = ck_epoch_real c,
     cr_epoch_company = ck_epoch_company c, cr_paused_total = ck_paused_total c,
     cr_pause_started = ck_pause_started c, cr_last_day = ck_last_day c, cr_rate = ck_rate c\<rparr>"

text \<open>The row is the memory; a pause has a start exactly outside RUNNING.\<close>

definition ck_inv :: "clock \<Rightarrow> bool" where
  "ck_inv c \<longleftrightarrow>
     ck_row c = Some (row_of c) \<and> (ck_state c = RUNNING \<longleftrightarrow> ck_pause_started c = None) \<and>
     0 \<le> ck_last_day c \<and> 0 < ck_rate c"

definition ticked :: "event_store \<Rightarrow> payload list" where
  "ticked es = map ev_payload (filter (\<lambda>e. ev_kind e = DAY_TICK) (es_events es))"

lemma row_of_simps [simp]:
  "cr_state (row_of c) = ck_state c" "cr_epoch_real (row_of c) = ck_epoch_real c"
  "cr_epoch_company (row_of c) = ck_epoch_company c" "cr_paused_total (row_of c) = ck_paused_total c"
  "cr_pause_started (row_of c) = ck_pause_started c" "cr_last_day (row_of c) = ck_last_day c"
  "cr_rate (row_of c) = ck_rate c"
  by (simp_all add: row_of_def)

lemma persist_eq: "ck_row c = Some r \<Longrightarrow> ck_persist c = c\<lparr>ck_row := Some (row_of c)\<rparr>"
  by (simp add: ck_persist_def row_of_def)

lemma persist_inv:
  "ck_row c \<noteq> None \<Longrightarrow> (ck_state c = RUNNING \<longleftrightarrow> ck_pause_started c = None) \<Longrightarrow> 0 \<le> ck_last_day c
     \<Longrightarrow> 0 < ck_rate c \<Longrightarrow> ck_inv (ck_persist c)"
  by (auto simp: persist_eq ck_inv_def row_of_def)

lemma load_inv:
  assumes "ck_row c = None \<or> (\<exists>c0. ck_inv c0 \<and> ck_row c = ck_row c0 \<and> ck_rate c = ck_rate c0)"
    and "0 < ck_rate c"
  shows "ck_inv (ck_load_or_init w c)"
proof (cases "ck_row c")
  case None
  then show ?thesis using assms(2) by (simp add: ck_load_or_init_def ck_inv_def row_of_def)
next
  case (Some r)
  with assms obtain c0 where c0: "ck_inv c0" "ck_row c0 = Some r" "ck_rate c = ck_rate c0"
    by auto
  then have r: "r = row_of c0" by (simp add: ck_inv_def)
  show ?thesis
  proof (cases "ck_pause_started c0")
    case None
    with Some c0 r show ?thesis
      by (auto simp: ck_load_or_init_def Let_def ck_inv_def row_of_def)
  next
    case (Some p)
    with c0 have "ck_state c0 \<noteq> RUNNING" by (simp add: ck_inv_def)
    with \<open>ck_row c = Some r\<close> Some have "ck_load_or_init w c =
        ck_persist (c\<lparr>ck_state := ck_state c0, ck_epoch_real := ck_epoch_real c0,
          ck_epoch_company := ck_epoch_company c0, ck_last_day := ck_last_day c0,
          ck_paused_total := ck_paused_total c0 + max 0 (seconds (w - p)), ck_pause_started := Some w\<rparr>)"
      by (simp add: ck_load_or_init_def r)
    moreover have "ck_inv \<dots>"
      using c0 \<open>ck_row c = Some r\<close> \<open>ck_state c0 \<noteq> RUNNING\<close>
      by (intro persist_inv) (simp_all add: ck_inv_def)
    ultimately show ?thesis by simp
  qed
qed

lemma restart_inv: "ck_inv c \<Longrightarrow> ck_inv (ck_restart w1 w2 c)"
  unfolding ck_restart_def
  by (rule load_inv) (auto simp: ck_create_def ck_inv_def)

lemma finalise_inv: "ck_inv c \<Longrightarrow> ck_inv (ck_maybe_finalise_pause idle c)"
  by (auto simp: ck_maybe_finalise_pause_def split: option.split intro!: persist_inv)
     (auto simp: ck_inv_def)

lemma finalise_parts [simp]:
  "ck_last_day (ck_maybe_finalise_pause idle c) = ck_last_day c"
  by (auto simp: ck_maybe_finalise_pause_def ck_persist_def split: option.split)

lemma persist_parts [simp]:
  "ck_last_day (ck_persist c) = ck_last_day c" "ck_state (ck_persist c) = ck_state c"
  "ck_epoch_real (ck_persist c) = ck_epoch_real c"
  "ck_epoch_company (ck_persist c) = ck_epoch_company c"
  "ck_paused_total (ck_persist c) = ck_paused_total c"
  "ck_pause_started (ck_persist c) = ck_pause_started c" "ck_rate (ck_persist c) = ck_rate c"
  "ck_last_company (ck_persist c) = ck_last_company c"
  by (simp_all add: ck_persist_def split: option.split)

lemma pause_inv: "ck_inv (fst s) \<Longrightarrow> ck_inv (fst (snd (ck_pause w idle by s)))"
  by (auto simp: ck_pause_def Let_def split: prod.split sum.split
      intro!: finalise_inv persist_inv) (auto simp: ck_inv_def)

lemma ck_resume_inv: "ck_inv (fst s) \<Longrightarrow> ck_inv (fst (snd (ck_resume w by s)))"
  by (auto simp: ck_resume_def Let_def split: prod.split sum.split option.split
      intro!: persist_inv) (auto simp: ck_inv_def)

lemma now_inv: "ck_inv c \<Longrightarrow> ck_inv (snd (ck_now_company w c))"
  by (simp add: ck_now_company_def Let_def ck_inv_def row_of_def)

lemma now_parts [simp]:
  "ck_last_day (snd (ck_now_company w c)) = ck_last_day c"
  "ck_epoch_company (snd (ck_now_company w c)) = ck_epoch_company c"
  by (simp_all add: ck_now_company_def Let_def)

text \<open>A reading is never below the previous one, whatever the wall clock does.\<close>

lemma now_company_clamped:
  "case ck_now_company w c of (v, c1) \<Rightarrow>
     (case ck_last_company c of None \<Rightarrow> v = ck_raw_time w c
      | Some l \<Rightarrow> v = max l (ck_raw_time w c)) \<and>
     ck_last_company c1 = Some v \<and> (\<forall>w'. v \<le> fst (ck_now_company w' c1))"
  by (auto simp: ck_now_company_def Let_def split: option.split)

section \<open>Day ticks in the log\<close>

definition tick_payload :: "int \<Rightarrow> payload" where
  "tick_payload d = [(''day'', JInt d)]"

lemma ticked_append:
  assumes "pydantic (es_validate es)"
    and "es_append (Inl DAY_TICK) (tick_payload d) a c es = (Inr ev, es')"
  shows "ticked es' = ticked es @ [tick_payload d]"
proof -
  have "es_validate es DayTickPayload (tick_payload d) =
      Some (payload_dump DayTickPayload (tick_payload d))"
    by (rule pydantic.exact_values[OF assms(1)])
       (simp add: valid_payload_def DayTickPayload_def tick_payload_def)
  then have "es_validate es DayTickPayload (tick_payload d) = Some (tick_payload d)"
    by (simp add: payload_dump_def DayTickPayload_def tick_payload_def)
  with assms(2) show ?thesis
    by (auto simp: es_append_def es_validate_payload_def ticked_def Let_def split: if_splits)
qed

lemma ticked_other:
  "coerce_kind k \<noteq> Inr DAY_TICK \<Longrightarrow> ticked (snd (es_append k p a c es)) = ticked es"
  by (rule es_append_cases[of k p a c es]) (auto simp: ticked_def)

lemma ticked_all:
  assumes "pydantic (es_validate es)"
    and "append_all (map (\<lambda>d. (DAY_TICK, tick_payload d)) ds) None es = (Inr u, es')"
  shows "ticked es' = ticked es @ map tick_payload ds"
  using assms
proof (induction ds arbitrary: es)
  case (Cons d ds)
  obtain r es1 where app: "es_append (Inl DAY_TICK) (tick_payload d) None None es = (r, es1)"
    by (meson surj_pair)
  with Cons.prems(2) obtain ev where r: "r = Inr ev"
    and rest: "append_all (map (\<lambda>d. (DAY_TICK, tick_payload d)) ds) None es1 = (Inr u, es')"
    by (cases r) (auto simp: append_all.simps)
  have "log_extends es es1" using es_append_extends[of es "Inl DAY_TICK" "tick_payload d" None None] app by simp
  then have "pydantic (es_validate es1)" using Cons.prems(1) by (simp add: log_extends_def)
  from Cons.IH[OF this rest] ticked_append[OF Cons.prems(1), of d None None ev es1] app r
  show ?case by simp
qed simp

lemma emit_cases:
  obtains (quiet) "ck_emit_day_ticks w s = (Inr (), snd (ck_now_company w (fst s)), snd s)"
      "(fst (ck_now_company w (fst s)) - ck_epoch_company (fst s)) div 86400000000 \<le> ck_last_day (fst s)"
  | (raised) e es where "ck_emit_day_ticks w s = (Inl e, snd (ck_now_company w (fst s)), es)"
  | (ticks) n es where "ck_last_day (fst s) < n"
      "n = (fst (ck_now_company w (fst s)) - ck_epoch_company (fst s)) div 86400000000"
      "append_all (map (\<lambda>d. (DAY_TICK, tick_payload d)) [ck_last_day (fst s) + 1..n]) None (snd s) = (Inr (), es)"
      "ck_emit_day_ticks w s =
         (Inr (), ck_persist ((snd (ck_now_company w (fst s)))\<lparr>ck_last_day := n\<rparr>), es)"
proof -
  let ?n = "(fst (ck_now_company w (fst s)) - ck_epoch_company (fst s)) div 86400000000"
  obtain r es where app: "append_all (day_tick_events (ck_last_day (fst s) + 1) ?n) None (snd s) = (r, es)"
    by (meson surj_pair)
  show thesis
  proof (cases "?n \<le> ck_last_day (fst s)")
    case True
    then show thesis
      by (intro quiet) (simp_all add: ck_emit_day_ticks_def Let_def case_prod_beta)
  next
    case late: False
    show thesis
    proof (cases r)
      case (Inl e)
      with late app show thesis
        by (intro raised[of e es]) (simp add: ck_emit_day_ticks_def Let_def case_prod_beta)
    next
      case (Inr u)
      with late app show thesis
        by (intro ticks[of ?n es])
           (simp_all add: ck_emit_day_ticks_def Let_def case_prod_beta day_tick_events_def tick_payload_def)
    qed
  qed
qed

text \<open>The clock's operations, other modules' appends, and restarts between operations. A round of
  the pump takes a step when it returns.\<close>

inductive ck_step :: "clock \<times> event_store \<Rightarrow> clock \<times> event_store \<Rightarrow> bool" where
  cks_pause: "ck_step s (snd (ck_pause w idle by s))"
| cks_resume: "ck_step s (snd (ck_resume w by s))"
| cks_pump: "ck_pump_once w idle s = (Inr (), t) \<Longrightarrow> ck_step s t"
| cks_now: "ck_step s (snd (ck_now_company w (fst s)), snd s)"
| cks_start: "ck_step s (ck_start (fst s), snd s)"
| cks_stop: "ck_step s (ck_stop (fst s), snd s)"
| cks_restart: "ck_step s (ck_restart w1 w2 (fst s), snd s)"
| cks_other: "coerce_kind k \<noteq> Inr DAY_TICK \<Longrightarrow> ck_step s (fst s, snd (es_append k p a corr (snd s)))"

inductive_cases ck_stepE: "ck_step s t"

definition ck_init :: "clock \<times> event_store \<Rightarrow> bool" where
  "ck_init s \<longleftrightarrow>
     (\<exists>w1 w2 rate. fst s = ck_load_or_init w2 (ck_create w1 (Some rate) None) \<and> 0 < rate) \<and>
     pydantic (es_validate (snd s)) \<and> es_events (snd s) = []"

definition clock_inv :: "clock \<times> event_store \<Rightarrow> bool" where
  "clock_inv s \<longleftrightarrow>
     ck_inv (fst s) \<and> pydantic (es_validate (snd s)) \<and>
     ticked (snd s) = map tick_payload [1..ck_last_day (fst s)]"

lemma emit_inv:
  assumes inv: "clock_inv s" and run: "ck_emit_day_ticks w s = (Inr (), t)"
  shows "clock_inv t \<and>
    ck_last_day (fst t) = max (ck_last_day (fst s))
      ((fst (ck_now_company w (fst s)) - ck_epoch_company (fst s)) div 86400000000)"
proof (rule emit_cases[of w s])
  assume "ck_emit_day_ticks w s = (Inr (), snd (ck_now_company w (fst s)), snd s)"
    and "(fst (ck_now_company w (fst s)) - ck_epoch_company (fst s)) div 86400000000 \<le> ck_last_day (fst s)"
  with inv run show ?thesis by (auto simp: clock_inv_def now_inv)
next
  fix e es
  assume "ck_emit_day_ticks w s = (Inl e, snd (ck_now_company w (fst s)), es)"
  with run show ?thesis by simp
next
  fix n es
  assume late: "ck_last_day (fst s) < n"
    and n: "n = (fst (ck_now_company w (fst s)) - ck_epoch_company (fst s)) div 86400000000"
    and app: "append_all (map (\<lambda>d. (DAY_TICK, tick_payload d)) [ck_last_day (fst s) + 1..n]) None (snd s) = (Inr (), es)"
    and "ck_emit_day_ticks w s =
         (Inr (), ck_persist ((snd (ck_now_company w (fst s)))\<lparr>ck_last_day := n\<rparr>), es)"
  then have t: "t = (ck_persist ((snd (ck_now_company w (fst s)))\<lparr>ck_last_day := n\<rparr>), es)"
    using run by simp
  have c: "ck_inv (fst s)" and val: "pydantic (es_validate (snd s))"
    and ticks: "ticked (snd s) = map tick_payload [1..ck_last_day (fst s)]"
    using inv by (auto simp: clock_inv_def)
  have "log_extends (snd s) es" using append_all_extends[of "snd s" _ None] app by (metis snd_conv)
  then have "pydantic (es_validate es)" using val by (simp add: log_extends_def)
  moreover have "ck_inv (fst t)"
    using now_inv[OF c, of w] late c unfolding t fst_conv
    by (intro persist_inv) (auto simp: ck_inv_def)
  moreover have "[1..n] = [1..ck_last_day (fst s)] @ [ck_last_day (fst s) + 1..n]"
    using upto_split1[of 1 "ck_last_day (fst s) + 1" n] late c by (simp add: ck_inv_def)
  then have "ticked es = map tick_payload [1..n]"
    using ticked_all[OF val app] ticks by simp
  ultimately show ?thesis using late n by (simp add: clock_inv_def t)
qed

lemma validate_kept: "es_validate (snd (es_append k p a c es)) = es_validate es"
  using es_append_extends[of es k p a c] by (simp add: log_extends_def)

lemma pause_log:
  "ticked (snd (snd (ck_pause w idle by s))) = ticked (snd s) \<and>
   es_validate (snd (snd (ck_pause w idle by s))) = es_validate (snd s) \<and>
   ck_last_day (fst (snd (ck_pause w idle by s))) = ck_last_day (fst s)"
proof -
  obtain r es where "es_append (Inl CLOCK_PAUSED) [(''by'', opt_json by)] None None (snd s) = (r, es)"
    by (meson surj_pair)
  then show ?thesis
    using ticked_other[of "Inl CLOCK_PAUSED" "[(''by'', opt_json by)]" None None "snd s"]
      validate_kept[of "Inl CLOCK_PAUSED" "[(''by'', opt_json by)]" None None "snd s"]
    by (auto simp: ck_pause_def Let_def split: sum.split)
qed

lemma resume_log:
  "ticked (snd (snd (ck_resume w by s))) = ticked (snd s) \<and>
   es_validate (snd (snd (ck_resume w by s))) = es_validate (snd s) \<and>
   ck_last_day (fst (snd (ck_resume w by s))) = ck_last_day (fst s)"
proof -
  obtain r es where "es_append (Inl CLOCK_RESUMED) [(''by'', opt_json by)] None None (snd s) = (r, es)"
    by (meson surj_pair)
  then show ?thesis
    using ticked_other[of "Inl CLOCK_RESUMED" "[(''by'', opt_json by)]" None None "snd s"]
      validate_kept[of "Inl CLOCK_RESUMED" "[(''by'', opt_json by)]" None None "snd s"]
    by (auto simp: ck_resume_def Let_def split: sum.split option.split)
qed

lemma restart_last_day: "ck_inv c \<Longrightarrow> ck_last_day (ck_restart w1 w2 c) = ck_last_day c"
  by (auto simp: ck_restart_def ck_load_or_init_def ck_create_def Let_def ck_inv_def split: option.split)

lemma pump_inv:
  assumes inv: "clock_inv s" and run: "ck_pump_once w idle s = (Inr (), t)"
  shows "clock_inv t \<and>
    ck_last_day (fst t) = max (ck_last_day (fst s))
      ((fst (ck_now_company w (fst s)) - ck_epoch_company (fst s)) div 86400000000)"
proof -
  obtain r u where emit: "ck_emit_day_ticks w s = (r, u)" by (meson surj_pair)
  with run have r: "r = Inr ()" and t: "t = (ck_maybe_finalise_pause idle (fst u), snd u)"
    by (cases r; simp add: ck_pump_once_def)+
  from emit_inv[OF inv emit[unfolded r]] show ?thesis
    by (simp add: t clock_inv_def finalise_inv)
qed

interpretation clock: invariant_system ck_init ck_step clock_inv
proof unfold_locales
  show "clock_inv s" if "ck_init s" for s
  proof -
    from that obtain w1 w2 rate where c: "fst s = ck_load_or_init w2 (ck_create w1 (Some rate) None)"
      and rate: "0 < rate" and val: "pydantic (es_validate (snd s))" and "es_events (snd s) = []"
      by (auto simp: ck_init_def)
    have "ck_inv (fst s)" unfolding c by (rule load_inv) (simp_all add: ck_create_def rate)
    moreover have "ck_last_day (fst s) = 0" by (simp add: c ck_load_or_init_def ck_create_def)
    ultimately show ?thesis
      using val \<open>es_events (snd s) = []\<close> by (simp add: clock_inv_def ticked_def)
  qed
  show "clock_inv t" if inv: "clock_inv s" and step: "ck_step s t" for s t
    using step
  proof (rule ck_stepE)
    show "clock_inv t" if "t = snd (ck_pause w idle by s)" for w idle "by"
      using inv pause_inv[of s] pause_log[of w idle "by" s] by (simp add: that clock_inv_def)
    show "clock_inv t" if "t = snd (ck_resume w by s)" for w "by"
      using inv ck_resume_inv[of s] resume_log[of w "by" s] by (simp add: that clock_inv_def)
    show "clock_inv t" if "ck_pump_once w idle s = (Inr (), t)" for w idle
      using pump_inv[OF inv that] by simp
    show "clock_inv t" if "t = (snd (ck_now_company w (fst s)), snd s)" for w
      using inv by (simp add: that clock_inv_def now_inv)
    show "clock_inv t" if "t = (ck_start (fst s), snd s)"
      using inv by (simp add: that clock_inv_def ck_start_def ck_inv_def row_of_def)
    show "clock_inv t" if "t = (ck_stop (fst s), snd s)"
      using inv by (simp add: that clock_inv_def ck_stop_def ck_inv_def row_of_def)
    show "clock_inv t" if "t = (ck_restart w1 w2 (fst s), snd s)" for w1 w2
      using inv by (simp add: that clock_inv_def restart_inv restart_last_day)
    show "clock_inv t" if "t = (fst s, snd (es_append k p a corr (snd s)))" "coerce_kind k \<noteq> Inr DAY_TICK"
      for k p a corr
      using inv that(2) by (simp add: that(1) clock_inv_def ticked_other validate_kept)
  qed
qed

section \<open>Company time across a pause\<close>

text \<open>Wall time that counts: what passed since the epoch, less what was spent paused.\<close>

definition counted :: "int \<Rightarrow> clock \<Rightarrow> rat" where
  "counted w c = seconds (w - ck_epoch_real c) - ck_paused_total c"

definition time_of :: "clock \<Rightarrow> rat \<Rightarrow> int" where
  "time_of c x = ck_epoch_company c + round_half_even ((if x < 0 then 0 else x) * rate_factor (ck_rate c) * 1000000)"

lemma raw_running: "ck_state c = RUNNING \<Longrightarrow> ck_raw_time w c = time_of c (counted w c)"
  by (simp add: ck_raw_time_def ck_compute_company_time_def Let_def time_of_def counted_def)

lemma raw_paused:
  "ck_state c \<noteq> RUNNING \<Longrightarrow> ck_pause_started c = Some p \<Longrightarrow> ck_raw_time w c = time_of c (counted p c)"
  by (simp add: ck_raw_time_def ck_compute_company_time_def Let_def time_of_def counted_def)

definition same_frame :: "clock \<Rightarrow> clock \<Rightarrow> bool" where
  "same_frame c d \<longleftrightarrow> ck_rate d = ck_rate c \<and> ck_epoch_real d = ck_epoch_real c \<and>
     ck_epoch_company d = ck_epoch_company c"

text \<open>A clock paused when \<open>x\<close> seconds counted: no restart and no reading changes that.\<close>

definition paused_at :: "clock \<Rightarrow> rat \<Rightarrow> int \<Rightarrow> clock \<Rightarrow> bool" where
  "paused_at c x w d \<longleftrightarrow>
     same_frame c d \<and> ck_inv d \<and>
     (\<exists>p. ck_pause_started d = Some p \<and> p \<le> w \<and> counted p d = x)"

lemma seconds_diff: "seconds (a - b) = seconds a - seconds b"
  by (simp add: seconds_def diff_divide_distrib)

lemma seconds_nonneg: "a \<le> b \<Longrightarrow> max 0 (seconds (b - a)) = seconds b - seconds a"
  by (simp add: seconds_def diff_divide_distrib divide_right_mono)

lemma pause_paused_at:
  assumes "ck_inv (fst s)" and "ck_state (fst s) = RUNNING"
    and "ck_pause w idle by s = (Inr (), t)"
  shows "paused_at (fst s) (counted w (fst s)) w (fst t)"
proof -
  have "ck_inv (fst t)" using pause_inv[OF assms(1), of w idle "by"] assms(3) by simp
  moreover have "same_frame (fst s) (fst t) \<and> ck_pause_started (fst t) = Some w \<and>
      ck_paused_total (fst t) = ck_paused_total (fst s)"
    using assms(2,3)
    by (auto simp: ck_pause_def Let_def same_frame_def ck_maybe_finalise_pause_def
        split: prod.splits sum.splits option.splits if_splits)
  ultimately show ?thesis by (auto simp: paused_at_def same_frame_def counted_def)
qed

lemma restart_paused_at:
  assumes "paused_at c x w d" and "w \<le> w2"
  shows "paused_at c x w2 (ck_restart w1 w2 d)"
proof -
  obtain p where p: "ck_pause_started d = Some p" "p \<le> w" "counted p d = x" and inv: "ck_inv d"
    and frame: "same_frame c d"
    using assms(1) by (auto simp: paused_at_def)
  have "ck_inv (ck_restart w1 w2 d)" using restart_inv[OF inv] .
  moreover have "same_frame c (ck_restart w1 w2 d) \<and> ck_pause_started (ck_restart w1 w2 d) = Some w2 \<and>
      ck_paused_total (ck_restart w1 w2 d) = ck_paused_total d + (seconds w2 - seconds p) \<and>
      ck_epoch_real (ck_restart w1 w2 d) = ck_epoch_real d"
    using inv frame p assms(2)
    by (auto simp: ck_restart_def ck_load_or_init_def ck_create_def ck_inv_def Let_def same_frame_def
        seconds_nonneg)
  ultimately show ?thesis
    using p by (auto simp: paused_at_def counted_def seconds_diff)
qed

lemma resume_from_pause:
  assumes "paused_at c x w d" and "w \<le> w3"
  shows "same_frame c (fst (snd (ck_resume w3 by (d, es)))) \<and>
     ck_state (fst (snd (ck_resume w3 by (d, es)))) = RUNNING \<and>
     counted (w3 + k) (fst (snd (ck_resume w3 by (d, es)))) = x + seconds k"
proof -
  obtain p where p: "ck_pause_started d = Some p" "p \<le> w" "counted p d = x" and inv: "ck_inv d"
    and frame: "same_frame c d"
    using assms(1) by (auto simp: paused_at_def)
  have run: "ck_state d \<noteq> RUNNING" using inv p by (simp add: ck_inv_def)
  obtain r es1 where app: "es_append (Inl CLOCK_RESUMED) [(''by'', opt_json by)] None None es = (r, es1)"
    by (meson surj_pair)
  have "fst (snd (ck_resume w3 by (d, es))) =
      ck_persist (d\<lparr>ck_paused_total := ck_paused_total d + max 0 (seconds (w3 - p)),
                    ck_pause_started := None, ck_state := RUNNING\<rparr>)"
    using run p app by (simp add: ck_resume_def Let_def split: sum.split)
  moreover have "max 0 (seconds (w3 - p)) = seconds w3 - seconds p"
    using p(2) assms(2) by (intro seconds_nonneg) simp
  moreover have "seconds (w3 + k) = seconds w3 + seconds k"
    by (simp add: seconds_def add_divide_distrib)
  ultimately show ?thesis
    using frame p by (simp add: same_frame_def counted_def seconds_diff)
qed

lemma time_of_frame: "same_frame c d \<Longrightarrow> time_of d = time_of c"
  by (simp add: fun_eq_iff time_of_def same_frame_def)

lemma paused_raw: "paused_at c x w d \<Longrightarrow> ck_raw_time w' d = time_of c x"
  by (auto simp: paused_at_def ck_inv_def raw_paused time_of_frame)

section \<open>Properties\<close>

definition demo_clock0 :: "clock \<times> event_store" where
  "demo_clock0 = (ck_load_or_init 0 (ck_create 0 (Some rate_realtime) None), demo_store)"

lemma demo_clock0_reach: "reach ck_init ck_step demo_clock0"
proof (rule reach_init)
  have "pydantic strict_validate" by (rule strict.pydantic_axioms)
  then show "ck_init demo_clock0"
    unfolding ck_init_def demo_clock0_def
    by (auto simp: demo_store_def rate_realtime_def intro!: exI[of _ "0 :: int"] exI[of _ "3600 :: rat"])
qed

lemma demo_pause_ok: "\<not> isl (fst (es_append (Inl CLOCK_PAUSED) [(''by'', JNull)] None None demo_store))"
  by code_simp

text \<open>
  A pause stops company time and resuming continues it where it stopped: while paused (also
  after any crash and restart in between) every reading is the one of the moment of the pause, and
  \<open>k\<close> microseconds after a resume it is what it would have been \<open>k\<close> after the pause.
\<close>

theorem pause_stops_company_time:
  assumes "reach ck_init ck_step s" and "ck_state (fst s) = RUNNING"
    and "ck_pause w idle by s = (Inr (), t)" and "w \<le> w2" and "w2 \<le> w3"
    and "c = fst t \<or> c = ck_restart w1 w2 (fst t)"
  shows "ck_raw_time w' c = ck_raw_time w (fst s) \<and>
         ck_raw_time (w3 + k) (fst (snd (ck_resume w3 by' (c, es)))) = ck_raw_time (w + k) (fst s)"
proof -
  have "ck_inv (fst s)" using clock.reach_inv[OF assms(1)] by (simp add: clock_inv_def)
  from pause_paused_at[OF this assms(2,3)]
  have "paused_at (fst s) (counted w (fst s)) w (fst t)" .
  then have p: "paused_at (fst s) (counted w (fst s)) w2 c"
    using assms(4,6) restart_paused_at[of "fst s" _ w "fst t" w2 w1] by (auto simp: paused_at_def)
  moreover have "counted (w + k) (fst s) = counted w (fst s) + seconds k"
    by (simp add: counted_def seconds_def add_divide_distrib diff_divide_distrib)
  ultimately show ?thesis
    using resume_from_pause[OF p assms(5), of by' es k] paused_raw[OF p]
      time_of_frame[of "fst s" "fst (snd (ck_resume w3 by' (c, es)))"]
    by (simp add: raw_running assms(2))
qed

lemma pause_stops_company_time_witness:
  "ck_raw_time 99000000 (fst (snd (ck_pause 5000000 None None demo_clock0))) = 120000000"
proof -
  obtain r t where run: "ck_pause 5000000 None None demo_clock0 = (r, t)" by (meson surj_pair)
  have "r = Inr ()"
    using run demo_pause_ok
    by (auto simp: ck_pause_def demo_clock0_def ck_load_or_init_def ck_create_def Let_def opt_json_def
        split: prod.splits sum.splits)
  moreover have "ck_state (fst demo_clock0) = RUNNING" and "ck_raw_time 5000000 (fst demo_clock0) = 120000000"
    by (simp_all add: demo_clock0_def ck_load_or_init_def ck_create_def ck_raw_time_def
        ck_compute_company_time_def seconds_def rate_factor_def rate_realtime_def round_half_even_def Let_def)
  ultimately show ?thesis
    using pause_stops_company_time[OF demo_clock0_reach, of 5000000 None None t 5000000 5000000 "fst t"] run
    by simp
qed



end
