(* ===== verification/Orchestrator_Model.thy ===== *)
theory Orchestrator_Model
  imports Identity_Org Clock_Model Rate_Limits Loop_Detector Message_Queue
begin

text \<open>
  \<^verbatim>\<open>modules/orchestrator/orchestrator.py\<close> and \<^verbatim>\<open>health_monitor.py\<close>: the message router and health
  watchdog of a company. The record \<open>orch\<close> has the fields of the class; the collaborators it
  refers to (organisation, event store, clock, queue, limiter, loop detector) are part of it.

  The registered agents are objects behind the protocol \<^verbatim>\<open>AgentHandle\<close>: \<open>or_status\<close> and
  \<open>or_signals\<close> are what they answer, and whether a delivery raises is an argument. Wall and
  monotonic readings and fresh ids are streams indexed by the reads made so far. Awaiting
  \<^verbatim>\<open>_send\<close> never suspends (nothing in it waits), so it is atomic; a consumer task is one step per
  iteration of its loop. Task creation is \<open>or_tasks\<close>, run by a step of its own.
\<close>

section \<open>Data\<close>

datatype send_result =
    QUEUED | REJECTED_PAUSED | REJECTED_RATE_LIMIT | REJECTED_LOOP | REJECTED_INVALID_TARGET
  | REJECTED_DUPLICATE | REJECTED_TOO_LARGE

datatype run_status = AS_IDLE | AS_WORKING | AS_BLOCKED | AS_UNHEALTHY | AS_STOPPED

fun run_status_value :: "run_status \<Rightarrow> string" where
  "run_status_value AS_IDLE = ''idle''"
| "run_status_value AS_WORKING = ''working''"
| "run_status_value AS_BLOCKED = ''blocked''"
| "run_status_value AS_UNHEALTHY = ''unhealthy''"
| "run_status_value AS_STOPPED = ''stopped''"

record health_signals =
  hs_last_heartbeat :: int
  hs_consecutive_errors :: int
  hs_parse_failures :: int
  hs_repeat_response_count :: int
  hs_avg_turn_seconds :: rat
  hs_total_turns :: int

record agent_health =
  ah_agent_id :: string
  ah_score :: rat
  ah_status :: string
  ah_signals :: health_signals
  ah_notes :: "string list"

record idle_sweep_config =
  ic_enabled :: bool
  ic_interval_seconds :: rat
  ic_agent_idle_after_seconds :: rat
  ic_nudge_cooldown_seconds :: rat

definition idle_default :: idle_sweep_config where
  "idle_default = \<lparr>ic_enabled = True, ic_interval_seconds = 30,
     ic_agent_idle_after_seconds = 90, ic_nudge_cooldown_seconds = 300\<rparr>"

section \<open>Health score\<close>

text \<open>Doubles matter here: 1.0 - 0.3 - 0.3 is below 0.4.\<close>

definition penalty :: "bool \<Rightarrow> rat \<Rightarrow> string \<Rightarrow> rat \<times> string list \<Rightarrow> rat \<times> string list" where
  "penalty applies amount msg sn =
     (if applies then (fl (fst sn - fl amount), snd sn @ [msg]) else sn)"

definition compute_score :: "health_signals \<Rightarrow> int \<Rightarrow> rat \<times> string list" where
  "compute_score s now =
     (let turns = hs_total_turns s;
          parse_ratio = fl (of_int (hs_parse_failures s) / of_int turns);
          repeat_ratio = fl (of_int (hs_repeat_response_count s) / of_int turns);
          p1 = penalty (3 < hs_consecutive_errors s) (3 / 10)
                 (''errors:'' @ int_str (hs_consecutive_errors s)) (1, []);
          p2 = penalty (0 < hs_parse_failures s \<and> 0 < turns \<and> 1 / 2 < parse_ratio) (3 / 10)
                 (''parse_rate:'' @ fmt2 parse_ratio) p1;
          p3 = penalty (0 < turns \<and> fl (7 / 10) < repeat_ratio) (4 / 10)
                 (''repeat_ratio:'' @ fmt2 repeat_ratio) p2;
          p4 = penalty (300000000 < now - hs_last_heartbeat s) (1 / 2) ''stale_heartbeat'' p3
      in (max 0 (min 1 (fst p4)), snd p4))"

definition UNHEALTHY_CUTOFF :: rat where
  "UNHEALTHY_CUTOFF = fl (4 / 10)"

section \<open>State\<close>

record orch =
  or_company_id :: string
  or_identity :: org
  or_events :: event_store
  or_clock :: clock
  or_queue :: message_queue
  or_rate :: rate_limiter
  or_loops :: loop_detector
  or_idle_cfg :: idle_sweep_config
  or_agents :: "string list"
  or_consumers :: "string list"
  or_stop :: bool
  or_loop_strikes :: "string \<Rightarrow> nat"
  or_suspended :: "string list"
  or_last_message_at :: int
  or_blocked_since :: "(string \<times> int) list"
  or_last_health_alert :: "string \<Rightarrow> int option"
  or_last_activity_at :: "string \<Rightarrow> int option"
  or_last_nudge_at :: "string \<Rightarrow> int option"
  or_watchdog :: bool
  or_tasks :: "(string \<times> string) list"
  or_status :: "string \<Rightarrow> run_status"
  or_signals :: "string \<Rightarrow> health_signals"
  or_now :: "nat \<Rightarrow> int"
  or_mono :: "nat \<Rightarrow> rat"
  or_hex :: "nat \<Rightarrow> string"
  or_reads :: nat

type_synonym 'a or_out = "('a, orch) outcome"

definition MAX_CONTENT_BYTES :: nat where "MAX_CONTENT_BYTES = 256 * 1024"

definition DEADLOCK_BLOCKED_AFTER :: int where "DEADLOCK_BLOCKED_AFTER = 30 * 60000000"

definition COMPANY_STUCK_AFTER :: int where "COMPANY_STUCK_AFTER = 3600000000"

definition LOOP_STRIKES_BEFORE_SUSPEND :: nat where "LOOP_STRIKES_BEFORE_SUSPEND = 3"

definition or_create ::
  "string \<Rightarrow> org \<Rightarrow> event_store \<Rightarrow> clock \<Rightarrow> message_queue option \<Rightarrow> rl_config option
   \<Rightarrow> loop_config option \<Rightarrow> idle_sweep_config option \<Rightarrow> (nat \<Rightarrow> int) \<Rightarrow> (nat \<Rightarrow> rat) \<Rightarrow> (nat \<Rightarrow> string)
   \<Rightarrow> (string \<Rightarrow> run_status) \<Rightarrow> (string \<Rightarrow> health_signals) \<Rightarrow> orch" where
  "or_create company g es c q rl lp idle now mn hex status signals =
     \<lparr>or_company_id = company, or_identity = g, or_events = es, or_clock = c,
      or_queue = (case q of None \<Rightarrow> mq_create | Some x \<Rightarrow> x), or_rate = rl_create rl,
      or_loops = ld_create lp, or_idle_cfg = (case idle of None \<Rightarrow> idle_default | Some x \<Rightarrow> x),
      or_agents = [], or_consumers = [], or_stop = False, or_loop_strikes = (\<lambda>_. 0),
      or_suspended = [], or_last_message_at = now 0, or_blocked_since = [],
      or_last_health_alert = (\<lambda>_. None), or_last_activity_at = (\<lambda>_. None),
      or_last_nudge_at = (\<lambda>_. None), or_watchdog = False, or_tasks = [], or_status = status,
      or_signals = signals, or_now = now, or_mono = mn, or_hex = hex, or_reads = 1\<rparr>"

definition or_call_now :: "orch \<Rightarrow> int \<times> orch" where
  "or_call_now s = (or_now s (or_reads s), s\<lparr>or_reads := Suc (or_reads s)\<rparr>)"

text \<open>Append an event with the agent as actor; the result of the append is not used.\<close>

definition or_event ::
  "event_kind \<Rightarrow> payload \<Rightarrow> string option \<Rightarrow> string option \<Rightarrow> orch \<Rightarrow> unit or_out" where
  "or_event k p actor corr s =
     (case es_append (Inl k) p actor corr (or_events s) of
        (r, es) \<Rightarrow> (map_sum id (\<lambda>_. ()) r, s\<lparr>or_events := es\<rparr>))"

definition health_alert :: "string \<Rightarrow> string \<Rightarrow> string \<Rightarrow> orch \<Rightarrow> unit or_out" where
  "health_alert a severity issue s =
     or_event AGENT_HEALTH_ALERT
       [(''agent_id'', JStr a), (''severity'', JStr severity), (''issue'', JStr issue)] (Some a) None s"

section \<open>Registry and lifecycle\<close>

definition or_register :: "string \<Rightarrow> orch \<Rightarrow> orch" where
  "or_register a s =
     (case or_call_now s of
        (t, s1) \<Rightarrow> s1\<lparr>or_agents := (if a \<in> set (or_agents s1) then or_agents s1 else or_agents s1 @ [a]),
                      or_last_activity_at := (or_last_activity_at s1)(a \<mapsto> t)\<rparr>)"

definition or_unregister :: "string \<Rightarrow> orch \<Rightarrow> orch" where
  "or_unregister a s =
     s\<lparr>or_agents := filter (\<lambda>x. x \<noteq> a) (or_agents s), or_consumers := filter (\<lambda>x. x \<noteq> a) (or_consumers s)\<rparr>"

definition or_start :: "orch \<Rightarrow> orch" where
  "or_start s =
     s\<lparr>or_stop := False,
       or_consumers := or_consumers s @ filter (\<lambda>a. a \<notin> set (or_consumers s)) (or_agents s),
       or_watchdog := or_watchdog s \<or> ic_enabled (or_idle_cfg s)\<rparr>"

definition or_stop_all :: "orch \<Rightarrow> orch" where
  "or_stop_all s = s\<lparr>or_stop := True, or_consumers := [], or_watchdog := False\<rparr>"

definition or_configure_rate_limit :: "string \<Rightarrow> int \<Rightarrow> rat \<Rightarrow> orch \<Rightarrow> orch" where
  "or_configure_rate_limit a capacity refill s =
     s\<lparr>or_rate := rl_configure (or_mono s (or_reads s)) a capacity refill (or_rate s),
       or_reads := Suc (or_reads s)\<rparr>"

section \<open>Suspension\<close>

definition or_is_active :: "orch \<Rightarrow> string \<Rightarrow> bool" where
  "or_is_active s a =
     (case org_get (or_identity s) a of Inl _ \<Rightarrow> False | Inr r \<Rightarrow> ag_status r = ACTIVE)"

definition or_manager_of :: "orch \<Rightarrow> string \<Rightarrow> string option" where
  "or_manager_of s a =
     (case org_manager_of (or_identity s) a of
        Inl _ \<Rightarrow> None
      | Inr None \<Rightarrow> None
      | Inr (Some m) \<Rightarrow> if m = [] then None else Some m)"

definition or_notify_manager_suspended :: "string \<Rightarrow> orch \<Rightarrow> unit or_out" where
  "or_notify_manager_suspended a s =
     (case or_manager_of s a of
        None \<Rightarrow> (Inr (), s)
      | Some m \<Rightarrow> health_alert a ''warn'' ''suspended_loop_strikes'' s)"

definition or_is_suspended :: "orch \<Rightarrow> string \<Rightarrow> bool" where
  "or_is_suspended s a \<longleftrightarrow> a \<in> set (or_suspended s)"

definition or_suspend :: "string \<Rightarrow> string \<Rightarrow> orch \<Rightarrow> unit or_out" where
  "or_suspend a reason s =
     (if a \<in> set (or_suspended s) then (Inr (), s)
      else andthen (health_alert a ''high'' (''suspended:'' @ reason)
                      (s\<lparr>or_suspended := or_suspended s @ [a]\<rparr>))
             (\<lambda>_ s1. or_notify_manager_suspended a s1))"

definition or_resume :: "string \<Rightarrow> orch \<Rightarrow> orch" where
  "or_resume a s = s\<lparr>or_suspended := filter (\<lambda>x. x \<noteq> a) (or_suspended s)\<rparr>"

definition or_handle_loop :: "string \<Rightarrow> string \<Rightarrow> orch \<Rightarrow> unit or_out" where
  "or_handle_loop a kind s =
     andthen (health_alert a ''warn'' (''loop_'' @ kind)
                (s\<lparr>or_loop_strikes := (or_loop_strikes s)(a := Suc (or_loop_strikes s a))\<rparr>))
       (\<lambda>_ s1. if LOOP_STRIKES_BEFORE_SUSPEND \<le> or_loop_strikes s1 a
               then or_notify_manager_suspended a
                      (s1\<lparr>or_suspended := List.insert a (or_suspended s1)\<rparr>)
               else (Inr (), s1))"

section \<open>Sending\<close>

text \<open>Steps 1 to 4 of \<^verbatim>\<open>_send\<close> read the state only: the rejection they give, if any.\<close>

datatype gate = Pass | Reject send_result | NotDeliverable

definition or_gate :: "string option \<Rightarrow> string \<Rightarrow> string \<Rightarrow> orch \<Rightarrow> gate" where
  "or_gate from_a to_a content s =
     (if utf8_len content > MAX_CONTENT_BYTES then Reject REJECTED_TOO_LARGE
      else if (case from_a of None \<Rightarrow> False | Some f \<Rightarrow> \<not> or_is_active s f)
      then Reject REJECTED_INVALID_TARGET
      else if \<not> or_is_active s to_a \<or> to_a \<in> set (or_suspended s) then NotDeliverable
      else if to_a \<notin> set (or_agents s) then Reject REJECTED_INVALID_TARGET
      else if \<not> ck_is_accepting_messages (or_clock s) then Reject REJECTED_PAUSED
      else Pass)"

text \<open>Step 5: the limiter, with one reading of the monotonic clock.\<close>

definition or_try_consume :: "string \<Rightarrow> orch \<Rightarrow> bool \<times> orch" where
  "or_try_consume a s =
     (case rl_try_consume (or_mono s (or_reads s)) a 1 (or_rate s) of
        (ok, r) \<Rightarrow> (ok, s\<lparr>or_rate := r, or_reads := Suc (or_reads s)\<rparr>))"

text \<open>Step 6: the loop detector; \<open>True\<close> when the message was part of a loop.\<close>

definition or_loop_gate :: "string option \<Rightarrow> string \<Rightarrow> string \<Rightarrow> orch \<Rightarrow> bool or_out" where
  "or_loop_gate from_a to_a content s =
     (case ld_check from_a to_a content (or_loops s) of
        (Inl e, d) \<Rightarrow> (Inl e, s\<lparr>or_loops := d\<rparr>)
      | (Inr None, d) \<Rightarrow> (Inr False, s\<lparr>or_loops := d\<rparr>)
      | (Inr (Some kind), d) \<Rightarrow>
          andthen (or_handle_loop to_a kind (s\<lparr>or_loops := d\<rparr>)) (\<lambda>_ s1. (Inr True, s1)))"

text \<open>Steps 7 and 8.\<close>

definition or_enqueue ::
  "string option \<Rightarrow> string \<Rightarrow> string \<Rightarrow> string option \<Rightarrow> message_kind \<Rightarrow> orch \<Rightarrow> send_result or_out" where
  "or_enqueue from_a to_a content corr kind s =
     (if truthy corr \<and> mq_has_correlation (or_queue s) to_a (the corr)
      then (Inr REJECTED_DUPLICATE, s)
      else
        case or_call_now s of (t, s1) \<Rightarrow>
        let env = envelope_new (or_hex s (or_reads s)) from_a to_a content kind corr t in
        case mq_push env (or_queue s1) of
          (Inl e, q) \<Rightarrow>
            andthen (or_event AGENT_HEALTH_ALERT
                       [(''agent_id'', JStr to_a), (''issue'', JStr ''queue_unavailable''),
                        (''severity'', JStr ''warn'')] from_a None (s1\<lparr>or_queue := q\<rparr>))
              (\<lambda>_ s2. (Inl e, s2))
        | (Inr u, q) \<Rightarrow>
            andthen (or_event MESSAGE_SENT
                       [(''from_agent'', JStr (str_or from_a ''system'')), (''to_agent'', JStr to_a),
                        (''content'', JStr content), (''thread_id'', opt_json corr)]
                       from_a corr (s1\<lparr>or_queue := q\<rparr>))
              (\<lambda>_ s2. case or_call_now s2 of (t2, s3) \<Rightarrow>
                 (Inr QUEUED, s3\<lparr>or_last_message_at := t2,
                    or_last_activity_at :=
                      (if truthy from_a then (or_last_activity_at s3)(the from_a \<mapsto> t2)
                       else or_last_activity_at s3)\<rparr>)))"

text \<open>\<^verbatim>\<open>_send\<close> in full. It calls itself (through \<^verbatim>\<open>system_send\<close>) for the two notices to the sender:
  not deliverable, whose exceptions propagate, and slow down, whose exceptions are dropped. Those
  calls are system traffic without a sender, which sends no notices.\<close>

function or_send ::
  "string option \<Rightarrow> string \<Rightarrow> string \<Rightarrow> string option \<Rightarrow> message_kind \<Rightarrow> bool \<Rightarrow> orch \<Rightarrow> send_result or_out"
where
  "or_send from_a to_a content corr kind system s =
     (case or_gate from_a to_a content s of
        Reject r \<Rightarrow> (Inr r, s)
      | NotDeliverable \<Rightarrow>
          (case from_a of
             None \<Rightarrow> (Inr REJECTED_INVALID_TARGET, s)
           | Some f \<Rightarrow>
               andthen (or_send None f (''Recipient '' @ to_a @ '' is not deliverable.'') None NOTIFY True s)
                 (\<lambda>_ s1. (Inr REJECTED_INVALID_TARGET, s1)))
      | Pass \<Rightarrow>
          if system then or_enqueue from_a to_a content corr kind s
          else
            case or_try_consume (str_or from_a ''?'') s of
              (False, s1) \<Rightarrow>
                (Inr REJECTED_RATE_LIMIT,
                 snd (or_send None (str_or from_a ''?'') ''rate limit reached, slow down'' None NOTIFY True s1))
            | (True, s1) \<Rightarrow>
                andthen (or_loop_gate from_a to_a content s1)
                  (\<lambda>looped s2. if looped then (Inr REJECTED_LOOP, s2)
                               else or_enqueue from_a to_a content corr kind s2))"
  by pat_completeness auto
termination
  by (relation "measure (\<lambda>(from_a, _, _, _, _, system, _). if from_a = None \<and> system then 0 else 1)") auto

declare or_send.simps [simp del]

definition or_send_message ::
  "string \<Rightarrow> string \<Rightarrow> string \<Rightarrow> string option \<Rightarrow> message_kind \<Rightarrow> orch \<Rightarrow> send_result or_out" where
  "or_send_message from_a to_a content corr kind s = or_send (Some from_a) to_a content corr kind False s"

definition or_system_send ::
  "string \<Rightarrow> string \<Rightarrow> message_kind \<Rightarrow> string option \<Rightarrow> orch \<Rightarrow> send_result or_out" where
  "or_system_send to_a content kind corr s = or_send None to_a content corr kind True s"

section \<open>Delivery\<close>

definition incoming_of :: "envelope \<Rightarrow> incoming_message" where
  "incoming_of e =
     \<lparr>im_content = en_content e, im_kind = en_kind e, im_from = en_from e,
      im_corr = Some (str_or (en_corr e) (en_msg_id e))\<rparr>"

text \<open>\<open>err\<close> is the text of the exception \<^verbatim>\<open>deliver\<close> raises, if it raises one.\<close>

definition or_dispatch :: "string option \<Rightarrow> string \<Rightarrow> envelope \<Rightarrow> orch \<Rightarrow> unit or_out" where
  "or_dispatch err a e s =
     (case err of
        None \<Rightarrow>
          (case or_call_now s of
             (t, s1) \<Rightarrow> (Inr (), s1\<lparr>or_last_activity_at := (or_last_activity_at s1)(a \<mapsto> t)\<rparr>))
      | Some msg \<Rightarrow>
          if 3 \<le> en_attempts e + 1
          then (case or_call_now s of
                  (t, s1) \<Rightarrow> (Inr (), s1\<lparr>or_queue := mq_to_dlq e msg t (or_queue s1)\<rparr>))
          else (case mq_push (e\<lparr>en_attempts := en_attempts e + 1\<rparr>) (or_queue s) of
                  (r, q) \<Rightarrow> (r, s\<lparr>or_queue := q\<rparr>)))"

text \<open>One iteration of \<^verbatim>\<open>_consume_loop\<close>: the generator's next envelope (none: the task sleeps), then
  stop, hold back while not accepting, or dispatch. A task that breaks or raises is done.\<close>

definition or_consume_step :: "(envelope \<Rightarrow> string option) \<Rightarrow> string \<Rightarrow> orch \<Rightarrow> orch" where
  "or_consume_step dv a s =
     (case mq_pop a (or_queue s) of
        (None, q) \<Rightarrow> s\<lparr>or_queue := q\<rparr>
      | (Some e, q) \<Rightarrow>
          let s1 = s\<lparr>or_queue := q\<rparr>;
              quit = (\<lambda>t. t\<lparr>or_consumers := filter (\<lambda>x. x \<noteq> a) (or_consumers t)\<rparr>)
          in if or_stop s1 then quit s1
             else if \<not> ck_is_accepting_messages (or_clock s1)
             then (case mq_push e q of
                     (Inl x, q1) \<Rightarrow> quit (s1\<lparr>or_queue := q1\<rparr>)
                   | (Inr u, q1) \<Rightarrow> s1\<lparr>or_queue := q1\<rparr>)
             else (case or_dispatch (dv e) a e s1 of
                     (Inl x, s2) \<Rightarrow> quit s2
                   | (Inr u, s2) \<Rightarrow> s2))"

text \<open>\<^verbatim>\<open>drain\<close>: rounds over the registered agents, each giving every agent at most one envelope; a
  round reports how many it delivered.\<close>

fun drain_round :: "(string \<Rightarrow> envelope \<Rightarrow> string option) \<Rightarrow> string list \<Rightarrow> nat \<Rightarrow> orch \<Rightarrow> nat or_out" where
  "drain_round dv [] n s = (Inr n, s)"
| "drain_round dv (a # as) n s =
     (case mq_pop a (or_queue s) of
        (None, q) \<Rightarrow> drain_round dv as n (s\<lparr>or_queue := q\<rparr>)
      | (Some e, q) \<Rightarrow>
          if \<not> ck_is_accepting_messages (or_clock s)
          then (case mq_push e q of
                  (Inl x, q1) \<Rightarrow> (Inl x, s\<lparr>or_queue := q1\<rparr>)
                | (Inr u, q1) \<Rightarrow> drain_round dv as n (s\<lparr>or_queue := q1\<rparr>))
          else (case or_dispatch (dv a e) a e (s\<lparr>or_queue := q\<rparr>) of
                  (Inl x, s1) \<Rightarrow> (Inl x, s1)
                | (Inr u, s1) \<Rightarrow> drain_round dv as (Suc n) s1))"

fun or_drain :: "nat \<Rightarrow> (string \<Rightarrow> envelope \<Rightarrow> string option) \<Rightarrow> nat \<Rightarrow> orch \<Rightarrow> nat or_out" where
  "or_drain 0 dv delivered s = (Inr delivered, s)"
| "or_drain (Suc k) dv delivered s =
     (case drain_round dv (or_agents s) 0 s of
        (Inl e, s1) \<Rightarrow> (Inl e, s1)
      | (Inr n, s1) \<Rightarrow> if n = 0 then (Inr delivered, s1) else or_drain k dv (delivered + n) s1)"

section \<open>Queries and health\<close>

definition or_is_company_idle :: "orch \<Rightarrow> bool" where
  "or_is_company_idle s \<longleftrightarrow>
     list_all (\<lambda>a. mq_pending_count (or_queue s) a = 0 \<and> or_status s a \<in> {AS_IDLE, AS_STOPPED}) (or_agents s)"

definition or_health :: "string \<Rightarrow> orch \<Rightarrow> agent_health or_out" where
  "or_health a s =
     (if a \<notin> set (or_agents s) then (Inl (InvalidTarget a), s)
      else
        case or_call_now s of (t, s1) \<Rightarrow>
        case compute_score (or_signals s1 a) t of (score, notes) \<Rightarrow>
          (Inr \<lparr>ah_agent_id = a, ah_score = score, ah_status = run_status_value (or_status s1 a),
                ah_signals = or_signals s1 a, ah_notes = notes\<rparr>, s1))"

definition or_dlq :: "orch \<Rightarrow> dead_letter list" where
  "or_dlq s = mq_dlq (or_queue s)"

text \<open>\<^verbatim>\<open>create_task(self.system_send(...))\<close>: the send is a task of the loop.\<close>

definition or_notify_manager_unhealthy :: "string \<Rightarrow> orch \<Rightarrow> orch" where
  "or_notify_manager_unhealthy a s =
     (case or_manager_of s a of
        None \<Rightarrow> s
      | Some m \<Rightarrow>
          s\<lparr>or_tasks := or_tasks s @ [(m, ''Agent '' @ a @ '' is unhealthy. Consider intervention.'')]\<rparr>)"

definition or_run_task :: "orch \<Rightarrow> orch" where
  "or_run_task s =
     (case or_tasks s of
        [] \<Rightarrow> s
      | (m, content) # rest \<Rightarrow> snd (or_system_send m content NOTIFY None (s\<lparr>or_tasks := rest\<rparr>)))"

definition blocked_since_update :: "string \<Rightarrow> int \<Rightarrow> orch \<Rightarrow> orch" where
  "blocked_since_update a now s =
     (if or_status s a = AS_BLOCKED
      then (if a \<in> fst ` set (or_blocked_since s) then s
            else s\<lparr>or_blocked_since := or_blocked_since s @ [(a, now)]\<rparr>)
      else s\<lparr>or_blocked_since := filter (\<lambda>x. fst x \<noteq> a) (or_blocked_since s)\<rparr>)"

definition alert_due :: "string \<Rightarrow> int \<Rightarrow> orch \<Rightarrow> bool" where
  "alert_due a now s \<longleftrightarrow>
     (case or_last_health_alert s a of None \<Rightarrow> True | Some l \<Rightarrow> 60000000 < now - l)"

fun sweep_agents :: "int \<Rightarrow> string list \<Rightarrow> agent_health list \<Rightarrow> orch \<Rightarrow> agent_health list or_out" where
  "sweep_agents now [] out s = (Inr out, s)"
| "sweep_agents now (a # as) out s =
     andthen (or_health a s) (\<lambda>h s1.
       if ah_score h < UNHEALTHY_CUTOFF \<and> alert_due a now s1
       then andthen (health_alert a ''warn''
                       (let j = py_join '','' (ah_notes h) in if j = [] then ''unhealthy'' else j)
                       (s1\<lparr>or_last_health_alert := (or_last_health_alert s1)(a \<mapsto> now)\<rparr>))
              (\<lambda>_ s2. sweep_agents now as (out @ [h])
                 (blocked_since_update a now (or_notify_manager_unhealthy a s2)))
       else sweep_agents now as (out @ [h]) (blocked_since_update a now s1))"

fun check_deadlock :: "int \<Rightarrow> (string \<times> int) list \<Rightarrow> orch \<Rightarrow> unit or_out" where
  "check_deadlock now [] s = (Inr (), s)"
| "check_deadlock now ((a, since) # rest) s =
     (if DEADLOCK_BLOCKED_AFTER < now - since
      then andthen (health_alert a ''warn'' ''deadlock_warning'' s) (\<lambda>_ s1. check_deadlock now rest s1)
      else check_deadlock now rest s)"

definition check_company_stuck :: "int \<Rightarrow> orch \<Rightarrow> unit or_out" where
  "check_company_stuck now s =
     (if COMPANY_STUCK_AFTER < now - or_last_message_at s
      then (case find (\<lambda>a. or_status s a = AS_IDLE) (or_agents s) of
              None \<Rightarrow> (Inr (), s)
            | Some a \<Rightarrow> health_alert a ''warn'' ''company_stuck'' s)
      else (Inr (), s))"

definition or_health_sweep :: "orch \<Rightarrow> agent_health list or_out" where
  "or_health_sweep s =
     (case or_call_now s of (now, s1) \<Rightarrow>
        andthen (sweep_agents now (or_agents s1) [] s1) (\<lambda>out s2.
        andthen (check_deadlock now (or_blocked_since s2) s2) (\<lambda>_ s3.
        andthen (check_company_stuck now s3) (\<lambda>_ s4. (Inr out, s4)))))"

section \<open>Idle nudges\<close>

text \<open>The dash of the first text is written as a hyphen: it lies outside the model's characters.\<close>

definition nudge_manager_text :: "string \<Rightarrow> int \<Rightarrow> string" where
  "nudge_manager_text a minutes =
     ''Your subordinate '' @ a @ '' has been idle for approximately '' @ int_str minutes @
     '' minutes - ask what they need, or assign them a concrete task. If there is no progress, find out why.''"

definition nudge_self_text :: "int \<Rightarrow> string" where
  "nudge_self_text minutes =
     ''No significant activity in the company for the past '' @ int_str minutes @
     '' minutes. Your team includes HR and Security. What is your next step? Delegate a concrete task to someone or review your plan.''"

definition or_nudge :: "string \<Rightarrow> int \<Rightarrow> orch \<Rightarrow> unit or_out" where
  "or_nudge a idle_for s =
     (let minutes = max 1 (idle_for div 60) in
      andthen (health_alert a ''info'' ''idle_nudge'' s) (\<lambda>_ s1.
        case or_manager_of s a of
          Some m \<Rightarrow>
            if m \<in> set (or_agents s1)
            then (Inr (), snd (or_system_send m (nudge_manager_text a minutes) NOTIFY None s1))
            else (Inr (), snd (or_system_send a (nudge_self_text minutes) NOTIFY None s1))
        | None \<Rightarrow> (Inr (), snd (or_system_send a (nudge_self_text minutes) NOTIFY None s1))))"

text \<open>\<^verbatim>\<open>int(x.total_seconds())\<close> truncates towards zero.\<close>

definition whole_seconds :: "int \<Rightarrow> int" where
  "whole_seconds us = (if 0 \<le> us then us div 1000000 else - ((- us) div 1000000))"

definition nudge_due :: "int \<Rightarrow> string \<Rightarrow> orch \<Rightarrow> bool" where
  "nudge_due now a s \<longleftrightarrow>
     (let cfg = or_idle_cfg s;
          last_act = (case or_last_activity_at s a of None \<Rightarrow> or_last_message_at s | Some t \<Rightarrow> t)
      in a \<notin> set (or_suspended s) \<and> or_status s a = AS_IDLE \<and>
         round_half_even (ic_agent_idle_after_seconds cfg * 1000000) \<le> now - last_act \<and>
         (case or_last_nudge_at s a of
            None \<Rightarrow> True
          | Some l \<Rightarrow> round_half_even (ic_nudge_cooldown_seconds cfg * 1000000) \<le> now - l))"

fun sweep_idle :: "int \<Rightarrow> string list \<Rightarrow> nat \<Rightarrow> orch \<Rightarrow> nat or_out" where
  "sweep_idle now [] n s = (Inr n, s)"
| "sweep_idle now (a # as) n s =
     (if nudge_due now a s
      then andthen
             (or_nudge a (whole_seconds (now - (case or_last_activity_at s a of
                            None \<Rightarrow> or_last_message_at s | Some t \<Rightarrow> t))) s)
             (\<lambda>_ s1. sweep_idle now as (Suc n)
                (s1\<lparr>or_last_nudge_at := (or_last_nudge_at s1)(a \<mapsto> now)\<rparr>))
      else sweep_idle now as n s)"

definition or_idle_sweep :: "orch \<Rightarrow> nat or_out" where
  "or_idle_sweep s =
     (if \<not> ic_enabled (or_idle_cfg s) then (Inr 0, s)
      else case or_call_now s of (now, s1) \<Rightarrow> sweep_idle now (or_agents s1) 0 s1)"

text \<open>One wake-up of \<^verbatim>\<open>_watchdog_loop\<close>: what the sweeps raise is dropped.\<close>

definition or_watchdog_round :: "orch \<Rightarrow> orch" where
  "or_watchdog_round s =
     (if or_stop s then s\<lparr>or_watchdog := False\<rparr>
      else if \<not> ck_is_accepting_messages (or_clock s) then s
      else snd (or_idle_sweep (snd (or_health_sweep s))))"

end
