(* ===== verification/Orchestrator_Props.thy ===== *)
theory Orchestrator_Props
  imports Orchestrator_Model
begin

text \<open>
  What the orchestrator guarantees: the effect of a send on every branch, at-most-once acceptance
  of a correlation id, bounded retries, and that draining empties the queues. The lemmas first say
  what each operation does to the queue; the step relation \<open>or_step\<close> collects the operations.
\<close>

section \<open>Effects on the queue\<close>

text \<open>Every envelope waits with fewer than three failed attempts and dies with the third.\<close>

definition orq_inv :: "message_queue \<Rightarrow> bool" where
  "orq_inv q \<longleftrightarrow>
     mq_inv q \<and> (\<forall>a. \<forall>e\<in>set (mq_queues q a). en_attempts e < 3) \<and>
     (\<forall>d\<in>set (mq_dlq q). en_attempts (dl_envelope d) = 2)"

text \<open>The effect any operation may have: the invariant is kept and no correlation id forgotten.\<close>

definition q_ok :: "message_queue \<Rightarrow> message_queue \<Rightarrow> bool" where
  "q_ok q q' \<longleftrightarrow>
     (orq_inv q \<longrightarrow>
        orq_inv q' \<and> (\<forall>a. set (mq_seen q a) \<subseteq> set (mq_seen q' a)) \<and>
        mq_available q' = mq_available q)"

lemma q_ok_refl [simp, intro]: "q_ok q q"
  by (simp add: q_ok_def)

lemma q_ok_trans [trans]: "q_ok q q1 \<Longrightarrow> q_ok q1 q2 \<Longrightarrow> q_ok q q2"
  by (auto simp: q_ok_def)

lemma push_q_ok: "en_attempts e < 3 \<Longrightarrow> q_ok q (snd (mq_push e q))"
  using mq_push_inv[of q e] by (auto simp: q_ok_def orq_inv_def mq_push_def)

lemma orq_invD: "orq_inv q \<Longrightarrow> e \<in> set (mq_queues q a) \<Longrightarrow> en_attempts e < 3 \<and> en_to e = a"
  by (auto simp: orq_inv_def mq_inv_def)

lemma pop_q_ok: "q_ok q (snd (mq_pop a q))"
proof (cases "mq_queues q a")
  case (Cons x l)
  have "en_attempts e < 3" if "orq_inv q" "e \<in> set l" for e
    using orq_invD[OF that(1), of e a] that(2) by (simp add: Cons)
  with Cons mq_pop_inv[of q a] show ?thesis
    by (auto simp: q_ok_def orq_inv_def mq_pop_def)
qed (simp add: mq_pop_def)

lemma dlq_q_ok: "en_attempts e = 2 \<Longrightarrow> q_ok q (mq_to_dlq e reason now q)"
  using mq_dlq_inv[of q e reason now] by (auto simp: q_ok_def orq_inv_def mq_to_dlq_def)

lemma pop_attempts:
  assumes "orq_inv q" and "mq_pop a q = (Some e, q')"
  shows "en_attempts e < 3 \<and> en_to e = a"
proof (rule orq_invD[OF assms(1)])
  show "e \<in> set (mq_queues q a)" using assms(2) by (cases "mq_queues q a") (auto simp: mq_pop_def)
qed

section \<open>Frames\<close>

text \<open>The parts of the state an operation that only appends events leaves alone.\<close>

definition same_but_events :: "orch \<Rightarrow> orch \<Rightarrow> bool" where
  "same_but_events s t \<longleftrightarrow> (\<exists>es. t = s\<lparr>or_events := es\<rparr> \<and> log_extends (or_events s) es)"

lemma or_event_frame: "same_but_events s (snd (or_event k p a c s))"
  using es_append_extends[of "or_events s" "Inl k" p a c]
  by (auto simp: same_but_events_def or_event_def split: prod.split)

lemma health_alert_frame: "same_but_events s (snd (health_alert a sev i s))"
  unfolding health_alert_def by (rule or_event_frame)

lemma same_but_eventsD:
  assumes "same_but_events s t"
  shows "or_queue t = or_queue s" "or_agents t = or_agents s" "or_clock t = or_clock s"
    "or_identity t = or_identity s" "or_suspended t = or_suspended s" "or_stop t = or_stop s"
    "or_reads t = or_reads s" "or_loop_strikes t = or_loop_strikes s"
    "or_status t = or_status s" "or_rate t = or_rate s"
  using assms by (auto simp: same_but_events_def)

section \<open>Every operation is well behaved on the queue\<close>

definition oq :: "orch \<Rightarrow> orch \<Rightarrow> bool" where
  "oq s t \<longleftrightarrow> q_ok (or_queue s) (or_queue t)"

lemma oq_same: "or_queue t = or_queue s \<Longrightarrow> oq s t"
  by (simp add: oq_def)

lemma oq_trans [trans]: "oq s t \<Longrightarrow> oq t u \<Longrightarrow> oq s u"
  unfolding oq_def by (rule q_ok_trans)

lemma oq_andthen:
  assumes "oq s (snd m)" and "\<And>a t. m = (Inr a, t) \<Longrightarrow> oq t (snd (f a t))"
  shows "oq s (snd (andthen m f))"
proof (cases m)
  case (Pair r t)
  then show ?thesis
    using assms(1) assms(2)[of _ t] oq_trans[of s t] by (cases r) auto
qed

lemma call_now_parts [simp]:
  "or_queue (snd (or_call_now s)) = or_queue s" "or_agents (snd (or_call_now s)) = or_agents s"
  "or_clock (snd (or_call_now s)) = or_clock s" "or_events (snd (or_call_now s)) = or_events s"
  "or_identity (snd (or_call_now s)) = or_identity s"
  "or_suspended (snd (or_call_now s)) = or_suspended s"
  by (simp_all add: or_call_now_def)

lemma alert_queue [simp]: "or_queue (snd (health_alert a sev i s)) = or_queue s"
  using same_but_eventsD(1)[OF health_alert_frame] .

lemma event_queue [simp]: "or_queue (snd (or_event k p a c s)) = or_queue s"
  using same_but_eventsD(1)[OF or_event_frame] .

lemma manager_suspended_queue [simp]: "or_queue (snd (or_notify_manager_suspended a s)) = or_queue s"
  by (simp add: or_notify_manager_suspended_def split: option.split)

lemma handle_loop_queue [simp]: "or_queue (snd (or_handle_loop a k s)) = or_queue s"
  unfolding or_handle_loop_def
  by (rule andthen_split[THEN iffD2])
     (auto dest: arg_cong[where f = "\<lambda>x. or_queue (snd x)"] simp: LOOP_STRIKES_BEFORE_SUSPEND_def)

lemma suspend_queue [simp]: "or_queue (snd (or_suspend a r s)) = or_queue s"
  unfolding or_suspend_def
  by (simp, intro impI, rule andthen_split[THEN iffD2])
     (auto dest: arg_cong[where f = "\<lambda>x. or_queue (snd x)"])

lemma loop_gate_queue [simp]: "or_queue (snd (or_loop_gate f t c s)) = or_queue s"
proof -
  obtain r d where chk: "ld_check f t c (or_loops s) = (r, d)" by (meson surj_pair)
  show ?thesis
  proof (cases r)
    case (Inr v)
    then show ?thesis
    proof (cases v)
      case (Some k)
      obtain r1 t1 where h: "or_handle_loop t k (s\<lparr>or_loops := d\<rparr>) = (r1, t1)" by (meson surj_pair)
      have "or_queue t1 = or_queue s"
        using arg_cong[OF h, of "\<lambda>x. or_queue (snd x)"] by simp
      with Some Inr chk h show ?thesis by (cases r1) (simp_all add: or_loop_gate_def)
    qed (simp add: or_loop_gate_def chk Inr)
  qed (simp add: or_loop_gate_def chk)
qed

lemma try_consume_queue [simp]: "or_queue (snd (or_try_consume a s)) = or_queue s"
  by (simp add: or_try_consume_def split: prod.split)

definition new_envelope ::
  "string option \<Rightarrow> string \<Rightarrow> string \<Rightarrow> string option \<Rightarrow> message_kind \<Rightarrow> orch \<Rightarrow> envelope" where
  "new_envelope from_a to_a content corr kind s =
     envelope_new (or_hex s (or_reads s)) from_a to_a content kind corr (or_now s (or_reads s))"

lemma new_envelope_simps [simp]:
  "en_to (new_envelope f t c cr k s) = t" "en_from (new_envelope f t c cr k s) = f"
  "en_content (new_envelope f t c cr k s) = c" "en_corr (new_envelope f t c cr k s) = cr"
  "en_kind (new_envelope f t c cr k s) = k" "en_attempts (new_envelope f t c cr k s) = 0"
  by (simp_all add: new_envelope_def envelope_new_def)

lemma or_enqueue_cases:
  obtains (duplicate) "or_enqueue f t c cr k s = (Inr REJECTED_DUPLICATE, s)" "truthy cr"
      "the cr \<in> set (mq_seen (or_queue s) t)"
  | (down) e u where "or_enqueue f t c cr k s = (Inl e, u)" "or_queue u = or_queue s"
      "\<not> mq_available (or_queue s)"
  | (raised) e u where "or_enqueue f t c cr k s = (Inl e, u)" "mq_available (or_queue s)"
      "\<not> (truthy cr \<and> the cr \<in> set (mq_seen (or_queue s) t))"
      "or_queue u = snd (mq_push (new_envelope f t c cr k s) (or_queue s))"
  | (queued) ev u where "or_enqueue f t c cr k s = (Inr QUEUED, u)" "mq_available (or_queue s)"
      "\<not> (truthy cr \<and> the cr \<in> set (mq_seen (or_queue s) t))"
      "or_queue u = snd (mq_push (new_envelope f t c cr k s) (or_queue s))"
      "es_events (or_events u) = es_events (or_events s) @ [ev]" "ev_kind ev = MESSAGE_SENT"
      "ev_correlation_id ev = cr" "ev_actor_agent_id ev = f"
proof (cases "truthy cr \<and> the cr \<in> set (mq_seen (or_queue s) t)")
  case True
  then show thesis by (intro duplicate) (simp_all add: or_enqueue_def mq_has_correlation_def)
next
  case fresh: False
  define s1 where "s1 = s\<lparr>or_reads := Suc (or_reads s)\<rparr>"
  define env where "env = new_envelope f t c cr k s"
  show thesis
  proof (cases "mq_available (or_queue s)")
    case False
    let ?p = "[(''agent_id'', JStr t), (''issue'', JStr ''queue_unavailable''), (''severity'', JStr ''warn'')]"
    obtain r u where ev: "or_event AGENT_HEALTH_ALERT ?p f None s1 = (r, u)" by (meson surj_pair)
    have "or_queue u = or_queue s" using arg_cong[OF ev, of "\<lambda>x. or_queue (snd x)"] by (simp add: s1_def)
    moreover have "s1\<lparr>or_queue := or_queue s\<rparr> = s1" by (simp add: s1_def)
    moreover have push: "mq_push e (or_queue s1) = (Inl (RedisUnavailable ''queue offline''), or_queue s)" for e
      using False by (simp add: mq_push_def s1_def)
    ultimately have "\<exists>e. or_enqueue f t c cr k s = (Inl e, u) \<and> or_queue u = or_queue s"
      using fresh ev push
      by (cases r) (auto simp: or_enqueue_def mq_has_correlation_def or_call_now_def s1_def[symmetric] Let_def)
    with False show thesis using down by blast
  next
    case up: True
    let ?p = "[(''from_agent'', JStr (str_or f ''system'')), (''to_agent'', JStr t),
                        (''content'', JStr c), (''thread_id'', opt_json cr)]"
    define q where "q = snd (mq_push env (or_queue s))"
    have push: "mq_push env (or_queue s) = (Inr (), q)" using up by (simp add: q_def mq_push_def)
    obtain r u where ev: "or_event MESSAGE_SENT ?p f cr (s1\<lparr>or_queue := q\<rparr>) = (r, u)" by (meson surj_pair)
    have uq: "or_queue u = q"
      using arg_cong[OF ev, of "\<lambda>x. or_queue (snd x)"] by simp
    have run: "or_enqueue f t c cr k s =
        andthen (r, u) (\<lambda>_ s2. case or_call_now s2 of (t2, s3) \<Rightarrow>
                 (Inr QUEUED, s3\<lparr>or_last_message_at := t2,
                    or_last_activity_at :=
                      (if truthy f then (or_last_activity_at s3)(the f \<mapsto> t2)
                       else or_last_activity_at s3)\<rparr>))"
      using fresh push ev
      by (simp add: or_enqueue_def mq_has_correlation_def or_call_now_def s1_def[symmetric] env_def
          new_envelope_def Let_def) (cases r; auto simp: s1_def or_call_now_def)
    show thesis
    proof (cases r)
      case (Inl e)
      with run uq up fresh show thesis by (intro raised[of e u]) (simp_all add: q_def env_def)
    next
      case (Inr x)
      obtain w where w: "or_enqueue f t c cr k s = (Inr QUEUED, w)" "or_queue w = q"
        "or_events w = or_events u"
        using run Inr uq by (simp add: or_call_now_def)
      obtain rr es where app: "es_append (Inl MESSAGE_SENT) ?p f cr (or_events s) = (rr, es)"
        by (meson surj_pair)
      with ev Inr obtain e1 where rr: "rr = Inr e1" and "or_events u = es"
        by (cases rr) (auto simp: or_event_def s1_def)
      with es_appended[OF app[unfolded rr]]
      w up fresh show thesis by (intro queued[of w e1]) (simp_all add: q_def env_def)
    qed
  qed
qed

section \<open>The effect of a send\<close>

text \<open>At most one envelope more in \<open>a\<close>'s bucket, nothing else changed in any bucket.\<close>

definition grows :: "string \<Rightarrow> message_queue \<Rightarrow> message_queue \<Rightarrow> bool" where
  "grows a q q' \<longleftrightarrow>
     (\<forall>b. b \<noteq> a \<longrightarrow> mq_queues q' b = mq_queues q b) \<and>
     (\<exists>xs. mq_queues q' a = mq_queues q a @ xs \<and> length xs \<le> 1)"

lemma grows_refl [simp]: "grows a q q"
  by (simp add: grows_def)

lemma grows_push: "en_to e = a \<Longrightarrow> grows a q (snd (mq_push e q))"
  by (auto simp: grows_def mq_push_def)

lemma or_enqueue_grows: "grows t (or_queue s) (or_queue (snd (or_enqueue f t c cr k s)))"
  by (rule or_enqueue_cases[of f t c cr k s]) (simp_all add: grows_push)

lemma or_enqueue_oq: "oq s (snd (or_enqueue f t c cr k s))"
  unfolding oq_def by (rule or_enqueue_cases[of f t c cr k s]) (simp_all add: push_q_ok)

lemma or_send_system:
  "or_send None a c cr k True s =
     (case or_gate None a c s of
        Reject r \<Rightarrow> (Inr r, s)
      | NotDeliverable \<Rightarrow> (Inr REJECTED_INVALID_TARGET, s)
      | Pass \<Rightarrow> or_enqueue None a c cr k s)"
  by (subst or_send.simps) (simp split: gate.split)

lemma system_send_grows: "grows a (or_queue s) (or_queue (snd (or_send None a c cr k True s)))"
  by (simp add: or_send_system or_enqueue_grows split: gate.split)

lemma system_send_oq: "oq s (snd (or_send None a c cr k True s))"
  by (simp add: or_send_system or_enqueue_oq oq_same split: gate.split)

lemma gate_not_queued: "or_gate f t c s \<noteq> Reject QUEUED"
  by (simp add: or_gate_def)

text \<open>The ways a send can end.\<close>

lemma or_send_cases:
  obtains (rejected) r where "or_send f t c cr k sys s = (Inr r, s)" "or_gate f t c s = Reject r" "r \<noteq> QUEUED"
  | (undeliverable) "or_send f t c cr k sys s = (Inr REJECTED_INVALID_TARGET, s)" "f = None"
      "or_gate f t c s = NotDeliverable"
  | (notice) a where "f = Some a" "or_gate f t c s = NotDeliverable"
      "snd (or_send f t c cr k sys s) =
         snd (or_send None a (''Recipient '' @ t @ '' is not deliverable.'') None NOTIFY True s)"
      "fst (or_send f t c cr k sys s) \<noteq> Inr QUEUED"
  | (limited) s1 where "or_gate f t c s = Pass" "\<not> sys" "or_queue s1 = or_queue s"
      "or_send f t c cr k sys s =
         (Inr REJECTED_RATE_LIMIT,
          snd (or_send None (str_or f ''?'') ''rate limit reached, slow down'' None NOTIFY True s1))"
  | (looped) s1 r where "or_gate f t c s = Pass" "\<not> sys" "or_queue s1 = or_queue s"
      "or_send f t c cr k sys s = (r, s1)" "r \<noteq> Inr QUEUED"
  | (enqueue) s1 where "or_gate f t c s = Pass" "or_queue s1 = or_queue s"
      "or_send f t c cr k sys s = or_enqueue f t c cr k s1" "or_events s1 = or_events s"
proof (cases "or_gate f t c s")
  case (Reject r)
  then show thesis using gate_not_queued[of f t c s] by (intro rejected[of r]) (auto simp: or_send.simps)
next
  case NotDeliverable
  show thesis
  proof (cases f)
    case None
    with NotDeliverable show thesis by (intro undeliverable) (simp_all add: or_send.simps)
  next
    case (Some a)
    let ?n = "or_send None a (''Recipient '' @ t @ '' is not deliverable.'') None NOTIFY True s"
    obtain r u where n: "?n = (r, u)" by (meson surj_pair)
    have "or_send f t c cr k sys s = andthen ?n (\<lambda>_ s1. (Inr REJECTED_INVALID_TARGET, s1))"
      by (subst or_send.simps) (use NotDeliverable in \<open>simp add: Some\<close>)
    with n have "snd (or_send f t c cr k sys s) = snd ?n \<and> fst (or_send f t c cr k sys s) \<noteq> Inr QUEUED"
      by (cases r) simp_all
    with Some NotDeliverable show thesis by (intro notice[of a]) simp_all
  qed
next
  case Pass
  show thesis
  proof (cases sys)
    case True
    with Pass show thesis by (intro enqueue[of s]) (simp_all add: or_send.simps)
  next
    case False
    obtain ok s1 where lim: "or_try_consume (str_or f ''?'') s = (ok, s1)" by (meson surj_pair)
    have q1: "or_queue s1 = or_queue s" "or_events s1 = or_events s"
      using lim by (auto simp: or_try_consume_def split: prod.splits)
    show thesis
    proof (cases ok)
      case False
      with Pass \<open>\<not> sys\<close> lim q1 show thesis
        by (intro limited[of s1]) (simp_all add: or_send.simps[of f])
    next
      case True
      obtain r s2 where lp: "or_loop_gate f t c s1 = (r, s2)" by (meson surj_pair)
      have q2: "or_queue s2 = or_queue s"
        using arg_cong[OF lp, of "\<lambda>x. or_queue (snd x)"] q1 by simp
      have run: "or_send f t c cr k sys s = andthen (r, s2)
          (\<lambda>looped s2. if looped then (Inr REJECTED_LOOP, s2) else or_enqueue f t c cr k s2)"
        by (subst or_send.simps) (use Pass \<open>\<not> sys\<close> lim True lp in simp)
      show thesis
      proof (cases "r = Inr False")
        case True
        then have "or_events s2 = or_events s1"
          using lp by (auto simp: or_loop_gate_def andthen_def split: prod.splits sum.splits option.splits)
        with True run Pass q1 q2 show thesis by (intro enqueue[of s2]) simp_all
      next
        case False
        with run have "\<exists>r'. or_send f t c cr k sys s = (r', s2) \<and> r' \<noteq> Inr QUEUED"
          by (cases r) auto
        with Pass \<open>\<not> sys\<close> q2 show thesis using looped by blast
      qed
    qed
  qed
qed

lemma or_send_oq: "oq s (snd (or_send f t c cr k sys s))"
proof (rule or_send_cases[of f t c cr k sys s])
  show "oq s (snd (or_send f t c cr k sys s))"
    if "or_queue s1 = or_queue s"
      "or_send f t c cr k sys s =
         (Inr REJECTED_RATE_LIMIT,
          snd (or_send None (str_or f ''?'') ''rate limit reached, slow down'' None NOTIFY True s1))" for s1
    using system_send_oq[of s1] that by (simp add: oq_def)
  show "oq s (snd (or_send f t c cr k sys s))"
    if "or_queue s1 = or_queue s" "or_send f t c cr k sys s = or_enqueue f t c cr k s1" for s1
    using or_enqueue_oq[of s1] that by (simp add: oq_def)
qed (simp_all add: oq_same system_send_oq)

section \<open>The other operations\<close>

lemma dispatch_oq:
  assumes "en_attempts e < 3" shows "oq s (snd (or_dispatch err a e s))"
proof (cases err)
  case None
  then show ?thesis by (simp add: or_dispatch_def or_call_now_def oq_same)
next
  case (Some msg)
  show ?thesis
  proof (cases "3 \<le> en_attempts e + 1")
    case True
    with assms have "en_attempts e = 2" by simp
    with Some True show ?thesis
      by (simp add: or_dispatch_def or_call_now_def oq_def dlq_q_ok)
  next
    case False
    then show ?thesis
      using push_q_ok[of "e\<lparr>en_attempts := en_attempts e + 1\<rparr>" "or_queue s"] Some
      by (simp add: or_dispatch_def oq_def case_prod_beta)
  qed
qed

text \<open>Taking an envelope out and doing with it what leaves the queue well behaved.\<close>

lemma pop_then:
  assumes "mq_pop a (or_queue s) = (Some e, q)" and "or_queue s1 = q"
    and "en_attempts e < 3 \<Longrightarrow> oq s1 t"
  shows "oq s t"
  unfolding oq_def q_ok_def
proof
  assume inv: "orq_inv (or_queue s)"
  have e: "en_attempts e < 3" using pop_attempts[OF inv assms(1)] by simp
  have "oq s s1" using pop_q_ok[of "or_queue s" a] assms(1,2) by (simp add: oq_def)
  from oq_trans[OF this assms(3)[OF e]] inv
  show "orq_inv (or_queue t) \<and> (\<forall>a. set (mq_seen (or_queue s) a) \<subseteq> set (mq_seen (or_queue t) a)) \<and>
        mq_available (or_queue t) = mq_available (or_queue s)"
    by (simp add: oq_def q_ok_def)
qed

lemma pop_none_oq: "mq_pop a (or_queue s) = (None, q) \<Longrightarrow> q = or_queue s"
  by (cases "mq_queues (or_queue s) a") (auto simp: mq_pop_def)

lemma consume_oq: "oq s (or_consume_step dv a s)"
proof (cases "mq_pop a (or_queue s)")
  case (Pair x q)
  show ?thesis
  proof (cases x)
    case None
    with Pair show ?thesis using pop_none_oq[of a s q] by (simp add: or_consume_step_def oq_same)
  next
    case (Some e)
    have "oq (s\<lparr>or_queue := q\<rparr>) (or_consume_step dv a s)" if e: "en_attempts e < 3"
    proof -
      obtain r q1 where push: "mq_push e q = (r, q1)" by (meson surj_pair)
      obtain r2 s2 where disp: "or_dispatch (dv e) a e (s\<lparr>or_queue := q\<rparr>) = (r2, s2)" by (meson surj_pair)
      have "q_ok q q1" using push_q_ok[OF e, of q] push by simp
      moreover have "oq (s\<lparr>or_queue := q\<rparr>) s2" using dispatch_oq[OF e] disp by (metis snd_conv)
      ultimately show ?thesis
        using Some Pair push disp
        by (cases r; cases r2) (simp_all add: or_consume_step_def oq_def Let_def)
    qed
    with Some Pair show ?thesis by (intro pop_then[of a s e q "s\<lparr>or_queue := q\<rparr>"]) simp_all
  qed
qed

lemma drain_round_oq: "oq s (snd (drain_round dv as n s))"
proof (induction as arbitrary: n s)
  case Nil
  then show ?case by (simp add: oq_same)
next
  case (Cons a as)
  show ?case
  proof (cases "mq_pop a (or_queue s)")
    case (Pair x q)
    show ?thesis
    proof (cases x)
      case None
      with Pair pop_none_oq[of a s q] Cons[of "s\<lparr>or_queue := q\<rparr>" n] show ?thesis
        by (simp add: oq_def)
    next
      case (Some e)
      let ?s1 = "s\<lparr>or_queue := q\<rparr>"
      have "oq ?s1 (snd (drain_round dv (a # as) n s))" if e: "en_attempts e < 3"
      proof (cases "ck_is_accepting_messages (or_clock s)")
        case True
        obtain r s2 where disp: "or_dispatch (dv a e) a e ?s1 = (r, s2)" by (meson surj_pair)
        have "oq ?s1 s2" using dispatch_oq[OF e, of ?s1 "dv a e" a] disp by simp
        with Cons[of s2 "Suc n"] oq_trans[of ?s1 s2] show ?thesis
          by (cases r) (simp_all add: Pair Some True disp)
      next
        case False
        obtain r q1 where push: "mq_push e q = (r, q1)" by (meson surj_pair)
        have "oq ?s1 (s\<lparr>or_queue := q1\<rparr>)" using push_q_ok[OF e, of q] push by (simp add: oq_def)
        with Cons[of "s\<lparr>or_queue := q1\<rparr>" n] oq_trans[of ?s1 "s\<lparr>or_queue := q1\<rparr>"] show ?thesis
          by (cases r) (simp_all add: Pair Some False push)
      qed
      with Some Pair show ?thesis by (intro pop_then[of a s e q ?s1]) simp_all
    qed
  qed
qed

lemma drain_oq: "oq s (snd (or_drain k dv n s))"
proof (induction k arbitrary: n s)
  case 0
  then show ?case by (simp add: oq_same)
next
  case (Suc k)
  obtain r s1 where rnd: "drain_round dv (or_agents s) 0 s = (r, s1)" by (meson surj_pair)
  have "oq s s1" using drain_round_oq[of s dv "or_agents s" 0] rnd by simp
  with Suc[of s1] oq_trans[of s s1] show ?case
    by (cases r) (simp_all add: rnd)
qed

lemma health_queue [simp]: "or_queue (snd (or_health a s)) = or_queue s"
  by (simp add: or_health_def or_call_now_def split: prod.split)

lemma notify_unhealthy_queue [simp]: "or_queue (or_notify_manager_unhealthy a s) = or_queue s"
  by (simp add: or_notify_manager_unhealthy_def split: option.split)

lemma blocked_since_queue [simp]: "or_queue (blocked_since_update a now s) = or_queue s"
  by (simp add: blocked_since_update_def)

lemma andthen_queue:
  assumes "or_queue (snd m) = or_queue s" and "\<And>a t. or_queue (snd (f a t)) = or_queue t"
  shows "or_queue (snd (andthen m f)) = or_queue s"
proof (cases m)
  case (Pair r t)
  with assms show ?thesis by (cases r) auto
qed

lemma sweep_agents_queue [simp]: "or_queue (snd (sweep_agents now as out s)) = or_queue s"
proof (induction as arbitrary: out s)
  case (Cons a as)
  show ?case
    unfolding sweep_agents.simps
    by (rule andthen_queue, simp) (auto simp: Cons intro!: andthen_queue)
qed simp

lemma check_deadlock_queue [simp]: "or_queue (snd (check_deadlock now bs s)) = or_queue s"
  by (induction now bs s rule: check_deadlock.induct) (auto intro!: andthen_queue)

lemma check_stuck_queue [simp]: "or_queue (snd (check_company_stuck now s)) = or_queue s"
  by (simp add: check_company_stuck_def split: option.split)

lemma health_sweep_queue [simp]: "or_queue (snd (or_health_sweep s)) = or_queue s"
  unfolding or_health_sweep_def or_call_now_def
  by (auto intro!: andthen_queue)

lemma nudge_oq: "oq s (snd (or_nudge a i s))"
  unfolding or_nudge_def Let_def
  by (rule oq_andthen)
     (auto simp: oq_same or_system_send_def intro: system_send_oq split: option.split)

lemma sweep_idle_oq: "oq s (snd (sweep_idle now as n s))"
proof (induction as arbitrary: n s)
  case (Cons a as)
  have "oq t (snd (sweep_idle now as (Suc n) (t\<lparr>or_last_nudge_at := g\<rparr>)))" for t g
    using Cons[of "t\<lparr>or_last_nudge_at := g\<rparr>"] by (simp add: oq_def)
  with Cons show ?case by (auto intro: oq_andthen nudge_oq)
qed (simp add: oq_same)

lemma idle_sweep_oq: "oq s (snd (or_idle_sweep s))"
  using sweep_idle_oq[of "snd (or_call_now s)"]
  by (auto simp: or_idle_sweep_def oq_same oq_def case_prod_beta)

lemma watchdog_oq: "oq s (or_watchdog_round s)"
  using idle_sweep_oq[of "snd (or_health_sweep s)"]
  by (auto simp: or_watchdog_round_def oq_same oq_def)

lemma run_task_oq: "oq s (or_run_task s)"
proof (cases "or_tasks s")
  case (Cons x xs)
  then show ?thesis
    using system_send_oq[of "s\<lparr>or_tasks := xs\<rparr>" "fst x" "snd x" None NOTIFY]
    by (simp add: or_run_task_def or_system_send_def oq_def case_prod_beta)
qed (simp add: or_run_task_def oq_same)

section \<open>The orchestrator as a system\<close>

text \<open>\<open>ors_env\<close> is everything else: the organisation, the log, the clock and the agents themselves
  change, the tests switch the queue's backend off and on.\<close>

inductive or_step :: "orch \<Rightarrow> orch \<Rightarrow> bool" where
  ors_register: "or_step s (or_register a s)"
| ors_unregister: "or_step s (or_unregister a s)"
| ors_start: "or_step s (or_start s)"
| ors_stop: "or_step s (or_stop_all s)"
| ors_configure: "or_step s (or_configure_rate_limit a c r s)"
| ors_suspend: "or_step s (snd (or_suspend a reason s))"
| ors_resume: "or_step s (or_resume a s)"
| ors_send: "or_step s (snd (or_send f t c cr k sys s))"
| ors_consume: "or_step s (or_consume_step dv a s)"
| ors_drain: "or_step s (snd (or_drain n d 0 s))"
| ors_health: "or_step s (snd (or_health_sweep s))"
| ors_idle: "or_step s (snd (or_idle_sweep s))"
| ors_watchdog: "or_step s (or_watchdog_round s)"
| ors_task: "or_step s (or_run_task s)"
| ors_env: "or_step s (s\<lparr>or_identity := g, or_events := es, or_clock := ck, or_status := st,
      or_signals := sg, or_queue := mq_set_available v (or_queue s)\<rparr>)"

inductive_cases or_stepE: "or_step s t"

definition or_init :: "orch \<Rightarrow> bool" where
  "or_init s \<longleftrightarrow> or_queue s = mq_create"

definition or_seen_kept :: "orch \<Rightarrow> orch \<Rightarrow> bool" where
  "or_seen_kept s t \<longleftrightarrow>
     orq_inv (or_queue t) \<and> (\<forall>a. set (mq_seen (or_queue s) a) \<subseteq> set (mq_seen (or_queue t) a))"

lemma oq_seen_kept: "oq s t \<Longrightarrow> orq_inv (or_queue s) \<Longrightarrow> or_seen_kept s t"
  by (simp add: oq_def q_ok_def or_seen_kept_def)

lemma or_step_kept:
  assumes "or_step s t" and "orq_inv (or_queue s)"
  shows "or_seen_kept s t"
  using assms(1)
proof (rule or_stepE)
  fix g es ck st sg v
  assume "t = s\<lparr>or_identity := g, or_events := es, or_clock := ck, or_status := st,
      or_signals := sg, or_queue := mq_set_available v (or_queue s)\<rparr>"
  then show ?thesis
    using assms(2) by (auto simp: or_seen_kept_def orq_inv_def mq_set_available_def mq_inv_def)
qed (auto intro!: oq_seen_kept[OF _ assms(2)] or_send_oq consume_oq drain_oq idle_sweep_oq watchdog_oq
      run_task_oq oq_same
      simp: or_register_def or_call_now_def or_unregister_def or_start_def or_stop_all_def
        or_configure_rate_limit_def or_resume_def)

interpretation orchestrator: invariant_system or_init or_step "\<lambda>s. orq_inv (or_queue s)"
  by unfold_locales
     (auto simp: or_init_def orq_inv_def mq_create_inv or_seen_kept_def dest: or_step_kept,
      auto simp: mq_create_def)

lemma or_steps_kept: "or_step\<^sup>*\<^sup>* s t \<Longrightarrow> orq_inv (or_queue s) \<Longrightarrow> or_seen_kept s t"
proof (induction rule: rtranclp_induct)
  case (step t u)
  then have "or_seen_kept s t" by simp
  moreover then have "or_seen_kept t u"
    using or_step_kept[of t u] step.hyps by (simp add: or_seen_kept_def)
  ultimately show ?case by (auto simp: or_seen_kept_def)
qed (simp add: or_seen_kept_def)

section \<open>Draining\<close>

text \<open>How many deliveries an envelope has left; each one uses at least one of them up.\<close>

definition left_of :: "envelope \<Rightarrow> nat" where
  "left_of e = 3 - en_attempts e"

definition weight :: "message_queue \<Rightarrow> string \<Rightarrow> nat" where
  "weight q a = sum_list (map left_of (mq_queues q a))"

definition total_weight :: "message_queue \<Rightarrow> string list \<Rightarrow> nat" where
  "total_weight q as = sum_list (map (weight q) as)"

definition drainable :: "orch \<Rightarrow> bool" where
  "drainable s \<longleftrightarrow> orq_inv (or_queue s) \<and> mq_available (or_queue s) \<and>
     ck_is_accepting_messages (or_clock s) \<and> distinct (or_agents s)"

lemma deliver_one:
  assumes ok: "drainable s" and pop: "mq_pop a (or_queue s) = (Some e, q)"
  shows "\<exists>t. or_dispatch err a e (s\<lparr>or_queue := q\<rparr>) = (Inr (), t) \<and> drainable t \<and>
     or_agents t = or_agents s \<and> weight (or_queue t) a < weight (or_queue s) a \<and>
     (\<forall>b. b \<noteq> a \<longrightarrow> weight (or_queue t) b = weight (or_queue s) b)"
proof -
  have inv: "orq_inv (or_queue s)" using ok by (simp add: drainable_def)
  have e: "en_attempts e < 3" "en_to e = a" using pop_attempts[OF inv pop] by auto
  obtain rest where q_a: "mq_queues (or_queue s) a = e # rest"
    and q: "mq_queues q = (mq_queues (or_queue s))(a := rest)" "mq_available q"
    using pop ok by (cases "mq_queues (or_queue s) a") (auto simp: mq_pop_def drainable_def)
  obtain r t where run: "or_dispatch err a e (s\<lparr>or_queue := q\<rparr>) = (r, t)" by (meson surj_pair)
  have "oq s t"
    using pop_then[OF pop, of "s\<lparr>or_queue := q\<rparr>" t] dispatch_oq[of e "s\<lparr>or_queue := q\<rparr>" err a] run by simp
  then have "orq_inv (or_queue t) \<and> mq_available (or_queue t)"
    using ok by (simp add: oq_def q_ok_def drainable_def)
  moreover have "r = Inr () \<and> or_agents t = or_agents s \<and> or_clock t = or_clock s \<and>
      (mq_queues (or_queue t) = mq_queues q \<or>
       mq_queues (or_queue t) = (mq_queues q)(a := rest @ [e\<lparr>en_attempts := en_attempts e + 1\<rparr>]) \<and>
         en_attempts e + 1 < 3)"
    using run q e(2)
    by (auto simp: or_dispatch_def or_call_now_def mq_push_def mq_to_dlq_def not_le
        split: option.splits if_splits)
  moreover have "left_of (e\<lparr>en_attempts := en_attempts e + 1\<rparr>) < left_of e" if "en_attempts e + 1 < 3"
    using that by (simp add: left_of_def)
  moreover have "0 < left_of e" using e(1) by (simp add: left_of_def)
  ultimately show ?thesis
    using ok run q(1) q_a by (auto simp: drainable_def weight_def)
qed

lemma round_progress:
  assumes "drainable s" and "distinct as"
  shows "\<exists>m t. drain_round dv as n s = (Inr (n + m), t) \<and> drainable t \<and> or_agents t = or_agents s \<and>
     m + total_weight (or_queue t) as \<le> total_weight (or_queue s) as \<and>
     (\<forall>b. b \<notin> set as \<longrightarrow> weight (or_queue t) b = weight (or_queue s) b) \<and>
     (m = 0 \<longrightarrow> t = s \<and> (\<forall>a\<in>set as. mq_queues (or_queue s) a = []))"
  using assms
proof (induction as arbitrary: s n)
  case Nil
  then show ?case by (simp add: total_weight_def)
next
  case (Cons a as)
  show ?case
  proof (cases "mq_pop a (or_queue s)")
    case (Pair x q)
    show ?thesis
    proof (cases x)
      case None
      have "mq_queues (or_queue s) a = []" using mq.pop_none[of a "or_queue s" q] Pair None by simp
      moreover have "s\<lparr>or_queue := q\<rparr> = s" using pop_none_oq[of a s q] Pair None by simp
      ultimately show ?thesis
        using Cons.IH[OF Cons.prems(1), of n] Cons.prems(2) Pair None
        by (auto simp: total_weight_def weight_def)
    next
      case (Some e)
      obtain t1 where t1: "or_dispatch (dv a e) a e (s\<lparr>or_queue := q\<rparr>) = (Inr (), t1)" "drainable t1"
        "or_agents t1 = or_agents s" "weight (or_queue t1) a < weight (or_queue s) a"
        "\<forall>b. b \<noteq> a \<longrightarrow> weight (or_queue t1) b = weight (or_queue s) b"
        using deliver_one[OF Cons.prems(1), of a e q "dv a e"] Pair Some by auto
      have acc: "ck_is_accepting_messages (or_clock s)" using Cons.prems(1) by (simp add: drainable_def)
      obtain m t where t: "drain_round dv as (Suc n) t1 = (Inr (Suc n + m), t)" "drainable t"
        "or_agents t = or_agents t1"
        "m + total_weight (or_queue t) as \<le> total_weight (or_queue t1) as"
        "\<forall>b. b \<notin> set as \<longrightarrow> weight (or_queue t) b = weight (or_queue t1) b"
        using Cons.IH[OF t1(2), of "Suc n"] Cons.prems(2) by auto
      have "map (weight (or_queue t1)) as = map (weight (or_queue s)) as"
        using t1(5) Cons.prems(2) by (intro map_cong) auto
      then have "total_weight (or_queue t1) as = total_weight (or_queue s) as"
        by (simp only: total_weight_def)
      moreover have "weight (or_queue t) a = weight (or_queue t1) a" using t(5) Cons.prems(2) by simp
      moreover have "drain_round dv (a # as) n s = (Inr (n + Suc m), t)"
        using t(1) by (simp add: Pair Some acc t1(1))
      ultimately show ?thesis
        using t t1 by (intro exI[of _ "Suc m"] exI[of _ t]) (auto simp: total_weight_def)
    qed
  qed
qed

lemma weight_nonempty:
  assumes "orq_inv q" shows "weight q a = 0 \<longleftrightarrow> mq_queues q a = []"
proof (cases "mq_queues q a")
  case (Cons e es)
  with orq_invD[OF assms, of e a] show ?thesis by (simp add: weight_def left_of_def)
qed (simp add: weight_def)

lemma drain_empties:
  assumes "drainable s" and "total_weight (or_queue s) (or_agents s) \<le> k"
  shows "\<exists>m t. or_drain k dv n s = (Inr (n + m), t) \<and> m \<le> total_weight (or_queue s) (or_agents s) \<and>
     orq_inv (or_queue t) \<and> (\<forall>a\<in>set (or_agents s). mq_queues (or_queue t) a = [])"
  using assms
proof (induction k arbitrary: n s)
  case 0
  then have "\<forall>a\<in>set (or_agents s). weight (or_queue s) a = 0"
    by (simp add: total_weight_def)
  with 0 show ?case
    using weight_nonempty[of "or_queue s"] by (simp add: drainable_def)
next
  case (Suc k)
  have "distinct (or_agents s)" using Suc.prems(1) by (simp add: drainable_def)
  from round_progress[OF Suc.prems(1) this, of dv 0] obtain m t where
    t: "drain_round dv (or_agents s) 0 s = (Inr m, t)" "drainable t" "or_agents t = or_agents s"
      "m + total_weight (or_queue t) (or_agents s) \<le> total_weight (or_queue s) (or_agents s)"
      "m = 0 \<longrightarrow> t = s \<and> (\<forall>a\<in>set (or_agents s). mq_queues (or_queue s) a = [])" by auto
  show ?case
  proof (cases "m = 0")
    case True
    with t Suc.prems(1) show ?thesis by (simp add: drainable_def)
  next
    case False
    then have "total_weight (or_queue t) (or_agents t) \<le> k" using t(3,4) Suc.prems(2) by simp
    from Suc.IH[OF t(2) this, of "n + m"] obtain m' u where
      "or_drain k dv (n + m) t = (Inr (n + (m + m')), u)" "m' \<le> total_weight (or_queue t) (or_agents t)"
      "orq_inv (or_queue u)" "\<forall>a\<in>set (or_agents t). mq_queues (or_queue u) a = []"
      by (auto simp: add.assoc)
    with t False show ?thesis by (intro exI[of _ "m + m'"] exI[of _ u]) simp
  qed
qed

section \<open>The health score\<close>

definition score_of :: "bool \<Rightarrow> bool \<Rightarrow> bool \<Rightarrow> bool \<Rightarrow> rat" where
  "score_of b1 b2 b3 b4 =
     (let x1 = (if b1 then fl (1 - fl (3 / 10)) else 1);
          x2 = (if b2 then fl (x1 - fl (3 / 10)) else x1);
          x3 = (if b3 then fl (x2 - fl (4 / 10)) else x2)
      in max 0 (min 1 (if b4 then fl (x3 - fl (1 / 2)) else x3)))"

definition two_of :: "bool list \<Rightarrow> bool" where
  "two_of bs \<longleftrightarrow> 2 \<le> length (filter id bs)"

text \<open>The doubles that occur on the way.\<close>

lemma fl_table:
  "fl (3 / 10) = 5404319552844595 / 18014398509481984"
  "fl (2 / 5) = 3602879701896397 / 9007199254740992"
  "fl (1 / 2) = 1 / 2"
  "fl (5404319552844595 / 9007199254740992) = 5404319552844595 / 9007199254740992"
  "fl (900719925474099 / 9007199254740992) = 900719925474099 / 9007199254740992"
  "fl (12610078956637389 / 18014398509481984) = 3152519739159347 / 4503599627370496"
  "fl (900719925474099 / 4503599627370496) = 900719925474099 / 4503599627370496"
  "fl (2702159776422297 / 9007199254740992) = 2702159776422297 / 9007199254740992"
  "fl (- (1801439850948199 / 9007199254740992)) = - (1801439850948199 / 9007199254740992)"
  "fl (7205759403792793 / 18014398509481984) = 7205759403792793 / 18014398509481984"
  "fl (- (1801439850948199 / 18014398509481984)) = - (1801439850948199 / 18014398509481984)"
  "fl (- (1 / 18014398509481984)) = - (1 / 18014398509481984)"
  "fl (- (9007199254740993 / 18014398509481984)) = - (1 / 2)"
  by (simp_all add: fl_eval)

lemma score_cases:
  "0 \<le> score_of b1 b2 b3 b4 \<and> score_of b1 b2 b3 b4 \<le> 1 \<and>
   (score_of b1 b2 b3 b4 < UNHEALTHY_CUTOFF \<longleftrightarrow> two_of [b1, b2, b3, b4])"
  by (cases b1; cases b2; cases b3; cases b4)
     (simp_all add: score_of_def fl_table two_of_def UNHEALTHY_CUTOFF_def Let_def)

lemma fst_penalty: "fst (penalty b x msg sn) = (if b then fl (fst sn - fl x) else fst sn)"
  by (simp add: penalty_def)

section \<open>Examples\<close>

definition demo_member :: "string \<Rightarrow> role \<Rightarrow> string option \<Rightarrow> agent" where
  "demo_member i r m =
     \<lparr>ag_id = i, ag_role = r, ag_persona_ref = ''p'', ag_reports_to = m, ag_status = ACTIVE,
      ag_hired_at = 0, ag_first_name = ''Ann'', ag_last_name = ''Lee'', ag_role_title = None,
      ag_role_description = None, ag_fired_at = None, ag_fired_by = None, ag_fire_reason = None\<rparr>"

definition demo_chart :: org where
  "demo_chart = \<lparr>og_agents = [demo_member ''ceo'' CEO None, demo_member ''bob'' MEMBER (Some ''ceo'')],
     og_fire_pending = [], og_fire_requests = []\<rparr>"

definition demo_orch0 :: orch where
  "demo_orch0 =
     or_create ''acme'' demo_chart demo_store (ck_create 0 None None) None None None None
       (\<lambda>n. int n) (\<lambda>n. of_nat n) (\<lambda>n. ''0123456789ab'') (\<lambda>_. AS_IDLE)
       (\<lambda>_. \<lparr>hs_last_heartbeat = 0, hs_consecutive_errors = 0, hs_parse_failures = 0,
              hs_repeat_response_count = 0, hs_avg_turn_seconds = 0, hs_total_turns = 0\<rparr>)"

definition demo_orch :: orch where
  "demo_orch = or_register ''bob'' (or_register ''ceo'' demo_orch0)"

lemma demo_orch_reach: "reach or_init or_step demo_orch"
proof -
  have "reach or_init or_step demo_orch0"
    by (rule reach_init) (simp add: or_init_def demo_orch0_def or_create_def)
  then have "reach or_init or_step (or_register ''ceo'' demo_orch0)"
    by (rule reach_step) (rule ors_register)
  then show ?thesis unfolding demo_orch_def by (rule reach_step) (rule ors_register)
qed

definition demo_sent :: "send_result or_out" where
  "demo_sent = or_send (Some ''ceo'') ''bob'' ''hi'' (Some ''c1'') AGENT_MESSAGE False demo_orch"

definition demo_limited :: orch where
  "demo_limited = snd (or_try_consume ''ceo'' demo_orch)"

definition demo_checked :: orch where
  "demo_checked = snd (or_loop_gate (Some ''ceo'') ''bob'' ''hi'' demo_limited)"

lemma demo_gate: "or_gate (Some ''ceo'') ''bob'' ''hi'' demo_orch = Pass"
  by (simp add: demo_orch_def demo_orch0_def or_register_def or_create_def or_call_now_def or_gate_def
      MAX_CONTENT_BYTES_def utf8_len_def or_is_active_def org_get_def demo_chart_def demo_member_def
      ck_is_accepting_messages_def ck_create_def)

lemma demo_limit: "fst (or_try_consume ''ceo'' demo_orch)"
  by (simp add: demo_orch_def demo_orch0_def or_register_def or_create_def or_call_now_def
      or_try_consume_def rl_try_consume_def rl_take_def rl_bucket_def rl_create_def rl_default_def
      refilled_def Let_def)

lemma demo_loops: "or_loops demo_limited = ld_create None"
  by (simp add: demo_limited_def demo_orch_def demo_orch0_def or_register_def or_create_def
      or_call_now_def or_try_consume_def split: prod.split)

lemma demo_loop_gate: "fst (or_loop_gate (Some ''ceo'') ''bob'' ''hi'' demo_limited) = Inr False"
  unfolding or_loop_gate_def demo_loops
  by (simp add: ld_check_def record_edge_def record_content_def ld_create_def
      loop_default_def same_edge_loop_def ping_pong_def deque_append_def Let_def)

lemma demo_append_ok:
  "\<not> isl (fst (es_append (Inl MESSAGE_SENT)
     [(''from_agent'', JStr ''ceo''), (''to_agent'', JStr ''bob''), (''content'', JStr ''hi''),
      (''thread_id'', JStr ''c1'')] (Some ''ceo'') (Some ''c1'') demo_store))"
  by code_simp

lemma demo_checked_parts: "or_queue demo_checked = mq_create" "or_events demo_checked = demo_store"
  unfolding demo_checked_def or_loop_gate_def demo_loops
  by (simp_all add: ld_check_def record_edge_def record_content_def ld_create_def
      loop_default_def same_edge_loop_def ping_pong_def deque_append_def Let_def,
      simp_all add: demo_limited_def demo_orch_def demo_orch0_def or_register_def or_create_def
      or_call_now_def or_try_consume_def case_prod_beta)

lemma demo_enqueue: "fst (or_enqueue (Some ''ceo'') ''bob'' ''hi'' (Some ''c1'') AGENT_MESSAGE demo_checked) = Inr QUEUED"
proof -
  obtain r es where "es_append (Inl MESSAGE_SENT)
     [(''from_agent'', JStr ''ceo''), (''to_agent'', JStr ''bob''), (''content'', JStr ''hi''),
      (''thread_id'', JStr ''c1'')] (Some ''ceo'') (Some ''c1'') demo_store = (Inr r, es)"
    using demo_append_ok by (metis isl_def prod.collapse sum.collapse(2) sum.disc_eq_case(1))
  then show ?thesis
    by (simp add: or_enqueue_def demo_checked_parts mq_has_correlation_def mq_push_def or_call_now_def
        mq_create_def or_event_def str_or_def opt_json_def Let_def)
qed

lemma demo_sent_queued: "fst demo_sent = Inr QUEUED"
proof -
  have "or_try_consume ''ceo'' demo_orch = (True, demo_limited)"
    "or_loop_gate (Some ''ceo'') ''bob'' ''hi'' demo_limited = (Inr False, demo_checked)"
    using demo_limit demo_loop_gate by (simp_all add: prod_eq_iff demo_limited_def demo_checked_def)
  with demo_gate demo_enqueue show ?thesis
    unfolding demo_sent_def by (subst or_send.simps) (simp add: str_or_def)
qed

lemma demo_sent_reach: "reach or_init or_step (snd demo_sent)"
  unfolding demo_sent_def using demo_orch_reach by (rule reach_step) (rule ors_send)

section \<open>Properties\<close>



text \<open>
  A correlation id is accepted at most once per recipient: once a send with it was queued, no
  later send to the same agent with the same id is, whatever happened in between (delivery,
  failures, restarts of consumers, suspensions, the recipient leaving and coming back).
\<close>

theorem correlation_accepted_once:
  assumes "reach or_init or_step s"
    and "or_send f t c cr k sys s = (Inr QUEUED, u)" and "truthy cr" and "or_step\<^sup>*\<^sup>* u v"
  shows "fst (or_send f' t c' cr k' sys' v) \<noteq> Inr QUEUED"
proof
  have inv: "orq_inv (or_queue s)" using orchestrator.reach_inv[OF assms(1)] .
  have "or_seen_kept s u"
    using oq_seen_kept[OF or_send_oq inv, of f t c cr k sys] assms(2) by simp
  then have inv_u: "orq_inv (or_queue u)" by (simp add: or_seen_kept_def)
  have "the cr \<in> set (mq_seen (or_queue u) t)"
  proof (rule or_send_cases[of f t c cr k sys s])
    fix s1
    assume "or_send f t c cr k sys s = or_enqueue f t c cr k s1"
    with assms(2,3) show ?thesis
      by (rule_tac or_enqueue_cases[of f t c cr k s1]) (auto simp: mq_push_def)
  qed (use assms(2) in auto)
  moreover have "set (mq_seen (or_queue u) t) \<subseteq> set (mq_seen (or_queue v) t)"
    using or_steps_kept[OF assms(4) inv_u] by (simp add: or_seen_kept_def)
  ultimately have seen: "the cr \<in> set (mq_seen (or_queue v) t)" by blast
  assume bad: "fst (or_send f' t c' cr k' sys' v) = Inr QUEUED"
  show False
  proof (rule or_send_cases[of f' t c' cr k' sys' v])
    fix s1
    assume "or_queue s1 = or_queue v" "or_send f' t c' cr k' sys' v = or_enqueue f' t c' cr k' s1"
    with bad seen assms(3) show False
      by (rule_tac or_enqueue_cases[of f' t c' cr k' s1]) auto
  qed (use bad in auto)
qed

lemma correlation_accepted_once_witness:
  "fst (or_send (Some ''ceo'') ''bob'' ''again'' (Some ''c1'') AGENT_MESSAGE False (snd demo_sent)) \<noteq> Inr QUEUED"
proof (rule correlation_accepted_once[OF demo_orch_reach])
  show "or_send (Some ''ceo'') ''bob'' ''hi'' (Some ''c1'') AGENT_MESSAGE False demo_orch =
      (Inr QUEUED, snd demo_sent)"
    using demo_sent_queued by (simp add: demo_sent_def prod_eq_iff)
qed (simp_all add: truthy_def)

definition retried_or_dead :: "string \<Rightarrow> envelope \<Rightarrow> string \<Rightarrow> orch \<Rightarrow> orch \<Rightarrow> bool" where
  "retried_or_dead a e reason s t \<longleftrightarrow>
     (if en_attempts e < 2
      then or_dlq t = or_dlq s \<and>
        mq_queues (or_queue t) a = tl (mq_queues (or_queue s) a) @ [e\<lparr>en_attempts := en_attempts e + 1\<rparr>]
      else mq_queues (or_queue t) a = tl (mq_queues (or_queue s) a) \<and>
        map dl_envelope (or_dlq t) = map dl_envelope (or_dlq s) @ [e] \<and>
        dl_reason (last (or_dlq t)) = reason)"

lemma failed_dispatch:
  assumes "orq_inv (or_queue s)" and "mq_pop a (or_queue s) = (Some e, q)" and "mq_available (or_queue s)"
  shows "case or_dispatch (Some reason) a e (s\<lparr>or_queue := q\<rparr>) of (r, t) \<Rightarrow>
           r = Inr () \<and> retried_or_dead a e reason s t"
proof -
  have "en_to e = a" using pop_attempts[OF assms(1,2)] by blast
  moreover have "mq_queues q a = tl (mq_queues (or_queue s) a)" "mq_available q" "mq_dlq q = mq_dlq (or_queue s)"
    using assms(2,3) by (auto simp: mq_pop_def split: list.splits)
  ultimately show ?thesis
    by (auto simp: retried_or_dead_def or_dispatch_def or_call_now_def or_dlq_def mq_push_def mq_to_dlq_def)
qed

text \<open>
  Delivery is retried twice and then given up: in every reachable state a waiting envelope has
  failed at most twice and a dead letter three times; a failed delivery of what the queue handed
  out puts the envelope back at the end of its recipient's bucket with one attempt more, or, at the
  third failure, appends it with the reason to the dead letters.
\<close>

theorem delivery_retried_then_dead:
  assumes "reach or_init or_step s"
  shows "(\<forall>a. \<forall>e\<in>set (mq_queues (or_queue s) a). en_to e = a \<and> en_attempts e \<le> 2) \<and>
    (\<forall>d\<in>set (or_dlq s). en_attempts (dl_envelope d) = 2) \<and>
    (\<forall>a e q reason. mq_pop a (or_queue s) = (Some e, q) \<and> mq_available (or_queue s) \<longrightarrow>
       (case or_dispatch (Some reason) a e (s\<lparr>or_queue := q\<rparr>) of (r, t) \<Rightarrow>
          r = Inr () \<and> retried_or_dead a e reason s t))"
proof -
  have inv: "orq_inv (or_queue s)" using orchestrator.reach_inv[OF assms] .
  have "en_to e = a \<and> en_attempts e \<le> 2" if "e \<in> set (mq_queues (or_queue s) a)" for a e
    using orq_invD[OF inv that] by simp
  moreover from inv have "\<forall>d\<in>set (or_dlq s). en_attempts (dl_envelope d) = 2"
    by (simp add: orq_inv_def or_dlq_def)
  moreover have "\<forall>a e q reason. mq_pop a (or_queue s) = (Some e, q) \<and> mq_available (or_queue s) \<longrightarrow>
       (case or_dispatch (Some reason) a e (s\<lparr>or_queue := q\<rparr>) of (r, t) \<Rightarrow>
          r = Inr () \<and> retried_or_dead a e reason s t)"
    by (intro allI impI, elim conjE, rule failed_dispatch[OF inv])
  ultimately show ?thesis by (intro conjI allI ballI) simp_all
qed

lemma delivery_retried_then_dead_witness:
  "list_all (\<lambda>e. en_attempts e \<le> 2) (mq_queues (or_queue (snd demo_sent)) ''bob'')"
  using delivery_retried_then_dead[OF demo_sent_reach] by (simp add: list_all_iff)



text \<open>
  While the company is paused a consumer reorders its agent's mail: each iteration takes the
  first waiting envelope and puts it back behind the others, so two waiting messages change places.
\<close>

theorem pause_reorders_queue:
  assumes "mq_inv (or_queue s)" and "mq_queues (or_queue s) a = e1 # e2 # rest"
    and "\<not> ck_is_accepting_messages (or_clock s)" and "\<not> or_stop s" and "mq_available (or_queue s)"
  shows "mq_queues (or_queue (or_consume_step dv a s)) a = e2 # rest @ [e1]"
proof -
  have "en_to e1 = a" using assms(1,2) by (auto simp: mq_inv_def)
  with assms(2-) show ?thesis by (simp add: or_consume_step_def mq_pop_def mq_push_def Let_def)
qed

definition demo_paused :: orch where
  "demo_paused = demo_orch
     \<lparr>or_queue := snd (mq_push demo_env (snd (mq_push (demo_env\<lparr>en_content := ''first''\<rparr>) mq_create))),
      or_clock := (or_clock demo_orch)\<lparr>ck_state := PAUSED\<rparr>\<rparr>"

lemma pause_reorders_queue_witness:
  "map en_content (mq_queues (or_queue demo_paused) ''bob'') = [''first'', ''hi''] \<and>
   map en_content (mq_queues (or_queue (or_consume_step (\<lambda>_. None) ''bob'' demo_paused)) ''bob'') = [''hi'', ''first'']"
proof -
  have inv: "mq_inv (or_queue demo_paused)"
    by (simp add: demo_paused_def mq_push_inv mq_create_inv)
  have q: "mq_queues (or_queue demo_paused) ''bob'' = [demo_env\<lparr>en_content := ''first''\<rparr>, demo_env]"
    "mq_available (or_queue demo_paused)"
    by (simp_all add: demo_paused_def mq_push_def mq_create_def demo_env_def envelope_new_def)
  have "\<not> ck_is_accepting_messages (or_clock demo_paused)" "\<not> or_stop demo_paused"
    by (simp_all add: demo_paused_def ck_is_accepting_messages_def demo_orch_def demo_orch0_def
        or_register_def or_create_def or_call_now_def)
  from pause_reorders_queue[OF inv q(1) this q(2)] show ?thesis
    by (simp add: q demo_env_def envelope_new_def)
qed

text \<open>
  C30. The health score lies between 0 and 1, and an agent counts as unhealthy exactly when at least
  two of the four penalties apply: more than three consecutive errors, more than half of the turns
  unparsable, more than 0.7 of them repetitions, no heartbeat for five minutes. (In exact arithmetic
  errors and parse failures together would sit on the cutoff; in doubles they fall below it.)
\<close>

theorem unhealthy_iff_two_penalties:
  shows "0 \<le> fst (compute_score h now) \<and> fst (compute_score h now) \<le> 1 \<and>
    (fst (compute_score h now) < UNHEALTHY_CUTOFF \<longleftrightarrow>
       two_of [3 < hs_consecutive_errors h,
               0 < hs_parse_failures h \<and> 0 < hs_total_turns h \<and>
                 1 / 2 < fl (of_int (hs_parse_failures h) / of_int (hs_total_turns h)),
               0 < hs_total_turns h \<and>
                 fl (7 / 10) < fl (of_int (hs_repeat_response_count h) / of_int (hs_total_turns h)),
               300000000 < now - hs_last_heartbeat h])"
proof -
  have "fst (compute_score h now) =
      score_of (3 < hs_consecutive_errors h)
        (0 < hs_parse_failures h \<and> 0 < hs_total_turns h \<and>
           1 / 2 < fl (of_int (hs_parse_failures h) / of_int (hs_total_turns h)))
        (0 < hs_total_turns h \<and>
           fl (7 / 10) < fl (of_int (hs_repeat_response_count h) / of_int (hs_total_turns h)))
        (300000000 < now - hs_last_heartbeat h)"
    by (simp only: compute_score_def score_of_def Let_def fst_penalty fst_conv)
  then show ?thesis using score_cases by simp
qed

end
