(* ===== verification/File_System.thy ===== *)
theory File_System
  imports Prelude
begin

text \<open>
  The file system the workspaces live in, and the operations of \<^verbatim>\<open>os\<close> and \<^verbatim>\<open>pathlib\<close> that
  \<^verbatim>\<open>modules/storage/workspace.py\<close> calls: a table of absolute paths (component lists; the root is the
  empty list) with directories, files and symbolic links. \<open>kwalk\<close> is the kernel's path walk (at most
  40 links, every component of the way must exist), \<open>real_walk\<close> is \<^verbatim>\<open>os.path.realpath\<close> of the
  CPython 3.11 the Dockerfile runs, with its table of links seen and its non-strict treatment of loops.
  Permissions, hard links, races with other processes and NUL characters are outside the model.
\<close>

section \<open>Paths and nodes\<close>

type_synonym path = "string list"

datatype node = NDir | NFile string | NLink string

type_synonym fs = "(path \<times> node) list"

definition slash :: char where "slash = char_of (47 :: nat)"

fun split_slash_from :: "string \<Rightarrow> string \<Rightarrow> string list" where
  "split_slash_from w [] = [w]"
| "split_slash_from w (c # cs) =
     (if c = slash then w # split_slash_from [] cs else split_slash_from (w @ [c]) cs)"

definition split_slash :: "string \<Rightarrow> string list" where
  "split_slash s = split_slash_from [] s"

definition is_abs :: "string \<Rightarrow> bool" where
  "is_abs s \<longleftrightarrow> take 1 s = [slash]"

text \<open>\<^verbatim>\<open>Path(s).parts\<close> without the root: empty components and "." are dropped, ".." is kept.\<close>

definition path_parts :: "string \<Rightarrow> path" where
  "path_parts s = filter (\<lambda>c. c \<noteq> [] \<and> c \<noteq> ''.'') (split_slash s)"

text \<open>\<^verbatim>\<open>base / s\<close>.\<close>

definition path_join :: "path \<Rightarrow> string \<Rightarrow> path" where
  "path_join base s = (if is_abs s then path_parts s else base @ path_parts s)"

definition fs_at :: "fs \<Rightarrow> path \<Rightarrow> node option" where
  "fs_at fs p = (if p = [] then Some NDir else map_of fs p)"

definition fs_put :: "path \<Rightarrow> node \<Rightarrow> fs \<Rightarrow> fs" where
  "fs_put p n fs = (p, n) # filter (\<lambda>e. fst e \<noteq> p) fs"

definition fs_del :: "path \<Rightarrow> fs \<Rightarrow> fs" where
  "fs_del p fs = filter (\<lambda>e. fst e \<noteq> p) fs"

definition inside :: "path \<Rightarrow> path \<Rightarrow> bool" where
  "inside base p \<longleftrightarrow> take (length base) p = base"

section \<open>The kernel's walk\<close>

text \<open>\<open>create\<close>: a missing last component is where a file would be created.\<close>

function kwalk :: "bool \<Rightarrow> fs \<Rightarrow> nat \<Rightarrow> path \<Rightarrow> string list \<Rightarrow> path option" where
  "kwalk create fs n cur [] = Some cur"
| "kwalk create fs n cur (c # w) =
     (if fs_at fs cur \<noteq> Some NDir then None
      else if c = [] \<or> c = ''.'' then kwalk create fs n cur w
      else if c = ''..'' then kwalk create fs n (butlast cur) w
      else
        (case fs_at fs (cur @ [c]) of
           None \<Rightarrow> (if create \<and> w = [] then Some (cur @ [c]) else None)
         | Some (NLink tgt) \<Rightarrow>
             (case n of 0 \<Rightarrow> None
              | Suc k \<Rightarrow> kwalk create fs k (if is_abs tgt then [] else cur) (split_slash tgt @ w))
         | Some _ \<Rightarrow> kwalk create fs n (cur @ [c]) w))"
  by pat_completeness auto
termination
  by (relation "measures [\<lambda>(cr, fs, n, cur, w). n, \<lambda>(cr, fs, n, cur, w). length w]") auto

definition max_links :: nat where "max_links = 40"

definition fs_stat :: "fs \<Rightarrow> path \<Rightarrow> (path \<times> node) option" where
  "fs_stat fs p =
     (case kwalk False fs max_links [] p of
        None \<Rightarrow> None
      | Some q \<Rightarrow> (case fs_at fs q of None \<Rightarrow> None | Some n \<Rightarrow> Some (q, n)))"

definition fs_exists :: "fs \<Rightarrow> path \<Rightarrow> bool" where
  "fs_exists fs p = (fs_stat fs p \<noteq> None)"

definition fs_is_dir :: "fs \<Rightarrow> path \<Rightarrow> bool" where
  "fs_is_dir fs p = (case fs_stat fs p of Some (q, NDir) \<Rightarrow> True | _ \<Rightarrow> False)"

definition fs_file :: "fs \<Rightarrow> path \<Rightarrow> string option" where
  "fs_file fs p = (case fs_stat fs p of Some (q, NFile d) \<Rightarrow> Some d | _ \<Rightarrow> None)"

text \<open>The directory entry a path names: the last component is not followed.\<close>

definition fs_entry :: "fs \<Rightarrow> path \<Rightarrow> path option" where
  "fs_entry fs p =
     (if p = [] then Some []
      else if last p \<in> {[], ''.'', ''..''} then kwalk False fs max_links [] p
      else
        (case kwalk False fs max_links [] (butlast p) of
           None \<Rightarrow> None
         | Some d \<Rightarrow> if fs_at fs d = Some NDir then Some (d @ [last p]) else None))"

definition fs_lstat :: "fs \<Rightarrow> path \<Rightarrow> node option" where
  "fs_lstat fs p = (case fs_entry fs p of None \<Rightarrow> None | Some q \<Rightarrow> fs_at fs q)"

definition fs_is_symlink :: "fs \<Rightarrow> path \<Rightarrow> bool" where
  "fs_is_symlink fs p = (case fs_lstat fs p of Some (NLink _) \<Rightarrow> True | _ \<Rightarrow> False)"

section \<open>Changes\<close>

definition mkdir_one :: "path \<Rightarrow> exn + fs \<Rightarrow> exn + fs" where
  "mkdir_one p r =
     (case r of Inl e \<Rightarrow> Inl e | Inr fs \<Rightarrow>
       if fs_is_dir fs p then Inr fs
       else if fs_lstat fs p \<noteq> None then Inl (PyOSError ''mkdir'')
       else (case fs_entry fs p of None \<Rightarrow> Inl (PyOSError ''mkdir'') | Some q \<Rightarrow> Inr (fs_put q NDir fs)))"

definition prefixes_of :: "path \<Rightarrow> path list" where
  "prefixes_of p = map (\<lambda>n. take n p) [0..<Suc (length p)]"

text \<open>\<^verbatim>\<open>mkdir(parents=True, exist_ok=True)\<close>.\<close>

definition fs_mkdirs :: "path \<Rightarrow> fs \<Rightarrow> exn + fs" where
  "fs_mkdirs p fs = fold mkdir_one (prefixes_of p) (Inr fs)"

text \<open>\<^verbatim>\<open>write_bytes\<close>: follows links, creates or truncates.\<close>

definition fs_write :: "path \<Rightarrow> string \<Rightarrow> fs \<Rightarrow> exn + fs" where
  "fs_write p d fs =
     (case kwalk True fs max_links [] p of
        None \<Rightarrow> Inl (PyOSError ''open'')
      | Some q \<Rightarrow>
          if fs_at fs q = Some NDir then Inl (IsADirectoryError ''open'')
          else Inr (fs_put q (NFile d) fs))"

text \<open>\<^verbatim>\<open>os.replace\<close> of a file.\<close>

definition fs_replace :: "path \<Rightarrow> path \<Rightarrow> fs \<Rightarrow> exn + fs" where
  "fs_replace src dst fs =
     (case (fs_entry fs src, fs_entry fs dst) of
        (Some s, Some d) \<Rightarrow>
          (case fs_at fs s of
             None \<Rightarrow> Inl (PyOSError ''rename'')
           | Some n \<Rightarrow>
               if fs_at fs d = Some NDir then Inl (IsADirectoryError ''rename'')
               else if s = d then Inr fs
               else Inr (fs_put d n (fs_del s fs)))
      | _ \<Rightarrow> Inl (PyOSError ''rename''))"

definition fs_unlink :: "path \<Rightarrow> fs \<Rightarrow> exn + fs" where
  "fs_unlink p fs =
     (case fs_entry fs p of
        None \<Rightarrow> Inl (PyOSError ''unlink'')
      | Some q \<Rightarrow>
          (case fs_at fs q of
             None \<Rightarrow> Inl (FileNotFoundError ''unlink'')
           | Some NDir \<Rightarrow> Inl (IsADirectoryError ''unlink'')
           | Some _ \<Rightarrow> Inr (fs_del q fs)))"

text \<open>\<^verbatim>\<open>shutil.rmtree\<close>: the contents, then the directory; a path that ends in ".." cannot be removed
  itself.\<close>

definition fs_rmtree :: "path \<Rightarrow> fs \<Rightarrow> exn option \<times> fs" where
  "fs_rmtree p fs =
     (case fs_entry fs p of
        None \<Rightarrow> (Some (PyOSError ''rmtree''), fs)
      | Some q \<Rightarrow>
          if fs_at fs q \<noteq> Some NDir then (Some (PyOSError ''rmtree''), fs)
          else if p = [] \<or> last p = ''..''
          then (Some (PyOSError ''rmtree''), filter (\<lambda>e. fst e = q \<or> \<not> inside q (fst e)) fs)
          else (None, filter (\<lambda>e. \<not> inside q (fst e)) fs))"

section \<open>\<^verbatim>\<open>os.path.realpath\<close>\<close>

text \<open>\<open>Mark p\<close>: the end of the target of the link \<open>p\<close>, where its resolution is entered in the table.
  A link met again while it is being resolved ends the walk: the rest is appended as it is, and the
  flag is False.\<close>

datatype work = Comp string | Mark path

fun rest_comps :: "work list \<Rightarrow> string list" where
  "rest_comps [] = []"
| "rest_comps (Comp c # w) = c # rest_comps w"
| "rest_comps (Mark p # w) = rest_comps w"

text \<open>\<^verbatim>\<open>abspath\<close> of an absolute path: lexical.\<close>

definition norm_step :: "string \<Rightarrow> path \<Rightarrow> path" where
  "norm_step c p = (if c = [] \<or> c = ''.'' then p else if c = ''..'' then butlast p else p @ [c])"

definition normpath :: "path \<Rightarrow> path" where
  "normpath p = fold norm_step p []"

definition links_of :: "fs \<Rightarrow> path set" where
  "links_of fs = {p. \<exists>t. fs_at fs p = Some (NLink t)}"

lemma finite_links: "finite (links_of fs)"
proof (rule finite_subset)
  show "links_of fs \<subseteq> fst ` set fs"
    by (auto simp: links_of_def fs_at_def split: if_splits dest: map_of_SomeD intro: rev_image_eqI)
qed simp

function real_walk :: "fs \<Rightarrow> (path \<rightharpoonup> path option) \<Rightarrow> path \<Rightarrow> work list \<Rightarrow> path \<times> bool" where
  "real_walk fs seen cur [] = (cur, True)"
| "real_walk fs seen cur (Mark p # w) = real_walk fs (seen(p \<mapsto> Some cur)) cur w"
| "real_walk fs seen cur (Comp c # w) =
     (if c = [] \<or> c = ''.'' then real_walk fs seen cur w
      else if c = ''..'' then real_walk fs seen (butlast cur) w
      else
        (case fs_at fs (cur @ [c]) of
           Some (NLink tgt) \<Rightarrow>
             (case seen (cur @ [c]) of
                Some (Some q) \<Rightarrow> real_walk fs seen q w
              | Some None \<Rightarrow> (normpath (cur @ [c] @ rest_comps w), False)
              | None \<Rightarrow>
                  real_walk fs (seen(cur @ [c] \<mapsto> None)) (if is_abs tgt then [] else cur)
                    (map Comp (split_slash tgt) @ Mark (cur @ [c]) # w))
         | _ \<Rightarrow> real_walk fs seen (cur @ [c]) w))"
  by pat_completeness auto
termination
proof (relation "measures [\<lambda>(fs, seen, cur, w). card (links_of fs - dom seen), \<lambda>(fs, seen, cur, w). length w]")
  fix fs and seen :: "path \<rightharpoonup> path option" and cur p w
  have "card (links_of fs - dom (seen(p \<mapsto> Some cur))) \<le> card (links_of fs - dom seen)"
    by (intro card_mono) (auto simp: finite_links)
  then show "((fs, seen(p \<mapsto> Some cur), cur, w), fs, seen, cur, Mark p # w) \<in>
      measures [\<lambda>(fs, seen, cur, w). card (links_of fs - dom seen), \<lambda>(fs, seen, cur, w). length w]"
    by auto
next
  fix fs and seen :: "path \<rightharpoonup> path option" and cur c w x tgt
  assume link: "fs_at fs (cur @ [c]) = Some x" "x = NLink tgt" and new: "seen (cur @ [c]) = None"
  have "cur @ [c] \<in> links_of fs - dom seen" using link new by (auto simp: links_of_def)
  then have "links_of fs - dom (seen(cur @ [c] \<mapsto> None)) \<subset> links_of fs - dom seen" by auto
  then have "card (links_of fs - dom (seen(cur @ [c] \<mapsto> None))) < card (links_of fs - dom seen)"
    by (intro psubset_card_mono) (simp_all add: finite_links)
  then show "((fs, seen(cur @ [c] \<mapsto> None), if is_abs tgt then [] else cur,
       map Comp (split_slash tgt) @ Mark (cur @ [c]) # w), fs, seen, cur, Comp c # w) \<in>
      measures [\<lambda>(fs, seen, cur, w). card (links_of fs - dom seen), \<lambda>(fs, seen, cur, w). length w]"
    by simp
qed auto

definition realpath :: "fs \<Rightarrow> path \<Rightarrow> path \<times> bool" where
  "realpath fs p = real_walk fs (\<lambda>_. None) [] (map Comp p)"

lemma inside_iff: "inside b p \<longleftrightarrow> (\<exists>r. p = b @ r)"
  by (auto simp: inside_def) (metis append_take_drop_id)

lemma inside_butlast: "inside p (butlast q) \<Longrightarrow> inside p q"
  unfolding inside_iff by (cases q rule: rev_cases) auto

section \<open>What realpath establishes\<close>

definition linkfree :: "fs \<Rightarrow> path \<Rightarrow> bool" where
  "linkfree fs p \<longleftrightarrow> (\<forall>k t. fs_at fs (take k p) \<noteq> Some (NLink t))"

definition plain :: "path \<Rightarrow> bool" where
  "plain p \<longleftrightarrow> (\<forall>c\<in>set p. c \<noteq> [] \<and> c \<noteq> ''.'' \<and> c \<noteq> ''..'')"

lemma plain_simps [simp]:
  "plain []" "plain (c # w) \<longleftrightarrow> c \<noteq> [] \<and> c \<noteq> ''.'' \<and> c \<noteq> ''..'' \<and> plain w"
  "plain (p @ q) \<longleftrightarrow> plain p \<and> plain q"
  by (auto simp: plain_def)

lemma plain_butlast: "plain p \<Longrightarrow> plain (butlast p)"
  by (auto simp: plain_def dest: in_set_butlastD)

lemma linkfree_Nil [simp]: "linkfree fs []"
  by (simp add: linkfree_def fs_at_def)

lemma linkfree_take: "linkfree fs p \<Longrightarrow> linkfree fs (take k p)"
  by (simp add: linkfree_def)

lemma linkfree_butlast: "linkfree fs p \<Longrightarrow> linkfree fs (butlast p)"
  by (simp add: butlast_conv_take linkfree_take)

lemma linkfree_at: "linkfree fs p \<Longrightarrow> fs_at fs p \<noteq> Some (NLink t)"
  unfolding linkfree_def by (metis order_refl take_all)

lemma linkfree_snoc:
  "linkfree fs (p @ [c]) \<longleftrightarrow> linkfree fs p \<and> (\<forall>t. fs_at fs (p @ [c]) \<noteq> Some (NLink t))"
proof
  assume l: "linkfree fs (p @ [c])"
  from linkfree_take[OF l, of "length p"] linkfree_at[OF l]
  show "linkfree fs p \<and> (\<forall>t. fs_at fs (p @ [c]) \<noteq> Some (NLink t))" by simp
next
  assume l: "linkfree fs p \<and> (\<forall>t. fs_at fs (p @ [c]) \<noteq> Some (NLink t))"
  show "linkfree fs (p @ [c])"
    unfolding linkfree_def
  proof (intro allI)
    fix k t
    show "fs_at fs (take k (p @ [c])) \<noteq> Some (NLink t)"
      using l by (cases "k \<le> length p") (auto simp: linkfree_def)
  qed
qed

definition resolved_ok :: "fs \<Rightarrow> path \<Rightarrow> bool" where
  "resolved_ok fs p \<longleftrightarrow> linkfree fs p \<and> plain p"

lemma real_walk_resolved:
  assumes "real_walk fs seen cur w = (r, True)" and "resolved_ok fs cur"
    and "\<And>l q. seen l = Some (Some q) \<Longrightarrow> resolved_ok fs q"
  shows "resolved_ok fs r"
  using assms
proof (induction fs seen cur w rule: real_walk.induct)
  case (1 fs seen cur)
  then show ?case by simp
next
  case (2 fs seen cur m w)
  show ?case
  proof (rule "2.IH")
    show "real_walk fs (seen(m \<mapsto> Some cur)) cur w = (r, True)" using "2.prems"(1) by simp
    show "resolved_ok fs cur" by (rule "2.prems")
    show "resolved_ok fs q" if "(seen(m \<mapsto> Some cur)) l = Some (Some q)" for l q
      using "2.prems"(2,3) that by (auto split: if_splits)
  qed
next
  case (3 fs seen cur c w)
  show ?case
  proof (cases "c = [] \<or> c = ''.''")
    case True
    with 3 show ?thesis by simp
  next
    case False
    note plain_c = False
    show ?thesis
    proof (cases "c = ''..''")
      case True
      have "resolved_ok fs (butlast cur)"
        using 3 by (simp add: resolved_ok_def linkfree_butlast plain_butlast)
      with 3 True False show ?thesis by simp
    next
      case False
      show ?thesis
      proof (cases "\<exists>t. fs_at fs (cur @ [c]) = Some (NLink t)")
        case True
        then obtain t where t: "fs_at fs (cur @ [c]) = Some (NLink t)" by blast
        show ?thesis
        proof (cases "seen (cur @ [c])")
          case None
          have "resolved_ok fs (if is_abs t then [] else cur)"
            using 3 by (simp add: resolved_ok_def)
          moreover have "resolved_ok fs q" if "(seen(cur @ [c] \<mapsto> None)) l = Some (Some q)" for l q
            using 3 that by (auto split: if_splits)
          ultimately show ?thesis
            using "3.IH"(5)[of "NLink t" t] 3 None t plain_c False
            by (simp del: fun_upd_apply split: if_splits)
        next
          case (Some o_q)
          with 3 t plain_c False show ?thesis by (cases o_q) auto
        qed
      next
        case nolink: False
        then have ok: "resolved_ok fs (cur @ [c])"
          using 3 plain_c False by (auto simp: resolved_ok_def linkfree_snoc)
        have go: "real_walk fs seen (cur @ [c]) w = (r, True)"
          using 3 plain_c False nolink by (auto split: option.splits node.splits)
        show ?thesis
        proof (cases "fs_at fs (cur @ [c])")
          case None
          with 3 go ok plain_c False show ?thesis by simp
        next
          case (Some n)
          with 3 go ok plain_c False nolink show ?thesis by (cases n) auto
        qed
      qed
    qed
  qed
qed

lemma realpath_resolved: "realpath fs p = (q, True) \<Longrightarrow> resolved_ok fs q"
  unfolding realpath_def by (erule real_walk_resolved) (simp_all add: resolved_ok_def)

lemma kwalk_linkfree:
  "kwalk cr fs n cur w = Some q \<Longrightarrow> linkfree fs (cur @ w) \<Longrightarrow> plain w \<Longrightarrow> q = cur @ w"
proof (induction cr fs n cur w rule: kwalk.induct)
  case (2 cr fs n cur c w)
  have "linkfree fs (cur @ [c])"
    using linkfree_take[of fs "cur @ c # w" "Suc (length cur)"] 2(6,7) by simp
  then have "fs_at fs (cur @ [c]) \<noteq> Some (NLink t)" for t by (rule linkfree_at)
  with 2 show ?case
    by (auto split: if_splits option.splits node.splits)
qed simp

lemma stat_resolved:
  assumes "resolved_ok fs p" and "fs_stat fs p = Some (q, n)"
  shows "q = p" and "fs_at fs p = Some n"
proof -
  obtain q' where q': "kwalk False fs max_links [] p = Some q'" "fs_at fs q' = Some n" "q' = q"
    using assms(2) by (auto simp: fs_stat_def split: option.splits)
  with kwalk_linkfree[OF q'(1)] assms(1) show "q = p" "fs_at fs p = Some n"
    by (auto simp: resolved_ok_def)
qed

section \<open>Trees without links\<close>

text \<open>Every entry has a plain path and a directory above it; no symbolic links.\<close>

definition tree_ok :: "fs \<Rightarrow> bool" where
  "tree_ok fs \<longleftrightarrow>
     distinct (map fst fs) \<and>
     (\<forall>(p, n)\<in>set fs. p \<noteq> [] \<and> plain p \<and> fs_at fs (butlast p) = Some NDir \<and> (\<forall>t. n \<noteq> NLink t))"

lemma tree_entry: "tree_ok fs \<Longrightarrow> (p, n) \<in> set fs \<Longrightarrow> p \<noteq> [] \<and> fs_at fs p = Some n"
  by (auto simp: tree_ok_def fs_at_def)

lemma at_entry: "fs_at fs p = Some n \<Longrightarrow> p \<noteq> [] \<Longrightarrow> (p, n) \<in> set fs"
  by (auto simp: fs_at_def dest: map_of_SomeD)

lemma tree_parent: "tree_ok fs \<Longrightarrow> fs_at fs p \<noteq> None \<Longrightarrow> p \<noteq> [] \<Longrightarrow> fs_at fs (butlast p) = Some NDir"
  by (auto simp: tree_ok_def dest!: at_entry)

lemma tree_above:
  assumes "tree_ok fs" and "fs_at fs (p @ q) \<noteq> None" and "q \<noteq> []"
  shows "fs_at fs p = Some NDir"
  using assms(2,3)
proof (induction q rule: rev_induct)
  case (snoc c q)
  then have "fs_at fs (p @ q) = Some NDir"
    using tree_parent[OF assms(1), of "p @ q @ [c]"] by (simp add: butlast_append)
  with snoc show ?case by (cases "q = []") auto
qed simp

lemma tree_linkless: "tree_ok fs \<Longrightarrow> fs_at fs p \<noteq> Some (NLink t)"
  by (cases "p = []") (auto simp: tree_ok_def fs_at_def dest!: map_of_SomeD)

lemma tree_linkfree [simp]: "tree_ok fs \<Longrightarrow> linkfree fs p"
  by (simp add: linkfree_def tree_linkless)

lemma tree_realpath:
  assumes "tree_ok fs" shows "snd (realpath fs p)"
proof -
  have "snd (real_walk fs seen cur (map Comp w))" for seen cur w
  proof (induction w arbitrary: cur)
    case (Cons c w)
    then show ?case
      using tree_linkless[OF assms, of "cur @ [c]"] by (auto split: option.split node.split)
  qed simp
  then show ?thesis by (simp add: realpath_def)
qed

lemma realpath_plain:
  assumes "tree_ok fs" shows "plain (fst (realpath fs p))"
proof -
  have "realpath fs p = (fst (realpath fs p), True)" using tree_realpath[OF assms, of p]
    by (metis prod.collapse)
  from realpath_resolved[OF this] show ?thesis by (simp add: resolved_ok_def)
qed

lemma realpath_id:
  assumes "tree_ok fs" and "plain p" shows "realpath fs p = (p, True)"
proof -
  have "real_walk fs seen cur (map Comp w) = (cur @ w, True)" if "plain w" for seen cur w
    using that
  proof (induction w arbitrary: cur)
    case (Cons c w)
    then show ?case
      using tree_linkless[OF assms(1), of "cur @ [c]"] by (auto split: option.split node.split)
  qed simp
  with assms(2) show ?thesis by (simp add: realpath_def)
qed

lemma walk_tree:
  assumes "tree_ok fs" and "plain w" and "fs_at fs (cur @ w) \<noteq> None \<or> cr \<and> w \<noteq> [] \<and> fs_at fs (butlast (cur @ w)) = Some NDir"
  shows "kwalk cr fs n cur w = Some (cur @ w)"
  using assms(2,3)
proof (induction w arbitrary: cur)
  case (Cons c w)
  have dir: "fs_at fs cur = Some NDir"
    using Cons.prems tree_above[OF assms(1), of cur "c # w"] tree_above[OF assms(1), of cur "butlast (c # w)"]
    by (cases "w = []") (auto simp: butlast_append split: if_splits)
  show ?case
  proof (cases "w = []")
    case True
    with Cons.prems dir tree_linkless[OF assms(1), of "cur @ [c]"] show ?thesis
      by (auto split: option.split node.split)
  next
    case False
    have "fs_at fs (cur @ [c]) = Some NDir"
      using Cons.prems False tree_above[OF assms(1), of "cur @ [c]" w]
        tree_above[OF assms(1), of "cur @ [c]" "butlast w"]
      by (cases "butlast w = []") (auto simp: butlast_append split: if_splits)
    moreover have "kwalk cr fs n (cur @ [c]) w = Some ((cur @ [c]) @ w)"
      by (rule Cons.IH) (use Cons.prems False in auto)
    ultimately show ?thesis using Cons.prems dir by simp
  qed
qed simp

lemma walk_absent:
  assumes "tree_ok fs" and "plain w" and "kwalk cr fs n cur w = Some q"
  shows "q = cur @ w" and "cr \<or> w = [] \<or> fs_at fs q \<noteq> None"
proof -
  show q: "q = cur @ w" by (rule kwalk_linkfree[OF assms(3)]) (use assms in simp_all)
  have "kwalk cr fs n cur w = Some r \<Longrightarrow> \<not> cr \<Longrightarrow> w \<noteq> [] \<Longrightarrow> fs_at fs r \<noteq> None" for r
    using assms(2)
  proof (induction w arbitrary: cur)
    case (Cons c w)
    then show ?case
      using tree_linkless[OF assms(1), of "cur @ [c]"]
      by (cases "w = []") (auto split: if_splits option.splits node.splits)
  qed simp
  with assms(3) show "cr \<or> w = [] \<or> fs_at fs q \<noteq> None" by blast
qed

lemma stat_tree: "tree_ok fs \<Longrightarrow> plain p \<Longrightarrow> fs_stat fs p = map_option (\<lambda>n. (p, n)) (fs_at fs p)"
  using walk_tree[of fs p "[]" False max_links] walk_absent[of fs p False max_links "[]"]
  by (cases "fs_at fs p"; cases "p = []") (force simp: fs_stat_def fs_at_def split: option.split)+

lemma entry_tree:
  assumes "tree_ok fs" and "plain p" and "p \<noteq> []"
  shows "fs_entry fs p = (if fs_at fs (butlast p) = Some NDir then Some p else None)"
proof -
  have "last p \<notin> {[], ''.'', ''..''}" using assms(2,3) last_in_set[of p] by (auto simp: plain_def)
  moreover have "(case kwalk False fs max_links [] (butlast p) of
       None \<Rightarrow> None | Some d \<Rightarrow> if fs_at fs d = Some NDir then Some (d @ [last p]) else None) =
     (if fs_at fs (butlast p) = Some NDir then Some p else None)"
    using walk_tree[OF assms(1) plain_butlast[OF assms(2)], of "[]" False max_links]
      walk_absent(1)[OF assms(1) plain_butlast[OF assms(2)], of False max_links "[]"] assms(3)
    by (cases "kwalk False fs max_links [] (butlast p)") auto
  ultimately show ?thesis using assms(3) by (simp add: fs_entry_def)
qed

lemma map_of_filter_key: "map_of (filter (\<lambda>e. P (fst e)) fs) q = (if P q then map_of fs q else None)"
  by (induction fs) auto

lemma fs_at_put [simp]: "fs_at (fs_put p n fs) q = (if q = [] then Some NDir else if q = p then Some n else fs_at fs q)"
  using map_of_filter_key[of "\<lambda>k. k \<noteq> p" fs q] by (simp add: fs_at_def fs_put_def)

lemma fs_at_del [simp]: "fs_at (fs_del p fs) q = (if q = [] then Some NDir else if q = p then None else fs_at fs q)"
  using map_of_filter_key[of "\<lambda>k. k \<noteq> p" fs q] by (simp add: fs_at_def fs_del_def)

lemma fs_at_Nil [simp]: "fs_at fs [] = Some NDir"
  by (simp add: fs_at_def)

lemma keys_filter: "distinct (map fst fs) \<Longrightarrow> distinct (map fst (filter P fs))"
  by (induction fs) auto

lemma put_tree:
  assumes "tree_ok fs" and "p \<noteq> []" and "plain p" and "fs_at fs (butlast p) = Some NDir"
    and "\<And>t. n \<noteq> NLink t" and "fs_at fs p = Some NDir \<Longrightarrow> n = NDir"
  shows "tree_ok (fs_put p n fs)"
proof -
  have keep: "fs_at (fs_put p n fs) (butlast q) = Some NDir" if "(q, m) \<in> set fs" for q m
  proof -
    have "fs_at fs (butlast q) = Some NDir" using assms(1) that by (auto simp: tree_ok_def)
    then show ?thesis using assms(6) by auto
  qed
  have "butlast p \<noteq> p" using assms(2) by (metis append_butlast_last_id append_self_conv list.distinct(1))
  then have "fs_at (fs_put p n fs) (butlast p) = Some NDir" using assms(4) by simp
  moreover have "distinct (map fst (fs_put p n fs))"
    using assms(1) by (auto simp: fs_put_def tree_ok_def intro: keys_filter)
  moreover have "set (fs_put p n fs) = insert (p, n) {e \<in> set fs. fst e \<noteq> p}"
    by (auto simp: fs_put_def)
  ultimately show ?thesis
    using assms(1-3,5) keep unfolding tree_ok_def by fastforce
qed

lemma del_tree:
  assumes "tree_ok fs" and "fs_at fs p \<noteq> Some NDir" shows "tree_ok (fs_del p fs)"
proof -
  have "fs_at (fs_del p fs) (butlast q) = Some NDir" if "(q, m) \<in> set fs" for q m
  proof -
    have "fs_at fs (butlast q) = Some NDir" using assms(1) that by (auto simp: tree_ok_def)
    then show ?thesis using assms(2) by auto
  qed
  moreover have "distinct (map fst (fs_del p fs))" and "set (fs_del p fs) \<subseteq> set fs"
    using assms(1) by (auto simp: fs_del_def tree_ok_def intro: keys_filter)
  ultimately show ?thesis using assms(1) unfolding tree_ok_def by blast
qed

subsection \<open>Sizes\<close>

definition node_bytes :: "node \<Rightarrow> int" where
  "node_bytes n = (case n of NFile d \<Rightarrow> int (length d) | _ \<Rightarrow> 0)"

definition at_bytes :: "node option \<Rightarrow> int" where
  "at_bytes o_n = (case o_n of None \<Rightarrow> 0 | Some n \<Rightarrow> node_bytes n)"

lemma at_bytes_simps [simp]: "at_bytes None = 0" "at_bytes (Some n) = node_bytes n"
  by (simp_all add: at_bytes_def)

lemma node_bytes_simps [simp]: "node_bytes NDir = 0" "node_bytes (NFile d) = int (length d)" "0 \<le> node_bytes n"
  by (simp_all add: node_bytes_def split: node.split)

definition below :: "path \<Rightarrow> path \<Rightarrow> bool" where
  "below d p \<longleftrightarrow> inside d p \<and> p \<noteq> d"

definition tree_size :: "fs \<Rightarrow> path \<Rightarrow> int" where
  "tree_size fs d = sum_list (map (\<lambda>e. node_bytes (snd e)) (filter (\<lambda>e. below d (fst e)) fs))"

lemma del_size:
  assumes "distinct (map fst fs)" and "p \<noteq> []"
  shows "tree_size (fs_del p fs) d = tree_size fs d - (if below d p then at_bytes (fs_at fs p) else 0)"
proof -
  have absent: "map_of fs p = None" if "p \<notin> fst ` set fs" for fs :: fs
    using that by (simp add: map_of_eq_None_iff)
  show ?thesis
    using assms(1)
    by (induction fs) (auto simp: tree_size_def fs_del_def fs_at_def assms(2) absent)
qed

lemma put_size:
  assumes "distinct (map fst fs)" and "p \<noteq> []"
  shows "tree_size (fs_put p n fs) d =
    tree_size fs d + (if below d p then node_bytes n - at_bytes (fs_at fs p) else 0)"
proof -
  have "tree_size (fs_put p n fs) d = (if below d p then node_bytes n else 0) + tree_size (fs_del p fs) d"
    by (simp add: tree_size_def fs_put_def fs_del_def)
  then show ?thesis using del_size[OF assms] by simp
qed

lemma tree_size_nonneg: "0 \<le> tree_size fs d"
  unfolding tree_size_def by (rule sum_list_map_nonneg) simp

lemma tree_size_entry:
  assumes "tree_ok fs" and "fs_at fs p = Some n" and "below d p" and "p \<noteq> []"
  shows "node_bytes n \<le> tree_size fs d"
  using del_size[of fs p d] assms tree_size_nonneg[of "fs_del p fs" d] by (simp add: tree_ok_def)

subsection \<open>The changes on such trees\<close>

definition prefix_of :: "path \<Rightarrow> path \<Rightarrow> bool" where
  "prefix_of q p \<longleftrightarrow> (\<exists>k. q = take k p)"

text \<open>What making directories does: a larger tree of the same size, in which nothing has changed
  but that the given paths are now directories.\<close>

definition dirs_added :: "path list \<Rightarrow> fs \<Rightarrow> fs \<Rightarrow> bool" where
  "dirs_added ps fs fs' \<longleftrightarrow>
     tree_ok fs' \<and> (\<forall>d. tree_size fs' d = tree_size fs d) \<and>
     (\<forall>q. fs_at fs' q = (if fs_at fs q = None \<and> q \<in> set ps then Some NDir else fs_at fs q)) \<and>
     (\<forall>q\<in>set ps. fs_at fs' q = Some NDir)"

lemma mkdir_one_tree:
  assumes "tree_ok fs" and "plain p" and "mkdir_one p (Inr fs) = Inr fs'"
  shows "dirs_added [p] fs fs'"
proof (cases "fs_at fs p")
  case (Some n)
  with assms show ?thesis
    by (cases n; cases "p = []") (auto simp: mkdir_one_def fs_is_dir_def stat_tree dirs_added_def fs_lstat_def
        entry_tree tree_parent split: if_splits option.splits)
next
  case None
  then have ne: "p \<noteq> []" by auto
  with None assms have par: "fs_at fs (butlast p) = Some NDir" and fs': "fs' = fs_put p NDir fs"
    by (auto simp: mkdir_one_def fs_is_dir_def stat_tree fs_lstat_def entry_tree split: if_splits)
  have "tree_ok fs'" unfolding fs' by (rule put_tree[OF assms(1) ne assms(2) par]) simp_all
  moreover have "tree_size fs' d = tree_size fs d" for d
    unfolding fs' using assms(1) ne None by (simp add: put_size tree_ok_def)
  ultimately show ?thesis using ne None by (simp add: dirs_added_def fs')
qed

lemma fold_mkdir_error: "fold mkdir_one ps (Inl e) = Inl e"
  by (induction ps) (simp_all add: mkdir_one_def)

lemma fold_mkdir_tree:
  assumes "tree_ok fs" and "\<And>p. p \<in> set ps \<Longrightarrow> plain p" and "fold mkdir_one ps (Inr fs) = Inr fs'"
  shows "dirs_added ps fs fs'"
  using assms
proof (induction ps arbitrary: fs)
  case Nil
  then show ?case by (simp add: dirs_added_def)
next
  case (Cons p ps)
  obtain fs1 where one: "mkdir_one p (Inr fs) = Inr fs1"
    using Cons.prems(3) fold_mkdir_error by (cases "mkdir_one p (Inr fs)") auto
  have d1: "dirs_added [p] fs fs1" using mkdir_one_tree[OF Cons.prems(1) _ one] Cons.prems(2) by simp
  then have "tree_ok fs1" by (simp add: dirs_added_def)
  then have d2: "dirs_added ps fs1 fs'"
    by (rule Cons.IH) (use Cons.prems(2,3) one in simp_all)
  have at1: "fs_at fs1 q = (if fs_at fs q = None \<and> q = p then Some NDir else fs_at fs q)" for q
    using d1 by (simp add: dirs_added_def)
  have at2: "fs_at fs' q = (if fs_at fs1 q = None \<and> q \<in> set ps then Some NDir else fs_at fs1 q)" for q
    using d2 by (simp add: dirs_added_def)
  have "fs_at fs' q = Some NDir" if "q \<in> set (p # ps)" for q
  proof (cases "q \<in> set ps")
    case True
    then show ?thesis using d2 unfolding dirs_added_def by blast
  next
    case False
    with that have "q = p" by simp
    then have "fs_at fs1 q = Some NDir" using d1 unfolding dirs_added_def by auto
    then show ?thesis by (simp add: at2)
  qed
  moreover have "fs_at fs' q = (if fs_at fs q = None \<and> q \<in> set (p # ps) then Some NDir else fs_at fs q)" for q
    by (simp add: at1 at2)
  moreover have "tree_ok fs'" "tree_size fs' d = tree_size fs d" for d
    using d1 d2 by (simp_all add: dirs_added_def)
  ultimately show ?case unfolding dirs_added_def by blast
qed

lemma prefixes_plain: "plain p \<Longrightarrow> q \<in> set (prefixes_of p) \<Longrightarrow> plain q"
  by (auto simp: prefixes_of_def plain_def dest: in_set_takeD)

lemma prefixes_self: "p \<in> set (prefixes_of p)"
  by (simp add: prefixes_of_def)

lemma mkdirs_tree:
  assumes "tree_ok fs" and "plain p" and "fs_mkdirs p fs = Inr fs'"
  shows "dirs_added (prefixes_of p) fs fs'"
  by (rule fold_mkdir_tree[OF assms(1)]) (use assms prefixes_plain in \<open>auto simp: fs_mkdirs_def\<close>)

lemma unlink_tree:
  assumes "tree_ok fs" and "plain p" and "fs_unlink p fs = Inr fs'"
  shows "p \<noteq> [] \<and> fs_at fs p \<noteq> None \<and> fs_at fs p \<noteq> Some NDir \<and> fs' = fs_del p fs \<and> tree_ok fs'"
proof (cases "p = []")
  case True
  with assms(3) show ?thesis by (simp add: fs_unlink_def fs_entry_def)
next
  case False
  then have "fs_at fs p \<noteq> None \<and> fs_at fs p \<noteq> Some NDir \<and> fs' = fs_del p fs"
    using assms by (auto simp: fs_unlink_def entry_tree split: if_splits option.splits node.splits)
  with False del_tree[OF assms(1), of p] show ?thesis by simp
qed

lemma unlink_file:
  assumes "tree_ok fs" and "plain p" and "fs_at fs p = Some (NFile d)"
  shows "fs_unlink p fs = Inr (fs_del p fs)"
proof -
  have "p \<noteq> []" using assms(3) by auto
  with assms tree_parent[OF assms(1), of p] show ?thesis by (simp add: fs_unlink_def entry_tree)
qed

lemma rmtree_tree:
  assumes "tree_ok fs" and "plain p" and "p \<noteq> []" and "fs_at fs p = Some NDir"
  shows "fs_rmtree p fs = (None, filter (\<lambda>e. \<not> inside p (fst e)) fs)"
    and "tree_ok (filter (\<lambda>e. \<not> inside p (fst e)) fs)"
proof -
  have "last p \<noteq> ''..''" using assms(2,3) last_in_set[of p] by (auto simp: plain_def)
  then show "fs_rmtree p fs = (None, filter (\<lambda>e. \<not> inside p (fst e)) fs)"
    using assms tree_parent[OF assms(1), of p] by (simp add: fs_rmtree_def entry_tree)
  let ?fs = "filter (\<lambda>e. \<not> inside p (fst e)) fs"
  have at: "fs_at ?fs q = (if q \<noteq> [] \<and> inside p q then None else fs_at fs q)" for q
  proof -
    show ?thesis using map_of_filter_key[of "\<lambda>k. \<not> inside p k" fs q] by (simp add: fs_at_def)
  qed
  have "inside p q" if "inside p (butlast q)" for q
    using that by (rule inside_butlast)
  then have "fs_at ?fs (butlast q) = Some NDir" if "(q, n) \<in> set ?fs" for q n
    using that assms(1) unfolding at by (auto simp: tree_ok_def)
  then show "tree_ok ?fs"
    using assms(1) by (auto simp: tree_ok_def intro: keys_filter)
qed

text \<open>Without links, realpath is the lexical normalisation.\<close>

lemma realpath_norm:
  assumes "tree_ok fs" shows "realpath fs p = (normpath p, True)"
proof -
  have "real_walk fs seen cur (map Comp w) = (fold norm_step w cur, True)" for seen cur w
  proof (induction w arbitrary: cur)
    case (Cons c w)
    then show ?case
      using tree_linkless[OF assms, of "cur @ [c]"] by (auto simp: norm_step_def split: option.split node.split)
  qed simp
  then show ?thesis by (simp add: realpath_def normpath_def)
qed

end
