(* ===== verification/Workspace_Model.thy ===== *)
theory Workspace_Model
  imports File_System Identity_Org
begin

text \<open>
  \<^verbatim>\<open>modules/storage\<close>: \<^verbatim>\<open>workspace.py\<close> and \<^verbatim>\<open>quota.py\<close>, and the EventSink the factory gives the
  workspace (\<^verbatim>\<open>factory/adapters.py\<close>). The state is the table \<open>workspaces\<close>, the row of
  \<open>company_quota\<close>, the file system, and the events emitted. What the system reports for
  directories (their \<^verbatim>\<open>st_size\<close> and every \<^verbatim>\<open>st_mtime\<close>) are parameters of the state. A transaction
  that raises rolls the rows back; changes of the file system stay.
\<close>

section \<open>Data\<close>

record ws_row =
  wr_agent_id :: string
  wr_quota :: int
  wr_used :: int
  wr_created_at :: int

record workspace =
  ws_root :: path
  ws_company :: string
  ws_fs :: fs
  ws_rows :: "ws_row list"
  ws_company_quota :: "int option"
  ws_dir_size :: "path \<Rightarrow> int"
  ws_mtime :: "path \<Rightarrow> int"
  ws_emitted :: "(string \<times> payload) list"

type_synonym 'a ws_out = "('a, workspace) outcome"

record write_result =
  wt_bytes_written :: int
  wt_company_remaining_mb :: rat
  wt_agent_remaining_mb :: rat

record file_meta =
  fm_relative_path :: string
  fm_size :: int
  fm_is_dir :: bool
  fm_modified_at :: int

text \<open>The double 0.9.\<close>

definition WARNING_RATIO :: rat where "WARNING_RATIO = 8106479329266893 / 9007199254740992"

definition PROJECT_WORKSPACE_ID :: string where "PROJECT_WORKSPACE_ID = ''__project__''"

definition quoted :: "string \<Rightarrow> string" where
  "quoted s = [char_of (39 :: nat)] @ s @ [char_of (39 :: nat)]"

section \<open>Paths\<close>

definition ws_company_root :: "workspace \<Rightarrow> path" where
  "ws_company_root w = ws_root w @ [''companies'', ws_company w]"

definition ws_workspaces_root :: "workspace \<Rightarrow> path" where
  "ws_workspaces_root w = ws_company_root w @ [''workspaces'']"

definition ws_agent_dir :: "workspace \<Rightarrow> string \<Rightarrow> path" where
  "ws_agent_dir w agent = path_join (ws_workspaces_root w) agent"

definition backslash :: char where "backslash = char_of (92 :: nat)"

definition valid_workspace_id :: "string \<Rightarrow> bool" where
  "valid_workspace_id i \<longleftrightarrow>
     \<not> (i = [] \<or> slash \<in> set i \<or> backslash \<in> set i \<or> i \<in> {''.'', ''..''})"

definition ws_base_real :: "workspace \<Rightarrow> string \<Rightarrow> path" where
  "ws_base_real w agent = fst (realpath (ws_fs w) (ws_agent_dir w agent))"

definition ws_resolve :: "workspace \<Rightarrow> string \<Rightarrow> string \<Rightarrow> exn + path" where
  "ws_resolve w agent rel =
     (if rel = [] then Inl (PathOutsideWorkspace ''relative_path must be non-empty'')
      else if is_abs rel \<or> take 1 rel = [backslash]
      then Inl (PathOutsideWorkspace (''absolute path not allowed: '' @ quoted rel))
      else if \<not> fs_exists (ws_fs w) (ws_agent_dir w agent) then Inl (WorkspaceNotInitialized agent)
      else
        let target = fst (realpath (ws_fs w) (path_join (ws_agent_dir w agent) rel)) in
        if inside (ws_base_real w agent) target then Inr target
        else Inl (PathOutsideWorkspace (quoted rel @ '' resolves outside workspace'')))"

section \<open>Lifecycle\<close>

definition megabytes :: "int \<Rightarrow> int" where
  "megabytes n = n * 1024 * 1024"

definition ws_mkdir :: "string \<Rightarrow> 'a \<Rightarrow> ws_row list \<Rightarrow> workspace \<Rightarrow> 'a ws_out" where
  "ws_mkdir agent res rows w =
     (case fs_mkdirs (ws_agent_dir w agent) (ws_fs w) of
        Inl e \<Rightarrow> (Inl e, w)
      | Inr fs \<Rightarrow> (Inr res, w\<lparr>ws_rows := rows, ws_fs := fs\<rparr>))"

definition ws_create_for_agent :: "int \<Rightarrow> string \<Rightarrow> int \<Rightarrow> workspace \<Rightarrow> unit ws_out" where
  "ws_create_for_agent now agent quota_mb w =
     (if quota_mb < 0 then (Inl (ValueError ''quota_mb must be non-negative''), w)
      else if \<not> valid_workspace_id agent then (Inl (ValueError (''invalid agent_id: '' @ quoted agent)), w)
      else if tbl_find wr_agent_id agent (ws_rows w) \<noteq> None
      then (Inl (IntegrityError ''UNIQUE constraint failed: workspaces.agent_id''), w)
      else
        ws_mkdir agent ()
          (ws_rows w @ [\<lparr>wr_agent_id = agent, wr_quota = megabytes quota_mb, wr_used = 0,
                         wr_created_at = now\<rparr>]) w)"

definition set_quota :: "int \<Rightarrow> ws_row \<Rightarrow> ws_row" where
  "set_quota q r = r\<lparr>wr_quota := q\<rparr>"

definition set_used :: "int \<Rightarrow> ws_row \<Rightarrow> ws_row" where
  "set_used u r = r\<lparr>wr_used := u\<rparr>"

definition ws_ensure_for_agent :: "int \<Rightarrow> string \<Rightarrow> int \<Rightarrow> workspace \<Rightarrow> unit ws_out" where
  "ws_ensure_for_agent now agent quota_mb w =
     (if quota_mb < 0 then (Inl (ValueError ''quota_mb must be non-negative''), w)
      else if \<not> valid_workspace_id agent then (Inl (ValueError (''invalid agent_id: '' @ quoted agent)), w)
      else
        ws_mkdir agent ()
          (if tbl_find wr_agent_id agent (ws_rows w) = None
           then ws_rows w @ [\<lparr>wr_agent_id = agent, wr_quota = megabytes quota_mb, wr_used = 0,
                              wr_created_at = now\<rparr>]
           else tbl_upd wr_agent_id agent (set_quota (megabytes quota_mb)) (ws_rows w)) w)"

definition ws_delete_for_agent :: "string \<Rightarrow> workspace \<Rightarrow> unit ws_out" where
  "ws_delete_for_agent agent w =
     (let rows = tbl_del wr_agent_id agent (ws_rows w); dir = ws_agent_dir w agent in
      if fs_exists (ws_fs w) dir
      then (case fs_rmtree dir (ws_fs w) of
              (Some e, fs) \<Rightarrow> (Inl e, w\<lparr>ws_fs := fs\<rparr>)
            | (None, fs) \<Rightarrow> (Inr (), w\<lparr>ws_rows := rows, ws_fs := fs\<rparr>))
      else (Inr (), w\<lparr>ws_rows := rows\<rparr>))"

section \<open>Writing\<close>

definition ws_emit :: "string \<Rightarrow> payload \<Rightarrow> workspace \<Rightarrow> workspace" where
  "ws_emit k p w = w\<lparr>ws_emitted := ws_emitted w @ [(k, p)]\<rparr>"

text \<open>The paths probed for symbolic links: the candidate and its parents below the base.\<close>

definition probes :: "path \<Rightarrow> string \<Rightarrow> path list" where
  "probes base rel = map (\<lambda>n. base @ take n (path_parts rel)) (rev [1..<Suc (length (path_parts rel))])"

definition node_size :: "workspace \<Rightarrow> path \<times> node \<Rightarrow> int" where
  "node_size w e = (case snd e of NFile d \<Rightarrow> int (length d) | _ \<Rightarrow> ws_dir_size w (fst e))"

definition stat_size :: "workspace \<Rightarrow> path \<Rightarrow> int" where
  "stat_size w p = (case fs_stat (ws_fs w) p of None \<Rightarrow> 0 | Some e \<Rightarrow> node_size w e)"

definition company_limit :: "workspace \<Rightarrow> int" where
  "company_limit w = (case ws_company_quota w of None \<Rightarrow> 0 | Some q \<Rightarrow> q)"

definition company_used :: "workspace \<Rightarrow> int" where
  "company_used w = sum_list (map wr_used (ws_rows w))"

definition tmp_of :: "path \<Rightarrow> path" where
  "tmp_of target = butlast target @ [last target @ ''.tmp'']"

definition drop_tmp :: "path \<Rightarrow> fs \<Rightarrow> fs" where
  "drop_tmp tmp fs =
     (if fs_exists fs tmp then (case fs_unlink tmp fs of Inl _ \<Rightarrow> fs | Inr fs' \<Rightarrow> fs') else fs)"

text \<open>From \<^verbatim>\<open>mkdir\<close> to \<^verbatim>\<open>os.replace\<close>: the exception, if any, and the file system left.\<close>

definition store_file :: "path \<Rightarrow> string \<Rightarrow> fs \<Rightarrow> exn option \<times> fs" where
  "store_file target data fs =
     (case fs_mkdirs (butlast target) fs of
        Inl e \<Rightarrow> (Some e, fs)
      | Inr fs1 \<Rightarrow>
          if target = [] then (Some (ValueError ''empty name''), fs1)
          else
            (case fs_write (tmp_of target) data fs1 of
               Inl e \<Rightarrow> (Some e, drop_tmp (tmp_of target) fs1)
             | Inr fs2 \<Rightarrow>
                 (case fs_replace (tmp_of target) target fs2 of
                    Inl e \<Rightarrow> (Some e, drop_tmp (tmp_of target) fs2)
                  | Inr fs3 \<Rightarrow> (None, fs3))))"

definition crosses_warning :: "int \<Rightarrow> int \<Rightarrow> int \<Rightarrow> bool" where
  "crosses_warning quota used new_used \<longleftrightarrow>
     quota > 0 \<and> of_int used < fl (WARNING_RATIO * of_int quota) \<and>
     of_int new_used \<ge> fl (WARNING_RATIO * of_int quota)"

definition ws_write :: "string \<Rightarrow> string \<Rightarrow> string \<Rightarrow> workspace \<Rightarrow> write_result ws_out" where
  "ws_write agent rel data w =
     (case ws_resolve w agent rel of
        Inl e \<Rightarrow> (Inl e, w)
      | Inr target \<Rightarrow>
         if list_ex (fs_is_symlink (ws_fs w)) (probes (ws_agent_dir w agent) rel)
         then (Inl (PathOutsideWorkspace (''symlink writes are forbidden: '' @ quoted rel)), w)
         else
          (case tbl_find wr_agent_id agent (ws_rows w) of
             None \<Rightarrow> (Inl (WorkspaceNotInitialized agent), w)
           | Some row \<Rightarrow>
              let quota = wr_quota row; cquota = company_limit w;
                  delta = int (length data) - stat_size w target;
                  used = wr_used row + delta; cused = company_used w + delta
              in
              if used > quota
              then (Inl (QuotaExceeded (''agent '' @ quoted agent @ '': '' @ int_str used @ '' > '' @ int_str quota)),
                    ws_emit ''quota_exceeded''
                      [(''scope'', JStr ''agent''), (''agent_id'', JStr agent), (''limit'', JInt quota),
                       (''would_use'', JInt used)] w)
              else if cused > cquota
              then (Inl (QuotaExceeded (''company: '' @ int_str cused @ '' > '' @ int_str cquota)),
                    ws_emit ''quota_exceeded''
                      [(''scope'', JStr ''company''), (''limit'', JInt cquota), (''would_use'', JInt cused)] w)
              else
               (case store_file target data (ws_fs w) of
                  (Some e, fs) \<Rightarrow> (Inl e, w\<lparr>ws_fs := fs\<rparr>)
                | (None, fs) \<Rightarrow>
                    let w1 = w\<lparr>ws_fs := fs, ws_rows := tbl_upd wr_agent_id agent (set_used used) (ws_rows w)\<rparr>;
                        w2 = (if crosses_warning quota (wr_used row) used
                              then ws_emit ''quota_warning''
                                     [(''agent_id'', JStr agent), (''used'', JInt used),
                                      (''limit'', JInt quota), (''ratio'', JFloat (fl (of_int used / of_int quota)))] w1
                              else w1)
                    in (Inr \<lparr>wt_bytes_written = int (length data),
                             wt_company_remaining_mb = fl (of_int (cquota - cused) / 1048576),
                             wt_agent_remaining_mb = fl (of_int (quota - used) / 1048576)\<rparr>, w2))))"

section \<open>Reading, listing, deleting\<close>

definition ws_read_file :: "workspace \<Rightarrow> string \<Rightarrow> string \<Rightarrow> exn + string" where
  "ws_read_file w agent rel =
     (case ws_resolve w agent rel of
        Inl e \<Rightarrow> Inl e
      | Inr target \<Rightarrow>
          (case fs_file (ws_fs w) target of None \<Rightarrow> Inl (FileNotFoundError rel) | Some d \<Rightarrow> Inr d))"

definition ws_read_own :: "string \<Rightarrow> string \<Rightarrow> workspace \<Rightarrow> string ws_out" where
  "ws_read_own agent rel w = (ws_read_file w agent rel, w)"

text \<open>The IdentityProvider is the org chart.\<close>

definition ws_read_subordinate :: "org \<Rightarrow> string \<Rightarrow> string \<Rightarrow> string \<Rightarrow> workspace \<Rightarrow> string ws_out" where
  "ws_read_subordinate g reader owner rel w =
     (if \<not> org_can_read_workspace g reader owner
      then (Inl (PermissionDenied (quoted reader @ '' may not read workspace of '' @ quoted owner)), w)
      else (ws_read_file w owner rel, w))"

definition children :: "fs \<Rightarrow> path \<Rightarrow> string list" where
  "children fs d = sort (map (\<lambda>e. last (fst e)) (filter (\<lambda>e. fst e \<noteq> [] \<and> butlast (fst e) = d) fs))"

definition posix :: "path \<Rightarrow> string" where
  "posix p = (if p = [] then ''.'' else py_join [slash] p)"

fun list_entries :: "workspace \<Rightarrow> path \<Rightarrow> path \<Rightarrow> string list \<Rightarrow> exn + file_meta list" where
  "list_entries w base target [] = Inr []"
| "list_entries w base target (n # ns) =
     (let entry = target @ [n]; real = fst (realpath (ws_fs w) entry) in
      case fs_stat (ws_fs w) entry of
        None \<Rightarrow> Inl (FileNotFoundError n)
      | Some st \<Rightarrow>
          if \<not> inside base real then Inl (ValueError ''is not in the subpath'')
          else
            (case list_entries w base target ns of
               Inl e \<Rightarrow> Inl e
             | Inr ms \<Rightarrow>
                 Inr (\<lparr>fm_relative_path = posix (drop (length base) real), fm_size = node_size w st,
                       fm_is_dir = (snd st = NDir), fm_modified_at = ws_mtime w (fst st)\<rparr> # ms)))"

definition ws_list :: "string \<Rightarrow> string \<Rightarrow> workspace \<Rightarrow> file_meta list ws_out" where
  "ws_list agent rel w =
     (let base = ws_agent_dir w agent in
      if \<not> fs_exists (ws_fs w) base then (Inl (WorkspaceNotInitialized agent), w)
      else
        (case (if rel = [] then Inr base else ws_resolve w agent rel) of
           Inl e \<Rightarrow> (Inl e, w)
         | Inr target \<Rightarrow>
             (case fs_stat (ws_fs w) target of
                Some (q, NDir) \<Rightarrow>
                  (list_entries w (ws_base_real w agent) target (children (ws_fs w) q), w)
              | _ \<Rightarrow> (Inl (NotADirectoryError rel), w))))"

definition drop_used :: "int \<Rightarrow> ws_row \<Rightarrow> ws_row" where
  "drop_used n r = set_used (max (wr_used r - n) 0) r"

definition ws_delete :: "string \<Rightarrow> string \<Rightarrow> workspace \<Rightarrow> unit ws_out" where
  "ws_delete agent rel w =
     (case ws_resolve w agent rel of
        Inl e \<Rightarrow> (Inl e, w)
      | Inr target \<Rightarrow>
          (case fs_stat (ws_fs w) target of
             Some (q, NDir) \<Rightarrow> (Inl (IsADirectoryError rel), w)
           | None \<Rightarrow> (Inl (FileNotFoundError rel), w)
           | Some st \<Rightarrow>
               (case fs_unlink target (ws_fs w) of
                  Inl e \<Rightarrow> (Inl e, w)
                | Inr fs \<Rightarrow>
                    (Inr (), w\<lparr>ws_fs := fs,
                       ws_rows := tbl_upd wr_agent_id agent (drop_used (node_size w st)) (ws_rows w)\<rparr>))))"

section \<open>Reconciliation and archive\<close>

definition entry_size :: "fs \<Rightarrow> path \<times> node \<Rightarrow> int" where
  "entry_size fs e =
     (case snd e of
        NFile d \<Rightarrow> int (length d)
      | NDir \<Rightarrow> 0
      | NLink _ \<Rightarrow> (case fs_file fs (fst e) of Some d \<Rightarrow> int (length d) | None \<Rightarrow> 0))"

text \<open>\<^verbatim>\<open>os.walk(path, followlinks=False)\<close>: everything in real directories below the top.\<close>

definition dir_size :: "fs \<Rightarrow> path \<Rightarrow> int" where
  "dir_size fs p =
     (case fs_stat fs p of
        None \<Rightarrow> 0
      | Some (d, n) \<Rightarrow>
          sum_list (map (entry_size fs) (filter (\<lambda>e. inside d (fst e) \<and> fst e \<noteq> d) fs)))"

definition row_drift :: "workspace \<Rightarrow> ws_row \<Rightarrow> int" where
  "row_drift w r = dir_size (ws_fs w) (ws_agent_dir w (wr_agent_id r)) - wr_used r"

definition drift_event :: "string \<times> int \<Rightarrow> string \<times> payload" where
  "drift_event d = (''quota_drift'', [(''agent_id'', JStr (fst d)), (''drift_bytes'', JInt (snd d))])"

definition ws_reconcile_quota :: "workspace \<Rightarrow> (string \<times> int) list ws_out" where
  "ws_reconcile_quota w =
     (let drift = map (\<lambda>r. (wr_agent_id r, row_drift w r)) (filter (\<lambda>r. row_drift w r \<noteq> 0) (ws_rows w))
      in (Inr drift,
          w\<lparr>ws_rows := map (\<lambda>r. if row_drift w r \<noteq> 0 then set_used (wr_used r + row_drift w r) r else r) (ws_rows w),
            ws_emitted := ws_emitted w @ map drift_event drift\<rparr>))"

definition move_tree :: "path \<Rightarrow> path \<Rightarrow> fs \<Rightarrow> fs" where
  "move_tree s d fs = map (\<lambda>e. if inside s (fst e) then (d @ drop (length s) (fst e), snd e) else e) fs"

definition ws_archive_company :: "path \<Rightarrow> workspace \<Rightarrow> unit ws_out" where
  "ws_archive_company dest w =
     (let src = ws_company_root w in
      if \<not> fs_exists (ws_fs w) src then (Inl (FileNotFoundError (posix src)), w)
      else
        (case fs_mkdirs (butlast dest) (ws_fs w) of
           Inl e \<Rightarrow> (Inl e, w)
         | Inr fs \<Rightarrow>
             if fs_exists fs dest then (Inl (PyOSError ''file exists''), w\<lparr>ws_fs := fs\<rparr>)
             else
               (case (fs_entry fs src, fs_entry fs dest) of
                  (Some s, Some d) \<Rightarrow>
                    if inside s d then (Inl (PyOSError ''move into itself''), w\<lparr>ws_fs := fs\<rparr>)
                    else (Inr (), w\<lparr>ws_fs := move_tree s d (fs_del d fs)\<rparr>)
                | _ \<Rightarrow> (Inl (PyOSError ''rename''), w\<lparr>ws_fs := fs\<rparr>))))"

section \<open>Quota\<close>

datatype quota_scope = CompanyQuota | AgentQuota string

definition q_usage :: "quota_scope \<Rightarrow> workspace \<Rightarrow> int" where
  "q_usage sc w =
     (case sc of
        CompanyQuota \<Rightarrow> company_used w
      | AgentQuota a \<Rightarrow> (case tbl_find wr_agent_id a (ws_rows w) of None \<Rightarrow> 0 | Some r \<Rightarrow> wr_used r))"

definition q_limit :: "quota_scope \<Rightarrow> workspace \<Rightarrow> int" where
  "q_limit sc w =
     (case sc of
        CompanyQuota \<Rightarrow> company_limit w
      | AgentQuota a \<Rightarrow> (case tbl_find wr_agent_id a (ws_rows w) of None \<Rightarrow> 0 | Some r \<Rightarrow> wr_quota r))"

definition q_remaining :: "quota_scope \<Rightarrow> workspace \<Rightarrow> int" where
  "q_remaining sc w = q_limit sc w - q_usage sc w"

definition q_set_limit :: "quota_scope \<Rightarrow> int \<Rightarrow> workspace \<Rightarrow> unit ws_out" where
  "q_set_limit sc mb w =
     (if mb < 0 then (Inl (ValueError ''mb must be non-negative''), w)
      else
        (case sc of
           CompanyQuota \<Rightarrow>
             (Inr (), w\<lparr>ws_company_quota := map_option (\<lambda>_. megabytes mb) (ws_company_quota w)\<rparr>)
         | AgentQuota a \<Rightarrow>
             if tbl_find wr_agent_id a (ws_rows w) = None then (Inl (WorkspaceNotInitialized a), w)
             else (Inr (), w\<lparr>ws_rows := tbl_upd wr_agent_id a (set_quota (megabytes mb)) (ws_rows w)\<rparr>)))"

section \<open>The factory's event sink\<close>

definition sink_supported :: "(string \<times> event_kind) list" where
  "sink_supported =
     [(''quota.warning'', QUOTA_WARNING), (''quota.exceeded'', QUOTA_EXCEEDED), (''quota.drift'', QUOTA_DRIFT)]"

definition payload_str :: "payload \<Rightarrow> string \<Rightarrow> string option" where
  "payload_str p k = (case map_of p k of Some (JStr s) \<Rightarrow> Some s | _ \<Rightarrow> None)"

definition sink_emit :: "string \<times> payload \<Rightarrow> event_store \<Rightarrow> (unit, event_store) outcome" where
  "sink_emit e es =
     (case map_of sink_supported (fst e) of
        None \<Rightarrow> (Inr (), es)
      | Some k \<Rightarrow> andthen (es_append (Inl k) (snd e) (payload_str (snd e) ''agent_id'') None es) (\<lambda>_ es1. (Inr (), es1)))"

section \<open>Storing a file in a tree without links\<close>

lemma tmp_facts:
  assumes "plain target" and "target \<noteq> []"
  shows "plain (tmp_of target)" and "tmp_of target \<noteq> []" and "butlast (tmp_of target) = butlast target"
    and "tmp_of target \<noteq> target" and "tmp_of target \<notin> set (prefixes_of (butlast target))"
    and "butlast target \<noteq> tmp_of target"
proof -
  have "last target \<noteq> []" using assms last_in_set[of target] by (auto simp: plain_def)
  then obtain c cs where l: "last target = c # cs" by (cases "last target") auto
  have "length (tmp_of target) = length target" using assms(2) by (simp add: tmp_of_def)
  moreover have "length q < length target" if "q \<in> set (prefixes_of (butlast target))" for q
    using that assms(2) by (auto simp: prefixes_of_def)
  ultimately show "tmp_of target \<notin> set (prefixes_of (butlast target))" "butlast target \<noteq> tmp_of target"
    using prefixes_self[of "butlast target"] by (metis less_irrefl)+
  show "plain (tmp_of target)" using plain_butlast[OF assms(1)] by (simp add: tmp_of_def l)
  show "tmp_of target \<noteq> []" "butlast (tmp_of target) = butlast target" by (simp_all add: tmp_of_def)
  show "tmp_of target \<noteq> target"
  proof
    assume "tmp_of target = target"
    then have "last target @ ''.tmp'' = last target" unfolding tmp_of_def by (metis last_snoc)
    then show False by simp
  qed
qed

lemma store_tree:
  assumes ok: "tree_ok fs" and tg: "plain target" "target \<noteq> []" and free: "fs_at fs (tmp_of target) = None"
    and run: "store_file target data fs = (None, fs')"
  obtains fs1 where "dirs_added (prefixes_of (butlast target)) fs fs1" "fs' = fs_put target (NFile data) fs1"
    "fs_at fs1 target \<noteq> Some NDir" "tree_ok fs'"
proof -
  note tmp = tmp_facts[OF tg]
  let ?t = "tmp_of target"
  obtain fs1 where mk: "fs_mkdirs (butlast target) fs = Inr fs1"
    using run by (cases "fs_mkdirs (butlast target) fs") (simp_all add: store_file_def)
  have d: "dirs_added (prefixes_of (butlast target)) fs fs1"
    by (rule mkdirs_tree[OF ok plain_butlast[OF tg(1)] mk])
  then have ok1: "tree_ok fs1" and par: "fs_at fs1 (butlast target) = Some NDir"
    using prefixes_self[of "butlast target"] unfolding dirs_added_def by blast+
  have "fs_at fs1 ?t = (if fs_at fs ?t = None \<and> ?t \<in> set (prefixes_of (butlast target))
      then Some NDir else fs_at fs ?t)" using d unfolding dirs_added_def by blast
  then have none: "fs_at fs1 ?t = None" using free tmp(5) by simp
  have "kwalk True fs1 max_links [] ?t = Some ([] @ ?t)"
    by (rule walk_tree[OF ok1 tmp(1)]) (use tmp par in simp)
  then have wr: "fs_write ?t data fs1 = Inr (fs_put ?t (NFile data) fs1)"
    using none by (simp add: fs_write_def)
  let ?fs2 = "fs_put ?t (NFile data) fs1"
  have ok2: "tree_ok ?fs2"
    by (rule put_tree[OF ok1 tmp(2,1)]) (use tmp par none in simp_all)
  have par2: "fs_at ?fs2 (butlast target) = Some NDir" using par tmp(6) by simp
  have undone: "fs_del ?t ?fs2 = fs1"
  proof -
    have "filter (\<lambda>e. fst e \<noteq> ?t) fs1 = fs1"
      using none tmp(2) by (intro filter_True) (force simp: fs_at_def map_of_eq_None_iff)
    then show ?thesis by (simp add: fs_del_def fs_put_def)
  qed
  have ren: "fs_replace ?t target ?fs2 =
      (if fs_at fs1 target = Some NDir then Inl (IsADirectoryError ''rename'')
       else Inr (fs_put target (NFile data) fs1))"
    using entry_tree[OF ok2 tmp(1,2)] entry_tree[OF ok2 tg] tmp par2 tg(2)
    by (simp add: fs_replace_def undone)
  have nodir: "fs_at fs1 target \<noteq> Some NDir" and fs': "fs' = fs_put target (NFile data) fs1"
    using run by (auto simp: store_file_def mk tg(2) wr ren split: if_splits)
  have "tree_ok fs'"
    unfolding fs' by (rule put_tree[OF ok1 tg(2,1) par]) (use nodir in simp_all)
  with d fs' nodir that show thesis by blast
qed

section \<open>Exact accounts\<close>

definition agent_home :: "workspace \<Rightarrow> string \<Rightarrow> path" where
  "agent_home w i = ws_workspaces_root w @ [i]"

lemma split_no_slash: "slash \<notin> set s \<Longrightarrow> split_slash_from w s = [w @ s]"
  by (induction s arbitrary: w) auto

lemma valid_dir: "valid_workspace_id i \<Longrightarrow> ws_agent_dir w i = agent_home w i"
  by (cases i) (auto simp: valid_workspace_id_def ws_agent_dir_def path_join_def is_abs_def path_parts_def
      split_slash_def split_no_slash agent_home_def)

lemma home_cong:
  "ws_root v = ws_root w \<Longrightarrow> ws_company v = ws_company w \<Longrightarrow> agent_home v i = agent_home w i"
  by (simp add: agent_home_def ws_workspaces_root_def ws_company_root_def)

text \<open>A tree without links, in which exactly the agents with a row have a directory below
  \<^verbatim>\<open>workspaces\<close>, and every row counts exactly the bytes of the files in that directory.\<close>

definition ws_inv :: "workspace \<Rightarrow> bool" where
  "ws_inv w \<longleftrightarrow>
     tree_ok (ws_fs w) \<and> plain (ws_workspaces_root w) \<and> tbl_pk wr_agent_id (ws_rows w) \<and>
     (\<forall>r\<in>set (ws_rows w). valid_workspace_id (wr_agent_id r) \<and>
        fs_at (ws_fs w) (agent_home w (wr_agent_id r)) = Some NDir \<and>
        wr_used r = tree_size (ws_fs w) (agent_home w (wr_agent_id r))) \<and>
     (\<forall>i. fs_at (ws_fs w) (agent_home w i) \<noteq> None \<longrightarrow> tbl_find wr_agent_id i (ws_rows w) \<noteq> None)"

lemma home_plain: "plain (ws_workspaces_root w) \<Longrightarrow> valid_workspace_id i \<Longrightarrow> plain (agent_home w i)"
  by (auto simp: agent_home_def valid_workspace_id_def)

lemma home_ne [simp]: "agent_home w i \<noteq> []"
  by (simp add: agent_home_def)

lemma below_home: "inside (agent_home w i) p \<Longrightarrow> inside (agent_home w j) p \<longleftrightarrow> j = i"
  by (auto simp: inside_iff agent_home_def)

interpretation quota_upd: pk_update wr_agent_id "set_quota q"
  by unfold_locales (simp add: set_quota_def)

interpretation drop_upd: pk_update wr_agent_id "drop_used n"
  by unfold_locales (simp add: drop_used_def set_used_def)

interpretation used_upd: pk_update wr_agent_id "set_used u"
  by unfold_locales (simp add: set_used_def)

lemma dir_size_tree:
  assumes "tree_ok fs" and "plain p" and "fs_at fs p = Some n"
  shows "dir_size fs p = tree_size fs p"
proof -
  have "entry_size fs e = node_bytes (snd e)" if "e \<in> set fs" for e
    using assms(1) that by (cases e) (auto simp: tree_ok_def entry_size_def split: node.split)
  then have "map (entry_size fs) (filter (\<lambda>e. below p (fst e)) fs) =
      map (\<lambda>e. node_bytes (snd e)) (filter (\<lambda>e. below p (fst e)) fs)" by simp
  then have "sum_list (map (entry_size fs) (filter (\<lambda>e. below p (fst e)) fs)) = tree_size fs p"
    by (simp only: tree_size_def)
  with assms show ?thesis
    by (simp add: dir_size_def stat_tree below_def)
qed

text \<open>What \<open>_resolve\<close> answers for an agent with a row.\<close>

lemma resolve_tree:
  assumes "ws_inv w" and "tbl_find wr_agent_id a (ws_rows w) = Some r" and "ws_resolve w a rel = Inr p"
  shows "plain p" and "inside (agent_home w a) p" and "valid_workspace_id a"
proof -
  have "r \<in> set (ws_rows w)" "wr_agent_id r = a" using tbl_find_Some_in[OF assms(2)] by auto
  then show valid: "valid_workspace_id a" using assms(1) by (auto simp: ws_inv_def)
  have tree: "tree_ok (ws_fs w)" and "plain (agent_home w a)"
    using assms(1) valid by (auto simp: ws_inv_def home_plain)
  then have base: "ws_base_real w a = agent_home w a"
    by (simp add: ws_base_real_def valid_dir[OF valid] realpath_id)
  show "plain p" and "inside (agent_home w a) p"
    using assms(3) realpath_plain[OF tree] by (auto simp: ws_resolve_def base Let_def split: if_splits)
qed

lemma store_fail:
  assumes ok: "tree_ok fs" and tg: "plain target" "target \<noteq> []" and free: "fs_at fs (tmp_of target) = None"
    and run: "store_file target data fs = (Some e, fs')"
  shows "fs' = fs \<or> dirs_added (prefixes_of (butlast target)) fs fs'"
proof (cases "fs_mkdirs (butlast target) fs")
  case (Inl x)
  with run show ?thesis by (simp add: store_file_def)
next
  case (Inr fs1)
  note tmp = tmp_facts[OF tg]
  let ?t = "tmp_of target"
  have d: "dirs_added (prefixes_of (butlast target)) fs fs1"
    by (rule mkdirs_tree[OF ok plain_butlast[OF tg(1)] Inr])
  then have ok1: "tree_ok fs1" and par: "fs_at fs1 (butlast target) = Some NDir"
    using prefixes_self[of "butlast target"] unfolding dirs_added_def by blast+
  have "fs_at fs1 ?t = (if fs_at fs ?t = None \<and> ?t \<in> set (prefixes_of (butlast target))
      then Some NDir else fs_at fs ?t)" using d unfolding dirs_added_def by blast
  then have none: "fs_at fs1 ?t = None" using free tmp(5) by simp
  have gone: "drop_tmp ?t fs1 = fs1"
    using stat_tree[OF ok1 tmp(1)] none by (simp add: drop_tmp_def fs_exists_def)
  let ?fs2 = "fs_put ?t (NFile data) fs1"
  have ok2: "tree_ok ?fs2"
    by (rule put_tree[OF ok1 tmp(2,1)]) (use tmp par none in simp_all)
  have "fs_at ?fs2 ?t = Some (NFile data)" using tmp(2) by simp
  then have "drop_tmp ?t ?fs2 = fs_del ?t ?fs2"
    using stat_tree[OF ok2 tmp(1)] unlink_file[OF ok2 tmp(1)] by (simp add: drop_tmp_def fs_exists_def)
  moreover have "filter (\<lambda>e. fst e \<noteq> ?t) fs1 = fs1"
    using none tmp(2) by (intro filter_True) (force simp: fs_at_def map_of_eq_None_iff)
  ultimately have undone: "drop_tmp ?t ?fs2 = fs1" by (simp add: fs_del_def fs_put_def)
  have "fs_write ?t data fs1 = Inl x \<or> fs_write ?t data fs1 = Inr ?fs2" for x
    using walk_tree[OF ok1 tmp(1), of "[]" True max_links] tmp par none by (simp add: fs_write_def)
  with run d gone undone show ?thesis
    by (auto simp: store_file_def Inr tg(2) split: sum.splits)
qed

lemma ws_inv_cong:
  "ws_root v = ws_root w \<Longrightarrow> ws_company v = ws_company w \<Longrightarrow> ws_fs v = ws_fs w \<Longrightarrow> ws_rows v = ws_rows w \<Longrightarrow>
     ws_inv w \<Longrightarrow> ws_inv v"
  unfolding ws_inv_def home_cong[of v w] by (simp add: ws_workspaces_root_def ws_company_root_def)

text \<open>No agent's directory is among the prefixes that a write below another may create.\<close>

lemma no_new_home:
  assumes "inside (agent_home w a) p" and "agent_home w i \<in> set (prefixes_of q)" and "q = p \<or> q = butlast p"
  shows "i = a"
proof -
  obtain k where "agent_home w i = take k q" using assms(2) by (auto simp: prefixes_of_def simp del: upt_Suc)
  then have "inside (agent_home w i) p" using assms(3)
    by (auto simp: inside_iff intro: exI[of _ "drop k q"] exI[of _ "drop k q @ [last p]"])
      (metis append.assoc append_butlast_last_id append_self_conv2 append_take_drop_id butlast.simps(1) home_ne)
  with below_home[OF assms(1)] show ?thesis by blast
qed

lemma inv_dirs:
  assumes inv: "ws_inv w" and row: "tbl_find wr_agent_id a (ws_rows w) = Some r"
    and p: "inside (agent_home w a) p" and d: "dirs_added (prefixes_of (butlast p)) (ws_fs w) fs'"
  shows "ws_inv (w\<lparr>ws_fs := fs'\<rparr>)"
proof -
  let ?w = "w\<lparr>ws_fs := fs'\<rparr>"
  have at: "fs_at fs' q = (if fs_at (ws_fs w) q = None \<and> q \<in> set (prefixes_of (butlast p))
      then Some NDir else fs_at (ws_fs w) q)" for q using d by (simp add: dirs_added_def)
  have home: "agent_home ?w i = agent_home w i" and root: "ws_workspaces_root ?w = ws_workspaces_root w" for i
    by (simp_all add: agent_home_def ws_workspaces_root_def ws_company_root_def)
  have "tbl_find wr_agent_id i (ws_rows w) \<noteq> None" if "fs_at fs' (agent_home w i) \<noteq> None" for i
  proof (cases "fs_at (ws_fs w) (agent_home w i)")
    case None
    with that have "agent_home w i \<in> set (prefixes_of (butlast p))" by (simp add: at split: if_splits)
    from no_new_home[OF p this] row show ?thesis by simp
  next
    case (Some n)
    with inv show ?thesis by (simp add: ws_inv_def)
  qed
  moreover have "tree_ok fs'" "tree_size fs' q = tree_size (ws_fs w) q" for q
    using d by (simp_all add: dirs_added_def)
  ultimately show ?thesis
    using inv unfolding ws_inv_def home root by (auto simp: at)
qed

lemma stat_size_tree:
  assumes "tree_ok (ws_fs w)" and "plain p" and "fs_at (ws_fs w) p \<noteq> Some NDir"
  shows "stat_size w p = at_bytes (fs_at (ws_fs w) p)"
  using assms tree_linkless[OF assms(1), of p]
  by (cases "fs_at (ws_fs w) p") (auto simp: stat_size_def stat_tree node_size_def split: node.split)

lemma inv_stored:
  assumes inv: "ws_inv w" and row: "tbl_find wr_agent_id a (ws_rows w) = Some r"
    and p: "plain p" "inside (agent_home w a) p" and free: "fs_at (ws_fs w) (tmp_of p) = None"
    and run: "store_file p data (ws_fs w) = (None, fs')"
  shows "ws_inv (w\<lparr>ws_fs := fs', ws_rows := tbl_upd wr_agent_id a
      (set_used (wr_used r + (int (length data) - stat_size w p))) (ws_rows w)\<rparr>)"
proof -
  let ?u = "wr_used r + (int (length data) - stat_size w p)"
  let ?w = "w\<lparr>ws_fs := fs', ws_rows := tbl_upd wr_agent_id a (set_used ?u) (ws_rows w)\<rparr>"
  have tree: "tree_ok (ws_fs w)" using inv by (simp add: ws_inv_def)
  have ne: "p \<noteq> []" using p(2) by (auto simp: inside_iff)
  obtain fs1 where d: "dirs_added (prefixes_of (butlast p)) (ws_fs w) fs1"
    and fs': "fs' = fs_put p (NFile data) fs1" and nodir: "fs_at fs1 p \<noteq> Some NDir" and tree': "tree_ok fs'"
    by (rule store_tree[OF tree p(1) ne free run])
  have mid: "ws_inv (w\<lparr>ws_fs := fs1\<rparr>)" by (rule inv_dirs[OF inv row p(2) d])
  have home: "agent_home ?w i = agent_home w i" "agent_home (w\<lparr>ws_fs := fs1\<rparr>) i = agent_home w i"
    and root: "ws_workspaces_root ?w = ws_workspaces_root w"
      "ws_workspaces_root (w\<lparr>ws_fs := fs1\<rparr>) = ws_workspaces_root w" for i
    by (simp_all add: agent_home_def ws_workspaces_root_def ws_company_root_def)
  have row_in: "r \<in> set (ws_rows w)" "wr_agent_id r = a" using tbl_find_Some_in[OF row] by auto
  have dirs1: "fs_at fs1 (agent_home w (wr_agent_id x)) = Some NDir" if "x \<in> set (ws_rows w)" for x
    using mid that unfolding ws_inv_def home by simp
  have pne: "p \<noteq> agent_home w (wr_agent_id x)" if "x \<in> set (ws_rows w)" for x
    using dirs1[OF that] nodir by auto
  have tree1: "tree_ok fs1" using d by (simp add: dirs_added_def)
  have at1: "fs_at (ws_fs w) p \<noteq> Some NDir" "at_bytes (fs_at (ws_fs w) p) = at_bytes (fs_at fs1 p)"
    using d nodir unfolding dirs_added_def by (metis (no_types, lifting))+
  have size: "tree_size fs' q = tree_size (ws_fs w) q + (if below q p then int (length data) - stat_size w p else 0)" for q
    using d ne tree1 unfolding fs' stat_size_tree[OF tree p(1) at1(1)] at1(2)
    by (simp add: put_size dirs_added_def tree_ok_def)
  have below: "below (agent_home w (wr_agent_id x)) p \<longleftrightarrow> wr_agent_id x = a" if "x \<in> set (ws_rows w)" for x
    using below_home[OF p(2), of "wr_agent_id x"] pne[OF that] by (auto simp: below_def p(2))
  have rows: "valid_workspace_id (wr_agent_id x) \<and> fs_at fs' (agent_home w (wr_agent_id x)) = Some NDir \<and>
      wr_used x = tree_size fs' (agent_home w (wr_agent_id x))"
    if x: "x \<in> set (tbl_upd wr_agent_id a (set_used ?u) (ws_rows w))" for x
  proof -
    obtain y where y: "y \<in> set (ws_rows w)" "x = (if wr_agent_id y = a then set_used ?u y else y)"
      using x unfolding set_tbl_upd by blast
    then have "wr_agent_id x = wr_agent_id y" by (simp add: set_used_def)
    moreover have "y = r" if "wr_agent_id y = a"
      using tbl_find_in[of wr_agent_id "ws_rows w" y] inv y(1) row that by (simp add: ws_inv_def)
    moreover have "wr_used y = tree_size (ws_fs w) (agent_home w (wr_agent_id y))"
      "valid_workspace_id (wr_agent_id y)" using inv y(1) by (auto simp: ws_inv_def)
    moreover have "fs_at fs' (agent_home w (wr_agent_id y)) = Some NDir"
      using dirs1[OF y(1)] pne[OF y(1)] by (simp add: fs')
    ultimately show ?thesis using size below[OF y(1)] y(2) row_in by (auto simp: set_used_def)
  qed
  have "tbl_find wr_agent_id i (ws_rows w) \<noteq> None" if "fs_at fs' (agent_home w i) \<noteq> None" for i
  proof (cases "agent_home w i = p")
    case True
    then have "inside (agent_home w i) p" by (simp add: inside_def)
    with below_home[OF p(2)] have "i = a" by blast
    with row show ?thesis by simp
  next
    case False
    with that have "fs_at fs1 (agent_home w i) \<noteq> None" by (simp add: fs')
    with mid show ?thesis unfolding ws_inv_def home by simp
  qed
  then have "\<forall>i. fs_at fs' (agent_home w i) \<noteq> None \<longrightarrow>
      tbl_find wr_agent_id i (tbl_upd wr_agent_id a (set_used ?u) (ws_rows w)) \<noteq> None"
    by (simp add: used_upd.find_upd)
  with rows tree' inv show ?thesis
    unfolding ws_inv_def home root by (simp add: used_upd.pk_upd)
qed

lemma absent_size:
  assumes "tree_ok fs" and "fs_at fs p = None" shows "tree_size fs p = 0"
proof -
  have "\<not> below p q" if "(q, n) \<in> set fs" for q n
  proof
    assume "below p q"
    then obtain s where "q = p @ s" "s \<noteq> []" by (auto simp: below_def inside_iff)
    with tree_above[OF assms(1), of p s] tree_entry[OF assms(1) that] assms(2) show False by simp
  qed
  then have "filter (\<lambda>e. below p (fst e)) fs = []" by (auto simp: filter_empty_conv)
  then show ?thesis by (simp add: tree_size_def)
qed

text \<open>After the directory of an agent was made.\<close>

lemma home_made:
  assumes inv: "ws_inv w" and valid: "valid_workspace_id a" and run: "fs_mkdirs (ws_agent_dir w a) (ws_fs w) = Inr fs'"
  shows "tree_ok fs'" and "tree_size fs' q = tree_size (ws_fs w) q"
    and "fs_at fs' (agent_home w a) = Some NDir"
    and "fs_at (ws_fs w) q = Some n \<Longrightarrow> fs_at fs' q = Some n"
    and "fs_at fs' (agent_home w i) \<noteq> None \<Longrightarrow> i = a \<or> fs_at (ws_fs w) (agent_home w i) \<noteq> None"
proof -
  have d: "dirs_added (prefixes_of (agent_home w a)) (ws_fs w) fs'"
    by (rule mkdirs_tree) (use inv valid run in \<open>auto simp: ws_inv_def valid_dir home_plain\<close>)
  then show "tree_ok fs'" "tree_size fs' q = tree_size (ws_fs w) q" by (simp_all add: dirs_added_def)
  show "fs_at fs' (agent_home w a) = Some NDir"
    using d prefixes_self[of "agent_home w a"] unfolding dirs_added_def by blast
  have at: "fs_at fs' q = (if fs_at (ws_fs w) q = None \<and> q \<in> set (prefixes_of (agent_home w a))
      then Some NDir else fs_at (ws_fs w) q)" for q using d by (simp add: dirs_added_def)
  show "fs_at (ws_fs w) q = Some n \<Longrightarrow> fs_at fs' q = Some n" by (simp add: at)
  show "i = a \<or> fs_at (ws_fs w) (agent_home w i) \<noteq> None" if "fs_at fs' (agent_home w i) \<noteq> None"
    using no_new_home[of w a "agent_home w a" i "agent_home w a"] that
    by (auto simp: at inside_def split: if_splits)
qed

lemma create_inv:
  assumes inv: "ws_inv w" shows "ws_inv (snd (ws_create_for_agent now a mb w))"
proof (cases "mb < 0 \<or> \<not> valid_workspace_id a \<or> tbl_find wr_agent_id a (ws_rows w) \<noteq> None")
  case True
  with inv show ?thesis by (auto simp: ws_create_for_agent_def)
next
  case False
  define row where "row = \<lparr>wr_agent_id = a, wr_quota = megabytes mb, wr_used = 0, wr_created_at = now\<rparr>"
  show ?thesis
  proof (cases "fs_mkdirs (ws_agent_dir w a) (ws_fs w)")
    case (Inl e)
    with False inv show ?thesis by (simp add: ws_create_for_agent_def ws_mkdir_def)
  next
    case (Inr fs')
    let ?w = "w\<lparr>ws_rows := ws_rows w @ [row], ws_fs := fs'\<rparr>"
    have valid: "valid_workspace_id a" using False by simp
    note made = home_made[OF inv valid Inr]
    have home: "agent_home ?w i = agent_home w i" and root: "ws_workspaces_root ?w = ws_workspaces_root w" for i
      by (simp_all add: agent_home_def ws_workspaces_root_def ws_company_root_def)
    have none: "tbl_find wr_agent_id a (ws_rows w) = None" using False by simp
    then have "fs_at (ws_fs w) (agent_home w a) = None" using inv by (auto simp: ws_inv_def)
    then have "tree_size fs' (agent_home w a) = 0"
      using absent_size[of "ws_fs w" "agent_home w a"] inv made(2) by (simp add: ws_inv_def)
    moreover have "tbl_pk wr_agent_id (ws_rows w @ [row])"
      using tbl_pk_insert[of wr_agent_id "ws_rows w" row] inv none by (simp add: ws_inv_def row_def)
    moreover have "tbl_find wr_agent_id i (ws_rows w @ [row]) \<noteq> None" if "fs_at fs' (agent_home w i) \<noteq> None" for i
      using made(5)[OF that] inv by (auto simp: tbl_find_append row_def ws_inv_def split: option.split)
    ultimately have "ws_inv ?w"
      using inv made(1-4) valid unfolding ws_inv_def home root by (auto simp: row_def)
    with False Inr show ?thesis
      by (simp add: ws_create_for_agent_def ws_mkdir_def row_def[symmetric])
  qed
qed

lemma rows_quota_inv:
  assumes "ws_inv w" shows "ws_inv (w\<lparr>ws_rows := tbl_upd wr_agent_id a (set_quota q) (ws_rows w)\<rparr>)"
proof -
  let ?w = "w\<lparr>ws_rows := tbl_upd wr_agent_id a (set_quota q) (ws_rows w)\<rparr>"
  have home: "agent_home ?w i = agent_home w i" and root: "ws_workspaces_root ?w = ws_workspaces_root w" for i
    by (simp_all add: agent_home_def ws_workspaces_root_def ws_company_root_def)
  show ?thesis
    using assms unfolding ws_inv_def home root
    by (auto simp: quota_upd.pk_upd quota_upd.find_upd set_tbl_upd set_quota_def)
qed

lemma ensure_inv:
  assumes inv: "ws_inv w" shows "ws_inv (snd (ws_ensure_for_agent now a mb w))"
proof (cases "mb < 0 \<or> \<not> valid_workspace_id a")
  case True
  with inv show ?thesis by (auto simp: ws_ensure_for_agent_def)
next
  case False
  then have valid: "valid_workspace_id a" by simp
  show ?thesis
  proof (cases "tbl_find wr_agent_id a (ws_rows w)")
    case None
    with False have "ws_ensure_for_agent now a mb w = ws_create_for_agent now a mb w"
      by (simp add: ws_ensure_for_agent_def ws_create_for_agent_def)
    with create_inv[OF inv] show ?thesis by simp
  next
    case (Some r)
    show ?thesis
    proof (cases "fs_mkdirs (ws_agent_dir w a) (ws_fs w)")
      case (Inl e)
      with False Some inv show ?thesis by (simp add: ws_ensure_for_agent_def ws_mkdir_def)
    next
      case (Inr fs')
      let ?w = "w\<lparr>ws_fs := fs'\<rparr>"
      note made = home_made[OF inv valid Inr]
      have home: "agent_home ?w i = agent_home w i" and root: "ws_workspaces_root ?w = ws_workspaces_root w" for i
        by (simp_all add: agent_home_def ws_workspaces_root_def ws_company_root_def)
      have "tbl_find wr_agent_id i (ws_rows w) \<noteq> None" if "fs_at fs' (agent_home w i) \<noteq> None" for i
        using made(5)[OF that] inv Some by (auto simp: ws_inv_def)
      then have "ws_inv ?w"
        using inv made(1,2,4) unfolding ws_inv_def home root by auto
      from rows_quota_inv[OF this, of a "megabytes mb"] False Some Inr show ?thesis
        by (cases w) (simp add: ws_ensure_for_agent_def ws_mkdir_def)
    qed
  qed
qed

lemma write_inv:
  assumes inv: "ws_inv w" and free: "\<And>p. ws_resolve w a rel = Inr p \<Longrightarrow> fs_at (ws_fs w) (tmp_of p) = None"
  shows "ws_inv (snd (ws_write a rel data w))"
proof (cases "ws_resolve w a rel")
  case (Inl e)
  with inv show ?thesis by (simp add: ws_write_def)
next
  case (Inr p)
  show ?thesis
  proof (cases "tbl_find wr_agent_id a (ws_rows w)")
    case None
    with Inr inv show ?thesis by (simp add: ws_write_def)
  next
    case (Some r)
    note p = resolve_tree(1,2)[OF inv Some Inr]
    have tree: "tree_ok (ws_fs w)" using inv by (simp add: ws_inv_def)
    have ne: "p \<noteq> []" using p(2) by (auto simp: inside_iff)
    let ?u = "wr_used r + (int (length data) - stat_size w p)"
    obtain oe fs' where run: "store_file p data (ws_fs w) = (oe, fs')" by (meson surj_pair)
    have fail: "ws_inv (w\<lparr>ws_fs := fs'\<rparr>)" if "oe = Some e" for e
    proof -
      have "fs' = ws_fs w \<or> dirs_added (prefixes_of (butlast p)) (ws_fs w) fs'"
        by (rule store_fail[OF tree p(1) ne free[OF Inr]]) (use run that in simp)
      with inv_dirs[OF inv Some p(2)] inv show ?thesis by auto
    qed
    have good: "ws_inv (w\<lparr>ws_fs := fs', ws_rows := tbl_upd wr_agent_id a (set_used ?u) (ws_rows w)\<rparr>)"
      if "oe = None"
      by (rule inv_stored[OF inv Some p free[OF Inr]]) (use run that in simp)
    have emit: "ws_inv (ws_emit k pl v) = ws_inv v" for k pl v
      using ws_inv_cong[of v "ws_emit k pl v"] ws_inv_cong[of "ws_emit k pl v" v]
      by (auto simp: ws_emit_def)
    show ?thesis
      using inv fail good
      by (cases oe) (auto simp: ws_write_def Inr Some Let_def run emit)
  qed
qed

lemma delete_inv:
  assumes inv: "ws_inv w" and valid: "valid_workspace_id a"
  shows "ws_inv (snd (ws_delete a rel w))"
proof (cases "ws_resolve w a rel")
  case (Inl e)
  with inv show ?thesis by (simp add: ws_delete_def)
next
  case (Inr p)
  have tree: "tree_ok (ws_fs w)" using inv by (simp add: ws_inv_def)
  have "fs_exists (ws_fs w) (agent_home w a)"
    using Inr by (auto simp: ws_resolve_def valid_dir[OF valid] split: if_splits)
  then have "fs_at (ws_fs w) (agent_home w a) \<noteq> None"
    using stat_tree[OF tree home_plain[OF _ valid]] inv by (auto simp: fs_exists_def ws_inv_def)
  then obtain r where row: "tbl_find wr_agent_id a (ws_rows w) = Some r" using inv by (auto simp: ws_inv_def)
  note p = resolve_tree(1,2)[OF inv row Inr]
  show ?thesis
  proof (cases "fs_at (ws_fs w) p")
    case None
    with inv show ?thesis by (simp add: ws_delete_def Inr stat_tree[OF tree p(1)])
  next
    case (Some n)
    show ?thesis
    proof (cases n)
      case NDir
      with Some inv show ?thesis by (simp add: ws_delete_def Inr stat_tree[OF tree p(1)])
    next
      case (NLink t)
      with Some tree_linkless[OF tree] show ?thesis by auto
    next
      case (NFile d)
      let ?f = "drop_used (int (length d))"
      let ?w = "w\<lparr>ws_fs := fs_del p (ws_fs w), ws_rows := tbl_upd wr_agent_id a ?f (ws_rows w)\<rparr>"
      have ne: "p \<noteq> []" using p(2) by (auto simp: inside_iff)
      have home: "agent_home ?w i = agent_home w i" and root: "ws_workspaces_root ?w = ws_workspaces_root w" for i
        by (simp_all add: agent_home_def ws_workspaces_root_def ws_company_root_def)
      have size: "tree_size (fs_del p (ws_fs w)) q = tree_size (ws_fs w) q - (if below q p then int (length d) else 0)" for q
        using tree ne Some NFile by (simp add: del_size tree_ok_def)
      have rows: "valid_workspace_id (wr_agent_id x) \<and> fs_at (fs_del p (ws_fs w)) (agent_home w (wr_agent_id x)) = Some NDir \<and>
          wr_used x = tree_size (fs_del p (ws_fs w)) (agent_home w (wr_agent_id x))"
        if x: "x \<in> set (tbl_upd wr_agent_id a ?f (ws_rows w))" for x
      proof -
        obtain y where y: "y \<in> set (ws_rows w)" "x = (if wr_agent_id y = a then ?f y else y)"
          using x unfolding set_tbl_upd by blast
        let ?h = "agent_home w (wr_agent_id y)"
        have old: "valid_workspace_id (wr_agent_id y)" "fs_at (ws_fs w) ?h = Some NDir" "wr_used y = tree_size (ws_fs w) ?h"
          using inv y(1) by (auto simp: ws_inv_def)
        have pne: "p \<noteq> ?h" using old(2) Some NFile by auto
        have b: "below ?h p \<longleftrightarrow> wr_agent_id y = a"
          using below_home[OF p(2), of "wr_agent_id y"] pne by (auto simp: below_def p(2))
        then have "int (length d) \<le> wr_used y" if "wr_agent_id y = a"
          using tree_size_entry[OF tree Some _ ne, of ?h] that old(3) NFile by simp
        then have "wr_used x = tree_size (fs_del p (ws_fs w)) ?h"
          using old(3) size[of ?h] b y(2) by (simp add: drop_used_def set_used_def)
        moreover have "wr_agent_id x = wr_agent_id y" using y(2) by (simp add: drop_used_def set_used_def)
        moreover have "fs_at (fs_del p (ws_fs w)) ?h = Some NDir" using old(2) pne by simp
        ultimately show ?thesis using old(1) by simp
      qed
      have "tbl_find wr_agent_id i (tbl_upd wr_agent_id a ?f (ws_rows w)) \<noteq> None"
        if "fs_at (fs_del p (ws_fs w)) (agent_home w i) \<noteq> None" for i
        using that inv by (auto simp: drop_upd.find_upd ws_inv_def split: if_splits)
      then have "ws_inv ?w"
        using rows del_tree[OF tree, of p] Some NFile inv unfolding ws_inv_def home root by (simp add: drop_upd.pk_upd)
      then show ?thesis
        using unlink_file[OF tree p(1)] Some NFile
        by (simp add: ws_delete_def Inr stat_tree[OF tree p(1)] node_size_def)
    qed
  qed
qed

lemma tbl_find_del: "tbl_find key j (tbl_del key k t) = (if j = k then None else tbl_find key j t)"
  by (induction t) (auto simp: tbl_del_def)

lemma delete_agent_inv:
  assumes inv: "ws_inv w" and valid: "valid_workspace_id a"
  shows "ws_inv (snd (ws_delete_for_agent a w))"
proof -
  have tree: "tree_ok (ws_fs w)" and plain: "plain (agent_home w a)"
    using inv valid by (auto simp: ws_inv_def home_plain)
  have ex: "fs_exists (ws_fs w) (agent_home w a) \<longleftrightarrow> fs_at (ws_fs w) (agent_home w a) \<noteq> None"
    by (simp add: fs_exists_def stat_tree[OF tree plain])
  have found: "tbl_find wr_agent_id i (tbl_del wr_agent_id a (ws_rows w)) =
      (if i = a then None else tbl_find wr_agent_id i (ws_rows w))" for i
    by (rule tbl_find_del)
  have pk: "tbl_pk wr_agent_id (tbl_del wr_agent_id a (ws_rows w))"
    using inv distinct_map_filter[of wr_agent_id "ws_rows w"] by (simp add: ws_inv_def tbl_pk_def tbl_del_def)
  show ?thesis
  proof (cases "fs_at (ws_fs w) (agent_home w a)")
    case None
    let ?w = "w\<lparr>ws_rows := tbl_del wr_agent_id a (ws_rows w)\<rparr>"
    have home: "agent_home ?w i = agent_home w i" and root: "ws_workspaces_root ?w = ws_workspaces_root w" for i
      by (simp_all add: agent_home_def ws_workspaces_root_def ws_company_root_def)
    have "ws_inv ?w"
      using inv pk None unfolding ws_inv_def home root by (auto simp: found) (auto simp: tbl_del_def)
    then show ?thesis using None ex by (simp add: ws_delete_for_agent_def valid_dir[OF valid])
  next
    case (Some n)
    have dir: "fs_at (ws_fs w) (agent_home w a) = Some NDir"
    proof -
      obtain r where "tbl_find wr_agent_id a (ws_rows w) = Some r" using inv Some by (auto simp: ws_inv_def)
      with inv show ?thesis by (auto simp: ws_inv_def dest!: tbl_find_Some_in)
    qed
    let ?fs = "filter (\<lambda>e. \<not> inside (agent_home w a) (fst e)) (ws_fs w)"
    note rm = rmtree_tree[OF tree plain home_ne dir]
    let ?w = "w\<lparr>ws_rows := tbl_del wr_agent_id a (ws_rows w), ws_fs := ?fs\<rparr>"
    have home: "agent_home ?w i = agent_home w i" and root: "ws_workspaces_root ?w = ws_workspaces_root w" for i
      by (simp_all add: agent_home_def ws_workspaces_root_def ws_company_root_def)
    have at: "fs_at ?fs (agent_home w i) = (if i = a then None else fs_at (ws_fs w) (agent_home w i))" for i
    proof -
      have "map_of ?fs q = (if inside (agent_home w a) q then None else map_of (ws_fs w) q)" for q
        using map_of_filter_key[of "\<lambda>k. \<not> inside (agent_home w a) k" "ws_fs w"] by simp
      moreover have "inside (agent_home w a) (agent_home w i) \<longleftrightarrow> i = a"
        by (auto simp: inside_def agent_home_def)
      ultimately show ?thesis by (simp add: fs_at_def)
    qed
    have size: "tree_size ?fs (agent_home w i) = tree_size (ws_fs w) (agent_home w i)" if "i \<noteq> a" for i
    proof -
      have "\<not> inside (agent_home w a) q" if "below (agent_home w i) q" for q
        using below_home[of w i q a] that \<open>i \<noteq> a\<close> by (auto simp: below_def)
      then have "filter (\<lambda>e. below (agent_home w i) (fst e)) ?fs = filter (\<lambda>e. below (agent_home w i) (fst e)) (ws_fs w)"
        by (auto intro: filter_cong)
      then show ?thesis by (simp add: tree_size_def)
    qed
    have "ws_inv ?w"
      using inv pk rm(2) size unfolding ws_inv_def home root
      by (auto simp: found at) (auto simp: tbl_del_def at)
    then show ?thesis using Some ex rm(1) by (simp add: ws_delete_for_agent_def valid_dir[OF valid])
  qed
qed

lemma no_drift:
  assumes "ws_inv w" and "r \<in> set (ws_rows w)" shows "row_drift w r = 0"
proof -
  have "plain (agent_home w (wr_agent_id r))" "valid_workspace_id (wr_agent_id r)"
    using assms by (auto simp: ws_inv_def home_plain)
  with assms dir_size_tree[of "ws_fs w" "agent_home w (wr_agent_id r)" NDir] show ?thesis
    by (simp add: row_drift_def valid_dir ws_inv_def)
qed

lemma reconcile_exact: "ws_inv w \<Longrightarrow> ws_reconcile_quota w = (Inr [], w)"
proof -
  assume inv: "ws_inv w"
  have "filter (\<lambda>r. row_drift w r \<noteq> 0) (ws_rows w) = []"
    using no_drift[OF inv] by (simp add: filter_empty_conv)
  moreover have "map (\<lambda>r. if row_drift w r \<noteq> 0 then set_used (wr_used r + row_drift w r) r else r) (ws_rows w) = ws_rows w"
    using no_drift[OF inv] by (intro map_idI) simp
  ultimately show ?thesis by (simp add: ws_reconcile_quota_def)
qed

text \<open>The operations on agents with valid ids, on files whose temporary name is free.\<close>

inductive ws_step :: "workspace \<Rightarrow> workspace \<Rightarrow> bool" where
  wss_create: "ws_step w (snd (ws_create_for_agent now a mb w))"
| wss_ensure: "ws_step w (snd (ws_ensure_for_agent now a mb w))"
| wss_delete_agent: "valid_workspace_id a \<Longrightarrow> ws_step w (snd (ws_delete_for_agent a w))"
| wss_write: "(\<And>p. ws_resolve w a rel = Inr p \<Longrightarrow> fs_at (ws_fs w) (tmp_of p) = None) \<Longrightarrow>
    ws_step w (snd (ws_write a rel data w))"
| wss_delete: "valid_workspace_id a \<Longrightarrow> ws_step w (snd (ws_delete a rel w))"
| wss_reconcile: "ws_step w (snd (ws_reconcile_quota w))"
| wss_limit: "ws_step w (snd (q_set_limit sc mb w))"

definition ws_init :: "workspace \<Rightarrow> bool" where
  "ws_init w \<longleftrightarrow> tree_ok (ws_fs w) \<and> plain (ws_workspaces_root w) \<and> ws_rows w = [] \<and>
     (\<forall>i. fs_at (ws_fs w) (agent_home w i) = None)"

lemma set_limit_inv:
  assumes "ws_inv w" shows "ws_inv (snd (q_set_limit sc mb w))"
proof (cases sc)
  case CompanyQuota
  with ws_inv_cong[of "snd (q_set_limit sc mb w)" w] assms show ?thesis by (simp add: q_set_limit_def)
next
  case (AgentQuota a)
  with rows_quota_inv[OF assms] assms show ?thesis by (simp add: q_set_limit_def)
qed

interpretation workspaces: invariant_system ws_init ws_step ws_inv
proof unfold_locales
  show "ws_inv w" if "ws_init w" for w using that by (simp add: ws_init_def ws_inv_def tbl_pk_def)
  show "ws_inv t" if "ws_inv s" and "ws_step s t" for s t
    using that(2)
    by cases (use that(1) create_inv ensure_inv delete_agent_inv write_inv delete_inv set_limit_inv
        in \<open>auto simp: reconcile_exact\<close>)
qed

section \<open>Examples\<close>

definition demo_ws0 :: workspace where
  "demo_ws0 =
     \<lparr>ws_root = [''d''], ws_company = ''c'',
      ws_fs = [([''d''], NDir)], ws_rows = [],
      ws_company_quota = Some 1048576, ws_dir_size = (\<lambda>_. 4096), ws_mtime = (\<lambda>_. 0), ws_emitted = []\<rparr>"

definition demo_ws1 :: workspace where
  "demo_ws1 = snd (ws_create_for_agent 0 ''a'' 1 demo_ws0)"

text \<open>A write by an agent with one megabyte that stays below the warning level, and the state it
  leaves.\<close>

definition small_write :: "string \<Rightarrow> string \<Rightarrow> string \<Rightarrow> workspace \<Rightarrow> bool" where
  "small_write a rel data w =
     (case ws_resolve w a rel of
        Inl _ \<Rightarrow> False
      | Inr p \<Rightarrow>
          \<not> list_ex (fs_is_symlink (ws_fs w)) (probes (ws_agent_dir w a) rel) \<and>
          (case tbl_find wr_agent_id a (ws_rows w) of
             None \<Rightarrow> False
           | Some r \<Rightarrow>
               wr_quota r = 1048576 \<and> wr_used r + (int (length data) - stat_size w p) < 943718 \<and>
               company_used w + (int (length data) - stat_size w p) \<le> company_limit w \<and>
               fst (store_file p data (ws_fs w)) = None))"

definition written :: "string \<Rightarrow> string \<Rightarrow> string \<Rightarrow> workspace \<Rightarrow> workspace" where
  "written a rel data w =
     (case ws_resolve w a rel of
        Inl _ \<Rightarrow> w
      | Inr p \<Rightarrow>
          (case tbl_find wr_agent_id a (ws_rows w) of
             None \<Rightarrow> w
           | Some r \<Rightarrow>
               w\<lparr>ws_fs := snd (store_file p data (ws_fs w)),
                 ws_rows := tbl_upd wr_agent_id a
                   (set_used (wr_used r + (int (length data) - stat_size w p))) (ws_rows w)\<rparr>))"

lemma no_warning: "n < 943718 \<Longrightarrow> \<not> crosses_warning 1048576 u n"
proof -
  have "fl (WARNING_RATIO * of_int 1048576) = 8106479329266893 / 8589934592"
    by (simp add: WARNING_RATIO_def fl_eval)
  moreover assume "n < 943718"
  then have "(of_int n :: rat) < 943718" by simp
  moreover have "(943718 :: rat) < 8106479329266893 / 8589934592" by simp
  ultimately show ?thesis unfolding crosses_warning_def by (metis not_le order.strict_trans)
qed

lemma small_write_run:
  assumes "small_write a rel data w"
  shows "\<exists>res. ws_write a rel data w = (Inr res, written a rel data w)"
proof -
  obtain p r where p: "ws_resolve w a rel = Inr p" "tbl_find wr_agent_id a (ws_rows w) = Some r"
    "\<not> list_ex (fs_is_symlink (ws_fs w)) (probes (ws_agent_dir w a) rel)" "wr_quota r = 1048576"
    "wr_used r + (int (length data) - stat_size w p) < 943718"
    "company_used w + (int (length data) - stat_size w p) \<le> company_limit w"
    "fst (store_file p data (ws_fs w)) = None"
    using assms by (auto simp: small_write_def split: sum.splits option.splits)
  moreover obtain fs where "store_file p data (ws_fs w) = (None, fs)"
    using p(7) by (metis prod.collapse)
  ultimately show ?thesis
    using no_warning[OF p(5)] by (simp add: ws_write_def written_def Let_def)
qed

lemma small_write_snd: "small_write a rel data w \<Longrightarrow> snd (ws_write a rel data w) = written a rel data w"
  using small_write_run by fastforce

definition demo_ws :: workspace where
  "demo_ws = written ''a'' ''x/y'' ''hello'' demo_ws1"

lemma demo_ws_write: "demo_ws = snd (ws_write ''a'' ''x/y'' ''hello'' demo_ws1)"
proof -
  have "small_write ''a'' ''x/y'' ''hello'' demo_ws1" by code_simp
  from small_write_snd[OF this] show ?thesis by (simp add: demo_ws_def)
qed

lemma demo_small: "small_write ''a'' ''x/z'' ''hi'' demo_ws" "small_write ''a'' ''x/./z'' ''hi'' demo_ws"
  by code_simp+

lemma demo_ws0_init: "ws_init demo_ws0"
  by (auto simp: ws_init_def demo_ws0_def tree_ok_def ws_workspaces_root_def ws_company_root_def
      fs_at_def agent_home_def)

lemma demo_ws1_reach: "reach ws_init ws_step demo_ws1"
proof -
  have "reach ws_init ws_step demo_ws0" by (rule reach_init) (rule demo_ws0_init)
  then show ?thesis unfolding demo_ws1_def by (rule reach_step) (rule wss_create)
qed

lemma demo_ws_reach: "reach ws_init ws_step demo_ws"
  unfolding demo_ws_write
proof (rule reach_step, rule demo_ws1_reach, rule wss_write)
  fix p assume "ws_resolve demo_ws1 ''a'' ''x/y'' = Inr p"
  moreover have "ws_resolve demo_ws1 ''a'' ''x/y'' = Inr [''d'', ''companies'', ''c'', ''workspaces'', ''a'', ''x'', ''y'']"
    by code_simp
  ultimately have "p = [''d'', ''companies'', ''c'', ''workspaces'', ''a'', ''x'', ''y'']" by simp
  moreover have "fs_at (ws_fs demo_ws1) (tmp_of [''d'', ''companies'', ''c'', ''workspaces'', ''a'', ''x'', ''y'']) = None"
    by code_simp
  ultimately show "fs_at (ws_fs demo_ws1) (tmp_of p) = None" by simp
qed

lemma demo_ws_used: "map wr_used (ws_rows demo_ws) = [5]"
  by code_simp

lemma mkdirs_errors: "fs_mkdirs p fs = Inl e \<Longrightarrow> e = PyOSError ''mkdir''"
proof -
  have one: "mkdir_one q r = Inl e \<Longrightarrow> r = Inl e \<or> e = PyOSError ''mkdir''" for q r
    by (cases r) (auto simp: mkdir_one_def split: if_splits option.splits)
  have "fold mkdir_one ps r = Inl e \<Longrightarrow> r = Inl e \<or> e = PyOSError ''mkdir''" for ps r
  proof (induction ps arbitrary: r)
    case (Cons q ps)
    then show ?case using one[of q r] by auto
  qed simp
  then show "fs_mkdirs p fs = Inl e \<Longrightarrow> e = PyOSError ''mkdir''" by (auto simp: fs_mkdirs_def)
qed

lemma store_file_not_quota: "store_file p d fs = (Some e, fs') \<Longrightarrow> e \<noteq> QuotaExceeded m"
  by (auto simp: store_file_def fs_write_def fs_replace_def dest: mkdirs_errors
      split: sum.splits if_splits option.splits)

section \<open>Properties\<close>



text \<open>
  C33. Quotas hold: a write that returns leaves the agent within its quota and the company within
  the company's, and touches no other agent's row; a write that raises leaves all rows as they
  were, and when it raises QuotaExceeded the files too.
\<close>

theorem write_within_quota:
  assumes "tbl_pk wr_agent_id (ws_rows w)" and "ws_write a rel data w = (res, u)"
  shows "case res of
     Inr _ \<Rightarrow> (\<exists>r. tbl_find wr_agent_id a (ws_rows u) = Some r \<and> wr_used r \<le> wr_quota r) \<and>
       company_used u \<le> company_limit u \<and>
       (\<forall>b. b \<noteq> a \<longrightarrow> tbl_find wr_agent_id b (ws_rows u) = tbl_find wr_agent_id b (ws_rows w))
   | Inl e \<Rightarrow> ws_rows u = ws_rows w \<and> (\<forall>m. e = QuotaExceeded m \<longrightarrow> ws_fs u = ws_fs w)"
proof (cases "ws_resolve w a rel")
  case (Inl e)
  with assms(2) show ?thesis by (auto simp: ws_write_def)
next
  case (Inr p)
  show ?thesis
  proof (cases "list_ex (fs_is_symlink (ws_fs w)) (probes (ws_agent_dir w a) rel) \<or>
      tbl_find wr_agent_id a (ws_rows w) = None")
    case True
    with Inr assms(2) show ?thesis by (auto simp: ws_write_def split: if_splits)
  next
    case False
    then obtain r where row: "tbl_find wr_agent_id a (ws_rows w) = Some r" by auto
    let ?delta = "int (length data) - stat_size w p"
    show ?thesis
    proof (cases "wr_used r + ?delta \<le> wr_quota r \<and> company_used w + ?delta \<le> company_limit w")
      case over: False
      with False Inr row assms(2) show ?thesis
        by (auto simp: ws_write_def Let_def ws_emit_def split: if_splits)
    next
      case fits: True
      obtain oe fs where run: "store_file p data (ws_fs w) = (oe, fs)" by (meson surj_pair)
      show ?thesis
      proof (cases oe)
        case (Some e)
        with fits False Inr row run assms(2) store_file_not_quota[OF run[unfolded Some]] show ?thesis
          by (auto simp: ws_write_def Let_def)
      next
        case None
        let ?rows = "tbl_upd wr_agent_id a (set_used (wr_used r + ?delta)) (ws_rows w)"
        have "sum_list (map wr_used ?rows) = company_used w + ?delta"
          using sum_list_map_upd[OF assms(1) row, of wr_used] by (simp add: company_used_def set_used_def)
        moreover obtain ok where "res = Inr ok" and rows: "ws_rows u = ?rows" and cq: "ws_company_quota u = ws_company_quota w"
          using fits False Inr row run None assms(2)
          by (auto simp: ws_write_def Let_def ws_emit_def split: if_splits)
        ultimately show ?thesis
          using fits row by (simp add: company_used_def company_limit_def used_upd.find_upd set_used_def)
      qed
    qed
  qed
qed

lemma write_within_quota_witness:
  "company_used (snd (ws_write ''a'' ''x/z'' ''hi'' demo_ws)) \<le> company_limit (snd (ws_write ''a'' ''x/z'' ''hi'' demo_ws))"
proof -
  obtain res u where run: "ws_write ''a'' ''x/z'' ''hi'' demo_ws = (Inr res, u)"
    using small_write_run[OF demo_small(1)] by blast
  moreover have "tbl_pk wr_agent_id (ws_rows demo_ws)"
    using workspaces.reach_inv[OF demo_ws_reach] by (simp add: ws_inv_def)
  ultimately show ?thesis using write_within_quota[OF _ run] by simp
qed

lemma resolve_Inr:
  assumes "ws_resolve w a rel = Inr p"
  shows "p = fst (realpath (ws_fs w) (path_join (ws_agent_dir w a) rel))" "inside (ws_base_real w a) p"
  using assms by (simp_all add: ws_resolve_def Let_def split: if_splits)

lemma read_file_Inr:
  assumes "ws_read_file w a rel = Inr d"
  shows "\<exists>p. ws_resolve w a rel = Inr p \<and> fs_file (ws_fs w) p = Some d"
proof (cases "ws_resolve w a rel")
  case (Inr p)
  then show ?thesis using assms by (cases "fs_file (ws_fs w) p") (simp_all add: ws_read_file_def)
qed (use assms in \<open>simp add: ws_read_file_def\<close>)

text \<open>
  C34. What is read lies inside: when the path's resolution meets no loop of links, the bytes that a
  permitted read returns are those of a regular file whose real path (no links, no "..") is inside
  the owner's real directory; a reader whom the org chart does not allow gets nothing.
\<close>

theorem reads_stay_inside:
  assumes "ws_read_subordinate g reader owner rel w = (Inr d, u)"
    and "snd (realpath (ws_fs w) (path_join (ws_agent_dir w owner) rel))"
  shows "u = w \<and> org_can_read_workspace g reader owner \<and>
    (\<exists>p. inside (ws_base_real w owner) p \<and> plain p \<and> linkfree (ws_fs w) p \<and> fs_at (ws_fs w) p = Some (NFile d))"
proof -
  let ?real = "realpath (ws_fs w) (path_join (ws_agent_dir w owner) rel)"
  have allowed: "org_can_read_workspace g reader owner"
    using assms(1) by (cases "org_can_read_workspace g reader owner") (simp_all add: ws_read_subordinate_def)
  then have out: "(ws_read_file w owner rel, w) = (Inr d, u)"
    using assms(1) unfolding ws_read_subordinate_def by (simp only: if_not_P not_not simp_thms)
  have w: "u = w" and got: "ws_read_file w owner rel = Inr d"
    using out by blast+
  obtain p where p: "ws_resolve w owner rel = Inr p" "fs_file (ws_fs w) p = Some d"
    using read_file_Inr[OF got] by blast
  have real: "p = fst ?real" and stay: "inside (ws_base_real w owner) p"
    using resolve_Inr[OF p(1)] by simp_all
  have ok: "resolved_ok (ws_fs w) p"
    using realpath_resolved[of "ws_fs w" "path_join (ws_agent_dir w owner) rel" p] assms(2) real by (metis prod.collapse)
  obtain q where "fs_stat (ws_fs w) p = Some (q, NFile d)"
    using p(2) by (auto simp: fs_file_def split: option.splits node.splits)
  from stat_resolved(2)[OF ok this] ok stay allowed w show ?thesis by (auto simp: resolved_ok_def)
qed

lemma reads_stay_inside_witness:
  "\<exists>p. inside (ws_base_real demo_ws ''a'') p \<and> fs_at (ws_fs demo_ws) p = Some (NFile ''hello'')"
proof -
  have "fst (ws_read_subordinate \<lparr>og_agents = [], og_fire_pending = [], og_fire_requests = []\<rparr> ''a'' ''a'' ''x/../x/y'' demo_ws) = Inr ''hello''"
    by code_simp
  then obtain u where "ws_read_subordinate \<lparr>og_agents = [], og_fire_pending = [], og_fire_requests = []\<rparr> ''a'' ''a'' ''x/../x/y'' demo_ws = (Inr ''hello'', u)"
    by (metis prod.collapse)
  moreover have "snd (realpath (ws_fs demo_ws) (path_join (ws_agent_dir demo_ws ''a'') ''x/../x/y''))"
    by code_simp
  ultimately show ?thesis using reads_stay_inside by blast
qed

text \<open>
  A looping link opens the workspace: with a link "loop" that points to itself and a link "evil"
  to a directory outside, the path "loop/../evil/passwd" is accepted and a file outside is read,
  although the workspace itself has no file at all.
\<close>

definition loop_ws :: workspace where
  "loop_ws =
     demo_ws1\<lparr>ws_fs := [([''etc''], NDir), ([''etc'', ''passwd''], NFile ''root'')] @
       [(ws_agent_dir demo_ws1 ''a'' @ [''loop''], NLink ''loop''),
        (ws_agent_dir demo_ws1 ''a'' @ [''evil''], NLink ''/etc'')] @ ws_fs demo_ws1\<rparr>"

definition own_files :: "workspace \<Rightarrow> string \<Rightarrow> (path \<times> node) list" where
  "own_files w a =
     filter (\<lambda>e. inside (ws_base_real w a) (fst e) \<and> (case snd e of NFile _ \<Rightarrow> True | _ \<Rightarrow> False)) (ws_fs w)"

theorem looping_link_escapes:
  "fst (ws_read_own ''a'' ''loop/../evil/passwd'' loop_ws) = Inr ''root'' \<and> own_files loop_ws ''a'' = []"
  by code_simp



text \<open>
  The temporary file destroys another: writing "x" when the agent has a file "x.tmp" succeeds,
  deletes that file, and leaves its bytes on the agent's account.
\<close>

definition tmp_ws0 :: workspace where
  "tmp_ws0 = snd (ws_write ''a'' ''x.tmp'' ''hello'' demo_ws1)"

definition tmp_ws :: workspace where
  "tmp_ws = snd (ws_write ''a'' ''x'' ''hi'' tmp_ws0)"

theorem tmp_file_swallowed:
  "fst (ws_read_own ''a'' ''x.tmp'' tmp_ws0) = Inr ''hello'' \<and>
   fst (ws_read_own ''a'' ''x.tmp'' tmp_ws) = Inl (FileNotFoundError ''x.tmp'') \<and>
   fst (ws_read_own ''a'' ''x'' tmp_ws) = Inr ''hi'' \<and> map wr_used (ws_rows tmp_ws) = [7] \<and>
   map (row_drift tmp_ws) (ws_rows tmp_ws) = [- 5]"
proof -
  let ?w0 = "written ''a'' ''x.tmp'' ''hello'' demo_ws1"
  have "small_write ''a'' ''x.tmp'' ''hello'' demo_ws1" by code_simp
  then have w0: "tmp_ws0 = ?w0" by (simp add: tmp_ws0_def small_write_snd)
  have "small_write ''a'' ''x'' ''hi'' ?w0" by code_simp
  then have w: "tmp_ws = written ''a'' ''x'' ''hi'' ?w0" by (simp add: tmp_ws_def w0 small_write_snd)
  show ?thesis unfolding w w0 by code_simp
qed

text \<open>Two facts for the record: an empty agent id names the directory of all workspaces, and no
  quota signal ever reaches the event store, since the sink knows the kinds by other names.\<close>

lemma empty_id_deletes_all:
  "fst (ws_delete_for_agent [] demo_ws) = Inr () \<and>
   fst (ws_read_own ''a'' ''x/y'' (snd (ws_delete_for_agent [] demo_ws))) = Inl (WorkspaceNotInitialized ''a'')"
  by code_simp

lemma quota_signals_dropped:
  "k \<in> {''quota_exceeded'', ''quota_warning'', ''quota_drift''} \<Longrightarrow> sink_emit (k, p) es = (Inr (), es)"
  by (auto simp: sink_emit_def sink_supported_def)

end
