(* ===== verification/Services.thy ===== *)
theory Services
  imports Identity_Org Cost_Budget Approvals_Model
begin

text \<open>
  What the pipelines of the tool layer and of the connector share: \<^verbatim>\<open>str(exc)\<close>, and the bundle of
  collaborators of one company (identity, cost, approvals, the event store) as one state, with the
  operations of each collaborator run on its part of it. The record is extended by the parts a
  pipeline adds; the callbacks of a pipeline (executors) act on the whole bundle.
\<close>

section \<open>The text of an exception\<close>

text \<open>\<^verbatim>\<open>str(KeyError(k))\<close> is the \<^verbatim>\<open>repr\<close> of the key: quoted (ids have no characters that are
  escaped).\<close>

fun exn_text :: "exn \<Rightarrow> string" where
  "exn_text (KeyError m) = [char_of (39 :: nat)] @ m @ [char_of (39 :: nat)]"
| "exn_text (ValueError m) = m"
| "exn_text (TypeError m) = m"
| "exn_text (OverflowError m) = m"
| "exn_text (RuntimeError m) = m"
| "exn_text (PermissionError m) = m"
| "exn_text (IntegrityError m) = m"
| "exn_text (OperationalError m) = m"
| "exn_text (UnknownEventKind m) = m"
| "exn_text (PayloadTooLarge m) = m"
| "exn_text (PayloadValidationError m) = m"
| "exn_text (HireDenied m) = m"
| "exn_text (FireDenied m) = m"
| "exn_text (CycleDetected m) = m"
| "exn_text (SpecialRoleProtected m) = m"
| "exn_text (CostOverBudget m) = m"
| "exn_text (UnknownReservation m) = m"
| "exn_text (ReservationAlreadyClosed m) = m"
| "exn_text (CostUnknownTool m) = m"
| "exn_text (InvalidPricingFormula m) = m"
| "exn_text (ApprovalNotFound m) = m"
| "exn_text (ApprovalConflict m) = m"
| "exn_text (InvalidTransition m) = m"
| "exn_text (IndexError m) = m"
| "exn_text (RedisUnavailable m) = m"
| "exn_text (InvalidTarget m) = m"
| "exn_text (UnknownTool m) = m"
| "exn_text (RoleNotAllowed m) = m"
| "exn_text (ArgsValidationError m) = m"
| "exn_text (ToolOverBudget m) = m"
| "exn_text (PendingApproval m) = m"
| "exn_text (ToolApprovalDenied m) = m"
| "exn_text (ExecutorFailure m) = m"
| "exn_text (ServiceNotAllowed m) = m"
| "exn_text (UnknownService m) = m"
| "exn_text (UnknownAction m) = m"
| "exn_text (MissingCredential m) = m"
| "exn_text (MalformedResponse m) = m"
| "exn_text (RateLimited r) = ''retry_after='' @ fmt2 r @ ''s''"
| "exn_text (ExternalServiceFailure m) = m"
| "exn_text (PendingApprovalError m) = m"
| "exn_text (ApprovalDeniedError m) = m"
| "exn_text (LinkNotFound m) = m"
| "exn_text (LinkNotApproved m) = m"
| "exn_text (DirectionMismatch m) = m"
| "exn_text (ScopeViolation m) = m"
| "exn_text (CrossPayloadTooLarge m) = m"
| "exn_text (CrossRateLimited m) = m"
| "exn_text (TargetUnavailable m) = m"
| "exn_text (QuotaExceeded m) = m"
| "exn_text (PermissionDenied m) = m"
| "exn_text (PathOutsideWorkspace m) = m"
| "exn_text (CompanyNotFound m) = m"
| "exn_text (CorruptDatabase m) = m"
| "exn_text (WorkspaceNotInitialized m) = m"
| "exn_text (PolicyViolation m) = m"
| "exn_text (ToolPermissionDenied m) = m"
| "exn_text (FileNotFoundError m) = m"
| "exn_text (IsADirectoryError m) = m"
| "exn_text (NotADirectoryError m) = m"
| "exn_text (PyOSError m) = m"
| "exn_text (MemoryPermissionDenied m) = m"
| "exn_text (EmbeddingDimensionMismatch m) = m"
| "exn_text (MemoryTooLarge m) = m"
| "exn_text (FindingNotFound m) = m"
| "exn_text (EffInvalidTransition m) = m"
| "exn_text (ConnectorError m) = m"
| "exn_text (LLMFailure m) = m"
| "exn_text (TurnTimeout m) = m"
| "exn_text (TimeoutError m) = m"
| "exn_text (PersonaLoadError m) = m"

section \<open>Values of output classes\<close>

text \<open>An instance of an output class: the classes it is an instance of, and its \<^verbatim>\<open>model_dump\<close>.\<close>

record output_model =
  om_classes :: "string list"
  om_dump :: payload

definition first_class :: "output_model \<Rightarrow> string" where
  "first_class out = (case om_classes out of [] \<Rightarrow> ''object'' | c # _ \<Rightarrow> c)"

section \<open>The bundle and its views\<close>

record services =
  sv_org :: org
  sv_cost :: cost
  sv_appr :: approvals
  sv_events :: event_store

definition through ::
  "('w \<Rightarrow> 's) \<Rightarrow> ('s \<Rightarrow> 'w \<Rightarrow> 'w) \<Rightarrow> ('s \<Rightarrow> ('a, 's) outcome) \<Rightarrow> 'w \<Rightarrow> ('a, 'w) outcome" where
  "through get put f w = (case f (get w) of (r, s) \<Rightarrow> (r, put s w))"

definition get_org :: "'x services_scheme \<Rightarrow> org \<times> event_store" where
  "get_org w = (sv_org w, sv_events w)"

definition put_org :: "org \<times> event_store \<Rightarrow> 'x services_scheme \<Rightarrow> 'x services_scheme" where
  "put_org s w = w\<lparr>sv_org := fst s, sv_events := snd s\<rparr>"

definition get_cost :: "'x services_scheme \<Rightarrow> cost \<times> event_store" where
  "get_cost w = (sv_cost w, sv_events w)"

definition put_cost :: "cost \<times> event_store \<Rightarrow> 'x services_scheme \<Rightarrow> 'x services_scheme" where
  "put_cost s w = w\<lparr>sv_cost := fst s, sv_events := snd s\<rparr>"

definition get_appr :: "'x services_scheme \<Rightarrow> approvals \<times> event_store" where
  "get_appr w = (sv_appr w, sv_events w)"

definition put_appr :: "approvals \<times> event_store \<Rightarrow> 'x services_scheme \<Rightarrow> 'x services_scheme" where
  "put_appr s w = w\<lparr>sv_appr := fst s, sv_events := snd s\<rparr>"

definition put_events :: "event_store \<Rightarrow> 'x services_scheme \<Rightarrow> 'x services_scheme" where
  "put_events s w = w\<lparr>sv_events := s\<rparr>"

abbreviation on_org :: "(org \<times> event_store \<Rightarrow> 'a org_out) \<Rightarrow> 'x services_scheme \<Rightarrow> ('a, 'x services_scheme) outcome" where
  "on_org \<equiv> through get_org put_org"

abbreviation on_cost :: "(cost \<times> event_store \<Rightarrow> 'a cost_out) \<Rightarrow> 'x services_scheme \<Rightarrow> ('a, 'x services_scheme) outcome" where
  "on_cost \<equiv> through get_cost put_cost"

abbreviation on_appr :: "(approvals \<times> event_store \<Rightarrow> 'a appr_out) \<Rightarrow> 'x services_scheme \<Rightarrow> ('a, 'x services_scheme) outcome" where
  "on_appr \<equiv> through get_appr put_appr"

abbreviation on_events :: "(event_store \<Rightarrow> ('a, event_store) outcome) \<Rightarrow> 'x services_scheme \<Rightarrow> ('a, 'x services_scheme) outcome" where
  "on_events \<equiv> through sv_events put_events"

text \<open>A view: reading back what was put, and nothing else changed by putting it.\<close>

locale view =
  fixes get :: "'w \<Rightarrow> 's" and put :: "'s \<Rightarrow> 'w \<Rightarrow> 'w"
  assumes get_put: "get (put s w) = s" and put_get: "put (get w) w = w"
    and put_put: "put s (put s' w) = put s w"
begin

lemma through_result: "fst (through get put f w) = fst (f (get w))"
  by (simp add: through_def case_prod_beta)

lemma through_part: "get (snd (through get put f w)) = snd (f (get w))"
  by (simp add: through_def case_prod_beta get_put)

lemma through_frame: "(\<And>s v. h (put s v) = h v) \<Longrightarrow> h (snd (through get put f w)) = h w"
  by (simp add: through_def case_prod_beta)

lemma through_idle: "f (get w) = (r, get w) \<Longrightarrow> through get put f w = (r, w)"
  by (simp add: through_def put_get)

lemma through_andthen:
  "through get put (\<lambda>s. andthen (f s) g) w = andthen (through get put f w) (\<lambda>a. through get put (g a))"
  by (cases "f (get w)"; cases "fst (f (get w))") (simp_all add: through_def case_prod_beta get_put put_put)

end

interpretation org_view: view get_org put_org
  by unfold_locales (simp_all add: get_org_def put_org_def)

interpretation cost_view: view get_cost put_cost
  by unfold_locales (simp_all add: get_cost_def put_cost_def)

interpretation appr_view: view get_appr put_appr
  by unfold_locales (simp_all add: get_appr_def put_appr_def)

interpretation event_view: view sv_events put_events
  by unfold_locales (simp_all add: put_events_def)

text \<open>Which parts each view leaves alone.\<close>

lemma view_frames [simp]:
  "sv_org (put_cost s w) = sv_org w" "sv_appr (put_cost s w) = sv_appr w"
  "services.more (put_cost s w) = services.more w" "sv_cost (put_cost s w) = fst s"
  "sv_org (put_appr s' w) = sv_org w" "sv_cost (put_appr s' w) = sv_cost w"
  "services.more (put_appr s' w) = services.more w" "sv_appr (put_appr s' w) = fst s'"
  "sv_org (put_events es w) = sv_org w" "sv_cost (put_events es w) = sv_cost w"
  "sv_appr (put_events es w) = sv_appr w" "services.more (put_events es w) = services.more w"
  "sv_cost (put_org s'' w) = sv_cost w" "sv_appr (put_org s'' w) = sv_appr w"
  "services.more (put_org s'' w) = services.more w" "sv_org (put_org s'' w) = fst s''"
  by (simp_all add: put_cost_def put_appr_def put_events_def put_org_def)

lemma get_fst [simp]:
  "fst (get_cost w) = sv_cost w" "fst (get_appr w) = sv_appr w" "fst (get_org w) = sv_org w"
  by (simp_all add: get_cost_def get_appr_def get_org_def)

text \<open>How both pipelines read the status of an approval.\<close>

definition approval_word :: "approval \<Rightarrow> string" where
  "approval_word v =
     (if ar_status (av_row v) = AP_APPROVED then ''approved''
      else if ar_status (av_row v) = AP_PENDING then ''pending'' else ''denied'')"

section \<open>Money held and settled\<close>

text \<open>What a pipeline relies on: a granted reservation is held, and releasing or committing it
  gives the held amount back; only a successful commit adds to the expenses.\<close>

definition held :: "string \<Rightarrow> int \<Rightarrow> cost \<Rightarrow> bool" where
  "held rid units c \<longleftrightarrow>
     (\<exists>r. tbl_find rs_id rid (ct_reservations c) = Some r \<and> rs_status r = OPEN \<and> rs_units r = units)"

lemma reserve_holds:
  assumes inv: "cost_inv s" and run: "budget_reserve rid now m ref s = (Inr rs, t)"
  shows "rs_id rs = rid \<and> held rid (to_units m) (fst t) \<and> cost_inv t \<and>
    sum_expenses (fst t) = sum_expenses (fst s) \<and>
    sum_open_reservations (fst t) = sum_open_reservations (fst s) + to_units m \<and>
    \<not> ct_blocked (fst s) \<and> used_units (fst s) + to_units m \<le> ct_total (fst s) \<and> 0 \<le> to_units m"
proof -
  have "flag_ok (fst s)" using inv by (simp add: cost_inv_def)
  then show ?thesis
  proof (rule reserve_cases[of s rid now m ref])
    fix r es row c1
    assume a: "budget_reserve rid now m ref s = (map_sum id (\<lambda>_. row) r,
          c1\<lparr>ct_last_pct := level (cost_pct c1), ct_blocked := cost_pct c1 \<ge> 100\<rparr>, es)"
      and c1: "c1 = (fst s)\<lparr>ct_reservations := ct_reservations (fst s) @ [row]\<rparr>"
      and row: "row = \<lparr>rs_id = rid, rs_units = to_units m, rs_ref = ref, rs_status = OPEN, rs_created_at = now\<rparr>"
      and fit: "0 \<le> to_units m" "\<not> ct_blocked (fst s)" "used_units (fst s) + to_units m \<le> ct_total (fst s)"
      "tbl_find rs_id rid (ct_reservations (fst s)) = None"
    have "cost_inv t"
      using reserve_step_ok[OF inv, of rid now m ref] run by (simp add: step_ok_def)
    moreover have "rs = row" and t: "fst t = c1\<lparr>ct_last_pct := level (cost_pct c1), ct_blocked := cost_pct c1 \<ge> 100\<rparr>"
      using run a by auto
    ultimately show ?thesis
      using fit by (simp add: t c1 row held_def tbl_find_append sum_expenses_def
        sum_open_reservations_def open_units_def)
  qed (use run in simp)
qed

lemma close_sums:
  assumes "cost_inv s" and "tbl_find rs_id rid (ct_reservations (fst s)) = Some r" and "rs_status r = OPEN"
    and "st \<noteq> OPEN"
  shows "sum_open_reservations (close_reservation st rid (fst s)) = sum_open_reservations (fst s) - rs_units r"
    and "sum_expenses (close_reservation st rid (fst s)) = sum_expenses (fst s)"
  using assms sum_closed[of "fst s" rid r st] by (simp_all add: cost_inv_def sum_expenses_def)

lemma reserve_expenses:
  assumes "cost_inv s"
  shows "sum_expenses (fst (snd (budget_reserve rid now m ref s))) = sum_expenses (fst s)"
proof -
  have "flag_ok (fst s)" using assms by (simp add: cost_inv_def)
  then show ?thesis
    by (rule reserve_cases[of s rid now m ref]) (auto simp: sum_expenses_def)
qed

lemma release_expenses: "sum_expenses (fst (snd (budget_release rid s))) = sum_expenses (fst s)"
  by (rule release_cases[of rid s]) (auto simp: sum_expenses_def)

lemma release_returns:
  assumes inv: "cost_inv s" and held: "held rid u (fst s)"
  shows "\<exists>c. budget_release rid s = (Inr (), c, snd s) \<and> cost_inv (c, snd s) \<and>
    sum_expenses c = sum_expenses (fst s) \<and> sum_open_reservations c = sum_open_reservations (fst s) - u"
proof -
  obtain r where r: "tbl_find rs_id rid (ct_reservations (fst s)) = Some r" "rs_status r = OPEN"
    "rs_units r = u" using held by (auto simp: held_def)
  then have "budget_release rid s = (Inr (), close_reservation RELEASED rid (fst s), snd s)"
    by (simp add: budget_release_def)
  moreover have "cost_inv (close_reservation RELEASED rid (fst s), snd s)"
    by (rule cost_inv_close[of _ "snd s"]) (simp add: inv)
  ultimately show ?thesis using close_sums[OF inv r(1,2), of RELEASED] r(3) by simp
qed

lemma commit_settles:
  assumes inv: "cost_inv s" and held: "held rid u (fst s)"
    and run: "budget_commit i now rid m s = (Inr ch, t)"
  shows "cost_inv t \<and> sum_open_reservations (fst t) = sum_open_reservations (fst s) - u \<and>
    sum_expenses (fst t) = sum_expenses (fst s) + (if cr_ok ch then to_units m else 0)"
proof -
  obtain r0 where r0: "tbl_find rs_id rid (ct_reservations (fst s)) = Some r0" "rs_status r0 = OPEN"
    "rs_units r0 = u" using held by (auto simp: held_def)
  have inv': "cost_inv t"
    using commit_step_ok[OF inv, of i now rid m] run by (simp add: step_ok_def)
  note sums = close_sums[OF inv r0(1,2)]
  have "flag_ok (fst s)" using inv by (simp add: cost_inv_def)
  then show ?thesis
  proof (rule commit_cases[of s i now rid m])
    fix r :: "exn + unit" and es
    assume "budget_commit i now rid m s =
         (map_sum id (\<lambda>_. refused_result) r, set_blocked (close_reservation RELEASED rid (fst s)), es)"
    with run have "ch = refused_result" and t: "fst t = set_blocked (close_reservation RELEASED rid (fst s))"
      by auto
    moreover have "sum_open_reservations (fst t) = sum_open_reservations (close_reservation RELEASED rid (fst s))"
      and "sum_expenses (fst t) = sum_expenses (close_reservation RELEASED rid (fst s))"
      by (simp_all add: t set_blocked_def sum_open_reservations_def sum_expenses_def)
    ultimately show ?thesis
      using inv' sums[of RELEASED] r0(3) by (simp add: refused_result_def)
  next
    fix r :: "exn + unit" and es e c1
    assume "budget_commit i now rid m s = (map_sum id (\<lambda>_. ok_result i) r,
          c1\<lparr>ct_last_pct := level (cost_pct c1), ct_blocked := cost_pct c1 \<ge> 100\<rparr>, es)"
      and c1: "c1 = (close_reservation COMMITTED rid (fst s))\<lparr>ct_expenses := ct_expenses (fst s) @ [e]\<rparr>"
      and e: "ex_units e = to_units m"
    with run have "ch = ok_result i"
      and t: "fst t = c1\<lparr>ct_last_pct := level (cost_pct c1), ct_blocked := cost_pct c1 \<ge> 100\<rparr>" by auto
    moreover have "sum_open_reservations (fst t) = sum_open_reservations (close_reservation COMMITTED rid (fst s))"
      and "sum_expenses (fst t) = sum_expenses (fst s) + to_units m"
      by (simp_all add: t c1 e sum_open_reservations_def sum_expenses_def)
    ultimately show ?thesis
      using inv' sums[of COMMITTED] r0(3) by (simp add: ok_result_def)
  qed (use run in simp)
qed

lemma es_append_raises:
  "es_append (Inl k) p a c s = (Inl e, t) \<Longrightarrow> e \<noteq> CostOverBudget m"
  by (auto simp: es_append_def es_validate_payload_def Let_def split: sum.splits option.splits if_splits)

lemma append_all_raises: "append_all evs a es = (Inl e, es') \<Longrightarrow> e \<noteq> CostOverBudget m"
proof (induction evs arbitrary: es)
  case (Cons x evs)
  obtain k p where x: "x = (k, p)" by (cases x)
  obtain r es1 where app: "es_append (Inl k) p a None es = (r, es1)" by (meson surj_pair)
  show ?case
  proof (cases r)
    case (Inl e')
    with Cons.prems app show ?thesis by (auto simp: x append_all.simps dest: es_append_raises)
  next
    case (Inr ev)
    with Cons.prems Cons.IH[of es1] app show ?thesis by (simp add: x append_all.simps)
  qed
qed simp

lemma map_sum_Inl [simp]: "map_sum id f r = Inl e \<longleftrightarrow> r = Inl e"
  by (cases r) auto

lemma reserve_refused:
  "budget_reserve i now m ref s = (Inl (CostOverBudget msg), t) \<Longrightarrow> t = s"
  by (auto simp: budget_reserve_def Let_def split: if_splits prod.splits
      dest!: append_all_raises)

text \<open>Asking for approval under an id that is already taken answers that row, whatever is asked.\<close>

lemma request_known:
  assumes "tbl_find ar_request_id rid (ap_rows (fst s)) = Some r" and "rid \<noteq> []"
  shows "appr_request fresh now k who p route (Some rid) ts s = (row_to_approval r, s)"
  using assms by (simp add: appr_request_def str_or_def Let_def)

lemma decoded_row: "row_to_approval r = Inr v \<Longrightarrow> av_row v = r"
  by (auto simp: row_to_approval_def split: sum.splits)

lemma request_unknown_pending:
  assumes "tbl_find ar_request_id rid (ap_rows (fst s)) = None" and "rid \<noteq> []"
    and "appr_request fresh now k who p route (Some rid) ts s = (Inr v, t)"
  shows "ar_status (av_row v) = AP_PENDING"
  using assms
  by (auto simp: appr_request_def str_or_def Let_def announce_def split: sum.splits prod.splits)

section \<open>Pipelines\<close>

text \<open>
  A pipeline keeps the services inside its own state. Its run reserves money, asks for approval,
  executes, and commits or releases; \<open>price\<close> is the cost an answer reports, \<open>success\<close> tells whether
  it reports one.
\<close>

definition settled :: "('t \<Rightarrow> 'x services_scheme) \<Rightarrow> ('r \<Rightarrow> rat) \<Rightarrow> cost \<Rightarrow> ('r, 't) outcome \<Rightarrow> bool" where
  "settled sv price c out \<longleftrightarrow>
     (\<forall>r t. out = (Inr r, t) \<longrightarrow> cost_inv (get_cost (sv t)) \<and>
        sum_open_reservations (sv_cost (sv t)) = sum_open_reservations c \<and>
        sum_expenses (sv_cost (sv t)) = sum_expenses c + round_half_up (price r * 10000))"

text \<open>While the pipeline runs: a held reservation on top of the ledger \<open>c\<close>.\<close>

definition holding :: "('t \<Rightarrow> 'x services_scheme) \<Rightarrow> cost \<Rightarrow> string \<Rightarrow> int \<Rightarrow> 't \<Rightarrow> bool" where
  "holding sv c rid u t \<longleftrightarrow>
     cost_inv (get_cost (sv t)) \<and> held rid u (sv_cost (sv t)) \<and>
     sum_open_reservations (sv_cost (sv t)) = sum_open_reservations c + u \<and>
     sum_expenses (sv_cost (sv t)) = sum_expenses c"

text \<open>The parts that only an executor or a commit may change.\<close>

definition quiet :: "('t \<Rightarrow> 'x services_scheme) \<Rightarrow> 't \<Rightarrow> 't \<Rightarrow> bool" where
  "quiet sv t u \<longleftrightarrow>
     sv_org (sv u) = sv_org (sv t) \<and> services.more (sv u) = services.more (sv t) \<and>
     sum_expenses (sv_cost (sv u)) = sum_expenses (sv_cost (sv t))"

definition idle :: "('t \<Rightarrow> 'x services_scheme) \<Rightarrow> ('r \<Rightarrow> bool) \<Rightarrow> 't \<Rightarrow> ('r, 't) outcome \<Rightarrow> bool" where
  "idle sv success t out \<longleftrightarrow> quiet sv t (snd out) \<and> (\<forall>r. fst out = Inr r \<longrightarrow> \<not> success r)"

definition approved_id :: "approvals \<Rightarrow> string \<Rightarrow> bool" where
  "approved_id a cid =
     (case tbl_find ar_request_id cid (ap_rows a) of
        None \<Rightarrow> False | Some r \<Rightarrow> ar_status r = AP_APPROVED)"

definition affordable :: "cost \<Rightarrow> money \<Rightarrow> bool" where
  "affordable c m \<longleftrightarrow> \<not> ct_blocked c \<and> used_units c + to_units m \<le> ct_total c"

lemma andthen_Inr: "andthen m f = (Inr b, t) \<Longrightarrow> \<exists>a s. m = (Inr a, s) \<and> f a s = (Inr b, t)"
  by (cases m; cases "fst m") auto

lemma cost_inv_get: "sv_cost w = sv_cost w' \<Longrightarrow> cost_inv (get_cost w) = cost_inv (get_cost w')"
  by (simp add: get_cost_def cost_inv_def)

locale pipeline = view sv put_sv for sv :: "'t \<Rightarrow> 'x services_scheme" and put_sv +
  fixes price :: "'r \<Rightarrow> rat" and success :: "'r \<Rightarrow> bool"
begin

lemma settled_andthen:
  "(\<And>a t. m = (Inr a, t) \<Longrightarrow> settled sv price c (f a t)) \<Longrightarrow> settled sv price c (andthen m f)"
  unfolding settled_def by (blast dest: andthen_Inr)

lemma settled_raise: "settled sv price c (Inl e, t)"
  by (simp add: settled_def)

lemma settled_free:
  assumes "cost_inv (get_cost (sv t))" and "sum_open_reservations (sv_cost (sv t)) = sum_open_reservations c"
    and "sum_expenses (sv_cost (sv t)) = sum_expenses c"
    and "\<And>r u. out = (Inr r, u) \<Longrightarrow> price r = 0 \<and> sv_cost (sv u) = sv_cost (sv t)"
  shows "settled sv price c out"
  unfolding settled_def
proof (intro allI impI)
  fix r u assume "out = (Inr r, u)"
  then have "price r = 0" "sv_cost (sv u) = sv_cost (sv t)" using assms(4) by blast+
  then show "cost_inv (get_cost (sv u)) \<and>
      sum_open_reservations (sv_cost (sv u)) = sum_open_reservations c \<and>
      sum_expenses (sv_cost (sv u)) = sum_expenses c + round_half_up (price r * 10000)"
    using assms(1-3) round_half_up_int[of 0] cost_inv_get[of "sv u" "sv t"] by simp
qed

lemma settled_paid:
  assumes "cost_inv (get_cost (sv t))" and "sum_open_reservations (sv_cost (sv t)) = sum_open_reservations c"
    and "sum_expenses (sv_cost (sv t)) = sum_expenses c + to_units m"
    and "\<And>r u. out = (Inr r, u) \<Longrightarrow> price r = amount_usd m \<and> sv_cost (sv u) = sv_cost (sv t)"
  shows "settled sv price c out"
  unfolding settled_def
proof (intro allI impI)
  fix r u assume "out = (Inr r, u)"
  then have "price r = amount_usd m" "sv_cost (sv u) = sv_cost (sv t)" using assms(4) by blast+
  then show "cost_inv (get_cost (sv u)) \<and>
      sum_open_reservations (sv_cost (sv u)) = sum_open_reservations c \<and>
      sum_expenses (sv_cost (sv u)) = sum_expenses c + round_half_up (price r * 10000)"
    using assms(1-3) cost_inv_get[of "sv u" "sv t"] by (simp add: to_units_def)
qed

lemma holding_cong: "sv_cost (sv u) = sv_cost (sv t) \<Longrightarrow> holding sv c rid n t \<Longrightarrow> holding sv c rid n u"
  by (simp add: holding_def cost_inv_get[of "sv u" "sv t"])

lemma on_cost_run:
  assumes "through sv put_sv (on_cost f) t = (r, u)"
  shows "f (get_cost (sv t)) = (r, get_cost (sv u))" and "sv_appr (sv u) = sv_appr (sv t)"
    and "sv_org (sv u) = sv_org (sv t)" and "services.more (sv u) = services.more (sv t)"
  using assms by (auto simp: through_def get_put cost_view.get_put split: prod.splits)

lemma reserve_held:
  assumes "cost_inv (get_cost (sv t))"
    and "through sv put_sv (on_cost (budget_reserve i now m ref)) t = (Inr rs, u)"
  shows "holding sv (sv_cost (sv t)) (rs_id rs) (to_units m) u" and "affordable (sv_cost (sv t)) m"
  using reserve_holds[OF assms(1) on_cost_run(1)[OF assms(2)]]
  by (simp_all add: holding_def affordable_def)

lemma reserve_refused_cost:
  "through sv put_sv (on_cost (budget_reserve i now m ref)) t = (Inl (CostOverBudget msg), u) \<Longrightarrow>
     sv_cost (sv u) = sv_cost (sv t)"
  using reserve_refused on_cost_run(1) by (metis get_fst(1))

lemma release_held:
  assumes "holding sv c rid n t"
  shows "\<exists>u. through sv put_sv (on_cost (budget_release rid)) t = (Inr (), u) \<and> cost_inv (get_cost (sv u)) \<and>
    sum_open_reservations (sv_cost (sv u)) = sum_open_reservations c \<and>
    sum_expenses (sv_cost (sv u)) = sum_expenses c"
proof -
  have h: "cost_inv (get_cost (sv t))" "held rid n (fst (get_cost (sv t)))"
    using assms by (simp_all add: holding_def)
  obtain c1 where c1: "budget_release rid (get_cost (sv t)) = (Inr (), c1, snd (get_cost (sv t)))"
    "cost_inv (c1, snd (get_cost (sv t)))" "sum_expenses c1 = sum_expenses (sv_cost (sv t))"
    "sum_open_reservations c1 = sum_open_reservations (sv_cost (sv t)) - n"
    using release_returns[OF h] by auto
  then show ?thesis
    using assms by (simp add: through_def holding_def cost_view.get_put get_put)
qed

lemma settled_release:
  assumes "holding sv c rid n t"
    and "\<And>u. cost_inv (get_cost (sv u)) \<Longrightarrow>
       sum_open_reservations (sv_cost (sv u)) = sum_open_reservations c \<Longrightarrow>
       sum_expenses (sv_cost (sv u)) = sum_expenses c \<Longrightarrow> settled sv price c (f u)"
  shows "settled sv price c (andthen (through sv put_sv (on_cost (budget_release rid)) t) (\<lambda>_. f))"
  using release_held[OF assms(1)] assms(2) by auto

lemma commit_held:
  assumes "holding sv c rid (to_units m) t"
    and "through sv put_sv (on_cost (budget_commit i now rid m)) t = (Inr ch, u)"
  shows "cost_inv (get_cost (sv u)) \<and> sum_open_reservations (sv_cost (sv u)) = sum_open_reservations c \<and>
      sum_expenses (sv_cost (sv u)) = sum_expenses c + (if cr_ok ch then to_units m else 0)"
  using commit_settles[OF _ _ on_cost_run(1)[OF assms(2)], of "to_units m"] assms(1)
  by (simp add: holding_def)

lemma quiet_refl: "quiet sv t t"
  by (simp add: quiet_def)

lemma quiet_trans: "quiet sv t u \<Longrightarrow> quiet sv u v \<Longrightarrow> quiet sv t v"
  by (simp add: quiet_def)

lemma quiet_release: "quiet sv t u \<Longrightarrow> quiet sv t (snd (through sv put_sv (on_cost (budget_release rid)) u))"
  using release_expenses[of rid "get_cost (sv u)"]
  by (simp add: quiet_def through_def case_prod_beta get_put)

lemma quiet_reserve:
  "cost_inv (get_cost (sv t)) \<Longrightarrow> quiet sv t (snd (through sv put_sv (on_cost (budget_reserve rid now m cid)) t))"
  using reserve_expenses[of "get_cost (sv t)" rid now m cid]
  by (simp add: quiet_def through_def case_prod_beta get_put)

lemma quiet_appr: "quiet sv t (snd (through sv put_sv (on_appr f) t))"
  by (simp add: quiet_def through_def case_prod_beta get_put)

lemma idle_raise: "quiet sv t u \<Longrightarrow> idle sv success t (Inl e, u)"
  by (simp add: idle_def)

lemma idle_andthen:
  "quiet sv t (snd m) \<Longrightarrow> (\<And>a u. m = (Inr a, u) \<Longrightarrow> quiet sv t u \<Longrightarrow> idle sv success t (f a u)) \<Longrightarrow>
     idle sv success t (andthen m f)"
  by (cases m; cases "fst m") (auto simp: idle_def)

text \<open>The approval gate: an answer "approved" means the id was approved before.\<close>

lemma request_recorded:
  assumes run: "through sv put_sv (on_appr (appr_request f n k a p ro (Some cid) None)) t = (Inr v, u)"
    and "cid \<noteq> []" and ok: "ar_status (av_row v) = AP_APPROVED"
  shows "approved_id (sv_appr (sv t)) cid"
proof -
  have req: "appr_request f n k a p ro (Some cid) None (get_appr (sv t)) = (Inr v, get_appr (sv u))"
    using run by (auto simp: through_def get_put appr_view.get_put split: prod.splits)
  show ?thesis
  proof (cases "tbl_find ar_request_id cid (ap_rows (fst (get_appr (sv t))))")
    case None
    with request_unknown_pending[OF None \<open>cid \<noteq> []\<close> req] ok show ?thesis by simp
  next
    case (Some r)
    with request_known[OF Some \<open>cid \<noteq> []\<close>] req have "row_to_approval r = Inr v" by simp
    with ok Some show ?thesis by (simp add: approved_id_def decoded_row)
  qed
qed

lemma request_approved:
  assumes ok: "approved_id (sv_appr (sv t)) cid" and inv: "appr_inv (get_appr (sv t))" and cid: "cid \<noteq> []"
  obtains v where "\<And>f n k a p ro. through sv put_sv (on_appr (appr_request f n k a p ro (Some cid) None)) t = (Inr v, t)"
    and "ar_status (av_row v) = AP_APPROVED"
proof -
  obtain r where r: "tbl_find ar_request_id cid (ap_rows (fst (get_appr (sv t)))) = Some r"
    "ar_status r = AP_APPROVED"
    using ok by (auto simp: approved_id_def split: option.splits)
  have "r \<in> set (ap_rows (fst (get_appr (sv t))))" using tbl_find_Some_in[OF r(1)] by blast
  with inv have "row_decodes r" by (auto simp: appr_inv_def row_ok_def)
  then obtain v where v: "row_to_approval r = Inr v"
    by (cases "row_to_approval r") (simp_all add: row_decodes_def)
  have idle: "on_appr (appr_request f n k a p ro (Some cid) None) (sv t) = (Inr v, sv t)" for f n k a p ro
    using request_known[OF r(1) cid] v by (simp add: appr_view.through_idle)
  show thesis
    by (rule that[of v], rule through_idle, rule idle) (simp add: r(2) decoded_row[OF v])
qed

end

section \<open>A small company\<close>

text \<open>A company of one agent with 10 dollars, in which request r1 was approved.\<close>

definition demo_agent :: agent where
  "demo_agent =
     \<lparr>ag_id = ''bob'', ag_role = MEMBER, ag_persona_ref = ''p'', ag_reports_to = None,
      ag_status = ACTIVE, ag_hired_at = 0, ag_first_name = ''Bob'', ag_last_name = ''Lee'',
      ag_role_title = None, ag_role_description = None, ag_fired_at = None, ag_fired_by = None,
      ag_fire_reason = None\<rparr>"

definition demo_services :: services where
  "demo_services =
     \<lparr>sv_org = \<lparr>og_agents = [demo_agent], og_fire_pending = [], og_fire_requests = []\<rparr>,
      sv_cost = \<lparr>ct_total = 100000, ct_blocked = False, ct_last_pct = 0, ct_expenses = [],
                 ct_reservations = [], ct_subs = []\<rparr>,
      sv_appr = (fst demo_appr0)\<lparr>ap_rows := [demo_row\<lparr>ar_status := AP_APPROVED,
                   ar_security_decision := Some APPROVE, ar_security_decided_at := Some 5\<rparr>]\<rparr>,
      sv_events = demo_store\<rparr>"

lemma demo_books:
  "cost_inv (get_cost demo_services)" "appr_inv (get_appr demo_services)"
  by (simp_all add: get_cost_def demo_services_def cost_inv_def flag_ok_def tbl_pk_def get_appr_def appr_inv_def
      demo_row_def row_ok_def row_decodes_def row_to_approval_def decode_route_def mk_route_def)

end
