(* ===== verification/Tools_Service.thy ===== *)
theory Tools_Service
  imports Services
begin

text \<open>
  \<^verbatim>\<open>modules/tools\<close>: the registry and the invoke pipeline. A tool's schema, cost estimator, permission
  check and executor are the callbacks of its ToolDef: the schema answers the parsed arguments or the
  ValidationError's text, the check reads the services and may raise, the executor runs on the whole
  bundle of services and may raise after changing it. Clock readings and fresh ids of one invocation
  are in \<open>tool_env\<close>. The completed cache is private to the service. Calls are atomic.
\<close>

section \<open>Data\<close>

datatype tool_category =
  TC_COMMUNICATION | TC_WORKSPACE | TC_MEMORY | TC_GOVERNANCE | TC_EXTERNAL | TC_INTERNAL_DATA

datatype approval_requirement = AR_NONE | AR_EXPENSE | AR_EXTERNAL

record tool_context =
  tc_agent_id :: string
  tc_role :: role
  tc_correlation_id :: string

text \<open>\<^verbatim>\<open>roles_allowed\<close>: \<open>None\<close> is "any". The executor is also given the time it reads.\<close>

record 'w tool_def =
  td_name :: string
  td_description :: string
  td_schema :: "payload \<Rightarrow> string + payload"
  td_output_schema :: string
  td_category :: tool_category
  td_roles_allowed :: "role list option"
  td_requires_approval :: approval_requirement
  td_cost_estimator :: "(payload \<Rightarrow> exn + money) option"
  td_permission_check :: "(tool_context \<Rightarrow> payload \<Rightarrow> 'w \<Rightarrow> exn option) option"
  td_executor :: "(tool_context \<Rightarrow> int \<Rightarrow> payload \<Rightarrow> 'w \<Rightarrow> (output_model, 'w) outcome) option"

definition is_role_allowed :: "'w tool_def \<Rightarrow> role \<Rightarrow> bool" where
  "is_role_allowed tool r = (case td_roles_allowed tool of None \<Rightarrow> True | Some rs \<Rightarrow> r \<in> set rs)"

record tool_result =
  tr_ok :: bool
  tr_output :: "output_model option"
  tr_error_code :: "string option"
  tr_error_message :: "string option"
  tr_cost_usd :: rat
  tr_extra :: payload

text \<open>\<^verbatim>\<open>code\<close> of the subclasses of ToolError; \<open>None\<close> for the exceptions that are not ToolErrors.\<close>

definition tool_code :: "exn \<Rightarrow> string option" where
  "tool_code e =
     (case e of
        UnknownTool _ \<Rightarrow> Some ''unknown_tool''
      | RoleNotAllowed _ \<Rightarrow> Some ''role_not_allowed''
      | ArgsValidationError _ \<Rightarrow> Some ''args_validation_error''
      | ToolOverBudget _ \<Rightarrow> Some ''over_budget''
      | PendingApproval _ \<Rightarrow> Some ''pending_approval''
      | ToolApprovalDenied _ \<Rightarrow> Some ''approval_denied''
      | ToolPermissionDenied _ \<Rightarrow> Some ''permission_denied''
      | ExecutorFailure _ \<Rightarrow> Some ''executor_failure''
      | _ \<Rightarrow> None)"

definition error_code :: "exn \<Rightarrow> string" where
  "error_code e = (case tool_code e of Some c \<Rightarrow> c | None \<Rightarrow> ''tool_error'')"

record 'x tools =
  tl_defs :: "'x services_scheme tool_def list"
  tl_sv :: "'x services_scheme"
  tl_completed :: "string \<Rightarrow> tool_result option"

type_synonym ('a, 'x) tool_out = "('a, 'x tools) outcome"

record tool_env =
  te_uuid :: string
  te_reservation :: string
  te_reserve_at :: int
  te_request_at :: int
  te_exec_at :: int
  te_expense :: string
  te_commit_at :: int

section \<open>Registry\<close>

definition tl_create :: "'x services_scheme \<Rightarrow> 'x tools" where
  "tl_create w = \<lparr>tl_defs = [], tl_sv = w, tl_completed = (\<lambda>_. None)\<rparr>"

definition tl_register :: "'x services_scheme tool_def \<Rightarrow> 'x tools \<Rightarrow> (unit, 'x) tool_out" where
  "tl_register tool t =
     (if tbl_find td_name (td_name tool) (tl_defs t) \<noteq> None
      then (Inl (ValueError (''tool already registered: '' @ td_name tool)), t)
      else if td_executor tool = None
      then (Inl (ValueError (''tool has no executor: '' @ td_name tool)), t)
      else (Inr (), t\<lparr>tl_defs := tl_defs t @ [tool]\<rparr>))"

definition tl_for_role :: "'x tools \<Rightarrow> role \<Rightarrow> 'x services_scheme tool_def list" where
  "tl_for_role t r = filter (\<lambda>d. is_role_allowed d r) (tl_defs t)"

definition tl_get :: "'x tools \<Rightarrow> string \<Rightarrow> exn + 'x services_scheme tool_def" where
  "tl_get t name =
     (case tbl_find td_name name (tl_defs t) of Some d \<Rightarrow> Inr d | None \<Rightarrow> Inl (UnknownTool name))"

text \<open>\<open>schema_of\<close> is pydantic's JSON schema of the tool's argument class.\<close>

definition claude_sdk_schema :: "('x services_scheme tool_def \<Rightarrow> json) \<Rightarrow> 'x tools \<Rightarrow> role \<Rightarrow> payload list" where
  "claude_sdk_schema schema_of t r =
     map (\<lambda>d. [(''name'', JStr (td_name d)), (''description'', JStr (td_description d)),
               (''input_schema'', schema_of d)]) (tl_for_role t r)"

section \<open>The invoke pipeline\<close>

definition tl_on :: "('x services_scheme \<Rightarrow> ('a, 'x services_scheme) outcome) \<Rightarrow> 'x tools \<Rightarrow> ('a, 'x) tool_out" where
  "tl_on f t = (case f (tl_sv t) of (r, w) \<Rightarrow> (r, t\<lparr>tl_sv := w\<rparr>))"

definition tl_event :: "event_kind \<Rightarrow> payload \<Rightarrow> string \<Rightarrow> string \<Rightarrow> 'x tools \<Rightarrow> (unit, 'x) tool_out" where
  "tl_event k p actor cid t =
     andthen (tl_on (on_events (es_append (Inl k) p (Some actor) (Some cid))) t) (\<lambda>_ t1. (Inr (), t1))"

definition complete :: "string \<Rightarrow> tool_result \<Rightarrow> 'x tools \<Rightarrow> 'x tools" where
  "complete cid r t = t\<lparr>tl_completed := (tl_completed t)(cid \<mapsto> r)\<rparr>"

definition fail_payload :: "string \<Rightarrow> string \<Rightarrow> exn \<Rightarrow> event_kind \<Rightarrow> payload" where
  "fail_payload cid name e k =
     [(''tool'', JStr name), (''request_id'', JStr cid)] @
     (if k = TOOL_DENIED then [(''reason'', JStr (error_code e))]
      else [(''ok'', JBool False), (''error'', JStr (error_code e @ '': '' @ exn_text e))])"

definition tl_fail ::
  "string \<Rightarrow> string \<Rightarrow> exn \<Rightarrow> string \<Rightarrow> event_kind \<Rightarrow> 'x tools \<Rightarrow> (tool_result, 'x) tool_out" where
  "tl_fail cid name e actor k t =
     (let r = \<lparr>tr_ok = False, tr_output = None, tr_error_code = Some (error_code e),
               tr_error_message = Some (exn_text e), tr_cost_usd = 0, tr_extra = []\<rparr>
      in andthen (tl_event k (fail_payload cid name e k) actor cid t)
           (\<lambda>_ t1. (Inr r, complete cid r t1)))"

text \<open>Emits a denied event and does not cache, so that a retry is possible; only PendingApproval
  is reported this way.\<close>

definition tl_emit_only ::
  "string \<Rightarrow> string \<Rightarrow> exn \<Rightarrow> string \<Rightarrow> 'x tools \<Rightarrow> (tool_result, 'x) tool_out" where
  "tl_emit_only cid name e actor t =
     andthen (tl_event TOOL_DENIED
                [(''tool'', JStr name), (''request_id'', JStr cid), (''reason'', JStr (error_code e))]
                actor cid t)
       (\<lambda>_ t1. (Inr \<lparr>tr_ok = False, tr_output = None, tr_error_code = Some (error_code e),
                     tr_error_message = Some (exn_text e), tr_cost_usd = 0,
                     tr_extra = [(''approval_request_id'', JStr cid)]\<rparr>, t1))"

definition approval_kind_for :: "approval_requirement \<Rightarrow> exn + approval_kind" where
  "approval_kind_for q =
     (case q of AR_EXPENSE \<Rightarrow> Inr AK_EXPENSE | AR_EXTERNAL \<Rightarrow> Inr AK_EXTERNAL_ACTION
      | AR_NONE \<Rightarrow> Inl (KeyError ''none''))"

definition plain_board_route :: approval_route where
  "plain_board_route = \<lparr>ro_target = BOARD, ro_agent_id = None, ro_require_security = False\<rparr>"

definition tl_handle_approval ::
  "tool_env \<Rightarrow> 'x services_scheme tool_def \<Rightarrow> string \<Rightarrow> string \<Rightarrow> payload \<Rightarrow> 'x tools \<Rightarrow> (string, 'x) tool_out" where
  "tl_handle_approval env tool agent cid args t =
     (case approval_kind_for (td_requires_approval tool) of
        Inl e \<Rightarrow> (Inl e, t)
      | Inr kind \<Rightarrow>
          andthen
            (tl_on (on_appr (appr_request (te_uuid env) (te_request_at env) kind agent
               [(''tool'', JStr (td_name tool)), (''args'', JObj args)] plain_board_route
               (Some cid) None)) t)
            (\<lambda>v t1. (Inr (approval_word v), t1)))"

text \<open>Commit at the estimate, report the result, cache it.\<close>

definition tl_commit ::
  "tool_env \<Rightarrow> string \<Rightarrow> 'x services_scheme tool_def \<Rightarrow> string \<Rightarrow> string \<Rightarrow> money \<Rightarrow> output_model
   \<Rightarrow> 'x tools \<Rightarrow> (tool_result, 'x) tool_out" where
  "tl_commit env cid tool agent rid estimate out t =
     andthen (tl_on (on_cost (budget_commit (te_expense env) (te_commit_at env) rid estimate)) t)
       (\<lambda>charge t1.
          if \<not> cr_ok charge
          then tl_fail cid (td_name tool) (ToolOverBudget (''commit_failed:'' @ cid)) agent TOOL_RESULT t1
          else
            let r = \<lparr>tr_ok = True, tr_output = Some out, tr_error_code = None, tr_error_message = None,
                     tr_cost_usd = amount_usd estimate, tr_extra = []\<rparr>
            in andthen
                 (tl_event TOOL_RESULT
                    [(''tool'', JStr (td_name tool)), (''request_id'', JStr cid), (''ok'', JBool True),
                     (''result'', JObj (om_dump out))] agent cid t1)
                 (\<lambda>_ t2. (Inr r, complete cid r t2)))"

definition release_and_fail ::
  "string \<Rightarrow> string \<Rightarrow> string \<Rightarrow> exn \<Rightarrow> string \<Rightarrow> event_kind \<Rightarrow> 'x tools \<Rightarrow> (tool_result, 'x) tool_out" where
  "release_and_fail rid cid name e agent k t =
     andthen (tl_on (on_cost (budget_release rid)) t) (\<lambda>_ t1. tl_fail cid name e agent k t1)"

definition tl_execute ::
  "tool_env \<Rightarrow> string \<Rightarrow> 'x services_scheme tool_def \<Rightarrow> tool_context \<Rightarrow> payload \<Rightarrow> payload \<Rightarrow> string
   \<Rightarrow> money \<Rightarrow> 'x tools \<Rightarrow> (tool_result, 'x) tool_out" where
  "tl_execute env cid tool ctx args parsed rid estimate t =
     (let agent = tc_agent_id ctx; name = td_name tool in
      andthen
        (tl_event TOOL_CALLED
           [(''tool'', JStr name), (''arguments'', JObj args), (''request_id'', JStr cid)] agent cid t)
        (\<lambda>_ t1.
           case td_executor tool of
             None \<Rightarrow> release_and_fail rid cid name (ExecutorFailure []) agent TOOL_RESULT t1
           | Some ex \<Rightarrow>
             (case tl_on (ex ctx (te_exec_at env) parsed) t1 of
                (Inl e, t2) \<Rightarrow>
                  release_and_fail rid cid name
                    (if tool_code e \<noteq> None then e else ExecutorFailure (exn_text e)) agent TOOL_RESULT t2
              | (Inr out, t2) \<Rightarrow>
                  if td_output_schema tool \<notin> set (om_classes out)
                  then release_and_fail rid cid name
                         (ExecutorFailure (''executor returned '' @ first_class out @ '', expected '' @
                            td_output_schema tool)) agent TOOL_RESULT t2
                  else tl_commit env cid tool agent rid estimate out t2)))"

definition tool_estimate :: "'w tool_def \<Rightarrow> payload \<Rightarrow> exn + money" where
  "tool_estimate tool parsed =
     (case td_cost_estimator tool of None \<Rightarrow> Inr (Money 0) | Some est \<Rightarrow> est parsed)"

text \<open>From the estimate on: reservation, approval, execution.\<close>

definition tl_spend ::
  "tool_env \<Rightarrow> string \<Rightarrow> 'x services_scheme tool_def \<Rightarrow> tool_context \<Rightarrow> payload \<Rightarrow> payload
   \<Rightarrow> 'x tools \<Rightarrow> (tool_result, 'x) tool_out" where
  "tl_spend env cid tool ctx args parsed t =
     (let agent = tc_agent_id ctx; name = td_name tool in
      case tool_estimate tool parsed of
        Inl e \<Rightarrow> (Inl e, t)
      | Inr estimate \<Rightarrow>
          (case tl_on (on_cost (budget_reserve (te_reservation env) (te_reserve_at env) estimate cid)) t of
             (Inl e, t1) \<Rightarrow>
               (case e of
                  CostOverBudget m \<Rightarrow> tl_fail cid name (ToolOverBudget m) agent TOOL_DENIED t1
                | _ \<Rightarrow> (Inl e, t1))
           | (Inr rs, t1) \<Rightarrow>
               if td_requires_approval tool = AR_NONE
               then tl_execute env cid tool ctx args parsed (rs_id rs) estimate t1
               else
                 andthen (tl_handle_approval env tool agent cid args t1)
                   (\<lambda>decision t2.
                      if decision = ''pending''
                      then andthen (tl_on (on_cost (budget_release (rs_id rs))) t2)
                             (\<lambda>_ t3. tl_emit_only cid name (PendingApproval (''pending:'' @ cid)) agent t3)
                      else if decision = ''denied''
                      then release_and_fail (rs_id rs) cid name (ToolApprovalDenied (''denied:'' @ cid))
                             agent TOOL_DENIED t2
                      else tl_execute env cid tool ctx args parsed (rs_id rs) estimate t2)))"

definition tool_denied :: "'w tool_def \<Rightarrow> tool_context \<Rightarrow> payload \<Rightarrow> 'w \<Rightarrow> exn option" where
  "tool_denied tool ctx parsed w =
     (case td_permission_check tool of None \<Rightarrow> None | Some chk \<Rightarrow> chk ctx parsed w)"

definition tl_invoke ::
  "tool_env \<Rightarrow> string \<Rightarrow> string \<Rightarrow> payload \<Rightarrow> string option \<Rightarrow> 'x tools \<Rightarrow> (tool_result, 'x) tool_out" where
  "tl_invoke env agent_id tool_name args correlation t =
     (let cid = str_or correlation (te_uuid env);
          denied = (\<lambda>name e. tl_fail cid name e agent_id TOOL_DENIED t)
      in
      case tl_completed t cid of
        Some r \<Rightarrow> (Inr r, t)
      | None \<Rightarrow>
         (case tl_get t tool_name of
            Inl e \<Rightarrow> denied tool_name e
          | Inr tool \<Rightarrow>
             (case org_get (sv_org (tl_sv t)) agent_id of
                Inl e \<Rightarrow> (Inl e, t)
              | Inr agent \<Rightarrow>
                  if ag_status agent \<noteq> ACTIVE
                  then denied (td_name tool) (ToolPermissionDenied (''agent_not_active:'' @ agent_id))
                  else if \<not> is_role_allowed tool (ag_role agent)
                  then denied (td_name tool)
                         (RoleNotAllowed (role_value (ag_role agent) @ '':'' @ td_name tool))
                  else
                   (case td_schema tool args of
                      Inl msg \<Rightarrow> denied (td_name tool) (ArgsValidationError msg)
                    | Inr parsed \<Rightarrow>
                        let ctx = \<lparr>tc_agent_id = agent_id, tc_role = ag_role agent,
                                   tc_correlation_id = cid\<rparr>
                        in
                        (case tool_denied tool ctx parsed (tl_sv t) of
                           Some e \<Rightarrow>
                             if tool_code e \<noteq> None then denied (td_name tool) e else (Inl e, t)
                         | None \<Rightarrow> tl_spend env cid tool ctx args parsed t)))))"

section \<open>What each step leaves alone\<close>

definition put_tools :: "'x services_scheme \<Rightarrow> 'x tools \<Rightarrow> 'x tools" where
  "put_tools w t = t\<lparr>tl_sv := w\<rparr>"

lemma tl_on_through: "tl_on = through tl_sv put_tools"
  by (intro ext) (simp add: tl_on_def through_def put_tools_def)

interpretation tools: pipeline tl_sv put_tools tr_cost_usd tr_ok
  by unfold_locales (simp_all add: put_tools_def)

text \<open>The pipeline's facts, over \<open>tl_on\<close>.\<close>

lemmas release_held = tools.release_held[folded tl_on_through]
  and reserve_held = tools.reserve_held[folded tl_on_through]
  and reserve_refused_cost = tools.reserve_refused_cost[folded tl_on_through]
  and settled_release = tools.settled_release[folded tl_on_through]
  and commit_held = tools.commit_held[folded tl_on_through]
  and quiet_release = tools.quiet_release[folded tl_on_through]
  and quiet_reserve = tools.quiet_reserve[folded tl_on_through]
  and quiet_appr = tools.quiet_appr[folded tl_on_through]
  and request_recorded = tools.request_recorded[folded tl_on_through]
  and request_approved = tools.request_approved[folded tl_on_through]
  and on_cost_run = tools.on_cost_run[folded tl_on_through]

declare tools.settled_raise [simp] tools.quiet_refl [simp]

lemma tl_on_parts [simp]:
  "tl_defs (snd (tl_on f t)) = tl_defs t" "tl_completed (snd (tl_on f t)) = tl_completed t"
  "tl_sv (snd (tl_on f t)) = snd (f (tl_sv t))" "fst (tl_on f t) = fst (f (tl_sv t))"
  by (simp_all add: tl_on_def case_prod_beta)

lemma tl_on_eq: "tl_on f t = (r, t1) \<Longrightarrow>
   f (tl_sv t) = (r, tl_sv t1) \<and> tl_defs t1 = tl_defs t \<and> tl_completed t1 = tl_completed t"
  by (auto simp: tl_on_def split: prod.splits)

definition same_but_events :: "'x tools \<Rightarrow> 'x tools \<Rightarrow> bool" where
  "same_but_events t u \<longleftrightarrow>
     sv_org (tl_sv u) = sv_org (tl_sv t) \<and> sv_cost (tl_sv u) = sv_cost (tl_sv t) \<and>
     sv_appr (tl_sv u) = sv_appr (tl_sv t) \<and> services.more (tl_sv u) = services.more (tl_sv t) \<and>
     tl_defs u = tl_defs t"

lemma same_but_events_refl [simp]: "same_but_events t t"
  by (simp add: same_but_events_def)

lemma tl_event_same: "same_but_events t (snd (tl_event k p a cid t))"
  and tl_event_completed: "tl_completed (snd (tl_event k p a cid t)) = tl_completed t"
  by (cases "tl_on (on_events (es_append (Inl k) p (Some a) (Some cid))) t";
      cases "fst (tl_on (on_events (es_append (Inl k) p (Some a) (Some cid))) t)";
      auto simp: tl_event_def same_but_events_def tl_on_def through_def split: prod.splits)+

lemma tl_fail_result:
  assumes "tl_fail cid name e a k t = (Inr r, u)"
  shows "\<not> tr_ok r" and "tr_cost_usd r = 0" and "tl_completed u cid = Some r"
    and "same_but_events t u" and "tr_error_code r = Some (error_code e)"
proof -
  define r0 where "r0 = \<lparr>tr_ok = False, tr_output = None, tr_error_code = Some (error_code e),
               tr_error_message = Some (exn_text e), tr_cost_usd = 0, tr_extra = []\<rparr>"
  obtain v t1 where ev: "tl_event k (fail_payload cid name e k) a cid t = (Inr v, t1)"
    and r: "r = r0" and u: "u = complete cid r0 t1"
    using assms unfolding tl_fail_def Let_def r0_def[symmetric] by (blast dest: andthen_Inr)
  show "\<not> tr_ok r" "tr_cost_usd r = 0" "tr_error_code r = Some (error_code e)"
    by (simp_all add: r r0_def)
  show "tl_completed u cid = Some r" by (simp add: r u complete_def)
  show "same_but_events t u"
    using tl_event_same[of t k "fail_payload cid name e k" a cid] ev
    by (simp add: u complete_def same_but_events_def)
qed

lemma tl_emit_only_result:
  assumes "tl_emit_only cid name e a t = (Inr r, u)"
  shows "\<not> tr_ok r" and "tr_cost_usd r = 0" and "tr_error_code r = Some (error_code e)"
    and "same_but_events t u" and "tl_completed u = tl_completed t"
proof -
  obtain v where ev: "tl_event TOOL_DENIED
      [(''tool'', JStr name), (''request_id'', JStr cid), (''reason'', JStr (error_code e))] a cid t = (Inr v, u)"
    and r: "r = \<lparr>tr_ok = False, tr_output = None, tr_error_code = Some (error_code e),
                     tr_error_message = Some (exn_text e), tr_cost_usd = 0,
                     tr_extra = [(''approval_request_id'', JStr cid)]\<rparr>"
    using assms unfolding tl_emit_only_def by (blast dest: andthen_Inr)
  show "\<not> tr_ok r" "tr_cost_usd r = 0" "tr_error_code r = Some (error_code e)" by (simp_all add: r)
  show "same_but_events t u" "tl_completed u = tl_completed t"
    using tl_event_same[of t TOOL_DENIED _ a cid] tl_event_completed[of TOOL_DENIED _ a cid t] ev
    by (metis snd_conv)+
qed

section \<open>The ledger\<close>

abbreviation tl_cost :: "'x tools \<Rightarrow> cost" where "tl_cost t \<equiv> sv_cost (tl_sv t)"

abbreviation ledger_ok :: "'x tools \<Rightarrow> bool" where
  "ledger_ok t \<equiv> cost_inv (get_cost (tl_sv t))"

abbreviation tl_settled where "tl_settled \<equiv> settled tl_sv tr_cost_usd"
abbreviation tl_holding where "tl_holding \<equiv> holding tl_sv"
abbreviation tl_idle where "tl_idle \<equiv> idle tl_sv tr_ok"

lemma settled_fail:
  "ledger_ok t \<Longrightarrow> sum_open_reservations (tl_cost t) = sum_open_reservations c \<Longrightarrow>
   sum_expenses (tl_cost t) = sum_expenses c \<Longrightarrow> tl_settled c (tl_fail cid name e a k t)"
  by (rule tools.settled_free) (auto dest: tl_fail_result(2,4) simp: same_but_events_def)

lemma settled_release_fail:
  assumes "tl_holding c rid n t" shows "tl_settled c (release_and_fail rid cid name e a k t)"
  unfolding release_and_fail_def by (rule settled_release[OF assms]) (rule settled_fail)

lemma settled_commit:
  assumes hold: "tl_holding c rid (to_units m) t"
  shows "tl_settled c (tl_commit env cid tool a rid m out t)"
  unfolding tl_commit_def
proof (rule tools.settled_andthen)
  fix ch t1
  assume run: "tl_on (on_cost (budget_commit (te_expense env) (te_commit_at env) rid m)) t = (Inr ch, t1)"
  note books = commit_held[OF hold run]
  have "tl_settled c (andthen (tl_event k p a cid t1) (\<lambda>_ t2. (Inr r, complete cid r t2)))"
    if "cr_ok ch" and "tr_cost_usd r = amount_usd m" for k p r
  proof (rule tools.settled_paid[of t1])
    fix r' u
    assume "andthen (tl_event k p a cid t1) (\<lambda>_ t2. (Inr r, complete cid r t2)) = (Inr r', u)"
    then obtain t2 where "tl_event k p a cid t1 = (Inr (), t2)" "r' = r" "u = complete cid r t2"
      by (auto dest: andthen_Inr)
    then show "tr_cost_usd r' = amount_usd m \<and> tl_cost u = tl_cost t1"
      using that(2) tl_event_same[of t1 k p a cid] by (simp add: same_but_events_def complete_def)
  qed (use books that(1) in simp_all)
  then show "tl_settled c (if \<not> cr_ok ch
      then tl_fail cid (td_name tool) (ToolOverBudget (''commit_failed:'' @ cid)) a TOOL_RESULT t1
      else let r = \<lparr>tr_ok = True, tr_output = Some out, tr_error_code = None, tr_error_message = None,
                     tr_cost_usd = amount_usd m, tr_extra = []\<rparr>
            in andthen
                 (tl_event TOOL_RESULT
                    [(''tool'', JStr (td_name tool)), (''request_id'', JStr cid), (''ok'', JBool True),
                     (''result'', JObj (om_dump out))] a cid t1)
                 (\<lambda>_ t2. (Inr r, complete cid r t2)))"
    using books by (simp add: settled_fail Let_def)
qed

text \<open>A tool whose executor leaves the budget to the pipeline.\<close>

definition cost_blind :: "'x services_scheme tool_def \<Rightarrow> bool" where
  "cost_blind tool \<longleftrightarrow>
     (\<forall>ex ctx n p w. td_executor tool = Some ex \<longrightarrow> sv_cost (snd (ex ctx n p w)) = sv_cost w)"

lemma settled_execute:
  assumes hold: "tl_holding c rid (to_units m) t" and blind: "cost_blind tool"
  shows "tl_settled c (tl_execute env cid tool ctx args parsed rid m t)"
  unfolding tl_execute_def Let_def
proof (rule tools.settled_andthen)
  fix v t1
  assume "tl_event TOOL_CALLED [(''tool'', JStr (td_name tool)), (''arguments'', JObj args),
      (''request_id'', JStr cid)] (tc_agent_id ctx) cid t = (Inr v, t1)"
  with tl_event_same[of t TOOL_CALLED _ "tc_agent_id ctx" cid]
  have "same_but_events t t1" by (metis snd_conv)
  then have hold1: "tl_holding c rid (to_units m) t1"
    using hold by (auto intro: tools.holding_cong simp: same_but_events_def)
  have hold2: "tl_holding c rid (to_units m) t2"
    if "td_executor tool = Some ex" and "tl_on (ex ctx n parsed) t1 = (r, t2)" for ex n r t2
  proof (rule tools.holding_cong[OF _ hold1])
    have "tl_sv t2 = snd (ex ctx n parsed (tl_sv t1))"
      using that(2) by (auto simp: tl_on_def split: prod.splits)
    then show "tl_cost t2 = tl_cost t1" using blind that(1) by (simp add: cost_blind_def)
  qed
  show "tl_settled c (case td_executor tool of
      None \<Rightarrow> release_and_fail rid cid (td_name tool) (ExecutorFailure []) (tc_agent_id ctx) TOOL_RESULT t1
    | Some ex \<Rightarrow> (case tl_on (ex ctx (te_exec_at env) parsed) t1 of
          (Inl e, t2) \<Rightarrow> release_and_fail rid cid (td_name tool)
             (if tool_code e \<noteq> None then e else ExecutorFailure (exn_text e)) (tc_agent_id ctx) TOOL_RESULT t2
        | (Inr out, t2) \<Rightarrow> if td_output_schema tool \<notin> set (om_classes out)
             then release_and_fail rid cid (td_name tool) (ExecutorFailure (''executor returned '' @
                first_class out @ '', expected '' @ td_output_schema tool)) (tc_agent_id ctx) TOOL_RESULT t2
             else tl_commit env cid tool (tc_agent_id ctx) rid m out t2))"
  proof (cases "td_executor tool")
    case None
    then show ?thesis by (simp add: settled_release_fail[OF hold1])
  next
    case (Some ex)
    obtain r t2 where run: "tl_on (ex ctx (te_exec_at env) parsed) t1 = (r, t2)" by (meson surj_pair)
    note hold = hold2[OF Some run]
    show ?thesis
      by (cases r) (simp_all add: Some run settled_release_fail[OF hold] settled_commit[OF hold])
  qed
qed

lemma handle_approval_cost:
  assumes "tl_handle_approval env tool a cid args t = (Inr d, u)"
  shows "tl_cost u = tl_cost t" and "tl_completed u = tl_completed t" and "tl_defs u = tl_defs t"
proof -
  have "tl_cost (snd (tl_handle_approval env tool a cid args t)) = tl_cost t"
    "tl_completed (snd (tl_handle_approval env tool a cid args t)) = tl_completed t"
    "tl_defs (snd (tl_handle_approval env tool a cid args t)) = tl_defs t"
    by (auto simp: tl_handle_approval_def andthen_def tl_on_def through_def
        split: sum.split prod.split)
  then show "tl_cost u = tl_cost t" "tl_completed u = tl_completed t" "tl_defs u = tl_defs t"
    using assms by simp_all
qed

lemma settled_emit:
  assumes "tl_holding c rid n t"
  shows "tl_settled c (andthen (tl_on (on_cost (budget_release rid)) t)
           (\<lambda>_ t1. tl_emit_only cid name e a t1))"
  by (rule settled_release[OF assms], rule tools.settled_free)
     (auto dest: tl_emit_only_result(2,4) simp: same_but_events_def)

lemma settled_spend:
  assumes led: "ledger_ok t" and blind: "cost_blind tool"
  shows "tl_settled (tl_cost t) (tl_spend env cid tool ctx args parsed t)"
proof (cases "tool_estimate tool parsed")
  case (Inl e)
  then show ?thesis by (simp add: tl_spend_def)
next
  case est: (Inr m)
  let ?res = "budget_reserve (te_reservation env) (te_reserve_at env) m cid"
  obtain r t1 where run: "tl_on (on_cost ?res) t = (r, t1)" by (meson surj_pair)
  show ?thesis
  proof (cases r)
    case (Inl e)
    have "tl_settled (tl_cost t) (tl_fail cid name (ToolOverBudget msg) a k t1)"
      if "e = CostOverBudget msg" for msg name a k
      using reserve_refused_cost[OF run[unfolded Inl that]] led cost_inv_get[of "tl_sv t1" "tl_sv t"]
      by (intro settled_fail) simp_all
    then show ?thesis
      using est run Inl by (simp add: tl_spend_def Let_def split: exn.split)
  next
    case (Inr rs)
    note hold1 = reserve_held(1)[OF led run[unfolded Inr]]
    have hold2: "tl_holding (tl_cost t) (rs_id rs) (to_units m) t2"
      if "tl_handle_approval env tool a cid args t1 = (Inr d, t2)" for a d t2
      by (rule tools.holding_cong[OF handle_approval_cost(1)[OF that] hold1])
    show ?thesis
      using est run Inr
      by (auto simp: tl_spend_def Let_def settled_execute[OF hold1 blind]
          intro!: tools.settled_andthen settled_release_fail[OF hold2] settled_execute[OF hold2 blind] settled_emit[OF hold2])
  qed
qed

section \<open>What an answer leaves in the cache\<close>

text \<open>Every answer is cached under its correlation id, but for the pending one; a success has no
  error code, a failure costs nothing.\<close>

definition shaped :: "tool_result \<Rightarrow> bool" where
  "shaped r \<longleftrightarrow> (if tr_ok r then tr_error_code r = None else tr_cost_usd r = 0)"

definition remembered :: "string \<Rightarrow> (tool_result, 'x) tool_out \<Rightarrow> bool" where
  "remembered cid out \<longleftrightarrow>
     (\<forall>r u. out = (Inr r, u) \<longrightarrow> shaped r \<and>
        (tl_completed u cid = Some r \<or> tr_error_code r = Some ''pending_approval''))"

lemma remembered_andthen: "(\<And>a t. remembered cid (f a t)) \<Longrightarrow> remembered cid (andthen m f)"
  unfolding remembered_def by (blast dest: andthen_Inr)

lemma remembered_simps [simp]:
  "remembered cid (Inl e, t)" "remembered cid (Inr r, complete cid r t) = shaped r"
  by (simp_all add: remembered_def complete_def)

lemma remembered_fail [simp]: "remembered cid (tl_fail cid name e a k t)"
  by (auto simp: remembered_def shaped_def dest: tl_fail_result)

lemma remembered_release [simp]: "remembered cid (release_and_fail rid cid name e a k t)"
  unfolding release_and_fail_def by (intro remembered_andthen remembered_fail)

lemma remembered_commit [simp]: "remembered cid (tl_commit env cid tool a rid m out t)"
  unfolding tl_commit_def
  by (intro remembered_andthen) (auto simp: Let_def shaped_def intro!: remembered_andthen)

lemma remembered_execute [simp]: "remembered cid (tl_execute env cid tool ctx args parsed rid m t)"
  unfolding tl_execute_def Let_def
  by (intro remembered_andthen) (auto split: option.split prod.split sum.split)

lemma remembered_emit: "remembered cid (tl_emit_only cid name (PendingApproval m) a t)"
  using tl_emit_only_result(1-3)[of cid name "PendingApproval m" a t]
  by (auto simp: remembered_def shaped_def error_code_def tool_code_def)

lemma remembered_spend [simp]: "remembered cid (tl_spend env cid tool ctx args parsed t)"
  unfolding tl_spend_def Let_def
  by (auto intro!: remembered_andthen remembered_emit split: sum.split prod.split exn.split)

lemma remembered_invoke:
  assumes "cid \<noteq> []" and fresh: "tl_completed t cid = None"
  shows "remembered cid (tl_invoke env a n args (Some cid) t)"
proof -
  have str: "str_or (Some cid) u = cid" for u using assms(1) by (simp add: str_or_def)
  show ?thesis
    unfolding tl_invoke_def Let_def str fresh by (auto split: option.split sum.split)
qed

section \<open>Before the executor\<close>

lemma quiet_events: "same_but_events t u \<Longrightarrow> quiet tl_sv t u"
  by (simp add: quiet_def same_but_events_def)

lemma quiet_complete [simp]: "quiet tl_sv t (complete cid r u) = quiet tl_sv t u"
  by (simp add: quiet_def complete_def)

lemma idle_fail: "quiet tl_sv t u \<Longrightarrow> tl_idle t (tl_fail cid name e a k u)"
  unfolding tl_fail_def Let_def
  by (rule tools.idle_andthen) (auto simp: idle_def intro: tools.quiet_trans quiet_events tl_event_same)

lemma idle_emit: "quiet tl_sv t u \<Longrightarrow> tl_idle t (tl_emit_only cid name e a u)"
  unfolding tl_emit_only_def
  by (rule tools.idle_andthen) (auto simp: idle_def intro: tools.quiet_trans quiet_events tl_event_same)

lemma quiet_approval: "quiet tl_sv t (snd (tl_handle_approval env tool a cid args t))"
  by (auto simp: tl_handle_approval_def andthen_def tl_on_def through_def quiet_def
      split: sum.split prod.split)

lemma idle_release_fail: "quiet tl_sv t u \<Longrightarrow> tl_idle t (release_and_fail rid cid name e a k u)"
  unfolding release_and_fail_def
  by (rule tools.idle_andthen) (auto intro: quiet_release idle_fail)

lemma idle_release_emit:
  "quiet tl_sv t u \<Longrightarrow> tl_idle t (andthen (tl_on (on_cost (budget_release rid)) u) (\<lambda>_ v. tl_emit_only cid name e a v))"
  by (rule tools.idle_andthen) (auto intro: quiet_release idle_emit)

text \<open>The conditions under which the executor runs: a registered tool, an active agent of an allowed
  role, valid arguments, no objection of the permission check, an estimate that fits the budget and,
  where required, an approval recorded under the correlation id.\<close>

definition cleared :: "'x tools \<Rightarrow> string \<Rightarrow> string \<Rightarrow> payload \<Rightarrow> string \<Rightarrow> bool" where
  "cleared t agent_id tool_name args cid =
     (case tl_get t tool_name of Inl _ \<Rightarrow> False | Inr tool \<Rightarrow>
      (case org_get (sv_org (tl_sv t)) agent_id of Inl _ \<Rightarrow> False | Inr ag \<Rightarrow>
       ag_status ag = ACTIVE \<and> is_role_allowed tool (ag_role ag) \<and>
       (case td_schema tool args of Inl _ \<Rightarrow> False | Inr parsed \<Rightarrow>
          tool_denied tool \<lparr>tc_agent_id = agent_id, tc_role = ag_role ag, tc_correlation_id = cid\<rparr>
            parsed (tl_sv t) = None \<and>
          (case tool_estimate tool parsed of Inl _ \<Rightarrow> False | Inr m \<Rightarrow>
             \<not> ct_blocked (tl_cost t) \<and> used_units (tl_cost t) + to_units m \<le> ct_total (tl_cost t)) \<and>
          (td_requires_approval tool = AR_NONE \<or> approved_id (sv_appr (tl_sv t)) cid))))"

lemma approval_recorded:
  assumes run: "tl_handle_approval env tool a cid args t = (Inr d, u)" and cid: "cid \<noteq> []"
    and d: "d \<noteq> ''pending''" "d \<noteq> ''denied''"
  shows "approved_id (sv_appr (tl_sv t)) cid"
proof (cases "approval_kind_for (td_requires_approval tool)")
  case (Inr kind)
  obtain v where req: "tl_on (on_appr (appr_request (te_uuid env) (te_request_at env) kind a
      [(''tool'', JStr (td_name tool)), (''args'', JObj args)] plain_board_route (Some cid) None)) t = (Inr v, u)"
    and "d = approval_word v"
    using run Inr by (auto simp: tl_handle_approval_def dest: andthen_Inr)
  with d request_recorded[OF req cid] show ?thesis by (simp add: approval_word_def split: if_splits)
qed (use run in \<open>simp add: tl_handle_approval_def\<close>)

lemma approved_answers:
  assumes ok: "approved_id (sv_appr (tl_sv t)) cid" and inv: "appr_inv (get_appr (tl_sv t))"
    and cid: "cid \<noteq> []" and req: "td_requires_approval tool \<noteq> AR_NONE"
  shows "tl_handle_approval env tool a cid args t = (Inr ''approved'', t)"
proof -
  obtain v where "\<And>f n k p ro. tl_on (on_appr (appr_request f n k a p ro (Some cid) None)) t = (Inr v, t)"
    and "ar_status (av_row v) = AP_APPROVED"
    using request_approved[OF ok inv cid] by metis
  with req show ?thesis
    by (cases "td_requires_approval tool")
       (simp_all add: tl_handle_approval_def approval_kind_for_def approval_word_def)
qed

lemma spend_idle:
  assumes led: "ledger_ok t" and "cid \<noteq> []"
    and no: "\<And>m. tool_estimate tool parsed = Inr m \<Longrightarrow>
       \<not> (\<not> ct_blocked (tl_cost t) \<and> used_units (tl_cost t) + to_units m \<le> ct_total (tl_cost t) \<and>
          (td_requires_approval tool = AR_NONE \<or> approved_id (sv_appr (tl_sv t)) cid))"
  shows "tl_idle t (tl_spend env cid tool ctx args parsed t)"
proof (cases "tool_estimate tool parsed")
  case (Inl e)
  then show ?thesis by (simp add: tl_spend_def tools.idle_raise)
next
  case (Inr m)
  let ?res = "budget_reserve (te_reservation env) (te_reserve_at env) m cid"
  obtain r t1 where run: "tl_on (on_cost ?res) t = (r, t1)" by (meson surj_pair)
  have quiet1: "quiet tl_sv t t1"
    using quiet_reserve[OF led, of "te_reservation env" "te_reserve_at env" m cid] run by simp
  show ?thesis
  proof (cases r)
    case (Inl e)
    with Inr run quiet1 show ?thesis
      by (auto simp: tl_spend_def Let_def intro: idle_fail tools.idle_raise split: exn.split)
  next
    case (Inr rs)
    have appr: "sv_appr (tl_sv t1) = sv_appr (tl_sv t)"
      using run by (auto simp: tl_on_def through_def split: prod.splits)
    from reserve_held(2)[OF led run[unfolded Inr]] no[OF \<open>tool_estimate tool parsed = Inr m\<close>]
    have "td_requires_approval tool \<noteq> AR_NONE" and na: "\<not> approved_id (sv_appr (tl_sv t1)) cid"
      by (simp_all add: appr affordable_def)
    moreover have "tl_idle t (andthen (tl_handle_approval env tool (tc_agent_id ctx) cid args t1)
        (\<lambda>d t2. if d = ''pending''
           then andthen (tl_on (on_cost (budget_release (rs_id rs))) t2)
                  (\<lambda>_ t3. tl_emit_only cid (td_name tool) (PendingApproval (''pending:'' @ cid)) (tc_agent_id ctx) t3)
           else if d = ''denied''
           then release_and_fail (rs_id rs) cid (td_name tool) (ToolApprovalDenied (''denied:'' @ cid))
                  (tc_agent_id ctx) TOOL_DENIED t2
           else tl_execute env cid tool ctx args parsed (rs_id rs) m t2))"
    proof (rule tools.idle_andthen)
      show "quiet tl_sv t (snd (tl_handle_approval env tool (tc_agent_id ctx) cid args t1))"
        by (rule tools.quiet_trans[OF quiet1 quiet_approval])
    next
      fix d t2
      assume h: "tl_handle_approval env tool (tc_agent_id ctx) cid args t1 = (Inr d, t2)" and q: "quiet tl_sv t t2"
      from approval_recorded[OF h \<open>cid \<noteq> []\<close>] na have "d = ''pending'' \<or> d = ''denied''" by blast
      with q show "tl_idle t (if d = ''pending''
           then andthen (tl_on (on_cost (budget_release (rs_id rs))) t2)
                  (\<lambda>_ t3. tl_emit_only cid (td_name tool) (PendingApproval (''pending:'' @ cid)) (tc_agent_id ctx) t3)
           else if d = ''denied''
           then release_and_fail (rs_id rs) cid (td_name tool) (ToolApprovalDenied (''denied:'' @ cid))
                  (tc_agent_id ctx) TOOL_DENIED t2
           else tl_execute env cid tool ctx args parsed (rs_id rs) m t2)"
        by (auto intro: idle_release_emit idle_release_fail)
    qed
    ultimately show ?thesis
      using \<open>tool_estimate tool parsed = Inr m\<close> run Inr by (simp add: tl_spend_def Let_def)
  qed
qed

lemma invoke_idle:
  assumes led: "ledger_ok t" and cid: "cid \<noteq> []" and fresh: "tl_completed t cid = None"
    and no: "\<not> cleared t a n args cid"
  shows "tl_idle t (tl_invoke env a n args (Some cid) t)"
proof -
  have str: "str_or (Some cid) u = cid" for u using cid by (simp add: str_or_def)
  show ?thesis
  proof (cases "tl_get t n")
    case (Inl e)
    then show ?thesis by (simp add: tl_invoke_def str fresh idle_fail)
  next
    case tool: (Inr tool)
    show ?thesis
    proof (cases "org_get (sv_org (tl_sv t)) a")
      case (Inl e)
      with tool show ?thesis by (simp add: tl_invoke_def str fresh tools.idle_raise)
    next
      case ag: (Inr ag)
      show ?thesis
      proof (cases "td_schema tool args")
        case (Inl msg)
        with tool ag show ?thesis by (simp add: tl_invoke_def str fresh idle_fail Let_def)
      next
        case (Inr parsed)
        have "tl_idle t (tl_spend env cid tool ctx args parsed t)"
          if "ag_status ag = ACTIVE" "is_role_allowed tool (ag_role ag)"
            "tool_denied tool \<lparr>tc_agent_id = a, tc_role = ag_role ag, tc_correlation_id = cid\<rparr> parsed (tl_sv t) = None"
          for ctx
          by (rule spend_idle[OF led cid])
             (use no tool ag Inr that in \<open>auto simp: cleared_def split: sum.splits\<close>)
        with tool ag Inr show ?thesis
          by (auto simp: tl_invoke_def str fresh Let_def intro: idle_fail tools.idle_raise split: option.split)
      qed
    qed
  qed
qed

section \<open>Examples\<close>

text \<open>A tool that costs two dollars and needs an expense approval, and a service with it.\<close>

definition demo_tool :: "services tool_def" where
  "demo_tool =
     \<lparr>td_name = ''pay'', td_description = [], td_schema = Inr, td_output_schema = ''Paid'',
      td_category = TC_EXTERNAL, td_roles_allowed = Some [CEO, MEMBER],
      td_requires_approval = AR_EXPENSE, td_cost_estimator = Some (\<lambda>_. Inr (Money 2)),
      td_permission_check = None,
      td_executor = Some (\<lambda>ctx n p w. (Inr \<lparr>om_classes = [''Paid''], om_dump = p\<rparr>, w))\<rparr>"

definition demo_env :: tool_env where
  "demo_env =
     \<lparr>te_uuid = ''u'', te_reservation = ''v'', te_reserve_at = 7, te_request_at = 7, te_exec_at = 7,
      te_expense = ''x'', te_commit_at = 7\<rparr>"

definition demo_tools :: "unit tools" where
  "demo_tools = \<lparr>tl_defs = [demo_tool], tl_sv = demo_services, tl_completed = (\<lambda>_. None)\<rparr>"

lemma demo_ledger: "ledger_ok demo_tools"
  by (simp add: demo_tools_def demo_books)

lemma demo_tools_appr: "appr_inv (get_appr (tl_sv demo_tools))"
  by (simp add: demo_tools_def demo_books)

text \<open>The same company with an event store that takes 20 bytes.\<close>

definition tight_tools :: "unit tools" where
  "tight_tools =
     demo_tools\<lparr>tl_sv := demo_services\<lparr>sv_events := demo_store\<lparr>es_max_payload_bytes := 20\<rparr>\<rparr>\<rparr>"

definition paid :: "(tool_result, unit) tool_out \<Rightarrow> (bool \<times> rat \<times> int \<times> int) option" where
  "paid out =
     (case out of (Inr r, u) \<Rightarrow>
        Some (tr_ok r, tr_cost_usd r, sum_expenses (tl_cost u), sum_open_reservations (tl_cost u))
      | _ \<Rightarrow> None)"

lemma demo_paid:
  "paid (tl_invoke demo_env ''bob'' ''pay'' [(''a'', JInt 1)] (Some ''r1'') demo_tools) =
     Some (True, 2, 20000, 0)"
  by code_simp

section \<open>An announcement that is refused\<close>

lemma reserve_stays:
  assumes inv: "cost_inv s" and "0 \<le> to_units m" and "\<not> ct_blocked (fst s)"
    and "used_units (fst s) + to_units m \<le> ct_total (fst s)"
    and "tbl_find rs_id rid (ct_reservations (fst s)) = None"
  shows "\<exists>r row t. budget_reserve rid now m ref s = (map_sum id (\<lambda>_. row) (r :: exn + unit), t) \<and>
    (\<forall>e. r = Inl e \<longrightarrow> (\<forall>x. e \<noteq> CostOverBudget x)) \<and> rs_id row = rid \<and>
    held rid (to_units m) (fst t) \<and> log_extends (snd s) (snd t)"
proof -
  have "flag_ok (fst s)" using inv by (simp add: cost_inv_def)
  then show ?thesis
  proof (rule reserve_cases[of s rid now m ref])
    fix r es row c1
    assume a: "budget_reserve rid now m ref s = (map_sum id (\<lambda>_. row) r,
          c1\<lparr>ct_last_pct := level (cost_pct c1), ct_blocked := cost_pct c1 \<ge> 100\<rparr>, es)"
      and c1: "c1 = (fst s)\<lparr>ct_reservations := ct_reservations (fst s) @ [row]\<rparr>"
      and app: "append_all (threshold_events c1) None (snd s) = (r, es)"
      and row: "row = \<lparr>rs_id = rid, rs_units = to_units m, rs_ref = ref, rs_status = OPEN, rs_created_at = now\<rparr>"
    have "log_extends (snd s) es"
      using append_all_extends[of "snd s" "threshold_events c1" None] app by simp
    moreover have "\<forall>e. r = Inl e \<longrightarrow> (\<forall>x. e \<noteq> CostOverBudget x)"
      using append_all_raises app by blast
    moreover have "held rid (to_units m)
        (c1\<lparr>ct_last_pct := level (cost_pct c1), ct_blocked := cost_pct c1 \<ge> 100\<rparr>)"
      using assms(5) by (simp add: c1 row held_def tbl_find_append)
    ultimately show ?thesis by (intro exI conjI) (rule a, simp_all add: row)
  qed (use assms in \<open>auto simp: not_less\<close>)
qed

definition called_payload :: "string \<Rightarrow> payload \<Rightarrow> string \<Rightarrow> payload" where
  "called_payload name args cid =
     [(''tool'', JStr name), (''arguments'', JObj args), (''request_id'', JStr cid)]"

definition announcement_too_large :: "event_store \<Rightarrow> string \<Rightarrow> payload \<Rightarrow> string \<Rightarrow> bool" where
  "announcement_too_large es name args cid =
     (case es_validate es ToolCalledPayload (called_payload name args cid) of
        None \<Rightarrow> False
      | Some v \<Rightarrow> es_max_payload_bytes es < int (utf8_len (json_dumps (es_float_repr es) (JObj v))))"

lemma option_case_elim: "(case x of None \<Rightarrow> False | Some v \<Rightarrow> P v) \<Longrightarrow> (\<And>v. x = Some v \<Longrightarrow> P v \<Longrightarrow> Q) \<Longrightarrow> Q"
  by (cases x) auto

lemma not_cost_over:
  "\<forall>x. e \<noteq> CostOverBudget x \<Longrightarrow>
   (case e of CostOverBudget m \<Rightarrow> tl_fail cid name (ToolOverBudget m) a k t | _ \<Rightarrow> (Inl e, t)) = (Inl e, t)"
  by (cases e) simp_all

lemma announcement_raises:
  assumes "announcement_too_large es name args cid" and "log_extends es (sv_events (tl_sv t))"
  shows "tl_event TOOL_CALLED (called_payload name args cid) a cid t = (Inl (PayloadTooLarge (kind_value TOOL_CALLED)), t)"
proof -
  have "es_append (Inl TOOL_CALLED) (called_payload name args cid) (Some a) (Some cid) (sv_events (tl_sv t)) =
      (Inl (PayloadTooLarge (kind_value TOOL_CALLED)), sv_events (tl_sv t))"
  proof -
    obtain v where v: "es_validate es ToolCalledPayload (called_payload name args cid) = Some v"
      "es_max_payload_bytes es < int (utf8_len (json_dumps (es_float_repr es) (JObj v)))"
      using assms(1) unfolding announcement_too_large_def by (blast elim: option_case_elim)
    have "es_validate_payload (sv_events (tl_sv t)) TOOL_CALLED (called_payload name args cid) = Inr v"
      using v(1) assms(2) by (simp add: es_validate_payload_def log_extends_def)
    moreover have "es_max_payload_bytes (sv_events (tl_sv t)) <
        int (utf8_len (json_dumps (es_float_repr (sv_events (tl_sv t))) (JObj v)))"
      using v(2) assms(2) by (simp only: log_extends_def)
    ultimately show ?thesis by (simp only: es_append_def coerce_kind.simps sum.case if_True)
  qed
  then show ?thesis
    by (simp add: tl_event_def tl_on_def event_view.through_idle)
qed

lemma leak_spend:
  assumes led: "ledger_ok t" and cid: "cid \<noteq> []" and appr: "appr_inv (get_appr (tl_sv t))"
    and est: "tool_estimate tool parsed = Inr m" and pos: "0 \<le> to_units m"
    and fit: "\<not> ct_blocked (tl_cost t)" "used_units (tl_cost t) + to_units m \<le> ct_total (tl_cost t)"
    and ok: "td_requires_approval tool = AR_NONE \<or> approved_id (sv_appr (tl_sv t)) cid"
    and new: "tbl_find rs_id (te_reservation env) (ct_reservations (tl_cost t)) = None"
    and big: "announcement_too_large (sv_events (tl_sv t)) (td_name tool) args cid"
  shows "\<exists>e u. tl_spend env cid tool ctx args parsed t = (Inl e, u) \<and>
    held (te_reservation env) (to_units m) (tl_cost u) \<and> tl_completed u = tl_completed t"
proof -
  let ?rid = "te_reservation env"
  from reserve_stays[OF led pos, of ?rid "te_reserve_at env" cid] fit new
  obtain r row c es where run: "budget_reserve ?rid (te_reserve_at env) m cid (get_cost (tl_sv t)) =
      (map_sum id (\<lambda>_. row) (r :: exn + unit), c, es)" and r: "\<forall>e. r = Inl e \<longrightarrow> (\<forall>x. e \<noteq> CostOverBudget x)"
    and row: "rs_id row = ?rid" and held: "held ?rid (to_units m) c"
    and ext: "log_extends (sv_events (tl_sv t)) es"
    by (auto simp: get_cost_def)
  define t1 where "t1 = t\<lparr>tl_sv := put_cost (c, es) (tl_sv t)\<rparr>"
  have on: "tl_on (on_cost (budget_reserve ?rid (te_reserve_at env) m cid)) t = (map_sum id (\<lambda>_. row) r, t1)"
    by (simp add: tl_on_def through_def run t1_def)
  have t1: "tl_cost t1 = c" "sv_events (tl_sv t1) = es" "sv_appr (tl_sv t1) = sv_appr (tl_sv t)"
    "tl_completed t1 = tl_completed t" by (simp_all add: t1_def) (simp add: put_cost_def)
  show ?thesis
  proof (cases r)
    case (Inl e)
    with r on est held t1 show ?thesis by (simp add: tl_spend_def Let_def not_cost_over)
  next
    case (Inr v)
    have "log_extends (sv_events (tl_sv t)) (sv_events (tl_sv t1))" by (simp add: t1 ext)
    note raises = announcement_raises[OF big this]
    then have exec: "tl_execute env cid tool ctx args parsed ?rid m t1 = (Inl (PayloadTooLarge (kind_value TOOL_CALLED)), t1)"
      by (simp add: tl_execute_def Let_def called_payload_def)
    have hand: "tl_handle_approval env tool (tc_agent_id ctx) cid args t1 = (Inr ''approved'', t1)"
      if "td_requires_approval tool \<noteq> AR_NONE"
      by (rule approved_answers[OF _ _ cid that]) (use that ok appr in \<open>simp_all add: t1 get_appr_def appr_inv_def\<close>)
    show ?thesis
      using est on Inr row exec hand held t1 by (auto simp: tl_spend_def Let_def)
  qed
qed

section \<open>Properties\<close>



text \<open>
  C18. Nothing runs uncleared: unless the tool is registered, the agent active and of an allowed
  role, the arguments valid, the permission check silent, the estimate within the budget and a
  required approval recorded as approved under the correlation id, an invocation changes neither
  the organisation nor the services behind the executors, spends nothing, and answers no success.
\<close>

theorem uncleared_call_is_inert:
  assumes "ledger_ok t" and "cid \<noteq> []" and "tl_completed t cid = None"
    and "\<not> cleared t a n args cid"
  shows "case tl_invoke env a n args (Some cid) t of (res, u) \<Rightarrow>
    sv_org (tl_sv u) = sv_org (tl_sv t) \<and> services.more (tl_sv u) = services.more (tl_sv t) \<and>
    sum_expenses (tl_cost u) = sum_expenses (tl_cost t) \<and> (\<forall>r. res = Inr r \<longrightarrow> \<not> tr_ok r)"
  using invoke_idle[OF assms, of env] by (auto simp: idle_def quiet_def case_prod_beta)

lemma uncleared_call_is_inert_witness:
  "sum_expenses (tl_cost (snd (tl_invoke demo_env ''bob'' ''pay'' [] (Some ''r2'') demo_tools))) = 0"
proof -
  have "\<not> cleared demo_tools ''bob'' ''pay'' [] ''r2''" by code_simp
  from uncleared_call_is_inert[OF demo_ledger _ _ this, of demo_env] show ?thesis
    by (simp add: case_prod_beta demo_tools_def demo_services_def sum_expenses_def)
qed

text \<open>
  An answer other than "pending approval" is final: every later invocation under its correlation
  id, by whoever, of whatever tool and with whatever arguments, gives the same answer and changes
  nothing.
\<close>

theorem answer_is_final:
  assumes "cid \<noteq> []" and "tl_invoke env a n args (Some cid) t = (Inr r, u)"
    and "tr_error_code r \<noteq> Some ''pending_approval''"
  shows "tl_invoke env' a' n' args' (Some cid) u = (Inr r, u)"
proof -
  have "tl_completed u cid = Some r"
  proof (cases "tl_completed t cid")
    case None
    from remembered_invoke[OF assms(1) None, of env a n args] assms(2,3)
    show ?thesis by (auto simp: remembered_def)
  next
    case (Some r0)
    then show ?thesis using assms(1,2) by (simp add: tl_invoke_def str_or_def)
  qed
  then show ?thesis using assms(1) by (simp add: tl_invoke_def str_or_def)
qed

lemma answer_is_final_witness:
  "\<exists>r u. tl_invoke demo_env ''bob'' ''pay'' [(''a'', JInt 1)] (Some ''r1'') demo_tools = (Inr r, u) \<and>
     tl_invoke demo_env ''eve'' ''other'' [] (Some ''r1'') u = (Inr r, u)"
proof -
  obtain r u where run: "tl_invoke demo_env ''bob'' ''pay'' [(''a'', JInt 1)] (Some ''r1'') demo_tools = (Inr r, u)"
    and "tr_ok r" using demo_paid by (auto simp: paid_def split: prod.splits sum.splits)
  then have "tr_error_code r \<noteq> Some ''pending_approval''"
    using remembered_invoke[of "''r1''" demo_tools demo_env "''bob''" "''pay''" "[(''a'', JInt 1)]"]
    by (simp add: demo_tools_def remembered_def shaped_def)
  from answer_is_final[OF _ run this] run show ?thesis by blast
qed

text \<open>
  The approval gate looks at the correlation id alone: once any request under that id is
  approved, whoever asked for whatever, every tool that needs an approval passes the gate with it.
\<close>

theorem approval_covers_any_tool:
  assumes "appr_inv (get_appr (tl_sv t))" and "approved_id (sv_appr (tl_sv t)) cid" and "cid \<noteq> []"
    and "td_requires_approval tool \<noteq> AR_NONE"
  shows "tl_handle_approval env tool a cid args t = (Inr ''approved'', t)"
  by (rule approved_answers[OF assms(2,1,3,4)])

lemma approval_covers_any_tool_witness:
  "fst (tl_handle_approval demo_env demo_tool ''eve'' ''r1'' [(''steal'', JBool True)] demo_tools) = Inr ''approved''"
proof -
  have "approved_id (sv_appr (tl_sv demo_tools)) ''r1''"
    by (simp add: demo_tools_def demo_services_def demo_row_def approved_id_def)
  from approval_covers_any_tool[OF demo_tools_appr this, of demo_tool] show ?thesis by (simp add: demo_tool_def)
qed

text \<open>
  An announcement that the event store refuses leaks the reservation: when a cleared call's
  arguments do not fit the event store's payload limit, the call raises instead of answering, caches
  nothing, and its reservation stays open.
\<close>

theorem oversized_call_leaks_reservation:
  assumes "ledger_ok t" and "appr_inv (get_appr (tl_sv t))" and "cid \<noteq> []"
    and "tl_completed t cid = None" and "cleared t a n args cid"
    and "tl_get t n = Inr tool" and "td_schema tool args = Inr parsed"
    and "tool_estimate tool parsed = Inr m" and "0 \<le> to_units m"
    and "tbl_find rs_id (te_reservation env) (ct_reservations (tl_cost t)) = None"
    and "announcement_too_large (sv_events (tl_sv t)) (td_name tool) args cid"
  shows "\<exists>e u. tl_invoke env a n args (Some cid) t = (Inl e, u) \<and>
    held (te_reservation env) (to_units m) (tl_cost u) \<and> tl_completed u cid = None"
proof -
  have str: "str_or (Some cid) x = cid" for x using assms(3) by (simp add: str_or_def)
  obtain ag where ag: "org_get (sv_org (tl_sv t)) a = Inr ag"
    using assms(5,6) by (cases "org_get (sv_org (tl_sv t)) a") (simp_all add: cleared_def)
  let ?ctx = "\<lparr>tc_agent_id = a, tc_role = ag_role ag, tc_correlation_id = cid\<rparr>"
  have ok: "ag_status ag = ACTIVE" "is_role_allowed tool (ag_role ag)"
    "tool_denied tool ?ctx parsed (tl_sv t) = None" "\<not> ct_blocked (tl_cost t)"
    "used_units (tl_cost t) + to_units m \<le> ct_total (tl_cost t)"
    "td_requires_approval tool = AR_NONE \<or> approved_id (sv_appr (tl_sv t)) cid"
    using assms(5) by (simp_all add: cleared_def assms(6-8) ag)
  have "tl_invoke env a n args (Some cid) t = tl_spend env cid tool ?ctx args parsed t"
    using ok(1-3) by (simp add: tl_invoke_def str assms(4,6,7) ag Let_def)
  with leak_spend[OF assms(1,3,2,8,9) ok(4-6) assms(10,11), of ?ctx] assms(4) show ?thesis by auto
qed

lemma oversized_call_leaks_reservation_witness:
  "\<exists>e u. tl_invoke demo_env ''bob'' ''pay'' [] (Some ''r1'') tight_tools = (Inl e, u) \<and>
     held ''v'' 20000 (tl_cost u)"
proof -
  have cl: "cleared tight_tools ''bob'' ''pay'' [] ''r1''" by code_simp
  have big: "announcement_too_large (sv_events (tl_sv tight_tools)) ''pay'' [] ''r1''" by code_simp
  have led: "ledger_ok tight_tools"
    by (simp add: tight_tools_def get_cost_def demo_tools_def demo_services_def
        cost_inv_def flag_ok_def tbl_pk_def)
  have units: "to_units (Money 2) = 20000" using round_half_up_int[of 20000] by (simp add: to_units_def)
  have "appr_inv (get_appr (tl_sv tight_tools))" using demo_tools_appr
    by (simp add: tight_tools_def demo_tools_def get_appr_def appr_inv_def)
  note leak = oversized_call_leaks_reservation[OF led this _ _ cl, of demo_tool "[]" "Money 2" demo_env]
  have "\<exists>e u. tl_invoke demo_env ''bob'' ''pay'' [] (Some ''r1'') tight_tools = (Inl e, u) \<and>
      held (te_reservation demo_env) (to_units (Money 2)) (tl_cost u) \<and> tl_completed u ''r1'' = None"
    by (rule leak) (use big in \<open>simp_all add: units tight_tools_def demo_tools_def tl_get_def demo_tool_def
        tool_estimate_def demo_env_def demo_services_def\<close>)
  then show ?thesis by (auto simp: units demo_env_def)
qed

end
