(* ===== verification/Connector_Model.thy ===== *)
theory Connector_Model
  imports Services Rate_Limits
begin

text \<open>
  \<^verbatim>\<open>modules/connector\<close>: the allowlist, the service registry with its auto-approve thresholds, and the
  pipeline of \<^verbatim>\<open>Connector.call\<close>: cache, lookup, allowlist, arguments, estimate, rate limit, approval,
  reservation, execution with retries, sanitizer, commit. An action's schema, estimator, executor
  and sanitizer are fields of its definition, as in ActionDef; an executor acts on the services
  bundle, extended by whatever the outside world is. The locks are not modelled: a call is atomic.
\<close>

section \<open>Models\<close>

datatype risk_level = RISK_LOW | RISK_MEDIUM | RISK_HIGH | RISK_CRITICAL

fun risk_value :: "risk_level \<Rightarrow> string" where
  "risk_value RISK_LOW = ''low''"
| "risk_value RISK_MEDIUM = ''medium''"
| "risk_value RISK_HIGH = ''high''"
| "risk_value RISK_CRITICAL = ''critical''"

datatype auth_method = AUTH_NONE | AUTH_API_KEY | AUTH_OAUTH

record 'w action_def =
  ad_description :: string
  ad_args_schema :: "payload \<Rightarrow> string + payload"
  ad_output_schema :: string
  ad_cost_estimator :: "payload \<Rightarrow> exn + money"
  ad_executor :: "payload \<Rightarrow> 'w \<Rightarrow> (output_model, 'w) outcome"
  ad_sanitizer :: "output_model \<Rightarrow> exn + output_model"
  ad_rate_limit :: "rate_limit option"
  ad_threshold :: "money option"
  ad_idempotent :: bool

record 'w service_def =
  sd_name :: string
  sd_description :: string
  sd_auth :: auth_method
  sd_risk :: risk_level
  sd_actions :: "(string \<times> 'w action_def) list"

record connector_result =
  kr_ok :: bool
  kr_output :: "output_model option"
  kr_error_code :: "string option"
  kr_error_message :: "string option"
  kr_cost_usd :: rat
  kr_approval_request_id :: "string option"

section \<open>Allowlist\<close>

type_synonym allowlist = "string list"

definition colon :: char where "colon = char_of (58 :: nat)"

definition al_key :: "string \<Rightarrow> string option \<Rightarrow> string" where
  "al_key service action = (case action of None \<Rightarrow> service | Some a \<Rightarrow> service @ [colon] @ a)"

definition al_allow :: "string \<Rightarrow> string option \<Rightarrow> allowlist \<Rightarrow> allowlist" where
  "al_allow service action al = List.insert (al_key service action) al"

definition al_revoke :: "string \<Rightarrow> string option \<Rightarrow> allowlist \<Rightarrow> allowlist" where
  "al_revoke service action al = filter (\<lambda>k. k \<noteq> al_key service action) al"

definition al_is_allowed :: "allowlist \<Rightarrow> string \<Rightarrow> string \<Rightarrow> bool" where
  "al_is_allowed al service action \<longleftrightarrow> service \<in> set al \<or> al_key service (Some action) \<in> set al"

definition al_entry :: "string \<Rightarrow> string \<times> string option" where
  "al_entry key =
     (if colon \<in> set key
      then (takeWhile (\<lambda>c. c \<noteq> colon) key, Some (tl (dropWhile (\<lambda>c. c \<noteq> colon) key)))
      else (key, None))"

definition al_entries :: "allowlist \<Rightarrow> (string \<times> string option) list" where
  "al_entries al = map al_entry (sort al)"

section \<open>Registry\<close>

record 'x connector =
  cn_sv :: "'x services_scheme"
  cn_allowlist :: allowlist
  cn_rate :: conn_limiter
  cn_services :: "'x services_scheme service_def list"
  cn_completed :: "string \<Rightarrow> connector_result option"

type_synonym ('a, 'x) conn_out = "('a, 'x connector) outcome"

definition cn_create :: "'x services_scheme \<Rightarrow> 'x connector" where
  "cn_create w = \<lparr>cn_sv = w, cn_allowlist = [], cn_rate = cl_create, cn_services = [],
                  cn_completed = (\<lambda>_. None)\<rparr>"

definition plug_rate :: "rat \<Rightarrow> string \<Rightarrow> string \<times> 'w action_def \<Rightarrow> conn_limiter \<Rightarrow> conn_limiter" where
  "plug_rate now service na r =
     (case ad_rate_limit (snd na) of
        None \<Rightarrow> r | Some lm \<Rightarrow> cl_configure now (service @ [colon] @ fst na) lm r)"

definition cn_register_service :: "rat \<Rightarrow> 'x services_scheme service_def \<Rightarrow> 'x connector \<Rightarrow> (unit, 'x) conn_out" where
  "cn_register_service now svc c =
     (if tbl_find sd_name (sd_name svc) (cn_services c) \<noteq> None
      then (Inl (ValueError (''service already registered: '' @ sd_name svc)), c)
      else (Inr (), c\<lparr>cn_services := cn_services c @ [svc],
                     cn_rate := fold (plug_rate now (sd_name svc)) (sd_actions svc) (cn_rate c)\<rparr>))"

definition cn_get_service :: "'x connector \<Rightarrow> string \<Rightarrow> exn + 'x services_scheme service_def" where
  "cn_get_service c name =
     (case tbl_find sd_name name (cn_services c) of Some s \<Rightarrow> Inr s | None \<Rightarrow> Inl (UnknownService name))"

text \<open>\<^verbatim>\<open>str(amount_usd)\<close> of an amount at four decimal places.\<close>

definition usd_str :: "money \<Rightarrow> string" where
  "usd_str m =
     (let u = nat (to_units m)
      in nat_str (u div 10000) @ ''.'' @
         map (\<lambda>d. digit_char (u div d mod 10)) [1000, 100, 10, 1])"

definition threshold_entry :: "'w service_def \<Rightarrow> string \<times> 'w action_def \<Rightarrow> payload" where
  "threshold_entry svc na =
     [(''service'', JStr (sd_name svc)), (''action'', JStr (fst na)), (''risk'', JStr (risk_value (sd_risk svc))),
      (''auto_approve_threshold_usd'',
       case ad_threshold (snd na) of None \<Rightarrow> JNull | Some m \<Rightarrow> JStr (usd_str m))]"

definition cn_list_thresholds :: "'x connector \<Rightarrow> payload list" where
  "cn_list_thresholds c =
     concat (map (\<lambda>svc. map (threshold_entry svc) (sort_key fst (sd_actions svc)))
               (sort_key sd_name (cn_services c)))"

definition put_threshold :: "string \<Rightarrow> money option \<Rightarrow> 'w service_def \<Rightarrow> 'w service_def" where
  "put_threshold action th svc =
     svc\<lparr>sd_actions := map (\<lambda>(n, a). (n, if n = action then a\<lparr>ad_threshold := th\<rparr> else a)) (sd_actions svc)\<rparr>"

definition cn_set_action_threshold ::
  "string \<Rightarrow> string \<Rightarrow> money option \<Rightarrow> 'x connector \<Rightarrow> (unit, 'x) conn_out" where
  "cn_set_action_threshold service action th c =
     (case cn_get_service c service of
        Inl e \<Rightarrow> (Inl e, c)
      | Inr svc \<Rightarrow>
          if map_of (sd_actions svc) action = None
          then (Inl (UnknownAction (service @ [colon] @ action)), c)
          else (Inr (), c\<lparr>cn_services := tbl_upd sd_name service (put_threshold action th) (cn_services c)\<rparr>))"

section \<open>The call pipeline\<close>

text \<open>What the environment supplies during a call: ids and readings of the clocks.\<close>

record conn_env =
  ce_uuid :: string
  ce_monotonic :: rat
  ce_request_at :: int
  ce_reservation :: string
  ce_reserve_at :: int
  ce_expense :: string
  ce_commit_at :: int

definition cn_on :: "('x services_scheme \<Rightarrow> ('a, 'x services_scheme) outcome) \<Rightarrow> 'x connector \<Rightarrow> ('a, 'x) conn_out" where
  "cn_on f c = (case f (cn_sv c) of (r, w) \<Rightarrow> (r, c\<lparr>cn_sv := w\<rparr>))"

definition cn_emit_event :: "string \<Rightarrow> string \<Rightarrow> string \<Rightarrow> string \<Rightarrow> string \<Rightarrow> 'x connector \<Rightarrow> (unit, 'x) conn_out" where
  "cn_emit_event service action status actor cid c =
     andthen
       (cn_on (on_events (es_append (Inl EXTERNAL_CALL)
          [(''service'', JStr service), (''endpoint'', JStr action), (''request_id'', JStr cid),
           (''status'', JStr status)] (Some actor) (Some cid))) c)
       (\<lambda>_ c1. (Inr (), c1))"

text \<open>\<^verbatim>\<open>getattr(exc, "code", "external_failure")\<close>.\<close>

definition conn_code :: "exn \<Rightarrow> string" where
  "conn_code e =
     (case e of
        ServiceNotAllowed _ \<Rightarrow> ''not_allowed''
      | UnknownService _ \<Rightarrow> ''unknown_service''
      | UnknownAction _ \<Rightarrow> ''unknown_action''
      | MissingCredential _ \<Rightarrow> ''missing_credential''
      | MalformedResponse _ \<Rightarrow> ''malformed_response''
      | RateLimited _ \<Rightarrow> ''rate_limited''
      | ExternalServiceFailure _ \<Rightarrow> ''external_failure''
      | PendingApprovalError _ \<Rightarrow> ''pending_approval''
      | ApprovalDeniedError _ \<Rightarrow> ''approval_denied''
      | ConnectorError _ \<Rightarrow> ''connector_error''
      | _ \<Rightarrow> ''external_failure'')"

definition is_rate_limited :: "exn \<Rightarrow> bool" where
  "is_rate_limited e = (case e of RateLimited _ \<Rightarrow> True | _ \<Rightarrow> False)"

definition remember :: "string \<Rightarrow> connector_result \<Rightarrow> 'x connector \<Rightarrow> 'x connector" where
  "remember cid r c = c\<lparr>cn_completed := (cn_completed c)(cid \<mapsto> r)\<rparr>"

definition cn_fail :: "string \<Rightarrow> string \<Rightarrow> string \<Rightarrow> exn \<Rightarrow> string \<Rightarrow> 'x connector \<Rightarrow> (connector_result, 'x) conn_out" where
  "cn_fail cid service action e actor c =
     (let result = \<lparr>kr_ok = False, kr_output = None, kr_error_code = Some (conn_code e),
                    kr_error_message = Some (exn_text e), kr_cost_usd = 0,
                    kr_approval_request_id = (case e of ApprovalDeniedError _ \<Rightarrow> Some cid | _ \<Rightarrow> None)\<rparr>
      in andthen (cn_emit_event service action ''error'' actor cid c)
           (\<lambda>_ c1. (Inr result, if is_rate_limited e then c1 else remember cid result c1)))"

text \<open>\<^verbatim>\<open>_execute_with_retry\<close>: the back-off sleeps between attempts are not modelled.\<close>

definition RETRYABLE_LIMIT :: nat where "RETRYABLE_LIMIT = 3"

fun cn_attempt :: "nat \<Rightarrow> 'w action_def \<Rightarrow> payload \<Rightarrow> 'w \<Rightarrow> (output_model, 'w) outcome" where
  "cn_attempt 0 ad p w = (Inl (ExternalServiceFailure ''unreachable''), w)"
| "cn_attempt (Suc n) ad p w =
     (case ad_executor ad p w of
        (Inr v, w1) \<Rightarrow> (Inr v, w1)
      | (Inl e, w1) \<Rightarrow>
          (case e of
             ExternalServiceFailure _ \<Rightarrow> if n = 0 then (Inl e, w1) else cn_attempt n ad p w1
           | _ \<Rightarrow> (Inl e, w1)))"

definition cn_execute_with_retry :: "'w action_def \<Rightarrow> payload \<Rightarrow> 'w \<Rightarrow> (output_model, 'w) outcome" where
  "cn_execute_with_retry ad = cn_attempt (if ad_idempotent ad then RETRYABLE_LIMIT else 1) ad"

definition auto_approved :: "'w service_def \<Rightarrow> 'w action_def \<Rightarrow> money \<Rightarrow> bool" where
  "auto_approved svc ad estimate \<longleftrightarrow>
     sd_risk svc = RISK_LOW \<and>
     (case ad_threshold ad of None \<Rightarrow> False | Some th \<Rightarrow> amount_usd estimate \<le> amount_usd th)"

definition cn_evaluate_approval ::
  "conn_env \<Rightarrow> 'x services_scheme service_def \<Rightarrow> 'x services_scheme action_def \<Rightarrow> string \<Rightarrow> money \<Rightarrow> string
   \<Rightarrow> payload \<Rightarrow> string \<Rightarrow> 'x connector \<Rightarrow> (string, 'x) conn_out" where
  "cn_evaluate_approval env svc ad agent estimate cid args action c =
     (if auto_approved svc ad estimate then (Inr ''approved'', c)
      else
        andthen
          (cn_on (on_appr (appr_request (ce_uuid env) (ce_request_at env) AK_EXTERNAL_ACTION agent
             [(''service'', JStr (sd_name svc)), (''action'', JStr action), (''args'', JObj args),
              (''estimated_cost_usd'', JStr (usd_str estimate)), (''risk'', JStr (risk_value (sd_risk svc)))]
             \<lparr>ro_target = BOARD, ro_agent_id = None, ro_require_security = (sd_risk svc = RISK_CRITICAL)\<rparr>
             (Some cid) None)) c)
          (\<lambda>v c1. (Inr (approval_word v), c1)))"

definition cn_commit ::
  "conn_env \<Rightarrow> string \<Rightarrow> string \<Rightarrow> string \<Rightarrow> string \<Rightarrow> string \<Rightarrow> money \<Rightarrow> output_model
   \<Rightarrow> 'x connector \<Rightarrow> (connector_result, 'x) conn_out" where
  "cn_commit env cid service action agent rid estimate sanitized c =
     andthen (cn_on (on_cost (budget_commit (ce_expense env) (ce_commit_at env) rid estimate)) c)
       (\<lambda>charge c1.
          if \<not> cr_ok charge then cn_fail cid service action (ConnectorError ''commit_failed'') agent c1
          else
            let result = \<lparr>kr_ok = True, kr_output = Some sanitized, kr_error_code = None,
                          kr_error_message = None, kr_cost_usd = amount_usd estimate,
                          kr_approval_request_id = None\<rparr>
            in andthen (cn_emit_event service action ''ok'' agent cid c1)
                 (\<lambda>_ c2. (Inr result, remember cid result c2)))"

definition cn_release_fail ::
  "string \<Rightarrow> string \<Rightarrow> string \<Rightarrow> string \<Rightarrow> exn \<Rightarrow> string \<Rightarrow> 'x connector \<Rightarrow> (connector_result, 'x) conn_out" where
  "cn_release_fail rid cid service action e agent c =
     andthen (cn_on (on_cost (budget_release rid)) c) (\<lambda>_ c1. cn_fail cid service action e agent c1)"

text \<open>From the reservation's grant to the answer.\<close>

definition cn_execute ::
  "conn_env \<Rightarrow> string \<Rightarrow> string \<Rightarrow> string \<Rightarrow> 'x services_scheme action_def \<Rightarrow> string \<Rightarrow> payload \<Rightarrow> string
   \<Rightarrow> money \<Rightarrow> 'x connector \<Rightarrow> (connector_result, 'x) conn_out" where
  "cn_execute env cid service action ad agent parsed rid estimate c =
     (case cn_on (cn_execute_with_retry ad parsed) c of
        (Inl e, c1) \<Rightarrow>
          cn_release_fail rid cid service action
            (case e of ExternalServiceFailure _ \<Rightarrow> e | _ \<Rightarrow> ExternalServiceFailure (exn_text e)) agent c1
      | (Inr output, c1) \<Rightarrow>
          (case ad_sanitizer ad output of
             Inl e \<Rightarrow> cn_release_fail rid cid service action (ConnectorError (''malformed:'' @ exn_text e)) agent c1
           | Inr sanitized \<Rightarrow>
               if ad_output_schema ad \<notin> set (om_classes sanitized)
               then cn_release_fail rid cid service action
                      (ConnectorError (''sanitizer returned '' @ first_class sanitized @ '', expected '' @
                         ad_output_schema ad)) agent c1
               else cn_commit env cid service action agent rid estimate sanitized c1))"

text \<open>After the rate limit: approval, reservation, execution.\<close>

definition cn_spend ::
  "conn_env \<Rightarrow> string \<Rightarrow> 'x services_scheme service_def \<Rightarrow> string \<Rightarrow> 'x services_scheme action_def \<Rightarrow> string
   \<Rightarrow> payload \<Rightarrow> payload \<Rightarrow> money \<Rightarrow> 'x connector \<Rightarrow> (connector_result, 'x) conn_out" where
  "cn_spend env cid svc action ad agent args parsed estimate c =
     (let service = sd_name svc in
      andthen (cn_evaluate_approval env svc ad agent estimate cid args action c)
        (\<lambda>decision c1.
           if decision = ''pending'' then
             andthen (cn_emit_event service action ''issued'' agent cid c1)
               (\<lambda>_ c2. (Inr \<lparr>kr_ok = False, kr_output = None, kr_error_code = Some ''pending_approval'',
                            kr_error_message = Some (''pending:'' @ cid), kr_cost_usd = 0,
                            kr_approval_request_id = Some cid\<rparr>, c2))
           else if decision = ''denied'' then
             cn_fail cid service action (ApprovalDeniedError (''denied:'' @ cid)) agent c1
           else
             (case cn_on (on_cost (budget_reserve (ce_reservation env) (ce_reserve_at env) estimate cid)) c1 of
                (Inl e, c2) \<Rightarrow>
                  (case e of
                     CostOverBudget m \<Rightarrow>
                       cn_fail cid service action (ConnectorError (''over_budget:'' @ m)) agent c2
                   | _ \<Rightarrow> (Inl e, c2))
              | (Inr rs, c2) \<Rightarrow> cn_execute env cid service action ad agent parsed (rs_id rs) estimate c2)))"

definition cn_call ::
  "conn_env \<Rightarrow> string \<Rightarrow> string \<Rightarrow> string \<Rightarrow> payload \<Rightarrow> string option \<Rightarrow> 'x connector \<Rightarrow> (connector_result, 'x) conn_out" where
  "cn_call env agent service action args correlation c =
     (let cid = str_or correlation (ce_uuid env);
          failed = (\<lambda>e. cn_fail cid service action e agent c)
      in
      case cn_completed c cid of
        Some r \<Rightarrow> (Inr r, c)
      | None \<Rightarrow>
         (case cn_get_service c service of
            Inl e \<Rightarrow> failed e
          | Inr svc \<Rightarrow>
             (case map_of (sd_actions svc) action of
                None \<Rightarrow> failed (UnknownAction (service @ ''.'' @ action))
              | Some ad \<Rightarrow>
                 if \<not> al_is_allowed (cn_allowlist c) service action
                 then failed (ServiceNotAllowed (service @ ''.'' @ action))
                 else
                  (case ad_args_schema ad args of
                     Inl msg \<Rightarrow> failed (ConnectorError (''args:'' @ msg))
                   | Inr parsed \<Rightarrow>
                      (case ad_cost_estimator ad parsed of
                         Inl e \<Rightarrow> (Inl e, c)
                       | Inr estimate \<Rightarrow>
                          (case cl_acquire (ce_monotonic env) (al_key service (Some action)) (cn_rate c) of
                             (Inl e, r) \<Rightarrow>
                               if is_rate_limited e
                               then cn_fail cid service action e agent (c\<lparr>cn_rate := r\<rparr>)
                               else (Inl e, c\<lparr>cn_rate := r\<rparr>)
                           | (Inr _, r) \<Rightarrow>
                               cn_spend env cid svc action ad agent args parsed estimate (c\<lparr>cn_rate := r\<rparr>)))))))"

section \<open>The pipeline contract\<close>

definition put_conn :: "'x services_scheme \<Rightarrow> 'x connector \<Rightarrow> 'x connector" where
  "put_conn w c = c\<lparr>cn_sv := w\<rparr>"

lemma cn_on_through: "cn_on = through cn_sv put_conn"
  by (intro ext) (simp add: cn_on_def through_def put_conn_def)

interpretation conn: pipeline cn_sv put_conn kr_cost_usd kr_ok
  by unfold_locales (simp_all add: put_conn_def)

lemmas cn_reserve_held = conn.reserve_held[folded cn_on_through]
  and cn_reserve_refused = conn.reserve_refused_cost[folded cn_on_through]
  and cn_settled_release = conn.settled_release[folded cn_on_through]
  and cn_commit_held = conn.commit_held[folded cn_on_through]
  and cn_quiet_release = conn.quiet_release[folded cn_on_through]
  and cn_quiet_reserve = conn.quiet_reserve[folded cn_on_through]
  and cn_quiet_appr = conn.quiet_appr[folded cn_on_through]
  and cn_request_recorded = conn.request_recorded[folded cn_on_through]
  and cn_cost_run = conn.on_cost_run[folded cn_on_through]

abbreviation cn_cost :: "'x connector \<Rightarrow> cost" where "cn_cost c \<equiv> sv_cost (cn_sv c)"

abbreviation cn_settled where "cn_settled \<equiv> settled cn_sv kr_cost_usd"
abbreviation cn_holding where "cn_holding \<equiv> holding cn_sv"
abbreviation cn_idle where "cn_idle \<equiv> idle cn_sv kr_ok"

lemma cn_on_parts [simp]:
  "cn_services (snd (cn_on f c)) = cn_services c" "cn_completed (snd (cn_on f c)) = cn_completed c"
  "cn_allowlist (snd (cn_on f c)) = cn_allowlist c" "cn_rate (snd (cn_on f c)) = cn_rate c"
  "cn_sv (snd (cn_on f c)) = snd (f (cn_sv c))" "fst (cn_on f c) = fst (f (cn_sv c))"
  by (simp_all add: cn_on_def case_prod_beta)

text \<open>Recording an event touches nothing but the event store.\<close>

definition only_events :: "'x connector \<Rightarrow> 'x connector \<Rightarrow> bool" where
  "only_events c d \<longleftrightarrow>
     sv_org (cn_sv d) = sv_org (cn_sv c) \<and> cn_cost d = cn_cost c \<and> sv_appr (cn_sv d) = sv_appr (cn_sv c) \<and>
     services.more (cn_sv d) = services.more (cn_sv c)"

lemma only_events_refl [simp]: "only_events c c"
  by (simp add: only_events_def)

lemma only_events_remember [simp]: "only_events c (remember cid r d) = only_events c d"
  by (simp add: only_events_def remember_def)

lemma emit_only_events: "only_events c (snd (cn_emit_event s a st actor cid c))"
proof -
  define m where "m = cn_on (on_events (es_append (Inl EXTERNAL_CALL) [(''service'', JStr s), (''endpoint'', JStr a),
      (''request_id'', JStr cid), (''status'', JStr st)] (Some actor) (Some cid))) c"
  have "only_events c (snd m)" by (simp add: m_def only_events_def through_def case_prod_beta)
  then show ?thesis
    unfolding cn_emit_event_def m_def[symmetric] by (cases m; cases "fst m") auto
qed

lemma emit_completed: "cn_completed (snd (cn_emit_event s a st actor cid c)) = cn_completed c"
proof -
  define m where "m = cn_on (on_events (es_append (Inl EXTERNAL_CALL) [(''service'', JStr s), (''endpoint'', JStr a),
      (''request_id'', JStr cid), (''status'', JStr st)] (Some actor) (Some cid))) c"
  have "cn_completed (snd m) = cn_completed c" by (simp add: m_def)
  then show ?thesis
    unfolding cn_emit_event_def m_def[symmetric] by (cases m; cases "fst m") auto
qed

lemma only_events_quiet: "only_events c d \<Longrightarrow> quiet cn_sv c d"
  by (simp add: only_events_def quiet_def)

lemma cn_fail_result:
  assumes "cn_fail cid s a e actor c = (Inr r, d)"
  shows "\<not> kr_ok r" and "kr_cost_usd r = 0" and "only_events c d" and "kr_error_code r = Some (conn_code e)"
    and "cn_completed d cid = (if is_rate_limited e then cn_completed c cid else Some r)"
proof -
  define r0 where "r0 = \<lparr>kr_ok = False, kr_output = None, kr_error_code = Some (conn_code e),
                    kr_error_message = Some (exn_text e), kr_cost_usd = 0,
                    kr_approval_request_id = (case e of ApprovalDeniedError _ \<Rightarrow> Some cid | _ \<Rightarrow> None)\<rparr>"
  obtain v c1 where ev: "cn_emit_event s a ''error'' actor cid c = (Inr v, c1)"
    and r: "r = r0" and d: "d = (if is_rate_limited e then c1 else remember cid r0 c1)"
    using assms unfolding cn_fail_def Let_def r0_def[symmetric] by (blast dest: andthen_Inr)
  show "\<not> kr_ok r" "kr_cost_usd r = 0" "kr_error_code r = Some (conn_code e)" by (simp_all add: r r0_def)
  show "only_events c d" using emit_only_events[of c s a "''error''" actor cid] ev by (simp add: d)
  have "cn_completed c1 = cn_completed c"
    using emit_completed[of s a "''error''" actor cid c] ev by simp
  then show "cn_completed d cid = (if is_rate_limited e then cn_completed c cid else Some r)"
    by (simp add: d r remember_def)
qed

section \<open>The ledger of a call\<close>

text \<open>An action whose executor leaves the company's budget to the pipeline.\<close>

definition budget_blind :: "'x services_scheme action_def \<Rightarrow> bool" where
  "budget_blind ad \<longleftrightarrow> (\<forall>p w. sv_cost (snd (ad_executor ad p w)) = sv_cost w)"

lemma attempt_cost: "budget_blind ad \<Longrightarrow> sv_cost (snd (cn_attempt n ad p w)) = sv_cost w"
proof (induction n arbitrary: w)
  case (Suc n)
  obtain r w1 where run: "ad_executor ad p w = (r, w1)" by (meson surj_pair)
  then have "sv_cost w1 = sv_cost w" using Suc.prems by (metis budget_blind_def snd_conv)
  with run Suc show ?case by (cases r) (auto split: exn.split)
qed simp

lemma cn_settled_fail:
  "cost_inv (get_cost (cn_sv c)) \<Longrightarrow> sum_open_reservations (cn_cost c) = sum_open_reservations k \<Longrightarrow>
   sum_expenses (cn_cost c) = sum_expenses k \<Longrightarrow> cn_settled k (cn_fail cid s a e actor c)"
  by (rule conn.settled_free) (auto dest: cn_fail_result(2,3) simp: only_events_def)

lemma cn_settled_release_fail:
  assumes "cn_holding k rid n c" shows "cn_settled k (cn_release_fail rid cid s a e actor c)"
  unfolding cn_release_fail_def by (rule cn_settled_release[OF assms]) (rule cn_settled_fail)

lemma cn_settled_commit:
  assumes hold: "cn_holding k rid (to_units m) c"
  shows "cn_settled k (cn_commit env cid s a actor rid m out c)"
  unfolding cn_commit_def
proof (rule conn.settled_andthen)
  fix ch c1
  assume run: "cn_on (on_cost (budget_commit (ce_expense env) (ce_commit_at env) rid m)) c = (Inr ch, c1)"
  note books = cn_commit_held[OF hold run]
  have "cn_settled k (andthen (cn_emit_event s a ''ok'' actor cid c1) (\<lambda>_ c2. (Inr r, remember cid r c2)))"
    if "cr_ok ch" and "kr_cost_usd r = amount_usd m" for r
  proof (rule conn.settled_paid[of c1])
    fix r' u
    assume "andthen (cn_emit_event s a ''ok'' actor cid c1) (\<lambda>_ c2. (Inr r, remember cid r c2)) = (Inr r', u)"
    then obtain c2 where "cn_emit_event s a ''ok'' actor cid c1 = (Inr (), c2)" "r' = r" "u = remember cid r c2"
      by (auto dest: andthen_Inr)
    then show "kr_cost_usd r' = amount_usd m \<and> cn_cost u = cn_cost c1"
      using that(2) emit_only_events[of c1 s a "''ok''" actor cid] by (simp add: only_events_def remember_def)
  qed (use books that(1) in simp_all)
  then show "cn_settled k (if \<not> cr_ok ch then cn_fail cid s a (ConnectorError ''commit_failed'') actor c1
      else let result = \<lparr>kr_ok = True, kr_output = Some out, kr_error_code = None, kr_error_message = None,
                 kr_cost_usd = amount_usd m, kr_approval_request_id = None\<rparr>
           in andthen (cn_emit_event s a ''ok'' actor cid c1) (\<lambda>_ c2. (Inr result, remember cid result c2)))"
    using books by (simp add: cn_settled_fail Let_def)
qed

lemma cn_settled_execute:
  assumes hold: "cn_holding k rid (to_units m) c" and blind: "budget_blind ad"
  shows "cn_settled k (cn_execute env cid s a ad actor p rid m c)"
proof -
  obtain r c1 where run: "cn_on (cn_execute_with_retry ad p) c = (r, c1)" by (meson surj_pair)
  have "cn_sv c1 = snd (cn_execute_with_retry ad p (cn_sv c))"
    using run by (auto simp: cn_on_def split: prod.splits)
  then have "cn_cost c1 = cn_cost c"
    using attempt_cost[OF blind] by (simp add: cn_execute_with_retry_def)
  note hold1 = conn.holding_cong[OF this hold]
  show ?thesis
    by (cases r) (simp_all add: cn_execute_def run cn_settled_release_fail[OF hold1] cn_settled_commit[OF hold1]
        split: sum.split)
qed

lemma evaluate_cost:
  assumes "cn_evaluate_approval env svc ad agent m cid args a c = (Inr d, u)"
  shows "cn_cost u = cn_cost c"
proof -
  have "cn_cost (snd (cn_evaluate_approval env svc ad agent m cid args a c)) = cn_cost c"
    by (auto simp: cn_evaluate_approval_def andthen_def cn_on_def through_def split: sum.split prod.split)
  then show ?thesis using assms by simp
qed

lemma cn_settled_spend:
  assumes led: "cost_inv (get_cost (cn_sv c))" and blind: "budget_blind ad"
  shows "cn_settled (cn_cost c) (cn_spend env cid svc a ad agent args p m c)"
  unfolding cn_spend_def Let_def
proof (rule conn.settled_andthen)
  fix d c1
  assume "cn_evaluate_approval env svc ad agent m cid args a c = (Inr d, c1)"
  then have same: "cn_cost c1 = cn_cost c" by (rule evaluate_cost)
  then have led1: "cost_inv (get_cost (cn_sv c1))" using led cost_inv_get[of "cn_sv c1" "cn_sv c"] by simp
  let ?pend = "andthen (cn_emit_event (sd_name svc) a ''issued'' agent cid c1)
               (\<lambda>_ c2. (Inr \<lparr>kr_ok = False, kr_output = None, kr_error_code = Some ''pending_approval'',
                            kr_error_message = Some (''pending:'' @ cid), kr_cost_usd = 0,
                            kr_approval_request_id = Some cid\<rparr>, c2))"
  have pend: "cn_settled (cn_cost c) ?pend"
    by (rule conn.settled_free[of c1])
      (use led1 same emit_only_events[of c1 "sd_name svc" a "''issued''" agent cid]
       in \<open>auto dest!: andthen_Inr simp: only_events_def\<close>)
  obtain r c2 where res: "cn_on (on_cost (budget_reserve (ce_reservation env) (ce_reserve_at env) m cid)) c1 = (r, c2)"
    by (meson surj_pair)
  have spend: "cn_settled (cn_cost c) (case (r, c2) of
      (Inl e, c2) \<Rightarrow>
        (case e of CostOverBudget x \<Rightarrow> cn_fail cid (sd_name svc) a (ConnectorError (''over_budget:'' @ x)) agent c2
         | _ \<Rightarrow> (Inl e, c2))
    | (Inr rs, c2) \<Rightarrow> cn_execute env cid (sd_name svc) a ad agent p (rs_id rs) m c2)"
  proof (cases r)
    case (Inl e)
    have "cn_settled (cn_cost c) (cn_fail cid (sd_name svc) a (ConnectorError x) agent c2)"
      if "e = CostOverBudget msg" for x msg
      using cn_reserve_refused[OF res[unfolded Inl that]] led1 same cost_inv_get[of "cn_sv c2" "cn_sv c1"]
      by (intro cn_settled_fail) simp_all
    with Inl show ?thesis by (simp add: conn.settled_raise split: exn.split)
  next
    case (Inr rs)
    show ?thesis
      using cn_settled_execute[OF cn_reserve_held(1)[OF led1 res[unfolded Inr]] blind] same by (simp add: Inr)
  qed
  show "cn_settled (cn_cost c)
      (if d = ''pending'' then ?pend
       else if d = ''denied'' then cn_fail cid (sd_name svc) a (ApprovalDeniedError (''denied:'' @ cid)) agent c1
       else (case cn_on (on_cost (budget_reserve (ce_reservation env) (ce_reserve_at env) m cid)) c1 of
           (Inl e, c2) \<Rightarrow>
             (case e of CostOverBudget x \<Rightarrow> cn_fail cid (sd_name svc) a (ConnectorError (''over_budget:'' @ x)) agent c2
              | _ \<Rightarrow> (Inl e, c2))
         | (Inr rs, c2) \<Rightarrow> cn_execute env cid (sd_name svc) a ad agent p (rs_id rs) m c2))"
    using pend spend led1 same by (simp add: res cn_settled_fail)
qed

section \<open>Before the executor\<close>

text \<open>What lets an external call out: a registered action on the allowlist, valid arguments, a token,
  an automatic or recorded approval, and an estimate within the budget.\<close>

definition conn_cleared :: "conn_env \<Rightarrow> string \<Rightarrow> string \<Rightarrow> payload \<Rightarrow> string \<Rightarrow> 'x connector \<Rightarrow> bool" where
  "conn_cleared env service action args cid c =
     (case cn_get_service c service of Inl _ \<Rightarrow> False | Inr svc \<Rightarrow>
      (case map_of (sd_actions svc) action of None \<Rightarrow> False | Some ad \<Rightarrow>
       al_is_allowed (cn_allowlist c) service action \<and>
       (case ad_args_schema ad args of Inl _ \<Rightarrow> False | Inr p \<Rightarrow>
        (case ad_cost_estimator ad p of Inl _ \<Rightarrow> False | Inr m \<Rightarrow>
           fst (cl_acquire (ce_monotonic env) (al_key service (Some action)) (cn_rate c)) = Inr () \<and>
           (auto_approved svc ad m \<or> approved_id (sv_appr (cn_sv c)) cid) \<and> affordable (cn_cost c) m))))"

lemma cn_idle_fail: "quiet cn_sv t c \<Longrightarrow> cn_idle t (cn_fail cid s a e actor c)"
  unfolding cn_fail_def Let_def
proof (rule conn.idle_andthen)
  assume q: "quiet cn_sv t c"
  show "quiet cn_sv t (snd (cn_emit_event s a ''error'' actor cid c))"
    by (rule conn.quiet_trans[OF q]) (rule only_events_quiet, rule emit_only_events)
qed (simp add: idle_def quiet_def remember_def)

lemma evaluate_result:
  assumes "cn_evaluate_approval env svc ad agent m cid args a c = (Inr d, u)" and "cid \<noteq> []"
    and "d \<noteq> ''pending''" "d \<noteq> ''denied''"
  shows "auto_approved svc ad m \<or> approved_id (sv_appr (cn_sv c)) cid"
proof (cases "auto_approved svc ad m")
  case False
  obtain v k p ro where req: "cn_on (on_appr (appr_request (ce_uuid env) (ce_request_at env) k agent p ro
      (Some cid) None)) c = (Inr v, u)" and "d = approval_word v"
    using assms(1) False by (auto simp: cn_evaluate_approval_def dest!: andthen_Inr)
  with assms(3,4) cn_request_recorded[OF req assms(2)] show ?thesis
    by (simp add: approval_word_def split: if_splits)
qed simp

lemma evaluate_quiet: "quiet cn_sv c (snd (cn_evaluate_approval env svc ad agent m cid args a c))"
proof (cases "auto_approved svc ad m")
  case True
  then show ?thesis by (simp add: cn_evaluate_approval_def conn.quiet_refl)
next
  case False
  define req where "req = cn_on (on_appr (appr_request (ce_uuid env) (ce_request_at env) AK_EXTERNAL_ACTION agent
      [(''service'', JStr (sd_name svc)), (''action'', JStr a), (''args'', JObj args),
       (''estimated_cost_usd'', JStr (usd_str m)), (''risk'', JStr (risk_value (sd_risk svc)))]
      \<lparr>ro_target = BOARD, ro_agent_id = None, ro_require_security = (sd_risk svc = RISK_CRITICAL)\<rparr> (Some cid) None)) c"
  have "quiet cn_sv c (snd req)" unfolding req_def by (rule cn_quiet_appr)
  moreover have "cn_evaluate_approval env svc ad agent m cid args a c = andthen req (\<lambda>v c1. (Inr (approval_word v), c1))"
    using False by (simp add: cn_evaluate_approval_def req_def)
  ultimately show ?thesis by (cases req; cases "fst req") auto
qed

lemma cn_spend_idle:
  assumes led: "cost_inv (get_cost (cn_sv c))" and cid: "cid \<noteq> []"
    and no: "\<not> ((auto_approved svc ad m \<or> approved_id (sv_appr (cn_sv c)) cid) \<and> affordable (cn_cost c) m)"
  shows "cn_idle c (cn_spend env cid svc a ad agent args p m c)"
  unfolding cn_spend_def Let_def
proof (rule conn.idle_andthen)
  show "quiet cn_sv c (snd (cn_evaluate_approval env svc ad agent m cid args a c))" by (rule evaluate_quiet)
next
  fix d c1
  assume ev: "cn_evaluate_approval env svc ad agent m cid args a c = (Inr d, c1)" and q: "quiet cn_sv c c1"
  have same: "cn_cost c1 = cn_cost c" by (rule evaluate_cost[OF ev])
  have led1: "cost_inv (get_cost (cn_sv c1))" using led same cost_inv_get[of "cn_sv c1" "cn_sv c"] by simp
  let ?pend = "andthen (cn_emit_event (sd_name svc) a ''issued'' agent cid c1)
               (\<lambda>_ c2. (Inr \<lparr>kr_ok = False, kr_output = None, kr_error_code = Some ''pending_approval'',
                            kr_error_message = Some (''pending:'' @ cid), kr_cost_usd = 0,
                            kr_approval_request_id = Some cid\<rparr>, c2))"
  have pend: "cn_idle c ?pend"
    by (rule conn.idle_andthen)
      (auto simp: idle_def intro: conn.quiet_trans[OF q] only_events_quiet emit_only_events)
  obtain r c2 where res: "cn_on (on_cost (budget_reserve (ce_reservation env) (ce_reserve_at env) m cid)) c1 = (r, c2)"
    by (meson surj_pair)
  have q2: "quiet cn_sv c c2"
    using conn.quiet_trans[OF q cn_quiet_reserve[OF led1, of "ce_reservation env" "ce_reserve_at env" m cid]] res by simp
  have "cn_idle c (case (r, c2) of
      (Inl e, c2) \<Rightarrow>
        (case e of CostOverBudget x \<Rightarrow> cn_fail cid (sd_name svc) a (ConnectorError (''over_budget:'' @ x)) agent c2
         | _ \<Rightarrow> (Inl e, c2))
    | (Inr rs, c2) \<Rightarrow> cn_execute env cid (sd_name svc) a ad agent p (rs_id rs) m c2)"
    if "d \<noteq> ''pending''" "d \<noteq> ''denied''"
  proof (cases r)
    case (Inl e)
    then show ?thesis using q2 by (auto intro: cn_idle_fail conn.idle_raise split: exn.split)
  next
    case (Inr rs)
    have "affordable (cn_cost c) m" using cn_reserve_held(2)[OF led1 res[unfolded Inr]] same by simp
    with no evaluate_result[OF ev cid that] show ?thesis by blast
  qed
  with pend show "cn_idle c
      (if d = ''pending'' then ?pend
       else if d = ''denied'' then cn_fail cid (sd_name svc) a (ApprovalDeniedError (''denied:'' @ cid)) agent c1
       else (case cn_on (on_cost (budget_reserve (ce_reservation env) (ce_reserve_at env) m cid)) c1 of
           (Inl e, c2) \<Rightarrow>
             (case e of CostOverBudget x \<Rightarrow> cn_fail cid (sd_name svc) a (ConnectorError (''over_budget:'' @ x)) agent c2
              | _ \<Rightarrow> (Inl e, c2))
         | (Inr rs, c2) \<Rightarrow> cn_execute env cid (sd_name svc) a ad agent p (rs_id rs) m c2))"
    by (simp add: res cn_idle_fail[OF q])
qed

lemma rate_same [simp]: "cn_sv (c\<lparr>cn_rate := r\<rparr>) = cn_sv c"
  by simp

lemma quiet_rate [simp]: "quiet cn_sv c (c\<lparr>cn_rate := r\<rparr>)"
  by (simp add: quiet_def)

lemma cn_idle_rate: "cn_idle (c\<lparr>cn_rate := r\<rparr>) out \<Longrightarrow> cn_idle c out"
  by (simp add: idle_def quiet_def)

lemma cn_call_idle:
  assumes led: "cost_inv (get_cost (cn_sv c))" and cid: "cid \<noteq> []" and fresh: "cn_completed c cid = None"
    and no: "\<not> conn_cleared env service action args cid c"
  shows "cn_idle c (cn_call env agent service action args (Some cid) c)"
proof -
  have str: "str_or (Some cid) u = cid" for u using cid by (simp add: str_or_def)
  have fail: "cn_idle c (cn_fail cid service action e agent c)" for e
    by (rule cn_idle_fail) (rule conn.quiet_refl)
  show ?thesis
  proof (cases "cn_get_service c service")
    case (Inl e)
    then show ?thesis by (simp add: cn_call_def str fresh fail)
  next
    case svc: (Inr svc)
    show ?thesis
    proof (cases "map_of (sd_actions svc) action")
      case None
      with svc show ?thesis by (simp add: cn_call_def str fresh fail)
    next
      case ad: (Some ad)
      show ?thesis
      proof (cases "al_is_allowed (cn_allowlist c) service action \<and> (\<exists>p m. ad_args_schema ad args = Inr p \<and> ad_cost_estimator ad p = Inr m)")
        case False
        with svc ad show ?thesis
          by (auto simp: cn_call_def str fresh fail conn.idle_raise conn.quiet_refl split: sum.split)
      next
        case True
        then obtain p m where p: "ad_args_schema ad args = Inr p" "ad_cost_estimator ad p = Inr m"
          and al: "al_is_allowed (cn_allowlist c) service action" by blast
        obtain x r where acq: "cl_acquire (ce_monotonic env) (al_key service (Some action)) (cn_rate c) = (x, r)"
          by (meson surj_pair)
        show ?thesis
        proof (cases x)
          case (Inl e)
          with svc ad p al acq show ?thesis
            by (simp add: cn_call_def str fresh cn_idle_fail conn.idle_raise)
        next
          case (Inr y)
          have "cn_idle (c\<lparr>cn_rate := r\<rparr>) (cn_spend env cid svc action ad agent args p m (c\<lparr>cn_rate := r\<rparr>))"
            by (rule cn_spend_idle) (use led cid no svc ad p al acq Inr in \<open>auto simp: conn_cleared_def\<close>)
          with svc ad p al acq Inr show ?thesis
            by (simp add: cn_call_def str fresh cn_idle_rate)
        qed
      qed
    qed
  qed
qed

section \<open>What an answer leaves in the cache\<close>

definition kr_remembered :: "string \<Rightarrow> (connector_result, 'x) conn_out \<Rightarrow> bool" where
  "kr_remembered cid out \<longleftrightarrow>
     (\<forall>r u. out = (Inr r, u) \<longrightarrow> cn_completed u cid = Some r \<or>
        kr_error_code r \<in> {Some ''pending_approval'', Some ''rate_limited''})"

lemma kr_remembered_andthen: "(\<And>a t. kr_remembered cid (f a t)) \<Longrightarrow> kr_remembered cid (andthen m f)"
  unfolding kr_remembered_def by (blast dest: andthen_Inr)

lemma kr_remembered_raise [simp]: "kr_remembered cid (Inl e, c)"
  by (simp add: kr_remembered_def)

lemma kr_remembered_fail [simp]: "kr_remembered cid (cn_fail cid s a e actor c)"
proof -
  have "conn_code e = ''rate_limited''" if "is_rate_limited e"
    using that by (cases e) (simp_all add: is_rate_limited_def conn_code_def)
  then show ?thesis
    unfolding kr_remembered_def by (auto simp: cn_fail_result(4,5))
qed

lemma kr_remembered_release [simp]: "kr_remembered cid (cn_release_fail rid cid s a e actor c)"
  unfolding cn_release_fail_def by (rule kr_remembered_andthen) simp

lemma kr_remembered_answer [simp]: "kr_remembered cid (Inr r, remember cid r c)"
  by (simp add: kr_remembered_def remember_def)

lemma kr_remembered_commit [simp]: "kr_remembered cid (cn_commit env cid s a actor rid m out c)"
  unfolding cn_commit_def Let_def by (rule kr_remembered_andthen) (auto intro: kr_remembered_andthen)

lemma kr_remembered_execute [simp]: "kr_remembered cid (cn_execute env cid s a ad actor p rid m c)"
  unfolding cn_execute_def by (simp split: prod.split sum.split)

lemma kr_remembered_spend [simp]: "kr_remembered cid (cn_spend env cid svc a ad agent args p m c)"
  unfolding cn_spend_def Let_def
proof (rule kr_remembered_andthen)
  fix d c1
  have "kr_remembered cid (case cn_on (on_cost (budget_reserve (ce_reservation env) (ce_reserve_at env) m cid)) c1 of
           (Inl e, c2) \<Rightarrow>
             (case e of CostOverBudget x \<Rightarrow> cn_fail cid (sd_name svc) a (ConnectorError (''over_budget:'' @ x)) agent c2
              | _ \<Rightarrow> (Inl e, c2))
         | (Inr rs, c2) \<Rightarrow> cn_execute env cid (sd_name svc) a ad agent p (rs_id rs) m c2)"
    by (auto split: prod.split sum.split exn.split)
  moreover have "kr_remembered cid (andthen (cn_emit_event (sd_name svc) a ''issued'' agent cid c1)
               (\<lambda>_ c2. (Inr \<lparr>kr_ok = False, kr_output = None, kr_error_code = Some ''pending_approval'',
                            kr_error_message = Some (''pending:'' @ cid), kr_cost_usd = 0,
                            kr_approval_request_id = Some cid\<rparr>, c2)))"
    by (rule kr_remembered_andthen) (simp add: kr_remembered_def)
  ultimately show "kr_remembered cid (if d = ''pending''
       then andthen (cn_emit_event (sd_name svc) a ''issued'' agent cid c1)
               (\<lambda>_ c2. (Inr \<lparr>kr_ok = False, kr_output = None, kr_error_code = Some ''pending_approval'',
                            kr_error_message = Some (''pending:'' @ cid), kr_cost_usd = 0,
                            kr_approval_request_id = Some cid\<rparr>, c2))
       else if d = ''denied'' then cn_fail cid (sd_name svc) a (ApprovalDeniedError (''denied:'' @ cid)) agent c1
       else (case cn_on (on_cost (budget_reserve (ce_reservation env) (ce_reserve_at env) m cid)) c1 of
           (Inl e, c2) \<Rightarrow>
             (case e of CostOverBudget x \<Rightarrow> cn_fail cid (sd_name svc) a (ConnectorError (''over_budget:'' @ x)) agent c2
              | _ \<Rightarrow> (Inl e, c2))
         | (Inr rs, c2) \<Rightarrow> cn_execute env cid (sd_name svc) a ad agent p (rs_id rs) m c2))"
    by simp
qed

lemma kr_remembered_call:
  assumes "cid \<noteq> []" and "cn_completed c cid = None"
  shows "kr_remembered cid (cn_call env agent service action args (Some cid) c)"
  using assms by (auto simp: cn_call_def str_or_def split: sum.split option.split prod.split)

section \<open>What a success carries\<close>

definition kr_typed :: "'w action_def \<Rightarrow> (connector_result, 'x) conn_out \<Rightarrow> bool" where
  "kr_typed ad out \<longleftrightarrow>
     (\<forall>r u. out = (Inr r, u) \<longrightarrow> kr_ok r \<longrightarrow>
        (\<exists>o_m. kr_output r = Some o_m \<and> ad_output_schema ad \<in> set (om_classes o_m)))"

lemma kr_typed_andthen: "(\<And>a t. kr_typed ad (f a t)) \<Longrightarrow> kr_typed ad (andthen m f)"
  unfolding kr_typed_def by (blast dest: andthen_Inr)

lemma kr_typed_raise [simp]: "kr_typed ad (Inl e, c)"
  by (simp add: kr_typed_def)

lemma kr_typed_fail [simp]: "kr_typed ad (cn_fail cid s a e actor c)"
  by (auto simp: kr_typed_def dest: cn_fail_result(1))

lemma kr_typed_answer [simp]:
  "\<not> kr_ok r \<or> (\<exists>o_m. kr_output r = Some o_m \<and> ad_output_schema ad \<in> set (om_classes o_m)) \<Longrightarrow>
     kr_typed ad (Inr r, c)"
  by (auto simp: kr_typed_def)

lemma kr_typed_execute [simp]: "kr_typed ad (cn_execute env cid s a ad actor p rid m c)"
proof -
  have commit: "kr_typed ad (cn_commit env cid s a actor rid m o_m c1)"
    if "ad_output_schema ad \<in> set (om_classes o_m)" for o_m c1
    unfolding cn_commit_def Let_def
    by (rule kr_typed_andthen) (use that in \<open>auto intro!: kr_typed_andthen\<close>)
  have fail: "kr_typed ad (cn_release_fail rid cid s a e actor c1)" for e c1
    unfolding cn_release_fail_def by (rule kr_typed_andthen) simp
  show ?thesis
    unfolding cn_execute_def by (simp add: commit fail split: prod.split sum.split)
qed

lemma kr_typed_spend [simp]: "kr_typed ad (cn_spend env cid svc a ad agent args p m c)"
  unfolding cn_spend_def Let_def
  by (rule kr_typed_andthen)
     (auto intro!: kr_typed_andthen split: prod.split sum.split exn.split)

section \<open>The allowlist as a record of toggles\<close>

datatype toggle = Allow string "string option" | Revoke string "string option"

fun toggle_key :: "toggle \<Rightarrow> string" where
  "toggle_key (Allow s a) = al_key s a"
| "toggle_key (Revoke s a) = al_key s a"

fun toggled :: "toggle \<Rightarrow> allowlist \<Rightarrow> allowlist" where
  "toggled (Allow s a) al = al_allow s a al"
| "toggled (Revoke s a) al = al_revoke s a al"

fun is_allow :: "toggle \<Rightarrow> bool" where
  "is_allow (Allow _ _) = True"
| "is_allow (Revoke _ _) = False"

text \<open>A key is on when the last toggle of that key allows it.\<close>

definition last_on :: "string \<Rightarrow> toggle list \<Rightarrow> bool" where
  "last_on k ts = (case filter (\<lambda>t. toggle_key t = k) (rev ts) of [] \<Rightarrow> False | t # _ \<Rightarrow> is_allow t)"

lemma toggles_last_on: "k \<in> set (fold toggled ts []) \<longleftrightarrow> last_on k ts"
proof (induction ts rule: rev_induct)
  case Nil
  then show ?case by (simp add: last_on_def)
next
  case (snoc t ts)
  then show ?case
    by (cases t) (auto simp: last_on_def al_allow_def al_revoke_def)
qed

lemma toggles_distinct: "distinct (fold toggled ts [])"
proof (induction ts rule: rev_induct)
  case (snoc t ts)
  then show ?case by (cases t) (auto simp: al_allow_def al_revoke_def)
qed simp

lemma al_entry_key: "colon \<notin> set s \<Longrightarrow> al_entry (al_key s a) = (s, a)"
  by (cases a) (auto simp: al_entry_def al_key_def takeWhile_tail dropWhile_append)

section \<open>Retries\<close>

text \<open>The world after \<open>i\<close> runs of the executor; a run that fails in the way that is retried.\<close>

primrec world_after :: "'w action_def \<Rightarrow> payload \<Rightarrow> nat \<Rightarrow> 'w \<Rightarrow> 'w" where
  "world_after ad p 0 w = w"
| "world_after ad p (Suc i) w = world_after ad p i (snd (ad_executor ad p w))"

definition transient :: "exn + output_model \<Rightarrow> bool" where
  "transient r = (case r of Inl e \<Rightarrow> (case e of ExternalServiceFailure _ \<Rightarrow> True | _ \<Rightarrow> False) | Inr _ \<Rightarrow> False)"

definition conclusive :: "exn + output_model \<Rightarrow> bool" where
  "conclusive r \<longleftrightarrow> \<not> transient r"

lemma attempt_Suc:
  "cn_attempt (Suc n) ad p w =
     (if transient (fst (ad_executor ad p w)) \<and> n \<noteq> 0 then cn_attempt n ad p (snd (ad_executor ad p w))
      else ad_executor ad p w)"
  by (cases "ad_executor ad p w"; cases "fst (ad_executor ad p w)") (auto simp: transient_def split: exn.split)

lemma attempt_runs:
  "\<exists>k. k < Suc n \<and> list_all (\<lambda>i. transient (fst (ad_executor ad p (world_after ad p i w)))) [0..<k] \<and>
     cn_attempt (Suc n) ad p w = ad_executor ad p (world_after ad p k w) \<and>
     (k = n \<or> \<not> transient (fst (cn_attempt (Suc n) ad p w)))"
proof (induction n arbitrary: w)
  case 0
  show ?case by (simp add: attempt_Suc del: cn_attempt.simps)
next
  case (Suc n)
  let ?w = "snd (ad_executor ad p w)"
  show ?case
  proof (cases "transient (fst (ad_executor ad p w))")
    case True
    obtain k where k: "k < Suc n" "list_all (\<lambda>i. transient (fst (ad_executor ad p (world_after ad p i ?w)))) [0..<k]"
      "cn_attempt (Suc n) ad p ?w = ad_executor ad p (world_after ad p k ?w)"
      "k = n \<or> \<not> transient (fst (cn_attempt (Suc n) ad p ?w))"
      using Suc.IH[of ?w] by blast
    have "list_all (\<lambda>i. transient (fst (ad_executor ad p (world_after ad p i w)))) [0..<Suc k]"
      unfolding list_all_iff
    proof
      fix i assume "i \<in> set [0..<Suc k]"
      then have "i < Suc k" by auto
      then show "transient (fst (ad_executor ad p (world_after ad p i w)))"
        using True k(2) by (cases i) (auto simp: list_all_iff)
    qed
    then show ?thesis
      using k(1,3,4) True by (intro exI[of _ "Suc k"]) (simp add: attempt_Suc[of "Suc n"] del: cn_attempt.simps)
  next
    case False
    then show ?thesis by (intro exI[of _ 0]) (simp add: attempt_Suc[of "Suc n"] del: cn_attempt.simps)
  qed
qed

section \<open>Examples\<close>

text \<open>A service of low risk with one action that costs two dollars and is approved up to three; a
  company with it on its allowlist.\<close>

definition demo_action :: "services action_def" where
  "demo_action =
     \<lparr>ad_description = [], ad_args_schema = Inr, ad_output_schema = ''Sent'',
      ad_cost_estimator = (\<lambda>_. Inr (Money 2)),
      ad_executor = (\<lambda>p w. (Inr \<lparr>om_classes = [''Sent''], om_dump = p\<rparr>, w)),
      ad_sanitizer = Inr, ad_rate_limit = Some \<lparr>rt_capacity = 2, rt_refill = 1\<rparr>,
      ad_threshold = Some (Money 3), ad_idempotent = True\<rparr>"

definition demo_service :: "services service_def" where
  "demo_service =
     \<lparr>sd_name = ''mail'', sd_description = [], sd_auth = AUTH_NONE, sd_risk = RISK_LOW,
      sd_actions = [(''send'', demo_action)]\<rparr>"

definition demo_conn_env :: conn_env where
  "demo_conn_env =
     \<lparr>ce_uuid = ''u'', ce_monotonic = 1, ce_request_at = 7, ce_reservation = ''v'', ce_reserve_at = 7,
      ce_expense = ''x'', ce_commit_at = 7\<rparr>"

definition demo_conn :: "unit connector" where
  "demo_conn =
     (snd (cn_register_service 0 demo_service (cn_create demo_services)))\<lparr>cn_allowlist := [''mail'']\<rparr>"

definition sent :: "(connector_result, unit) conn_out \<Rightarrow> (bool \<times> rat \<times> int \<times> int) option" where
  "sent out =
     (case out of (Inr r, u) \<Rightarrow>
        Some (kr_ok r, kr_cost_usd r, sum_expenses (cn_cost u), sum_open_reservations (cn_cost u))
      | _ \<Rightarrow> None)"

lemma demo_sent:
  "sent (cn_call demo_conn_env ''bob'' ''mail'' ''send'' [] (Some ''c1'') demo_conn) = Some (True, 2, 20000, 0)"
  by code_simp

lemma demo_conn_parts:
  "cn_sv demo_conn = demo_services" "cn_completed demo_conn = (\<lambda>_. None)" "cn_services demo_conn = [demo_service]"
  by (simp_all add: demo_conn_def cn_register_service_def cn_create_def)

section \<open>Properties\<close>

text \<open>
  An external call settles its account: when it answers, what is reserved is what was reserved
  before, and the expenses have grown by exactly the cost the answer reports (nothing unless it
  succeeded).
\<close>

theorem call_settles:
  assumes "cost_inv (get_cost (cn_sv c))" and "list_all (\<lambda>s. list_all (budget_blind \<circ> snd) (sd_actions s)) (cn_services c)"
    and "cid \<noteq> []" and "cn_completed c cid = None"
    and "cn_call env agent service action args (Some cid) c = (Inr r, u)"
  shows "cost_inv (get_cost (cn_sv u)) \<and>
    sum_open_reservations (cn_cost u) = sum_open_reservations (cn_cost c) \<and>
    sum_expenses (cn_cost u) = sum_expenses (cn_cost c) + round_half_up (kr_cost_usd r * 10000)"
proof -
  have str: "str_or (Some cid) x = cid" for x using assms(3) by (simp add: str_or_def)
  have fail: "cn_settled (cn_cost c) (cn_fail cid s a e actor c')" if "cn_sv c' = cn_sv c" for s a e actor c'
    by (rule cn_settled_fail) (use assms(1) that in simp_all)
  have "cn_settled (cn_cost c) (cn_call env agent service action args (Some cid) c)"
  proof (cases "cn_get_service c service")
    case (Inl e)
    then show ?thesis by (simp add: cn_call_def str assms(4) fail)
  next
    case svc: (Inr svc)
    show ?thesis
    proof (cases "map_of (sd_actions svc) action")
      case None
      with svc show ?thesis by (simp add: cn_call_def str assms(4) fail)
    next
      case ad: (Some ad)
      have "svc \<in> set (cn_services c)"
        using svc by (auto simp: cn_get_service_def dest: tbl_find_Some_in split: option.splits)
      then have blind: "budget_blind ad" using assms(2) map_of_SomeD[OF ad] by (fastforce simp: list_all_iff)
      have "cn_settled (cn_cost c) (cn_spend env cid svc action ad agent args p m (c\<lparr>cn_rate := x\<rparr>))" for p m x
        using cn_settled_spend[of "c\<lparr>cn_rate := x\<rparr>" ad env cid svc action agent args p m] assms(1) blind by simp
      with svc ad show ?thesis
        by (auto simp: cn_call_def str assms(4) fail conn.settled_raise split: sum.split prod.split)
    qed
  qed
  then show ?thesis using assms(5) by (simp add: settled_def)
qed

lemma call_settles_witness:
  "\<exists>r u. cn_call demo_conn_env ''bob'' ''mail'' ''send'' [] (Some ''c1'') demo_conn = (Inr r, u) \<and>
     sum_expenses (cn_cost u) = 20000 \<and> sum_open_reservations (cn_cost u) = 0"
proof -
  obtain r u where run: "cn_call demo_conn_env ''bob'' ''mail'' ''send'' [] (Some ''c1'') demo_conn = (Inr r, u)"
    and "kr_cost_usd r = 2" using demo_sent by (auto simp: sent_def split: prod.splits sum.splits)
  moreover have "list_all (\<lambda>s. list_all (budget_blind \<circ> snd) (sd_actions s)) (cn_services demo_conn)"
    by (simp add: demo_conn_parts demo_service_def demo_action_def budget_blind_def)
  ultimately show ?thesis
    using call_settles[OF _ _ _ _ run] demo_books(1) round_half_up_int[of 20000]
    by (simp add: demo_conn_parts demo_services_def sum_expenses_def sum_open_reservations_def)
qed

text \<open>
  The connector is the single door: unless the action is registered and on the allowlist, its
  arguments valid, a token left, the call approved (automatically for low risk within the threshold,
  else by a recorded approval of its id) and affordable, no executor runs: neither the organisation
  nor the outside world changes, nothing is spent, and no answer reports a success.
\<close>

theorem uncleared_external_call_is_inert:
  assumes "cost_inv (get_cost (cn_sv c))" and "cid \<noteq> []" and "cn_completed c cid = None"
    and "\<not> conn_cleared env service action args cid c"
  shows "case cn_call env agent service action args (Some cid) c of (res, u) \<Rightarrow>
    sv_org (cn_sv u) = sv_org (cn_sv c) \<and> services.more (cn_sv u) = services.more (cn_sv c) \<and>
    sum_expenses (cn_cost u) = sum_expenses (cn_cost c) \<and> (\<forall>r. res = Inr r \<longrightarrow> \<not> kr_ok r)"
  using cn_call_idle[OF assms, of agent] by (auto simp: idle_def quiet_def case_prod_beta)

lemma uncleared_external_call_is_inert_witness:
  "sum_expenses (cn_cost (snd (cn_call demo_conn_env ''bob'' ''mail'' ''read'' [] (Some ''c2'') demo_conn))) = 0"
proof -
  have "\<not> conn_cleared demo_conn_env ''mail'' ''read'' [] ''c2'' demo_conn" by code_simp
  from uncleared_external_call_is_inert[OF _ _ _ this, of "''bob''"] demo_books(1) show ?thesis
    by (simp add: case_prod_beta demo_conn_parts demo_services_def sum_expenses_def)
qed

text \<open>
  Retries are bounded: the executor runs once, or up to three times when the action is
  idempotent; every run but the last failed with ExternalServiceFailure, the outcome is that of the
  last run, and it gives up early only on an outcome that is not such a failure.
\<close>

theorem retries_bounded:
  "\<exists>k. k < (if ad_idempotent ad then RETRYABLE_LIMIT else 1) \<and>
     list_all (\<lambda>i. transient (fst (ad_executor ad p (world_after ad p i w)))) [0..<k] \<and>
     cn_execute_with_retry ad p w = ad_executor ad p (world_after ad p k w) \<and>
     (Suc k = (if ad_idempotent ad then RETRYABLE_LIMIT else 1) \<or>
        conclusive (fst (cn_execute_with_retry ad p w)))"
  using attempt_runs[of 2 ad p w] attempt_runs[of 0 ad p w]
  by (simp add: conclusive_def cn_execute_with_retry_def RETRYABLE_LIMIT_def numeral_3_eq_3 numeral_2_eq_2 del: cn_attempt.simps)

text \<open>
  The allowlist is the record of its toggles: after any sequence of allow and revoke an action is
  allowed exactly when the last toggle of its service or the last toggle of the pair allowed it; in
  particular revoking a pair does not close a service that is open as a whole.
\<close>

theorem allowlist_last_toggle:
  "al_is_allowed (fold toggled ts []) service action \<longleftrightarrow>
     last_on service ts \<or> last_on (al_key service (Some action)) ts"
  by (simp add: al_is_allowed_def toggles_last_on)

text \<open>
  C36. A success is typed: a fresh call that reports a success carries an output that is an instance of
  the output class its action declares, whatever executor and sanitizer return.
\<close>

theorem external_output_typed:
  assumes "cid \<noteq> []" and "cn_completed c cid = None"
    and "cn_call env agent service action args (Some cid) c = (Inr r, u)" and "kr_ok r"
  shows "\<exists>svc ad o_m. cn_get_service c service = Inr svc \<and> map_of (sd_actions svc) action = Some ad \<and>
    kr_output r = Some o_m \<and> ad_output_schema ad \<in> set (om_classes o_m)"
proof -
  have str: "str_or (Some cid) x = cid" for x using assms(1) by (simp add: str_or_def)
  have no_fail: "cn_fail cid service action e agent c' \<noteq> (Inr r, u)" for e c'
    using cn_fail_result(1)[of cid service action e agent c' r u] assms(4) by blast
  obtain svc where svc: "cn_get_service c service = Inr svc"
    using assms(3) no_fail by (cases "cn_get_service c service") (simp_all add: cn_call_def str assms(2))
  obtain ad where ad: "map_of (sd_actions svc) action = Some ad"
    using assms(3) no_fail svc by (cases "map_of (sd_actions svc) action") (simp_all add: cn_call_def str assms(2))
  have "kr_typed ad (cn_call env agent service action args (Some cid) c)"
    using svc ad by (auto simp: cn_call_def str assms(2) split: sum.split prod.split)
  with assms(3,4) svc ad show ?thesis by (auto simp: kr_typed_def)
qed

lemma external_output_typed_witness:
  "\<exists>r u o_m. cn_call demo_conn_env ''bob'' ''mail'' ''send'' [] (Some ''c1'') demo_conn = (Inr r, u) \<and>
     kr_output r = Some o_m \<and> ''Sent'' \<in> set (om_classes o_m)"
proof -
  obtain r u where run: "cn_call demo_conn_env ''bob'' ''mail'' ''send'' [] (Some ''c1'') demo_conn = (Inr r, u)"
    and ok: "kr_ok r" using demo_sent by (auto simp: sent_def split: prod.splits sum.splits)
  from external_output_typed[OF _ _ run ok] run show ?thesis
    by (auto simp: demo_conn_parts cn_get_service_def demo_service_def demo_action_def)
qed

end
