(* ===== verification/Connector_Services.thy ===== *)
theory Connector_Services
  imports Connector_Model Sanitizer_Model
begin

text \<open>
  \<^verbatim>\<open>modules/connector/services\<close>: the definitions of the HTTP and email services around an injected
  client, and the stub services whose executors always raise. The argument classes are pydantic's:
  their validators are parameters; the bodies of the executors, the costs, the rate limits and the
  flags are the source's (the dash in the stubs' descriptions is written "-").
\<close>

section \<open>HTTP\<close>

record http_reply =
  hr_status :: json
  hr_headers :: "(string \<times> string) list"
  hr_text :: string

definition is_int_json :: "json \<Rightarrow> bool" where
  "is_int_json v = (case v of JInt _ \<Rightarrow> True | JBool _ \<Rightarrow> True | _ \<Rightarrow> False)"

definition flat_cost :: "rat \<Rightarrow> payload \<Rightarrow> exn + money" where
  "flat_cost q args = money_of q"

text \<open>Exceptions of a client other than ExternalServiceFailure are wrapped in one.\<close>

definition wrap_failure :: "exn \<Rightarrow> exn" where
  "wrap_failure e = (case e of ExternalServiceFailure _ \<Rightarrow> e | _ \<Rightarrow> ExternalServiceFailure (exn_text e))"

definition type_text :: "string \<Rightarrow> string" where
  "type_text n = ''<class '' @ [char_of (39 :: nat)] @ n @ [char_of (39 :: nat)] @ ''>''"

fun json_type :: "json \<Rightarrow> string" where
  "json_type JNull = ''NoneType''"
| "json_type (JBool _) = ''bool''"
| "json_type (JInt _) = ''int''"
| "json_type (JFloat _) = ''float''"
| "json_type (JStr _) = ''str''"
| "json_type (JList _) = ''list''"
| "json_type (JObj _) = ''dict''"

definition http_response :: "http_reply \<Rightarrow> exn + output_model" where
  "http_response r =
     (if \<not> is_int_json (hr_status r) then Inl (MalformedResponse (''bad status type: '' @ type_text (json_type (hr_status r))))
      else Inr \<lparr>om_classes = [''HttpResponse''],
                om_dump = [(''status'', hr_status r),
                           (''headers'', JObj (map (\<lambda>(k, v). (k, JStr v)) (hr_headers r))),
                           (''body_preview'', JStr (safe_text (hr_text r) 2000)),
                           (''body_length'', JInt (int (length (hr_text r))))]\<rparr>)"

definition http_executor ::
  "(string \<Rightarrow> payload \<Rightarrow> 'w \<Rightarrow> (http_reply, 'w) outcome) \<Rightarrow> string \<Rightarrow> payload \<Rightarrow> 'w \<Rightarrow> (output_model, 'w) outcome" where
  "http_executor client method args w =
     (case client method args w of
        (Inl e, w1) \<Rightarrow> (Inl (wrap_failure e), w1)
      | (Inr r, w1) \<Rightarrow> (http_response r, w1))"

definition expect_class :: "string \<Rightarrow> (output_model \<Rightarrow> exn) \<Rightarrow> output_model \<Rightarrow> exn + output_model" where
  "expect_class cls e v = (if cls \<in> set (om_classes v) then Inr v else Inl (e v))"

definition http_action ::
  "(payload \<Rightarrow> string + payload) \<Rightarrow> (string \<Rightarrow> payload \<Rightarrow> 'w \<Rightarrow> (http_reply, 'w) outcome) \<Rightarrow> string \<times> string \<times> bool
   \<Rightarrow> string \<times> 'w action_def" where
  "http_action schema client m =
     (case m of (name, upper, idem) \<Rightarrow>
        (name, \<lparr>ad_description = ''HTTP '' @ upper @ '' request'', ad_args_schema = schema,
                ad_output_schema = ''HttpResponse'', ad_cost_estimator = flat_cost (1 / 10000),
                ad_executor = http_executor client upper,
                ad_sanitizer = expect_class ''HttpResponse''
                  (\<lambda>v. MalformedResponse (''expected HttpResponse, got '' @ type_text (first_class v))),
                ad_rate_limit = Some \<lparr>rt_capacity = 20, rt_refill = 10\<rparr>, ad_threshold = None,
                ad_idempotent = idem\<rparr>))"

definition build_http_service ::
  "(payload \<Rightarrow> string + payload) \<Rightarrow> (string \<Rightarrow> payload \<Rightarrow> 'w \<Rightarrow> (http_reply, 'w) outcome) \<Rightarrow> 'w service_def" where
  "build_http_service schema client =
     \<lparr>sd_name = ''http'', sd_description = ''Generic HTTP client'', sd_auth = AUTH_NONE,
      sd_risk = RISK_MEDIUM,
      sd_actions = map (http_action schema client)
        [(''get'', ''GET'', True), (''post'', ''POST'', False), (''put'', ''PUT'', True),
         (''delete'', ''DELETE'', True)]\<rparr>"

section \<open>Email\<close>

record email_reply =
  er_message_id :: string
  er_accepted :: "string list"

definition attachment_cost :: "payload \<Rightarrow> exn + money" where
  "attachment_cost args =
     money_of (1 / 1000 + 5 / 10000 *
       of_nat (case map_of args ''attachments'' of Some (JList xs) \<Rightarrow> length xs | _ \<Rightarrow> 0))"

text \<open>\<open>client sender args attached\<close> is \<^verbatim>\<open>client.send\<close>; attachments are passed only by the second action.\<close>

definition email_executor ::
  "(string \<Rightarrow> payload \<Rightarrow> bool \<Rightarrow> 'w \<Rightarrow> (email_reply, 'w) outcome) \<Rightarrow> string \<Rightarrow> bool \<Rightarrow> payload \<Rightarrow> 'w
   \<Rightarrow> (output_model, 'w) outcome" where
  "email_executor client sender attached args w =
     (case client sender args attached w of
        (Inl e, w1) \<Rightarrow> (Inl (wrap_failure e), w1)
      | (Inr r, w1) \<Rightarrow>
          (Inr \<lparr>om_classes = [''EmailSendResult''],
                om_dump = [(''message_id'', JStr (er_message_id r)),
                           (''accepted'', JList (map JStr (er_accepted r)))]\<rparr>, w1))"

definition email_action ::
  "(payload \<Rightarrow> string + payload) \<Rightarrow> (string \<Rightarrow> payload \<Rightarrow> bool \<Rightarrow> 'w \<Rightarrow> (email_reply, 'w) outcome) \<Rightarrow> string \<Rightarrow> bool
   \<Rightarrow> 'w action_def" where
  "email_action schema client sender attached =
     \<lparr>ad_description = (if attached then ''Send an email with attachments'' else ''Send a plain email''),
      ad_args_schema = schema, ad_output_schema = ''EmailSendResult'',
      ad_cost_estimator = (if attached then attachment_cost else flat_cost (1 / 1000)),
      ad_executor = email_executor client sender attached,
      ad_sanitizer = expect_class ''EmailSendResult'' (\<lambda>_. ValueError ''expected EmailSendResult''),
      ad_rate_limit = Some \<lparr>rt_capacity = 30, rt_refill = 2\<rparr>, ad_threshold = None,
      ad_idempotent = False\<rparr>"

definition build_email_service ::
  "(payload \<Rightarrow> string + payload) \<Rightarrow> (payload \<Rightarrow> string + payload) \<Rightarrow> (string \<Rightarrow> payload \<Rightarrow> bool \<Rightarrow> 'w \<Rightarrow> (email_reply, 'w) outcome)
   \<Rightarrow> string \<Rightarrow> 'w service_def" where
  "build_email_service plain attach client sender =
     \<lparr>sd_name = ''email'', sd_description = ''Transactional email'', sd_auth = AUTH_API_KEY,
      sd_risk = RISK_MEDIUM,
      sd_actions = [(''send'', email_action plain client sender False),
                    (''send_with_attachment'', email_action attach client sender True)]\<rparr>"

section \<open>Stubs\<close>

definition stub_executor :: "payload \<Rightarrow> 'w \<Rightarrow> (output_model, 'w) outcome" where
  "stub_executor args w = (Inl (RuntimeError ''phase-1 stub''), w)"

definition stub_service ::
  "(payload \<Rightarrow> string + payload) \<Rightarrow> string \<Rightarrow> string \<Rightarrow> risk_level \<Rightarrow> string list \<Rightarrow> rat \<Rightarrow> 'w service_def" where
  "stub_service schema name description risk actions cost =
     \<lparr>sd_name = name, sd_description = description, sd_auth = AUTH_API_KEY, sd_risk = risk,
      sd_actions = map (\<lambda>a. (a, \<lparr>ad_description = description @ '' - '' @ a, ad_args_schema = schema,
         ad_output_schema = ''_StubResult'', ad_cost_estimator = flat_cost cost,
         ad_executor = stub_executor,
         ad_sanitizer = expect_class ''_StubResult'' (\<lambda>_. ValueError ''expected _StubResult''),
         ad_rate_limit = None, ad_threshold = None, ad_idempotent = True\<rparr>)) actions\<rparr>"

definition stub_services :: "(payload \<Rightarrow> string + payload) \<Rightarrow> 'w service_def list" where
  "stub_services schema =
     [stub_service schema ''domain'' ''Domain registrar'' RISK_HIGH [''register'', ''renew'', ''transfer''] 10,
      stub_service schema ''hosting'' ''Cloud hosting'' RISK_HIGH
        [''create_droplet'', ''destroy_droplet'', ''list_droplets''] 5,
      stub_service schema ''payment'' ''Payment processor'' RISK_CRITICAL [''charge'', ''refund'', ''payout''] 1,
      stub_service schema ''ads'' ''Ad platform'' RISK_HIGH
        [''create_campaign'', ''pause_campaign'', ''fetch_metrics''] 5,
      stub_service schema ''social'' ''Social posting'' RISK_MEDIUM [''post'', ''delete''] (1 / 2)]"

section \<open>What the builders guarantee\<close>

lemma no_lt_no_tag: "lt \<notin> set s \<Longrightarrow> \<not> has_tag s"
  by (induction s) auto

text \<open>Whatever the client answers, the body an HTTP call hands to an agent is short and clean.\<close>

lemma http_body_preview:
  assumes "http_executor client method args w = (Inr out, w1)"
  shows "\<exists>t. map_of (om_dump out) ''body_preview'' = Some (JStr (safe_text t 2000))"
  using assms by (auto simp: http_executor_def http_response_def split: sum.splits prod.splits if_splits)

text \<open>No built-in service is approved automatically: each call asks the board, with the security leg
  for payments.\<close>

lemma builtin_services_ask:
  assumes "svc \<in> set (build_http_service h hc # build_email_service p q ec sender # stub_services s)"
  shows "\<not> auto_approved svc ad m"
  using assms
  by (auto simp: auto_approved_def build_http_service_def build_email_service_def stub_services_def stub_service_def)

end
