(* ===== verification/Secrets_Model.thy ===== *)
theory Secrets_Model
  imports Prelude "HOL-Library.Word"
begin

unbundle bit_operations_syntax

text \<open>
  \<^verbatim>\<open>modules/connector/secrets.py\<close>: sealing and opening of secret values, and the two stores. SHA-256
  and HMAC-SHA256 are parameters (\<open>sha\<close>, \<open>hmac\<close>), of which only the length of the digest is used;
  \<^verbatim>\<open>os.urandom(12)\<close> is an argument. UTF-8 of code points below 256 is written out.
\<close>

section \<open>Bytes\<close>

type_synonym byte = "8 word"
type_synonym bytes = "byte list"

definition utf8_char :: "char \<Rightarrow> bytes" where
  "utf8_char c =
     (let n = of_char c :: nat
      in if n < 128 then [of_nat n] else [of_nat (192 + n div 64), of_nat (128 + n mod 64)])"

definition utf8_encode :: "string \<Rightarrow> bytes" where
  "utf8_encode s = concat (map utf8_char s)"

text \<open>Strict decoding; sequences for code points from 256 on, which the strings here cannot hold,
  are rejected like malformed ones.\<close>

fun utf8_decode :: "bytes \<Rightarrow> exn + string" where
  "utf8_decode [] = Inr []"
| "utf8_decode (b # bs) =
     (if unat b < 128 then map_sum id (\<lambda>s. char_of (unat b) # s) (utf8_decode bs)
      else
        (case bs of
           [] \<Rightarrow> Inl (ValueError ''utf-8'')
         | d # ds \<Rightarrow>
             if 194 \<le> unat b \<and> unat b < 196 \<and> 128 \<le> unat d \<and> unat d < 192
             then map_sum id (\<lambda>s. char_of ((unat b - 192) * 64 + (unat d - 128)) # s) (utf8_decode ds)
             else Inl (ValueError ''utf-8'')))"

definition xor_bytes :: "bytes \<Rightarrow> bytes \<Rightarrow> bytes" where
  "xor_bytes a b = map2 (XOR) a b"

text \<open>\<^verbatim>\<open>counter.to_bytes(8, "big")\<close>, for counters below 2^64.\<close>

definition be64 :: "nat \<Rightarrow> bytes" where
  "be64 n = map (\<lambda>i. of_nat (n div 256 ^ (7 - i))) [0..<8]"

section \<open>Sealing\<close>

definition info_enc :: bytes where "info_enc = utf8_encode ''enc''"
definition info_mac :: bytes where "info_mac = utf8_encode ''mac''"

definition kdf :: "(bytes \<Rightarrow> bytes \<Rightarrow> bytes) \<Rightarrow> bytes \<Rightarrow> bytes \<Rightarrow> bytes \<Rightarrow> bytes" where
  "kdf hmac master salt info = (let prk = hmac salt master in hmac prk (info @ [1]))"

text \<open>The loop \<^verbatim>\<open>while len(out) < length\<close> with fuel; \<open>None\<close> when the fuel is used up.\<close>

fun keystream_loop :: "(bytes \<Rightarrow> bytes) \<Rightarrow> bytes \<Rightarrow> bytes \<Rightarrow> nat \<Rightarrow> nat \<Rightarrow> nat \<Rightarrow> bytes \<Rightarrow> bytes option" where
  "keystream_loop sha key nonce n fuel counter out =
     (if length out < n
      then (case fuel of
              0 \<Rightarrow> None
            | Suc f \<Rightarrow>
                keystream_loop sha key nonce n f (Suc counter) (out @ sha (key @ nonce @ be64 counter)))
      else Some (take n out))"

declare keystream_loop.simps [simp del]

definition keystream :: "(bytes \<Rightarrow> bytes) \<Rightarrow> bytes \<Rightarrow> bytes \<Rightarrow> nat \<Rightarrow> bytes option" where
  "keystream sha key nonce n = keystream_loop sha key nonce n (Suc n) 0 []"

definition seal ::
  "(bytes \<Rightarrow> bytes) \<Rightarrow> (bytes \<Rightarrow> bytes \<Rightarrow> bytes) \<Rightarrow> bytes \<Rightarrow> bytes \<Rightarrow> bytes \<Rightarrow> bytes option" where
  "seal sha hmac nonce master plaintext =
     (let enc_key = kdf hmac master nonce info_enc;
          mac_key = kdf hmac master nonce info_mac
      in map_option
           (\<lambda>ks. let ct = xor_bytes plaintext ks in nonce @ hmac mac_key (nonce @ ct) @ ct)
           (keystream sha enc_key nonce (length plaintext)))"

definition open_blob ::
  "(bytes \<Rightarrow> bytes) \<Rightarrow> (bytes \<Rightarrow> bytes \<Rightarrow> bytes) \<Rightarrow> bytes \<Rightarrow> bytes \<Rightarrow> exn + bytes option" where
  "open_blob sha hmac master blob =
     (if length blob < 12 + 32 then Inl (ValueError ''ciphertext too short'')
      else
        let nonce = take 12 blob; tag = take 32 (drop 12 blob); ct = drop 44 blob;
            enc_key = kdf hmac master nonce info_enc;
            mac_key = kdf hmac master nonce info_mac
        in if hmac mac_key (nonce @ ct) \<noteq> tag then Inl (ValueError ''authentication failed'')
           else Inr (map_option (xor_bytes ct) (keystream sha enc_key nonce (length ct))))"

section \<open>The stores\<close>

type_synonym secret_rows = "((string \<times> string) \<times> bytes) list"

record secrets =
  se_rows :: secret_rows
  se_master :: bytes

definition se_create :: "bytes \<Rightarrow> exn + secrets" where
  "se_create master =
     (if length master < 16 then Inl (ValueError ''master_key must be at least 16 bytes'')
      else Inr \<lparr>se_rows = [], se_master = master\<rparr>)"

definition missing :: "string \<Rightarrow> string \<Rightarrow> exn" where
  "missing service key = MissingCredential (service @ '':'' @ key)"

definition se_get ::
  "(bytes \<Rightarrow> bytes) \<Rightarrow> (bytes \<Rightarrow> bytes \<Rightarrow> bytes) \<Rightarrow> string \<Rightarrow> string \<Rightarrow> secrets \<Rightarrow> (exn + string) option" where
  "se_get sha hmac service key s =
     (case map_of (se_rows s) (service, key) of
        None \<Rightarrow> Some (Inl (missing service key))
      | Some blob \<Rightarrow>
          (case open_blob sha hmac (se_master s) blob of
             Inl e \<Rightarrow> Some (Inl e)
           | Inr pt \<Rightarrow> map_option utf8_decode pt))"

definition put_row :: "string \<times> string \<Rightarrow> bytes \<Rightarrow> secret_rows \<Rightarrow> secret_rows" where
  "put_row k blob rows =
     (if map_of rows k = None then rows @ [(k, blob)]
      else map (\<lambda>(j, b). (j, if j = k then blob else b)) rows)"

definition se_set ::
  "(bytes \<Rightarrow> bytes) \<Rightarrow> (bytes \<Rightarrow> bytes \<Rightarrow> bytes) \<Rightarrow> bytes \<Rightarrow> string \<Rightarrow> string \<Rightarrow> string \<Rightarrow> secrets \<Rightarrow> secrets option" where
  "se_set sha hmac nonce service key v s =
     map_option (\<lambda>blob. s\<lparr>se_rows := put_row (service, key) blob (se_rows s)\<rparr>)
       (seal sha hmac nonce (se_master s) (utf8_encode v))"

text \<open>\<^verbatim>\<open>export_blob\<close> before its base64 text.\<close>

definition se_export_blob :: "string \<Rightarrow> string \<Rightarrow> secrets \<Rightarrow> exn + bytes" where
  "se_export_blob service key s =
     (case map_of (se_rows s) (service, key) of None \<Rightarrow> Inl (missing service key) | Some blob \<Rightarrow> Inr blob)"

text \<open>The in-memory store.\<close>

type_synonym plain_secrets = "string \<times> string \<Rightarrow> string option"

definition ps_get :: "string \<Rightarrow> string \<Rightarrow> plain_secrets \<Rightarrow> exn + string" where
  "ps_get service key s =
     (case s (service, key) of None \<Rightarrow> Inl (missing service key) | Some v \<Rightarrow> Inr v)"

definition ps_set :: "string \<Rightarrow> string \<Rightarrow> string \<Rightarrow> plain_secrets \<Rightarrow> plain_secrets" where
  "ps_set service key v s = s((service, key) \<mapsto> v)"

section \<open>Round trips\<close>

lemma utf8_decode_append: "utf8_decode (utf8_char c @ bs) = map_sum id (\<lambda>s. c # s) (utf8_decode bs)"
proof -
  define n where "n = (of_char c :: nat)"
  have n: "n < 256" and c: "c = char_of n" by (simp_all add: n_def)
  show ?thesis
  proof (cases "n < 128")
    case True
    then have "unat (of_nat n :: byte) = n" by (simp add: unat_of_nat)
    with True show ?thesis by (simp add: utf8_char_def n_def[symmetric] Let_def c)
  next
    case False
    have hi: "2 \<le> n div 64" "n div 64 < 4" using False n by (simp_all add: div_less_iff_less_mult div_le_mono[of 128 n 64, simplified])
    have lo: "n mod 64 < 64" by simp
    have u1: "unat (of_nat (192 + n div 64) :: byte) = 192 + n div 64"
      by (subst unat_of_nat) (use hi in simp)
    have u2: "unat (of_nat (128 + n mod 64) :: byte) = 128 + n mod 64"
      by (subst unat_of_nat) (use lo in simp)
    have "(n div 64) * 64 + n mod 64 = n" by simp
    moreover have "utf8_char c = [of_nat (192 + n div 64), of_nat (128 + n mod 64)]"
      using False by (simp add: utf8_char_def n_def[symmetric] Let_def)
    ultimately show ?thesis
      using hi lo by (simp add: u1 u2 c del: of_nat_add)
  qed
qed

lemma utf8_roundtrip: "utf8_decode (utf8_encode s) = Inr s"
  by (induction s) (simp_all add: utf8_encode_def utf8_decode_append)

lemma xor_bytes_twice: "length a \<le> length k \<Longrightarrow> xor_bytes (xor_bytes a k) k = a"
proof (induction a arbitrary: k)
  case (Cons x a)
  then show ?case by (cases k) (auto simp: xor_bytes_def xor.assoc)
qed (simp add: xor_bytes_def)

lemma keystream_length:
  assumes "\<And>m. 0 < length (sha m)"
  shows "n \<le> length out + fuel \<Longrightarrow>
    \<exists>ks. keystream_loop sha key nonce n fuel counter out = Some ks \<and> length ks = n"
proof (induction fuel arbitrary: counter out)
  case 0
  then show ?case by (subst keystream_loop.simps) simp
next
  case (Suc f)
  show ?case
  proof (cases "length out < n")
    case True
    have "n \<le> length (out @ sha (key @ nonce @ be64 counter)) + f"
      using Suc.prems assms[of "key @ nonce @ be64 counter"] by (simp del: length_greater_0_conv)
    from Suc.IH[OF this, of "Suc counter"] True show ?thesis by (subst keystream_loop.simps) simp
  qed (subst keystream_loop.simps, simp)
qed

lemma keystream_total:
  assumes "\<And>m. 0 < length (sha m)"
  obtains ks where "keystream sha key nonce n = Some ks" and "length ks = n"
  using keystream_length[of sha n "[]" "Suc n" key nonce 0] assms by (auto simp: keystream_def)

lemma open_seal:
  assumes "\<And>m. 0 < length (sha m)" and "\<And>k m. length (hmac k m) = 32" and "length nonce = 12"
  obtains blob where "seal sha hmac nonce master pt = Some blob" and "open_blob sha hmac master blob = Inr (Some pt)"
proof -
  obtain ks where ks: "keystream sha (kdf hmac master nonce info_enc) nonce (length pt) = Some ks" "length ks = length pt"
    by (rule keystream_total[OF assms(1)])
  define ct where "ct = xor_bytes pt ks"
  have len: "length ct = length pt" using ks(2) by (simp add: ct_def xor_bytes_def)
  show thesis
  proof
    show "seal sha hmac nonce master pt =
        Some (nonce @ hmac (kdf hmac master nonce info_mac) (nonce @ ct) @ ct)"
      by (simp add: seal_def ks(1) Let_def ct_def)
    show "open_blob sha hmac master (nonce @ hmac (kdf hmac master nonce info_mac) (nonce @ ct) @ ct) = Inr (Some pt)"
      using ks len by (simp add: open_blob_def Let_def assms(2,3) xor_bytes_twice ct_def)
  qed
qed

lemma put_row_lookup: "map_of (put_row k b rows) j = (if j = k then Some b else map_of rows j)"
proof (cases "map_of rows k")
  case None
  then show ?thesis by (auto simp: put_row_def map_add_def split: option.split)
next
  case (Some a)
  have "map_of (map (\<lambda>(i, c). (i, if i = k then b else c)) rows) j =
      (if j = k \<and> map_of rows k \<noteq> None then Some b else map_of rows j)"
    by (induction rows) auto
  with Some show ?thesis by (simp add: put_row_def)
qed

section \<open>Properties\<close>

text \<open>
  A stored secret comes back: for digests of 32 bytes and a nonce of 12, setting a value always
  succeeds, reading the key then returns exactly that value, and every other key reads as before.
\<close>

theorem secret_comes_back:
  assumes "\<And>m. length (sha m) = 32" and "\<And>k m. length (hmac k m) = 32" and "length nonce = 12"
  shows "\<exists>t. se_set sha hmac nonce service key v s = Some t \<and>
    se_get sha hmac service key t = Some (Inr v) \<and>
    ((service', key') = (service, key) \<or> se_get sha hmac service' key' t = se_get sha hmac service' key' s)"
proof -
  obtain blob where blob: "seal sha hmac nonce (se_master s) (utf8_encode v) = Some blob"
    "open_blob sha hmac (se_master s) blob = Inr (Some (utf8_encode v))"
    by (rule open_seal[of sha hmac nonce "se_master s" "utf8_encode v"]) (use assms in simp_all)
  define t where "t = s\<lparr>se_rows := put_row (service, key) blob (se_rows s)\<rparr>"
  have t: "se_master t = se_master s"
    "map_of (se_rows t) j = (if j = (service, key) then Some blob else map_of (se_rows s) j)" for j
    by (simp_all add: t_def put_row_lookup)
  have "se_set sha hmac nonce service key v s = Some t"
    using blob(1) by (simp add: se_set_def t_def)
  moreover have "se_get sha hmac service key t = Some (Inr v)"
    using blob(2) by (simp add: se_get_def t utf8_roundtrip)
  moreover have "se_get sha hmac service' key' t = se_get sha hmac service' key' s"
    if "(service', key') \<noteq> (service, key)"
    using that by (simp only: se_get_def t if_False)
  ultimately show ?thesis by blast
qed

definition demo_hmac :: "bytes \<Rightarrow> bytes \<Rightarrow> bytes" where
  "demo_hmac k m = map (\<lambda>i. sum_list k + sum_list m + of_nat i) [0..<32]"

lemma secret_comes_back_witness:
  "\<exists>t. se_set (demo_hmac []) demo_hmac (replicate 12 7) ''mail'' ''token'' ''s3cret'' \<lparr>se_rows = [], se_master = replicate 16 1\<rparr> = Some t \<and>
     se_get (demo_hmac []) demo_hmac ''mail'' ''token'' t = Some (Inr ''s3cret'')"
  using secret_comes_back[of "demo_hmac []" demo_hmac "replicate 12 7" "''mail''" "''token''" "''s3cret''"
      "\<lparr>se_rows = [], se_master = replicate 16 1\<rparr>"]
  by (auto simp: demo_hmac_def)

text \<open>Tampering is noticed: what opens carries the tag of its own nonce and ciphertext.\<close>

lemma opened_blob_is_authentic:
  "(\<exists>r. open_blob sha hmac master blob = Inr r) \<longleftrightarrow>
     44 \<le> length blob \<and>
     take 32 (drop 12 blob) = hmac (kdf hmac master (take 12 blob) info_mac) (take 12 blob @ drop 44 blob)"
  by (auto simp: open_blob_def Let_def)

end
