(* ===== verification/Performance_Model.thy ===== *)
theory Performance_Model
  imports Services "HOL-Library.Sublist"
begin

text \<open>
  \<^verbatim>\<open>modules/performance\<close>: the report a manager gets of an agent, computed from the whole event log, the
  table of feedback, and the manager's actions (feedback, role change, fire). The state is the bundle of
  services with the table \<^verbatim>\<open>feedback\<close>. Ids and clock readings are arguments; the text that
  \<^verbatim>\<open>orchestrator.system_send\<close> is handed is the result of \<open>manager_report\<close>. Floats are exact rationals
  rounded with \<open>fl\<close> where the code divides.
\<close>

section \<open>Data\<close>

record feedback =
  fb_id :: string
  fb_target :: string
  fb_from :: string
  fb_rating :: int
  fb_note :: string
  fb_ts :: int

record staff = services +
  pf_feedback :: "feedback list"

record metrics =
  pm_tasks_completed :: nat
  pm_messages_sent :: nat
  pm_messages_received :: nat
  pm_tool_success_rate :: "rat option"
  pm_avg_response_seconds :: "rat option"
  pm_truncated_turns :: nat
  pm_health_alerts :: nat
  pm_tenure_days :: int

record report =
  pr_metrics :: metrics
  pr_feedback :: "feedback list"

text \<open>\<^verbatim>\<open>payload.get(k)\<close> and Python's truth of a JSON value.\<close>

definition pget :: "payload \<Rightarrow> string \<Rightarrow> json" where
  "pget p k = (case map_of p k of None \<Rightarrow> JNull | Some v \<Rightarrow> v)"

fun json_truthy :: "json \<Rightarrow> bool" where
  "json_truthy JNull = False"
| "json_truthy (JBool b) = b"
| "json_truthy (JInt i) = (i \<noteq> 0)"
| "json_truthy (JFloat r) = (r \<noteq> 0)"
| "json_truthy (JStr s) = (s \<noteq> [])"
| "json_truthy (JList xs) = (xs \<noteq> [])"
| "json_truthy (JObj kvs) = (kvs \<noteq> [])"

section \<open>Reading the whole log\<close>

definition READ_BATCH_SIZE :: int where "READ_BATCH_SIZE = 1000"

definition next_batch :: "int \<Rightarrow> event_store \<Rightarrow> event list" where
  "next_batch since es =
     (case es_read (Some since) None [] None None READ_BATCH_SIZE es of Inr b \<Rightarrow> b | Inl _ \<Rightarrow> [])"

definition left_after :: "int \<Rightarrow> event_store \<Rightarrow> nat" where
  "left_after since es = length (filter (\<lambda>e. since < ev_id e) (es_events es))"

lemma next_batch_alt:
  "next_batch since es =
     (if es_migrated es then take 1000 (sort_key ev_id (filter (\<lambda>e. since < ev_id e) (es_events es))) else [])"
  by (simp add: next_batch_def es_read_def READ_BATCH_SIZE_def read_match_def[abs_def])

lemma next_batch_in: "e \<in> set (next_batch since es) \<Longrightarrow> e \<in> set (es_events es) \<and> since < ev_id e"
  by (auto simp: next_batch_alt split: if_splits dest: in_set_takeD)

lemma filter_shrinks:
  assumes "x \<in> set xs" and "P x" and "\<not> Q x" and "\<And>y. Q y \<Longrightarrow> P y"
  shows "length (filter Q xs) < length (filter P xs)"
proof -
  have "filter Q xs = filter Q (filter P xs)" using assms(4) by (auto intro: filter_cong)
  moreover have "length (filter Q (filter P xs)) < length (filter P xs)"
    by (rule length_filter_less[of x]) (use assms in auto)
  ultimately show ?thesis by simp
qed

text \<open>The loop of \<^verbatim>\<open>_read_all_events\<close>; every batch moves \<open>since\<close> past an event of the log.\<close>

function read_from :: "int \<Rightarrow> event_store \<Rightarrow> event list" where
  "read_from since es =
     (let b = next_batch since es in
      if b = [] then []
      else if int (length b) < READ_BATCH_SIZE then b
      else b @ read_from (ev_id (last b)) es)"
  by pat_completeness auto
termination
proof (relation "measure (\<lambda>(since, es). left_after since es)")
  fix since es b
  assume "b = next_batch since es" and "b \<noteq> []"
  then have "last b \<in> set (es_events es)" and later: "since < ev_id (last b)"
    using next_batch_in[of "last b" since es] by auto
  then have "left_after (ev_id (last b)) es < left_after since es"
    unfolding left_after_def by (intro filter_shrinks[of "last b"]) auto
  then show "((ev_id (last b), es), since, es) \<in> measure (\<lambda>(since, es). left_after since es)" by simp
qed simp

declare read_from.simps [simp del]

definition read_all_events :: "event_store \<Rightarrow> event list" where
  "read_all_events es = read_from 0 es"

section \<open>The tally\<close>

record tally =
  ta_sent :: nat
  ta_received :: nat
  ta_manager_messages :: "event list"
  ta_replies :: "event list"
  ta_called :: nat
  ta_ok :: nat
  ta_done :: nat
  ta_truncated :: nat
  ta_alerts :: nat

definition tally0 :: tally where
  "tally0 = \<lparr>ta_sent = 0, ta_received = 0, ta_manager_messages = [], ta_replies = [], ta_called = 0,
     ta_ok = 0, ta_done = 0, ta_truncated = 0, ta_alerts = 0\<rparr>"

text \<open>\<^verbatim>\<open>manager_id and ...\<close>: a manager with a name.\<close>

definition is_manager :: "string option \<Rightarrow> json \<Rightarrow> bool" where
  "is_manager m j \<longleftrightarrow> (case m of None \<Rightarrow> False | Some s \<Rightarrow> s \<noteq> [] \<and> j = JStr s)"

definition tally_event :: "string \<Rightarrow> string option \<Rightarrow> event \<Rightarrow> tally \<Rightarrow> tally" where
  "tally_event a m e t =
     (let p = ev_payload e; mine = (ev_actor_agent_id e = Some a); about = (pget p ''agent_id'' = JStr a) in
      case ev_kind e of
        MESSAGE_SENT \<Rightarrow>
          (let src = pget p ''from_agent''; dst = pget p ''to_agent'' in
           t\<lparr>ta_sent := ta_sent t + (if src = JStr a then 1 else 0),
             ta_received := ta_received t + (if dst = JStr a then 1 else 0),
             ta_manager_messages := ta_manager_messages t @
               (if is_manager m src \<and> dst = JStr a then [e] else []),
             ta_replies := ta_replies t @ (if is_manager m dst \<and> src = JStr a then [e] else [])\<rparr>)
      | TOOL_CALLED \<Rightarrow> if mine then t\<lparr>ta_called := ta_called t + 1\<rparr> else t
      | TOOL_RESULT \<Rightarrow> if mine \<and> pget p ''ok'' = JBool True then t\<lparr>ta_ok := ta_ok t + 1\<rparr> else t
      | AGENT_TURN_COMPLETED \<Rightarrow>
          if about \<and> pget p ''task_done'' = JBool True then t\<lparr>ta_done := ta_done t + 1\<rparr> else t
      | AGENT_TURN_TRUNCATED \<Rightarrow> if about then t\<lparr>ta_truncated := ta_truncated t + 1\<rparr> else t
      | AGENT_HEALTH_ALERT \<Rightarrow> if about then t\<lparr>ta_alerts := ta_alerts t + 1\<rparr> else t
      | _ \<Rightarrow> t)"

definition tally_log :: "string \<Rightarrow> string option \<Rightarrow> event list \<Rightarrow> tally" where
  "tally_log a m evs = fold (tally_event a m) evs tally0"

section \<open>The response time\<close>

text \<open>\<^verbatim>\<open>min\<close> with a key: the first of the smallest.\<close>

fun first_min :: "('a \<Rightarrow> int) \<Rightarrow> 'a \<Rightarrow> 'a list \<Rightarrow> 'a" where
  "first_min f x [] = x"
| "first_min f x (y # ys) = (if f y < f x then first_min f y ys else first_min f x ys)"

definition min_of :: "('a \<Rightarrow> int) \<Rightarrow> 'a list \<Rightarrow> 'a option" where
  "min_of f xs = (case xs of [] \<Rightarrow> None | x # ys \<Rightarrow> Some (first_min f x ys))"

definition open_reply :: "int set \<Rightarrow> event \<Rightarrow> event \<Rightarrow> bool" where
  "open_reply used msg r \<longleftrightarrow> ev_id r \<notin> used \<and> ev_ts_company msg \<le> ev_ts_company r"

definition same_thread :: "event \<Rightarrow> event \<Rightarrow> bool" where
  "same_thread msg r \<longleftrightarrow>
     \<not> json_truthy (pget (ev_payload msg) ''thread_id'') \<or>
     pget (ev_payload r) ''thread_id'' = pget (ev_payload msg) ''thread_id'' \<or>
     ev_correlation_id r = ev_correlation_id msg"

definition reply_to :: "int set \<Rightarrow> event list \<Rightarrow> event \<Rightarrow> event option" where
  "reply_to used replies msg =
     (case filter (\<lambda>r. open_reply used msg r \<and> same_thread msg r) replies of
        [] \<Rightarrow> min_of ev_ts_company (filter (open_reply used msg) replies)
      | c # cs \<Rightarrow> min_of ev_ts_company (c # cs))"

text \<open>The pairs (message, reply) whose distances the loop collects.\<close>

fun paired :: "int set \<Rightarrow> event list \<Rightarrow> event list \<Rightarrow> (event \<times> event) list" where
  "paired used replies [] = []"
| "paired used replies (msg # msgs) =
     (case reply_to used replies msg of
        None \<Rightarrow> paired used replies msgs
      | Some r \<Rightarrow> (msg, r) # paired (insert (ev_id r) used) replies msgs)"

definition delta_seconds :: "event \<times> event \<Rightarrow> rat" where
  "delta_seconds mr = fl (of_int (ev_ts_company (snd mr) - ev_ts_company (fst mr)) / 1000000)"

text \<open>\<^verbatim>\<open>statistics.median\<close>.\<close>

definition median :: "rat list \<Rightarrow> rat" where
  "median xs =
     (let s = sort xs; n = length xs in
      if odd n then s ! (n div 2) else fl (fl (s ! (n div 2 - 1) + s ! (n div 2)) / 2))"

definition median_response_seconds :: "event list \<Rightarrow> event list \<Rightarrow> rat option" where
  "median_response_seconds msgs replies =
     (if msgs = [] \<or> replies = [] then None
      else let ds = map delta_seconds (paired {} replies msgs) in if ds = [] then None else Some (median ds))"

section \<open>The report\<close>

text \<open>\<^verbatim>\<open>ORDER BY ts DESC LIMIT ?\<close>; a negative limit is none.\<close>

definition recent_feedback :: "string \<Rightarrow> int \<Rightarrow> 'x staff_scheme \<Rightarrow> feedback list" where
  "recent_feedback a limit w =
     (let rows = sort_key (\<lambda>f. - fb_ts f) (filter (\<lambda>f. fb_target f = a) (pf_feedback w))
      in if limit < 0 then rows else take (nat limit) rows)"

definition success_rate :: "nat \<Rightarrow> nat \<Rightarrow> rat option" where
  "success_rate ok called = (if called > 0 then Some (fl (of_nat ok / of_nat called)) else None)"

definition perf_report :: "int \<Rightarrow> string \<Rightarrow> int \<Rightarrow> 'x staff_scheme \<Rightarrow> exn + report" where
  "perf_report now a limit w =
     (case org_get (sv_org w) a of
        Inl e \<Rightarrow> Inl e
      | Inr target \<Rightarrow>
          let t = tally_log a (ag_reports_to target) (read_all_events (sv_events w)) in
          Inr \<lparr>pr_metrics =
                 \<lparr>pm_tasks_completed = ta_done t, pm_messages_sent = ta_sent t,
                  pm_messages_received = ta_received t,
                  pm_tool_success_rate = success_rate (ta_ok t) (ta_called t),
                  pm_avg_response_seconds = median_response_seconds (ta_manager_messages t) (ta_replies t),
                  pm_truncated_turns = ta_truncated t, pm_health_alerts = ta_alerts t,
                  pm_tenure_days = max 0 ((now - ag_hired_at target) div 86400000000)\<rparr>,
               pr_feedback = recent_feedback a limit w\<rparr>)"

definition display_role_title :: "agent \<Rightarrow> string" where
  "display_role_title a = str_or (ag_role_title a) (role_value (ag_role a))"

text \<open>\<^verbatim>\<open>f"{x:.0%}"\<close> and \<^verbatim>\<open>f"{x:.1f}"\<close> of non-negative floats.\<close>

definition fmt_percent :: "rat \<Rightarrow> string" where
  "fmt_percent x = nat_str (nat (round_half_even (fl (x * 100)))) @ ''%''"

definition fmt1 :: "rat \<Rightarrow> string" where
  "fmt1 x = (let n = nat (round_half_even (x * 10)) in nat_str (n div 10) @ ''.'' @ [digit_char (n mod 10)])"

definition newline :: string where "newline = [CHR 0x0A]"

definition format_manager_report :: "agent \<Rightarrow> report \<Rightarrow> string" where
  "format_manager_report target r =
     (let q = pr_metrics r in
      py_join newline
        ([''Performance report for '' @ ag_id target @ '' ('' @ display_role_title target @ '')'',
          ''- tasks_completed: '' @ nat_str (pm_tasks_completed q),
          ''- messages_sent / received: '' @ nat_str (pm_messages_sent q) @ '' / '' @
            nat_str (pm_messages_received q),
          ''- tool_success_rate: '' @
            (case pm_tool_success_rate q of None \<Rightarrow> ''n/a'' | Some x \<Rightarrow> fmt_percent x),
          ''- median manager-response time: '' @
            (case pm_avg_response_seconds q of None \<Rightarrow> ''n/a'' | Some x \<Rightarrow> fmt1 x @ ''s''),
          ''- truncated_turns: '' @ nat_str (pm_truncated_turns q),
          ''- health_alerts: '' @ nat_str (pm_health_alerts q),
          ''- tenure_days: '' @ int_str (pm_tenure_days q)] @
         (if pr_feedback r = [] then []
          else ''- recent_feedback:'' #
            map (\<lambda>f. ''  '' @ int_str (fb_rating f) @ ''/5 from '' @ fb_from f @ '': '' @ take 160 (fb_note f))
              (take 3 (pr_feedback r))) @
         [''You can use give_feedback, propose_role_change, or propose_fire if action is needed.'']))"

text \<open>What \<^verbatim>\<open>send_report_to_manager\<close> hands to the orchestrator: the manager and the text.\<close>

definition manager_report :: "int \<Rightarrow> string \<Rightarrow> 'x staff_scheme \<Rightarrow> exn + string \<times> string" where
  "manager_report now target_id w =
     (case org_get (sv_org w) target_id of
        Inl e \<Rightarrow> Inl e
      | Inr target \<Rightarrow>
          (case ag_reports_to target of
             None \<Rightarrow> Inl (PermissionError ''target_has_no_manager'')
           | Some mgr \<Rightarrow>
               (case perf_report now target_id 10 w of
                  Inl e \<Rightarrow> Inl e
                | Inr r \<Rightarrow> Inr (mgr, format_manager_report target r))))"

text \<open>\<open>system_send\<close> is the orchestrator's method of that name, on the bundle.\<close>

definition send_report_to_manager ::
  "int \<Rightarrow> (string \<Rightarrow> string \<Rightarrow> 'x staff_scheme \<Rightarrow> (string, 'x staff_scheme) outcome) \<Rightarrow> string
   \<Rightarrow> 'x staff_scheme \<Rightarrow> (string, 'x staff_scheme) outcome" where
  "send_report_to_manager now system_send target_id w =
     (case manager_report now target_id w of
        Inl e \<Rightarrow> (Inl e, w)
      | Inr (mgr, body) \<Rightarrow>
          andthen (system_send mgr body w)
            (\<lambda>verdict w1. if verdict \<noteq> ''queued''
                          then (Inl (RuntimeError (''report_delivery_failed:'' @ verdict)), w1)
                          else (Inr mgr, w1)))"


section \<open>Manager actions\<close>

definition give_feedback_check :: "string \<Rightarrow> string \<Rightarrow> int \<Rightarrow> org \<Rightarrow> exn option" where
  "give_feedback_check caller target rating g =
     (if rating < 1 \<or> rating > 5 then Some (ValueError ''rating_out_of_range'')
      else
        (case org_get g caller of
           Inl e \<Rightarrow> Some e
         | Inr c \<Rightarrow>
             (case org_get g target of
                Inl e \<Rightarrow> Some e
              | Inr t \<Rightarrow>
                  if ag_status c \<noteq> ACTIVE \<or> ag_status t \<noteq> ACTIVE
                  then Some (PermissionError ''agent_not_active'')
                  else if ag_reports_to t = Some caller \<or> ag_role c = CEO then None
                  else Some (PermissionError ''not_manager''))))"

definition give_feedback ::
  "string \<Rightarrow> int \<Rightarrow> string \<Rightarrow> string \<Rightarrow> int \<Rightarrow> string \<Rightarrow> 'x staff_scheme
   \<Rightarrow> (feedback, 'x staff_scheme) outcome" where
  "give_feedback fresh now caller target rating note_text w =
     (case give_feedback_check caller target rating (sv_org w) of
        Some e \<Rightarrow> (Inl e, w)
      | None \<Rightarrow>
          if tbl_find fb_id fresh (pf_feedback w) \<noteq> None
          then (Inl (IntegrityError ''UNIQUE constraint failed: feedback.id''), w)
          else
            let f = \<lparr>fb_id = fresh, fb_target = target, fb_from = caller, fb_rating = rating,
                     fb_note = note_text, fb_ts = now\<rparr>
            in andthen
                 (on_events (es_append (Inl AGENT_FEEDBACK_GIVEN)
                    [(''feedback_id'', JStr fresh), (''target_agent_id'', JStr target),
                     (''from_agent_id'', JStr caller), (''rating'', JInt rating)] (Some caller) None)
                    (w\<lparr>pf_feedback := pf_feedback w @ [f]\<rparr>))
                 (\<lambda>_ w1. (Inr f, w1)))"

definition direct_manager_check :: "string \<Rightarrow> string \<Rightarrow> org \<Rightarrow> exn option" where
  "direct_manager_check caller target g =
     (case org_get g caller of
        Inl e \<Rightarrow> Some e
      | Inr c \<Rightarrow>
          (case org_get g target of
             Inl e \<Rightarrow> Some e
           | Inr t \<Rightarrow>
               if ag_status c \<noteq> ACTIVE \<or> ag_status t \<noteq> ACTIVE
               then Some (PermissionError ''agent_not_active'')
               else if ag_reports_to t \<noteq> Some caller then Some (PermissionError ''not_direct_manager'')
               else None))"

text \<open>\<^verbatim>\<open>_cancel_pending_role_change_approvals\<close>: the rows are fetched first, then cancelled one by one;
  what a cancel raises is suppressed. \<open>clock\<close> is the reading each cancel makes.\<close>

definition stale_role_change :: "string \<Rightarrow> string option \<Rightarrow> approval_row \<Rightarrow> bool" where
  "stale_role_change target except r \<longleftrightarrow>
     ar_kind r = AK_ROLE_CHANGE \<and> ar_status r = AP_PENDING \<and>
     \<not> (case except of None \<Rightarrow> False | Some x \<Rightarrow> x \<noteq> [] \<and> ar_request_id r = x) \<and>
     pget (ar_payload r) ''target_agent_id'' = JStr target"

definition cancel_role_changes ::
  "(string \<Rightarrow> int) \<Rightarrow> string \<Rightarrow> string \<Rightarrow> string option \<Rightarrow> approvals \<times> event_store \<Rightarrow> approvals \<times> event_store" where
  "cancel_role_changes clock target who except s =
     fold (\<lambda>i t. snd (appr_cancel (clock i) i who ''role_change_applied_directly'' t))
       (map ar_request_id (filter (stale_role_change target except) (ap_rows (fst s)))) s"

definition hr_notices :: "org \<Rightarrow> string \<Rightarrow> string \<Rightarrow> string \<Rightarrow> string \<Rightarrow> (event_kind \<times> payload) list" where
  "hr_notices g caller target title rationale =
     map (\<lambda>a. (MESSAGE_SENT,
            [(''from_agent'', JStr ''system''), (''to_agent'', JStr (ag_id a)),
             (''content'', JStr (''Role change applied. Target: '' @ target @ ''. Requested by: '' @ caller @
                ''. New title: '' @ title @ ''. Rationale: '' @ rationale))]))
       (filter (\<lambda>a. ag_role a = HR) (org_all g (Some ACTIVE)))"

definition promoted_payload :: "string \<Rightarrow> string \<Rightarrow> agent \<Rightarrow> agent \<Rightarrow> string option \<Rightarrow> payload" where
  "promoted_payload caller target before updated approval_id =
     [(''agent_id'', JStr target), (''by_agent_id'', JStr caller),
      (''old_role_title'', JStr (display_role_title before)),
      (''new_role_title'', JStr (display_role_title updated)),
      (''old_role_description'', opt_json (ag_role_description before)),
      (''new_role_description'', JStr (str_or (ag_role_description updated) []))] @
     (case approval_id of None \<Rightarrow> [] | Some i \<Rightarrow> [(''approval_id'', JStr i)])"

definition apply_role_change ::
  "(string \<Rightarrow> int) \<Rightarrow> string \<Rightarrow> string \<Rightarrow> string \<Rightarrow> string \<Rightarrow> string \<Rightarrow> string option
   \<Rightarrow> 'x services_scheme \<Rightarrow> (unit, 'x services_scheme) outcome" where
  "apply_role_change clock caller target title description rationale approval_id w =
     (let new_title = py_strip title; new_description = py_strip description in
      if new_title = [] then (Inl (ValueError ''invalid_role_change_payload''), w)
      else
        (case org_get (sv_org w) target of
           Inl e \<Rightarrow> (Inl e, w)
         | Inr before \<Rightarrow>
             andthen (on_org (org_update_role_details target new_title new_description) w)
               (\<lambda>updated w1.
                  andthen (on_events (es_append (Inl AGENT_PROMOTED)
                             (promoted_payload caller target before updated approval_id) (Some caller) None) w1)
                    (\<lambda>_ w2.
                       let w3 = put_appr (cancel_role_changes clock target caller approval_id (get_appr w2)) w2
                       in on_events (append_all (hr_notices (sv_org w3) caller target new_title rationale)
                            (Some caller)) w3))))"

definition propose_role_change ::
  "(string \<Rightarrow> int) \<Rightarrow> string \<Rightarrow> string \<Rightarrow> string \<Rightarrow> string \<Rightarrow> string \<Rightarrow> 'x services_scheme
   \<Rightarrow> (string, 'x services_scheme) outcome" where
  "propose_role_change clock caller target title description rationale w =
     (case direct_manager_check caller target (sv_org w) of
        Some e \<Rightarrow> (Inl e, w)
      | None \<Rightarrow>
          andthen (apply_role_change clock caller target title description rationale None w)
            (\<lambda>_ w1. (Inr ''updated'', w1)))"

text \<open>\<^verbatim>\<open>str(x or d)\<close>; \<open>to_str\<close> is \<^verbatim>\<open>str\<close> of the values that are no strings.\<close>

definition str_of_or :: "(json \<Rightarrow> string) \<Rightarrow> json \<Rightarrow> string \<Rightarrow> string" where
  "str_of_or to_str j d =
     (if json_truthy j then (case j of JStr s \<Rightarrow> s | _ \<Rightarrow> to_str j) else d)"

definition complete_role_change ::
  "(json \<Rightarrow> string) \<Rightarrow> (string \<Rightarrow> int) \<Rightarrow> approval \<Rightarrow> 'x services_scheme \<Rightarrow> (unit, 'x services_scheme) outcome" where
  "complete_role_change to_str clock v w =
     (let r = av_row v; p = ar_payload r;
          target = str_of_or to_str (pget p ''target_agent_id'') [];
          actor = str_of_or to_str (pget p ''from_agent_id'') (ar_requester_id r);
          title = py_strip (str_of_or to_str (pget p ''new_role_title'') []);
          description = py_strip (str_of_or to_str (pget p ''new_role_description'') []) in
      if ar_kind r \<noteq> AK_ROLE_CHANGE then (Inr (), w)
      else if ar_status r \<noteq> AP_APPROVED then (Inr (), w)
      else if target = [] \<or> title = [] then (Inl (ValueError ''invalid_role_change_payload''), w)
      else apply_role_change clock actor target title description
             (str_of_or to_str (pget p ''rationale'') []) (Some (ar_request_id r)) w)"

text \<open>\<^verbatim>\<open>propose_fire\<close>: \<open>None\<close> if the depth walk does not return.\<close>

definition propose_fire ::
  "int \<Rightarrow> string \<Rightarrow> string \<Rightarrow> string \<Rightarrow> 'x services_scheme \<Rightarrow> (fire_outcome, 'x services_scheme) outcome option" where
  "propose_fire now caller target reason w =
     map_option (\<lambda>(r, s). (r, put_org s w)) (org_fire now caller target reason True (get_org w))"

definition apply_approval_side_effect ::
  "(json \<Rightarrow> string) \<Rightarrow> (string \<Rightarrow> int) \<Rightarrow> int \<Rightarrow> approval \<Rightarrow> 'x services_scheme
   \<Rightarrow> (unit, 'x services_scheme) outcome" where
  "apply_approval_side_effect to_str clock now v w =
     (let r = av_row v in
      if ar_kind r = AK_FIRE_DEPTH_1
      then (if ar_status r \<in> {AP_APPROVED, AP_DENIED}
            then on_org (org_complete_fire now (ar_request_id r)
                   (if ar_status r = AP_APPROVED then FIRE_APPROVED else FIRE_REJECTED)) w
            else (Inr (), w))
      else if ar_kind r = AK_ROLE_CHANGE then complete_role_change to_str clock v w
      else (Inr (), w))"


section \<open>The whole log is read\<close>

lemma filter_beyond_take:
  fixes f :: "'a \<Rightarrow> int"
  assumes "sorted_wrt (<) (map f xs)" and "0 < n" and "n \<le> length xs"
  shows "filter (\<lambda>e. f (last (take n xs)) < f e) xs = drop n xs"
proof -
  let ?l = "last (take n xs)"
  have split: "xs = take n xs @ drop n xs" by simp
  have ne: "take n xs \<noteq> []" using assms(2,3) by auto
  have srt: "sorted_wrt (<) (map f (take n xs) @ map f (drop n xs))"
    using assms(1) split by (metis map_append)
  obtain b l where b: "take n xs = b @ [l]" using ne by (cases "take n xs" rule: rev_cases) auto
  have "sorted_wrt (<) (map f (b @ [l]))" using srt b by (simp add: sorted_wrt_append)
  then have below: "f e \<le> f ?l" if "e \<in> set (take n xs)" for e
    using that by (auto simp: b sorted_wrt_append less_imp_le)
  have above: "f ?l < f e" if "e \<in> set (drop n xs)" for e
    using srt that ne by (auto simp: sorted_wrt_append)
  have "filter (\<lambda>e. f ?l < f e) (take n xs) = []"
    using below by (auto simp: filter_empty_conv not_less)
  moreover have "filter (\<lambda>e. f ?l < f e) (drop n xs) = drop n xs"
    using above by (simp add: filter_id_conv)
  ultimately show ?thesis by (metis split append_Nil filter_append)
qed

lemma log_batch:
  assumes "log_inv es"
  shows "next_batch since es = take 1000 (filter (\<lambda>e. since < ev_id e) (es_events es))"
  using log_inv_read[OF assms, of READ_BATCH_SIZE "Some since" None "[]" None None]
  by (simp add: next_batch_def READ_BATCH_SIZE_def read_match_def[abs_def])

lemma read_from_log: "log_inv es \<Longrightarrow> read_from since es = filter (\<lambda>e. since < ev_id e) (es_events es)"
proof (induction since es rule: read_from.induct)
  case (1 since es)
  let ?all = "filter (\<lambda>e. since < ev_id e) (es_events es)"
  let ?b = "next_batch since es"
  have b: "?b = take 1000 ?all" using 1(2) by (rule log_batch)
  show ?case
  proof (cases "length ?all < 1000")
    case True
    then have "?b = ?all" using b by simp
    with True show ?thesis by (simp add: read_from.simps[of since es] READ_BATCH_SIZE_def Let_def)
  next
    case False
    then have full: "length ?b = 1000" using b by simp
    then have ne: "?b \<noteq> []" by auto
    have later: "since < ev_id (last ?b)" using next_batch_in[of "last ?b" since es] ne by auto
    have srt: "sorted_wrt (<) (map ev_id ?all)"
      using 1(2) by (auto simp: log_inv_def sorted_wrt_map intro: sorted_wrt_filter)
    have "read_from since es = ?b @ read_from (ev_id (last ?b)) es"
      using full ne by (simp add: read_from.simps[of since es] READ_BATCH_SIZE_def Let_def)
    also have "read_from (ev_id (last ?b)) es = filter (\<lambda>e. ev_id (last ?b) < ev_id e) (es_events es)"
      using 1(1)[OF refl ne _ 1(2)] full by (simp add: READ_BATCH_SIZE_def)
    also have "\<dots> = filter (\<lambda>e. ev_id (last ?b) < ev_id e) ?all"
      using later by (auto intro: filter_cong)
    also have "\<dots> = drop 1000 ?all"
      unfolding b by (rule filter_beyond_take[OF srt]) (use False in auto)
    finally show ?thesis using b by simp
  qed
qed

lemma read_all_log: "log_inv es \<Longrightarrow> read_all_events es = es_events es"
  by (auto simp: read_all_events_def read_from_log log_inv_def intro: filter_True)

section \<open>The tally counts\<close>

definition count :: "(event \<Rightarrow> bool) \<Rightarrow> event list \<Rightarrow> nat" where
  "count P evs = length (filter P evs)"

definition sent_by :: "string \<Rightarrow> event \<Rightarrow> bool" where
  "sent_by a e \<longleftrightarrow> ev_kind e = MESSAGE_SENT \<and> pget (ev_payload e) ''from_agent'' = JStr a"

definition sent_to :: "string \<Rightarrow> event \<Rightarrow> bool" where
  "sent_to a e \<longleftrightarrow> ev_kind e = MESSAGE_SENT \<and> pget (ev_payload e) ''to_agent'' = JStr a"

definition acted :: "string \<Rightarrow> event_kind \<Rightarrow> event \<Rightarrow> bool" where
  "acted a k e \<longleftrightarrow> ev_kind e = k \<and> ev_actor_agent_id e = Some a"

definition tells_of :: "string \<Rightarrow> event_kind \<Rightarrow> event \<Rightarrow> bool" where
  "tells_of a k e \<longleftrightarrow> ev_kind e = k \<and> pget (ev_payload e) ''agent_id'' = JStr a"

definition from_manager :: "string \<Rightarrow> string option \<Rightarrow> event \<Rightarrow> bool" where
  "from_manager a m e \<longleftrightarrow> sent_to a e \<and> is_manager m (pget (ev_payload e) ''from_agent'')"

definition to_manager :: "string \<Rightarrow> string option \<Rightarrow> event \<Rightarrow> bool" where
  "to_manager a m e \<longleftrightarrow> sent_by a e \<and> is_manager m (pget (ev_payload e) ''to_agent'')"

definition tallied :: "string \<Rightarrow> string option \<Rightarrow> event list \<Rightarrow> tally" where
  "tallied a m evs =
     \<lparr>ta_sent = count (sent_by a) evs, ta_received = count (sent_to a) evs,
      ta_manager_messages = filter (from_manager a m) evs, ta_replies = filter (to_manager a m) evs,
      ta_called = count (acted a TOOL_CALLED) evs,
      ta_ok = count (\<lambda>e. acted a TOOL_RESULT e \<and> pget (ev_payload e) ''ok'' = JBool True) evs,
      ta_done = count (\<lambda>e. tells_of a AGENT_TURN_COMPLETED e \<and>
                  pget (ev_payload e) ''task_done'' = JBool True) evs,
      ta_truncated = count (tells_of a AGENT_TURN_TRUNCATED) evs,
      ta_alerts = count (tells_of a AGENT_HEALTH_ALERT) evs\<rparr>"

lemmas tally_predicates = sent_by_def sent_to_def acted_def tells_of_def from_manager_def to_manager_def

lemma count_snoc [simp]: "count P (evs @ [e]) = count P evs + (if P e then 1 else 0)"
  by (simp add: count_def)

lemma tally_step: "tally_event a m e (tallied a m evs) = tallied a m (evs @ [e])"
  by (cases "ev_kind e") (simp_all add: tally_event_def tallied_def tally_predicates Let_def)

lemma tally_log_counts: "tally_log a m evs = tallied a m evs"
proof (induction evs rule: rev_induct)
  case Nil
  show ?case by (simp add: tally_log_def tally0_def tallied_def count_def)
next
  case (snoc e evs)
  then show ?case by (simp add: tally_log_def tally_step)
qed

section \<open>The pairing of replies\<close>

lemma first_min_in: "first_min f x ys = x \<or> first_min f x ys \<in> set ys"
proof (induction ys arbitrary: x)
  case (Cons y ys)
  from Cons.IH[of x] Cons.IH[of y] show ?case by auto
qed simp

lemma min_of_in: "min_of f xs = Some y \<Longrightarrow> y \<in> set xs"
  using first_min_in[of f "hd xs" "tl xs"] by (cases xs) (auto simp: min_of_def)

lemma min_of_None: "min_of f xs = None \<longleftrightarrow> xs = []"
  by (simp add: min_of_def split: list.split)

lemma reply_to_cases:
  "reply_to used replies msg =
     min_of ev_ts_company
       (let cs = filter (same_thread msg) (filter (open_reply used msg) replies)
        in if cs = [] then filter (open_reply used msg) replies else cs)"
  by (auto simp: reply_to_def Let_def conj_commute split: list.split)

lemma reply_to_open:
  assumes "reply_to used replies msg = Some r"
  shows "r \<in> set replies \<and> open_reply used msg r"
proof -
  have "r \<in> set (filter (open_reply used msg) replies)"
    using min_of_in[OF assms[unfolded reply_to_cases]] by (auto simp: Let_def split: if_splits)
  then show ?thesis by simp
qed

lemma reply_to_None: "reply_to used replies msg = None \<longleftrightarrow> filter (open_reply used msg) replies = []"
  by (auto simp: reply_to_cases min_of_None Let_def filter_empty_conv)


definition reply_ids :: "(event \<times> event) list \<Rightarrow> int set" where
  "reply_ids ps = (ev_id \<circ> snd) ` set ps"

text \<open>A message the loop leaves without a reply: none in time is left for it.\<close>

definition unanswerable :: "int set \<Rightarrow> event list \<Rightarrow> event \<Rightarrow> bool" where
  "unanswerable used replies msg \<longleftrightarrow> filter (open_reply used msg) replies = []"

definition fair_pair :: "event list \<Rightarrow> event \<times> event \<Rightarrow> bool" where
  "fair_pair replies mr \<longleftrightarrow> snd mr \<in> set replies \<and> ev_ts_company (fst mr) \<le> ev_ts_company (snd mr)"

definition pairing :: "int set \<Rightarrow> event list \<Rightarrow> event list \<Rightarrow> (event \<times> event) list \<Rightarrow> bool" where
  "pairing used replies msgs ps \<longleftrightarrow>
     distinct (map (ev_id \<circ> snd) ps) \<and> reply_ids ps \<inter> used = {} \<and>
     subseq (map fst ps) msgs \<and> list_all (fair_pair replies) ps \<and>
     list_all (\<lambda>m. m \<in> fst ` set ps \<or> unanswerable (used \<union> reply_ids ps) replies m) msgs"

lemma unanswerable_mono: "unanswerable used replies m \<Longrightarrow> used \<subseteq> used' \<Longrightarrow> unanswerable used' replies m"
  by (auto simp: unanswerable_def open_reply_def filter_empty_conv)

lemma paired_pairing: "pairing used replies msgs (paired used replies msgs)"
proof (induction msgs arbitrary: used)
  case Nil
  show ?case by (simp add: pairing_def reply_ids_def)
next
  case (Cons msg msgs)
  show ?case
  proof (cases "reply_to used replies msg")
    case None
    then have "unanswerable used replies msg" by (simp add: unanswerable_def reply_to_None)
    then have "unanswerable (used \<union> reply_ids (paired used replies msgs)) replies msg"
      by (rule unanswerable_mono) simp
    with Cons.IH[of used] None show ?thesis by (auto simp: pairing_def intro: list_emb_Cons)
  next
    case (Some r)
    let ?ps = "paired (insert (ev_id r) used) replies msgs"
    have r: "r \<in> set replies" "open_reply used msg r" using reply_to_open[OF Some] by auto
    have IH: "pairing (insert (ev_id r) used) replies msgs ?ps" by (rule Cons.IH)
    have ids: "used \<union> reply_ids ((msg, r) # ?ps) = insert (ev_id r) used \<union> reply_ids ?ps"
      by (auto simp: reply_ids_def)
    have "ev_id r \<notin> (ev_id \<circ> snd) ` set ?ps"
      using IH by (auto simp: pairing_def reply_ids_def)
    moreover have "reply_ids ((msg, r) # ?ps) \<inter> used = {}"
      using IH r(2) by (auto simp: pairing_def reply_ids_def open_reply_def)
    moreover have "paired used replies (msg # msgs) = (msg, r) # ?ps" by (simp add: Some)
    ultimately show ?thesis
      using IH r unfolding pairing_def \<open>paired used replies (msg # msgs) = (msg, r) # ?ps\<close> ids
      by (auto simp: fair_pair_def open_reply_def pairing_def list_all_iff)
  qed
qed

lemma median_bounds:
  assumes "ds \<noteq> []" and "\<And>d. d \<in> set ds \<Longrightarrow> 0 \<le> d" and "\<And>x. 0 \<le> x \<Longrightarrow> 0 \<le> fl x"
  shows "0 \<le> median ds"
proof -
  have nth: "0 \<le> sort ds ! i" if "i < length ds" for i
    using nth_mem[of i "sort ds"] assms(2) that by simp
  have "0 < length ds" using assms(1) by simp
  then have "0 \<le> sort ds ! (length ds div 2)" and "0 \<le> sort ds ! (length ds div 2 - 1)"
    by (simp_all add: nth less_imp_diff_less)
  then show ?thesis by (auto simp: median_def Let_def intro!: assms(3) divide_nonneg_pos)
qed


lemma float_quantum_pos: "0 < q \<Longrightarrow> 0 < float_quantum n q x"
  by (induction n arbitrary: q) auto

lemma round_nonneg: "0 \<le> x \<Longrightarrow> 0 \<le> round_half_even x"
  by (auto simp: round_half_even_def Let_def)

lemma fl_nonneg: "0 \<le> x \<Longrightarrow> 0 \<le> fl x"
  unfolding fl_def Let_def
  by (intro mult_nonneg_nonneg) (auto simp: less_imp_le[OF float_quantum_pos] intro!: round_nonneg divide_nonneg_pos float_quantum_pos)

lemma response_nonneg:
  assumes "median_response_seconds msgs replies = Some x" shows "0 \<le> x"
proof -
  let ?ps = "paired {} replies msgs"
  have "0 \<le> delta_seconds p" if "p \<in> set ?ps" for p
    using that paired_pairing[of "{}" replies msgs]
    by (auto simp: pairing_def list_all_iff fair_pair_def delta_seconds_def intro!: fl_nonneg divide_nonneg_pos)
  with assms show ?thesis
    by (auto simp: median_response_seconds_def Let_def split: if_splits intro!: median_bounds fl_nonneg)
qed

section \<open>What a role change closes\<close>

definition cancelled :: "(string \<Rightarrow> int) \<Rightarrow> string \<Rightarrow> string \<Rightarrow> approval_row \<Rightarrow> approval_row" where
  "cancelled clock who why r = set_final AP_CANCELLED who (clock (ar_request_id r)) (Some why) r"

lemma cancelled_key [simp]: "ar_request_id (cancelled clock who why r) = ar_request_id r"
  by (simp add: cancelled_def set_final_def)

lemma tbl_upd_only:
  assumes "tbl_pk key t" and "tbl_find key k t = Some r" and "f r = g r"
  shows "tbl_upd key k f t = tbl_upd key k g t"
proof -
  have "x = r" if "x \<in> set t" and "key x = k" for x
    using tbl_find_in[OF assms(1) that(1)] that(2) assms(2) by simp
  then show ?thesis unfolding tbl_upd_def using assms(3) by (auto intro!: map_cong)
qed

lemma cancel_rows:
  assumes "tbl_pk ar_request_id (ap_rows (fst s))"
  shows "ap_rows (fst (snd (appr_cancel (clock i) i who why s))) =
    tbl_upd ar_request_id i (\<lambda>r. if ar_status r = AP_PENDING then cancelled clock who why r else r) (ap_rows (fst s))"
proof (cases "tbl_find ar_request_id i (ap_rows (fst s))")
  case None
  then show ?thesis by (simp add: appr_cancel_def tbl_upd_absent)
next
  case (Some r)
  then have key: "ar_request_id r = i" by (auto dest: tbl_find_Some_in)
  show ?thesis
  proof (cases "ar_status r = AP_PENDING")
    case True
    have "ap_rows (fst (snd (appr_cancel (clock i) i who why s))) =
        tbl_upd ar_request_id i (set_final AP_CANCELLED who (clock i) (Some why)) (ap_rows (fst s))"
      using Some True
      by (simp add: appr_cancel_def Let_def announce_def appr_broadcast_def split: sum.split prod.split)
    also have "\<dots> = tbl_upd ar_request_id i
        (\<lambda>r. if ar_status r = AP_PENDING then cancelled clock who why r else r) (ap_rows (fst s))"
      using True key by (intro tbl_upd_only[OF assms Some]) (simp add: cancelled_def)
    finally show ?thesis .
  next
    case False
    have "tbl_upd ar_request_id i (\<lambda>r. if ar_status r = AP_PENDING then cancelled clock who why r else r)
        (ap_rows (fst s)) = tbl_upd ar_request_id i id (ap_rows (fst s))"
      using False by (intro tbl_upd_only[OF assms Some]) simp
    also have "\<dots> = ap_rows (fst s)" by (simp add: tbl_upd_def map_idI)
    finally show ?thesis using Some False by (simp add: appr_cancel_def)
  qed
qed

lemma cancel_all_rows:
  assumes "tbl_pk ar_request_id (ap_rows (fst s))"
  shows "ap_rows (fst (fold (\<lambda>i t. snd (appr_cancel (clock i) i who why t)) ids s)) =
    map (\<lambda>r. if ar_request_id r \<in> set ids \<and> ar_status r = AP_PENDING then cancelled clock who why r else r)
      (ap_rows (fst s))"
  using assms
proof (induction ids arbitrary: s)
  case (Cons i ids)
  let ?s1 = "snd (appr_cancel (clock i) i who why s)"
  have rows: "ap_rows (fst ?s1) = tbl_upd ar_request_id i
      (\<lambda>r. if ar_status r = AP_PENDING then cancelled clock who why r else r) (ap_rows (fst s))"
    by (rule cancel_rows[OF Cons.prems])
  have "map ar_request_id (ap_rows (fst ?s1)) = map ar_request_id (ap_rows (fst s))"
    by (simp add: rows tbl_upd_def)
  then have "tbl_pk ar_request_id (ap_rows (fst ?s1))" using Cons.prems by (simp add: tbl_pk_def)
  then show ?case
    using Cons.IH[of ?s1] by (auto simp: rows tbl_upd_def cancelled_def set_final_def)
qed simp

lemma cancel_stale:
  assumes "tbl_pk ar_request_id (ap_rows (fst s))"
  shows "ap_rows (fst (cancel_role_changes clock target who except s)) =
    map (\<lambda>r. if stale_role_change target except r
             then cancelled clock who ''role_change_applied_directly'' r else r) (ap_rows (fst s))"
proof -
  let ?ids = "map ar_request_id (filter (stale_role_change target except) (ap_rows (fst s)))"
  have "(ar_request_id r \<in> set ?ids \<and> ar_status r = AP_PENDING) = stale_role_change target except r"
    if r: "r \<in> set (ap_rows (fst s))" for r
  proof
    assume "ar_request_id r \<in> set ?ids \<and> ar_status r = AP_PENDING"
    then obtain r' where r': "r' \<in> set (ap_rows (fst s))" "stale_role_change target except r'"
      "ar_request_id r' = ar_request_id r" by auto
    from r'(1,3) r have "r' = r" using assms by (metis tbl_find_in option.inject)
    with r'(2) show "stale_role_change target except r" by simp
  next
    assume "stale_role_change target except r"
    with r show "ar_request_id r \<in> set ?ids \<and> ar_status r = AP_PENDING"
      by (auto simp: stale_role_change_def)
  qed
  then show ?thesis
    unfolding cancel_role_changes_def cancel_all_rows[OF assms] by (intro map_cong) auto
qed


lemma direct_manager_passes:
  "direct_manager_check caller target g = None \<longleftrightarrow>
     (\<exists>c t. org_get g caller = Inr c \<and> org_get g target = Inr t \<and> ag_status c = ACTIVE \<and>
        ag_status t = ACTIVE \<and> ag_reports_to t = Some caller)"
  by (auto simp: direct_manager_check_def split: sum.splits)

lemma update_details_runs:
  "org_update_role_details target t d s = (Inr a, u) \<Longrightarrow>
     fst u = (fst s)\<lparr>og_agents := tbl_upd ag_id target (set_role_details t d) (og_agents (fst s))\<rparr> \<and> snd u = snd s"
  by (auto simp: org_update_role_details_def Let_def split: option.splits)

text \<open>The state a role change leaves, read off its last step.\<close>

lemma apply_role_change_runs:
  assumes run: "apply_role_change clock caller target title description rationale approval_id w = (Inr x, u)"
  shows "py_strip title \<noteq> [] \<and>
    sv_org u = (sv_org w)\<lparr>og_agents := tbl_upd ag_id target
      (set_role_details (py_strip title) (py_strip description)) (og_agents (sv_org w))\<rparr> \<and>
    sv_cost u = sv_cost w \<and> services.more u = services.more w \<and>
    (\<exists>es. sv_appr u = fst (cancel_role_changes clock target caller approval_id (sv_appr w, es)))"
proof -
  let ?t = "py_strip title" and ?d = "py_strip description"
  have t: "?t \<noteq> []" using run by (auto simp: apply_role_change_def)
  then obtain before where before: "org_get (sv_org w) target = Inr before"
    using run by (cases "org_get (sv_org w) target") (simp_all add: apply_role_change_def)
  note run1 = run[unfolded apply_role_change_def Let_def before]
  obtain updated w1 where w1: "on_org (org_update_role_details target ?t ?d) w = (Inr updated, w1)"
    using run1 t by (cases "on_org (org_update_role_details target ?t ?d) w";
      cases "fst (on_org (org_update_role_details target ?t ?d) w)") auto
  obtain ev w2 where w2: "on_events (es_append (Inl AGENT_PROMOTED)
      (promoted_payload caller target before updated approval_id) (Some caller) None) w1 = (Inr ev, w2)"
    using run1 t w1
    by (cases "on_events (es_append (Inl AGENT_PROMOTED)
      (promoted_payload caller target before updated approval_id) (Some caller) None) w1";
      cases "fst (on_events (es_append (Inl AGENT_PROMOTED)
      (promoted_payload caller target before updated approval_id) (Some caller) None) w1)") auto
  define w3 where "w3 = put_appr (cancel_role_changes clock target caller approval_id (get_appr w2)) w2"
  have u: "on_events (append_all (hr_notices (sv_org w3) caller target ?t rationale) (Some caller)) w3 = (Inr x, u)"
    using run1 t w1 w2 by (simp add: w3_def Let_def)
  obtain s1 where s1: "org_update_role_details target ?t ?d (get_org w) = (Inr updated, s1)"
    and "w1 = put_org s1 w"
    using w1 by (auto simp: through_def split: prod.splits)
  then have w1': "sv_org w1 = (sv_org w)\<lparr>og_agents := tbl_upd ag_id target (set_role_details ?t ?d)
      (og_agents (sv_org w))\<rparr>" "sv_cost w1 = sv_cost w" "sv_appr w1 = sv_appr w"
    "services.more w1 = services.more w"
    using update_details_runs[OF s1] by simp_all
  have w2': "sv_org w2 = sv_org w1" "sv_cost w2 = sv_cost w1" "sv_appr w2 = sv_appr w1"
    "services.more w2 = services.more w1"
    using w2 by (auto simp: through_def split: prod.splits)
  have u': "sv_org u = sv_org w3" "sv_cost u = sv_cost w3" "sv_appr u = sv_appr w3"
    "services.more u = services.more w3"
    using u by (auto simp: through_def split: prod.splits)
  have "get_appr w2 = (sv_appr w, sv_events w2)" by (simp add: get_appr_def w2' w1')
  then show ?thesis
    using t by (auto simp: u' w3_def w2' w1')
qed


section \<open>A small staff\<close>

definition role_request :: approval_row where
  "role_request =
     \<lparr>ar_request_id = ''q1'', ar_kind = AK_ROLE_CHANGE, ar_requester_id = ''cto'',
      ar_payload = [(''target_agent_id'', JStr ''bob'')], ar_route_target = ''board'',
      ar_require_security = False, ar_security_decision = None, ar_security_decided_at = None,
      ar_status = AP_PENDING, ar_decided_by = None, ar_decided_at = None, ar_note = None,
      ar_expires_at = 100, ar_created_at = 0\<rparr>"

definition said :: "string \<Rightarrow> string \<Rightarrow> event_store \<Rightarrow> event_store" where
  "said a b es = snd (es_append (Inl MESSAGE_SENT)
     [(''from_agent'', JStr a), (''to_agent'', JStr b), (''content'', JStr ''hi'')] (Some a) None es)"

text \<open>Two members, one managing the other, and a pending request about the other.\<close>

definition demo_staff :: staff where
  "demo_staff =
     \<lparr>sv_org = \<lparr>og_agents = [demo_agent\<lparr>ag_id := ''cto''\<rparr>, demo_agent\<lparr>ag_reports_to := Some ''cto''\<rparr>],
                og_fire_pending = [], og_fire_requests = []\<rparr>,
      sv_cost = sv_cost demo_services,
      sv_appr = (fst demo_appr0)\<lparr>ap_rows := [role_request, demo_row]\<rparr>,
      sv_events = demo_store, pf_feedback = []\<rparr>"

definition demo_talk :: staff where
  "demo_talk = demo_staff\<lparr>sv_events := said ''bob'' ''cto'' (said ''cto'' ''bob'' demo_store)\<rparr>"

lemma demo_staff_ok:
  "log_inv (sv_events demo_talk)" "appr_inv (get_appr demo_staff)"
  "org_get (sv_org demo_talk) ''bob'' = Inr (demo_agent\<lparr>ag_reports_to := Some ''cto''\<rparr>)"
proof -
  have "log_inv demo_store" by (simp add: log_inv_def demo_store_def)
  then show "log_inv (sv_events demo_talk)"
    by (simp add: demo_talk_def said_def es_append_log_inv)
  show "appr_inv (get_appr demo_staff)"
    by (simp add: demo_staff_def get_appr_def appr_inv_def tbl_pk_def role_request_def demo_row_def row_ok_def
        row_decodes_def row_to_approval_def decode_route_def mk_route_def)
  show "org_get (sv_org demo_talk) ''bob'' = Inr (demo_agent\<lparr>ag_reports_to := Some ''cto''\<rparr>)"
    by (simp add: demo_talk_def demo_staff_def org_get_def demo_agent_def)
qed

section \<open>Properties\<close>

text \<open>
  A report is computed from the whole log, however many batches it takes to read: every counter is
  the number of the events it is about, and the response time is that of all messages between the
  agent and its manager.
\<close>

theorem report_counts_log:
  assumes "log_inv (sv_events w)" and "org_get (sv_org w) a = Inr ag"
  shows "\<exists>q. perf_report now a n w = Inr \<lparr>pr_metrics = q, pr_feedback = recent_feedback a n w\<rparr> \<and>
    pm_messages_sent q = count (sent_by a) (es_events (sv_events w)) \<and>
    pm_messages_received q = count (sent_to a) (es_events (sv_events w)) \<and>
    pm_tasks_completed q = count (\<lambda>e. tells_of a AGENT_TURN_COMPLETED e \<and>
      pget (ev_payload e) ''task_done'' = JBool True) (es_events (sv_events w)) \<and>
    pm_tool_success_rate q = success_rate
      (count (\<lambda>e. acted a TOOL_RESULT e \<and> pget (ev_payload e) ''ok'' = JBool True) (es_events (sv_events w)))
      (count (acted a TOOL_CALLED) (es_events (sv_events w))) \<and>
    pm_truncated_turns q = count (tells_of a AGENT_TURN_TRUNCATED) (es_events (sv_events w)) \<and>
    pm_health_alerts q = count (tells_of a AGENT_HEALTH_ALERT) (es_events (sv_events w)) \<and>
    pm_avg_response_seconds q = median_response_seconds
      (filter (from_manager a (ag_reports_to ag)) (es_events (sv_events w)))
      (filter (to_manager a (ag_reports_to ag)) (es_events (sv_events w)))"
  using assms by (simp add: perf_report_def read_all_log tally_log_counts tallied_def)

lemma report_counts_log_witness:
  "\<exists>q. perf_report 0 ''bob'' 10 demo_talk = Inr \<lparr>pr_metrics = q, pr_feedback = []\<rparr> \<and>
     pm_messages_sent q = 1 \<and> pm_messages_received q = 1"
proof -
  have "count (sent_by ''bob'') (es_events (sv_events demo_talk)) = 1"
    and "count (sent_to ''bob'') (es_events (sv_events demo_talk)) = 1" by code_simp+
  moreover have "recent_feedback ''bob'' 10 demo_talk = []"
    by (simp add: recent_feedback_def demo_talk_def demo_staff_def)
  ultimately show ?thesis using report_counts_log[OF demo_staff_ok(1,3), of 0 10] by auto
qed

text \<open>
  The response time pairs a manager's messages with replies one to one: every reply is used at most
  once and is not earlier than its message, the pairs follow the order of the messages, and a message
  is left out only when no unused reply in time is left for it.
\<close>

theorem replies_paired_once:
  "distinct (map (ev_id \<circ> snd) (paired {} replies msgs)) \<and>
   subseq (map fst (paired {} replies msgs)) msgs \<and>
   list_all (fair_pair replies) (paired {} replies msgs) \<and>
   list_all (\<lambda>m. m \<in> fst ` set (paired {} replies msgs) \<or>
     unanswerable (reply_ids (paired {} replies msgs)) replies m) msgs"
  using paired_pairing[of "{}" replies msgs] by (simp add: pairing_def)

text \<open>
  With neither message carrying a correlation id any reply counts as one of the thread.
\<close>

lemma uncorrelated_reply_matches:
  "ev_correlation_id msg = None \<Longrightarrow> ev_correlation_id r = None \<Longrightarrow> same_thread msg r"
  by (simp add: same_thread_def)

text \<open>
  C37. A role change that succeeds was made by the active direct manager of an active agent; it sets the
  target's title and description, stripped, and touches no other agent, no money and no other request,
  and it cancels every pending role change request about the target.
\<close>

theorem role_change_effect:
  assumes "appr_inv (get_appr w)"
    and "propose_role_change clock caller target title description rationale w = (Inr v, u)"
  shows "(\<exists>c t. org_get (sv_org w) caller = Inr c \<and> org_get (sv_org w) target = Inr t \<and>
      ag_status c = ACTIVE \<and> ag_status t = ACTIVE \<and> ag_reports_to t = Some caller) \<and>
    og_agents (sv_org u) = tbl_upd ag_id target
      (set_role_details (py_strip title) (py_strip description)) (og_agents (sv_org w)) \<and>
    py_strip title \<noteq> [] \<and> sv_cost u = sv_cost w \<and>
    ap_rows (sv_appr u) = map (\<lambda>r. if stale_role_change target None r
      then cancelled clock caller ''role_change_applied_directly'' r else r) (ap_rows (sv_appr w))"
proof -
  have pk: "tbl_pk ar_request_id (ap_rows (sv_appr w))"
    using assms(1) by (simp add: appr_inv_def get_appr_def)
  have check: "direct_manager_check caller target (sv_org w) = None"
    using assms(2) by (cases "direct_manager_check caller target (sv_org w)") (simp_all add: propose_role_change_def)
  obtain x where run: "apply_role_change clock caller target title description rationale None w = (Inr x, u)"
    using assms(2) check
    by (cases "apply_role_change clock caller target title description rationale None w";
      cases "fst (apply_role_change clock caller target title description rationale None w)")
       (auto simp: propose_role_change_def)
  obtain es where "sv_appr u = fst (cancel_role_changes clock target caller None (sv_appr w, es))"
    using apply_role_change_runs[OF run] by blast
  then show ?thesis
    using apply_role_change_runs[OF run] check cancel_stale[of "(sv_appr w, es)" clock target caller None] pk
    by (simp add: direct_manager_passes)
qed

lemma role_change_effect_witness:
  "\<exists>v u. propose_role_change (\<lambda>_. 9) ''cto'' ''bob'' '' Lead '' ''leads'' ''fit'' demo_staff = (Inr v, u) \<and>
     map ar_status (ap_rows (sv_appr u)) = [AP_CANCELLED, AP_PENDING]"
proof -
  let ?m = "propose_role_change (\<lambda>_. 9) ''cto'' ''bob'' '' Lead '' ''leads'' ''fit'' demo_staff"
  have "(case fst ?m of Inl _ \<Rightarrow> False | Inr _ \<Rightarrow> True)" by code_simp
  then obtain v where v: "?m = (Inr v, snd ?m)" by (cases ?m) (auto split: sum.splits)
  show ?thesis
    using role_change_effect[OF demo_staff_ok(2) v] v
    by (intro exI[of _ v] exI[of _ "snd ?m"])
       (simp add: demo_staff_def stale_role_change_def role_request_def demo_row_def pget_def cancelled_def set_final_def)
qed

end
