(* ===== verification/Memory_Model.thy ===== *)
theory Memory_Model
  imports Identity_Org
begin

text \<open>
  \<^verbatim>\<open>modules/memory\<close>: the working window, the episodic and semantic memories of the agents of one company
  with their embeddings, recall by cosine similarity, and the default hash embedder. The state is the
  three tables with the service's configuration. Vectors and scores are real numbers: rounding is left
  out, except that a vector is stored as float32, whose rounding is the field \<open>me_f32\<close>. The embedder is
  the injected collaborator (\<open>me_dim\<close>, \<open>me_embed\<close>), the identity adapter asks the org chart. The JSON
  text of a metadata column stands for its value. Fresh ids and the clock are arguments. SQLite does not
  fix the row order of recall's join; it is taken as table order and decides only between equal scores.
\<close>

section \<open>Data\<close>

datatype memory_kind = EPISODIC | SEMANTIC

definition all_memory_kinds :: "memory_kind list" where
  "all_memory_kinds = [EPISODIC, SEMANTIC]"

fun memory_kind_value :: "memory_kind \<Rightarrow> string" where
  "memory_kind_value EPISODIC = ''episodic''"
| "memory_kind_value SEMANTIC = ''semantic''"

record working_item =
  wi_role :: string
  wi_content :: string
  wi_ts_company :: int
  wi_metadata :: payload

record recall_hit =
  rh_kind :: memory_kind
  rh_item_id :: string
  rh_content :: string
  rh_score :: real
  rh_metadata :: payload

record working_row =
  ow_id :: int
  ow_agent :: string
  ow_item :: working_item
  ow_ts_real :: int

record memory_row =
  mr_id :: string
  mr_agent :: string
  mr_kind :: memory_kind
  mr_key :: "string option"
  mr_content :: string
  mr_metadata :: payload
  mr_ts_real :: int

record embedding_row =
  er_id :: string
  er_agent :: string
  er_dim :: nat
  er_vector :: "real list"

record memory =
  me_working :: "working_row list"
  me_working_seq :: int
  me_rows :: "memory_row list"
  me_embeddings :: "embedding_row list"
  me_working_size :: int
  me_max_content_bytes :: int
  me_threshold :: real
  me_dim :: nat
  me_embed :: "string \<Rightarrow> real list"
  me_f32 :: "real \<Rightarrow> real"

type_synonym 'a mem_out = "('a, memory) outcome"

definition me_create ::
  "nat \<Rightarrow> (string \<Rightarrow> real list) \<Rightarrow> (real \<Rightarrow> real) \<Rightarrow> int \<Rightarrow> int \<Rightarrow> real \<Rightarrow> exn + memory" where
  "me_create dm emb f32 working_size max_bytes threshold =
     (if working_size \<le> 0 then Inl (ValueError ''working_size must be positive'')
      else Inr \<lparr>me_working = [], me_working_seq = 0, me_rows = [], me_embeddings = [],
                me_working_size = working_size, me_max_content_bytes = max_bytes,
                me_threshold = threshold, me_dim = dm, me_embed = emb, me_f32 = f32\<rparr>)"

section \<open>Guards and similarity\<close>

definition guard_size :: "memory \<Rightarrow> string \<Rightarrow> exn option" where
  "guard_size m content =
     (if int (utf8_len content) > me_max_content_bytes m
      then Some (MemoryTooLarge (''content > '' @ int_str (me_max_content_bytes m) @ '' bytes'')) else None)"

definition guard_dim :: "memory \<Rightarrow> real list \<Rightarrow> exn option" where
  "guard_dim m vec =
     (if length vec \<noteq> me_dim m
      then Some (EmbeddingDimensionMismatch
             (''vector dim '' @ nat_str (length vec) @ '' != embedder dim '' @ nat_str (me_dim m))) else None)"

text \<open>The three sums of the loop.\<close>

definition dot :: "real list \<Rightarrow> real list \<Rightarrow> real" where
  "dot a b = sum_list (map (\<lambda>(x, y). x * y) (zip a b))"

definition cosine :: "real list \<Rightarrow> real list \<Rightarrow> real" where
  "cosine a b =
     (if length a \<noteq> length b then 0
      else let na = dot a a; nb = dot b b in
        if na = 0 \<or> nb = 0 then 0 else dot a b / (sqrt na * sqrt nb))"

section \<open>The working window\<close>

definition append_working :: "int \<Rightarrow> string \<Rightarrow> working_item \<Rightarrow> memory \<Rightarrow> unit mem_out" where
  "append_working now agent item m =
     (case guard_size m (wi_content item) of
        Some e \<Rightarrow> (Inl e, m)
      | None \<Rightarrow>
          let i = me_working_seq m + 1 in
          (Inr (), m\<lparr>me_working := me_working m @
             [\<lparr>ow_id = i, ow_agent = agent, ow_item = item, ow_ts_real = now\<rparr>], me_working_seq := i\<rparr>))"

definition working_window :: "string \<Rightarrow> int option \<Rightarrow> memory \<Rightarrow> working_item list" where
  "working_window agent n m =
     (let limit = (case n of Some k \<Rightarrow> k | None \<Rightarrow> me_working_size m) in
      if limit \<le> 0 then []
      else rev (map ow_item (take (nat limit)
             (sort_key (\<lambda>r. - ow_id r) (filter (\<lambda>r. ow_agent r = agent) (me_working m))))))"

definition clear_working :: "string \<Rightarrow> memory \<Rightarrow> memory" where
  "clear_working agent m = m\<lparr>me_working := filter (\<lambda>r. ow_agent r \<noteq> agent) (me_working m)\<rparr>"

section \<open>Episodes and facts\<close>

definition embedding_of :: "string \<Rightarrow> string \<Rightarrow> real list \<Rightarrow> memory \<Rightarrow> embedding_row" where
  "embedding_of i agent vec m =
     \<lparr>er_id = i, er_agent = agent, er_dim = length vec, er_vector = map (me_f32 m) vec\<rparr>"

definition remember_episode ::
  "string \<Rightarrow> int \<Rightarrow> string \<Rightarrow> string \<Rightarrow> payload \<Rightarrow> memory \<Rightarrow> string mem_out" where
  "remember_episode fresh now agent summary meta m =
     (case guard_size m summary of
        Some e \<Rightarrow> (Inl e, m)
      | None \<Rightarrow>
          let vec = me_embed m summary in
          (case guard_dim m vec of
             Some e \<Rightarrow> (Inl e, m)
           | None \<Rightarrow>
               if tbl_find mr_id fresh (me_rows m) \<noteq> None
               then (Inl (IntegrityError ''UNIQUE constraint failed: memories.id''), m)
               else if tbl_find er_id fresh (me_embeddings m) \<noteq> None
               then (Inl (IntegrityError ''UNIQUE constraint failed: memory_embeddings.memory_id''), m)
               else
                 (Inr fresh,
                  m\<lparr>me_rows := me_rows m @
                      [\<lparr>mr_id = fresh, mr_agent = agent, mr_kind = EPISODIC, mr_key = None,
                        mr_content = summary, mr_metadata = meta, mr_ts_real = now\<rparr>],
                    me_embeddings := me_embeddings m @ [embedding_of fresh agent vec m]\<rparr>)))"

definition is_fact :: "string \<Rightarrow> string \<Rightarrow> memory_row \<Rightarrow> bool" where
  "is_fact agent key r \<longleftrightarrow> mr_agent r = agent \<and> mr_kind r = SEMANTIC \<and> mr_key r = Some key"

definition set_fact :: "string \<Rightarrow> payload \<Rightarrow> int \<Rightarrow> memory_row \<Rightarrow> memory_row" where
  "set_fact value meta now r = r\<lparr>mr_content := value, mr_metadata := meta, mr_ts_real := now\<rparr>"

text \<open>The memory's id and the two tables after the upsert, before the embedding is added; an id that
  is taken violates the primary key.\<close>

definition upsert_fact ::
  "string \<Rightarrow> int \<Rightarrow> string \<Rightarrow> string \<Rightarrow> string \<Rightarrow> payload \<Rightarrow> memory \<Rightarrow> string mem_out" where
  "upsert_fact fresh now agent key value meta m =
     (case find (is_fact agent key) (me_rows m) of
        Some r \<Rightarrow>
          (Inr (mr_id r),
           m\<lparr>me_rows := tbl_upd mr_id (mr_id r) (set_fact value meta now) (me_rows m),
             me_embeddings := tbl_del er_id (mr_id r) (me_embeddings m)\<rparr>)
      | None \<Rightarrow>
          if tbl_find mr_id fresh (me_rows m) \<noteq> None
          then (Inl (IntegrityError ''UNIQUE constraint failed: memories.id''), m)
          else (Inr fresh,
                m\<lparr>me_rows := me_rows m @
                    [\<lparr>mr_id = fresh, mr_agent = agent, mr_kind = SEMANTIC, mr_key = Some key,
                      mr_content = value, mr_metadata = meta, mr_ts_real = now\<rparr>]\<rparr>))"

text \<open>The whole of \<^verbatim>\<open>remember_fact\<close> is one transaction: what raises leaves the tables alone.\<close>

definition remember_fact ::
  "string \<Rightarrow> int \<Rightarrow> string \<Rightarrow> string \<Rightarrow> string \<Rightarrow> bool \<Rightarrow> payload \<Rightarrow> memory \<Rightarrow> string mem_out" where
  "remember_fact fresh now agent key value do_embed meta m =
     (if key = [] then (Inl (ValueError ''key must be non-empty''), m)
      else
        (case guard_size m value of
           Some e \<Rightarrow> (Inl e, m)
         | None \<Rightarrow>
             (case upsert_fact fresh now agent key value meta m of
                (Inl e, _) \<Rightarrow> (Inl e, m)
              | (Inr i, m1) \<Rightarrow>
                  if \<not> do_embed then (Inr i, m1)
                  else
                    let vec = me_embed m value in
                    (case guard_dim m vec of
                       Some e \<Rightarrow> (Inl e, m)
                     | None \<Rightarrow>
                         if tbl_find er_id i (me_embeddings m1) \<noteq> None
                         then (Inl (IntegrityError
                                 ''UNIQUE constraint failed: memory_embeddings.memory_id''), m)
                         else (Inr i, m1\<lparr>me_embeddings := me_embeddings m1 @ [embedding_of i agent vec m]\<rparr>)))))"

definition get_fact :: "string \<Rightarrow> string \<Rightarrow> memory \<Rightarrow> string option" where
  "get_fact agent key m = map_option mr_content (find (is_fact agent key) (me_rows m))"

text \<open>The dict comprehension, as the list of its assignments in order; a lookup takes the last.\<close>

definition all_facts :: "string \<Rightarrow> memory \<Rightarrow> string \<Rightarrow> string option" where
  "all_facts agent m =
     map_of (rev (List.map_filter (\<lambda>r. map_option (\<lambda>k. (k, mr_content r)) (mr_key r))
       (sort_key mr_ts_real (filter (\<lambda>r. mr_agent r = agent \<and> mr_kind r = SEMANTIC) (me_rows m)))))"

definition forget :: "string \<Rightarrow> string \<Rightarrow> memory \<Rightarrow> memory" where
  "forget agent i m =
     (let gone = (\<lambda>r. mr_id r = i \<and> mr_agent r = agent) in
      m\<lparr>me_rows := filter (\<lambda>r. \<not> gone r) (me_rows m),
        me_embeddings :=
          (if list_ex gone (me_rows m) then tbl_del er_id i (me_embeddings m) else me_embeddings m)\<rparr>)"

section \<open>Recall\<close>

text \<open>\<^verbatim>\<open>MemoryIdentityAdapter.is_active\<close>.\<close>

definition identity_active :: "org \<Rightarrow> string \<Rightarrow> bool" where
  "identity_active g a = (case org_get g a of Inl _ \<Rightarrow> False | Inr r \<Rightarrow> ag_status r = ACTIVE)"

definition joined :: "string \<Rightarrow> memory_kind list \<Rightarrow> memory \<Rightarrow> (memory_row \<times> embedding_row) list" where
  "joined agent kinds m =
     List.map_filter (\<lambda>r. map_option (\<lambda>e. (r, e)) (tbl_find er_id (mr_id r) (me_embeddings m)))
       (filter (\<lambda>r. mr_agent r = agent \<and> mr_kind r \<in> set kinds) (me_rows m))"

definition hit_of :: "real \<Rightarrow> memory_row \<Rightarrow> recall_hit" where
  "hit_of score r =
     \<lparr>rh_kind = mr_kind r, rh_item_id = mr_id r, rh_content = mr_content r, rh_score = score,
      rh_metadata = mr_metadata r\<rparr>"

text \<open>The loop over the rows; a stored vector of another dimension stops it.\<close>

fun collect_hits ::
  "memory \<Rightarrow> real list \<Rightarrow> (memory_row \<times> embedding_row) list \<Rightarrow> exn + recall_hit list" where
  "collect_hits m q [] = Inr []"
| "collect_hits m q ((r, e) # rows) =
     (if er_dim e \<noteq> me_dim m
      then Inl (EmbeddingDimensionMismatch
             (''stored dim '' @ nat_str (er_dim e) @ '' != embedder dim '' @ nat_str (me_dim m)))
      else
        let score = cosine q (er_vector e) in
        map_sum id (\<lambda>hs. if score < me_threshold m then hs else hit_of score r # hs) (collect_hits m q rows))"

text \<open>\<^verbatim>\<open>hits[:k]\<close>.\<close>

definition py_take :: "int \<Rightarrow> 'a list \<Rightarrow> 'a list" where
  "py_take k xs = (if k < 0 then take (length xs - nat (- k)) xs else take (nat k) xs)"

definition recall ::
  "org \<Rightarrow> string \<Rightarrow> string \<Rightarrow> int \<Rightarrow> memory_kind list option \<Rightarrow> string option \<Rightarrow> memory \<Rightarrow> exn + recall_hit list" where
  "recall g agent query k kinds for_reader m =
     (if query = [] then Inr []
      else if (case for_reader of None \<Rightarrow> False
               | Some x \<Rightarrow> x \<noteq> agent \<and> \<not> org_can_read_workspace g x agent)
      then Inl (MemoryPermissionDenied ((case for_reader of None \<Rightarrow> [] | Some x \<Rightarrow> x) @ '' cannot read '' @ agent))
      else if \<not> identity_active g agent then Inr []
      else
        let q = me_embed m query in
        (case guard_dim m q of
           Some e \<Rightarrow> Inl e
         | None \<Rightarrow>
             let ks = (case kinds of None \<Rightarrow> all_memory_kinds | Some ks \<Rightarrow> if ks = [] then all_memory_kinds else ks) in
             map_sum id (\<lambda>hs. py_take k (sort_key (\<lambda>h. - rh_score h) hs)) (collect_hits m q (joined agent ks m))))"

section \<open>The hash embedder\<close>

definition is_token_char :: "char \<Rightarrow> bool" where
  "is_token_char c \<longleftrightarrow>
     (let n = of_char c :: nat
      in 65 \<le> n \<and> n \<le> 90 \<or> 97 \<le> n \<and> n \<le> 122 \<or> 48 \<le> n \<and> n \<le> 57 \<or> n = 95)"

text \<open>\<^verbatim>\<open>findall\<close> of \<^verbatim>\<open>[A-Za-z0-9_]+\<close>: the maximal runs of token characters.\<close>

fun token_runs :: "string \<Rightarrow> string \<Rightarrow> string list" where
  "token_runs w [] = (if w = [] then [] else [w])"
| "token_runs w (c # cs) =
     (if is_token_char c then token_runs (w @ [c]) cs
      else if w = [] then token_runs [] cs else w # token_runs [] cs)"

definition tokens :: "string \<Rightarrow> string list" where
  "tokens t = map py_lower (token_runs [] t)"

text \<open>\<open>blake\<close> is the 8-byte BLAKE2b digest.\<close>

definition hash_bucket :: "(string \<Rightarrow> nat list) \<Rightarrow> nat \<Rightarrow> string \<Rightarrow> nat" where
  "hash_bucket blake dm tok =
     (let d = blake tok in (((d ! 0 * 256 + d ! 1) * 256 + d ! 2) * 256 + d ! 3) mod dm)"

definition token_sign :: "(string \<Rightarrow> nat list) \<Rightarrow> string \<Rightarrow> real" where
  "token_sign blake tok = (if even (blake tok ! 4) then 1 else - 1)"

definition bump :: "(string \<Rightarrow> nat list) \<Rightarrow> nat \<Rightarrow> string \<Rightarrow> real list \<Rightarrow> real list" where
  "bump blake dm tok vec =
     (let b = hash_bucket blake dm tok in vec[b := vec ! b + token_sign blake tok])"

definition hash_embed :: "(string \<Rightarrow> nat list) \<Rightarrow> nat \<Rightarrow> string \<Rightarrow> real list" where
  "hash_embed blake dm t =
     (let vec = fold (bump blake dm) (tokens t) (replicate dm 0);
          nrm = sqrt (sum_list (map (\<lambda>x. x * x) vec))
      in if nrm = 0 then vec else map (\<lambda>x. x / nrm) vec)"

definition hash_embedder_create :: "int \<Rightarrow> exn + nat" where
  "hash_embedder_create dm =
     (if dm \<le> 0 then Inl (ValueError ''dim must be positive'') else Inr (nat dm))"


section \<open>The tables\<close>

definition fact_keys :: "memory_row list \<Rightarrow> (string \<times> string option) list" where
  "fact_keys rows = map (\<lambda>r. (mr_agent r, mr_key r)) (filter (\<lambda>r. mr_kind r = SEMANTIC) rows)"

definition facts_unique :: "memory_row list \<Rightarrow> bool" where
  "facts_unique rows \<longleftrightarrow> distinct (fact_keys rows)"

definition mem_inv :: "memory \<Rightarrow> bool" where
  "mem_inv m \<longleftrightarrow>
     tbl_pk mr_id (me_rows m) \<and> tbl_pk er_id (me_embeddings m) \<and> facts_unique (me_rows m) \<and>
     (\<forall>e\<in>set (me_embeddings m). \<exists>r\<in>set (me_rows m). mr_id r = er_id e \<and> mr_agent r = er_agent e)"

interpretation fact_row: pk_update mr_id "set_fact value meta now"
  by unfold_locales (simp add: set_fact_def)

lemma set_fact_simps [simp]:
  "mr_agent (set_fact v e t r) = mr_agent r" "mr_kind (set_fact v e t r) = mr_kind r"
  "mr_key (set_fact v e t r) = mr_key r" "mr_id (set_fact v e t r) = mr_id r"
  "mr_content (set_fact v e t r) = v" "is_fact a k (set_fact v e t r) = is_fact a k r"
  by (simp_all add: set_fact_def is_fact_def)

lemma tbl_pk_del: "tbl_pk key t \<Longrightarrow> tbl_pk key (tbl_del key k t)"
  by (simp add: tbl_pk_def tbl_del_def distinct_map_filter)

lemma tbl_pk_filter: "tbl_pk key t \<Longrightarrow> tbl_pk key (filter P t)"
  by (simp add: tbl_pk_def distinct_map_filter)

lemma tbl_del_gone [simp]: "tbl_find key k (tbl_del key k t) = None"
  by (auto simp: tbl_find_None tbl_del_def)

text \<open>The row an id belongs to.\<close>

lemma fact_found: "find (is_fact a k) rows = Some r \<Longrightarrow> r \<in> set rows \<and> is_fact a k r"
  by (auto simp: find_Some_iff)

lemma fact_missing: "find (is_fact a k) rows = None \<longleftrightarrow> (\<forall>r\<in>set rows. \<not> is_fact a k r)"
  by (auto simp: find_None_iff)

lemma new_id: "tbl_pk key t \<Longrightarrow> tbl_find key i t = None \<Longrightarrow> key r = i \<Longrightarrow> tbl_pk key (t @ [r])"
  by (auto intro: tbl_pk_insert)

text \<open>The cases of the upsert.\<close>

lemma upsert_cases:
  assumes "upsert_fact fresh now agent key value meta m = (Inr i, u)"
  obtains (updated) r where "find (is_fact agent key) (me_rows m) = Some r" "i = mr_id r"
      "u = m\<lparr>me_rows := tbl_upd mr_id i (set_fact value meta now) (me_rows m),
             me_embeddings := tbl_del er_id i (me_embeddings m)\<rparr>"
  | (inserted) "find (is_fact agent key) (me_rows m) = None" "i = fresh"
      "tbl_find mr_id fresh (me_rows m) = None"
      "u = m\<lparr>me_rows := me_rows m @ [\<lparr>mr_id = fresh, mr_agent = agent, mr_kind = SEMANTIC, mr_key = Some key,
         mr_content = value, mr_metadata = meta, mr_ts_real = now\<rparr>]\<rparr>"
  using assms by (auto simp: upsert_fact_def split: option.splits if_splits)

lemma fact_keys_upd: "fact_keys (tbl_upd mr_id i (set_fact v e t) rows) = fact_keys rows"
  by (induction rows) (auto simp: fact_keys_def tbl_upd_def)

lemma fact_keys_new:
  "find (is_fact a k) rows = None \<Longrightarrow> (a, Some k) \<notin> set (fact_keys rows)"
  by (force simp: fact_keys_def fact_missing is_fact_def)

lemma upsert_inv:
  assumes inv: "mem_inv m" and run: "upsert_fact fresh now agent key value meta m = (Inr i, u)"
  shows "mem_inv u \<and> (\<exists>r\<in>set (me_rows u). mr_id r = i \<and> mr_agent r = agent) \<and>
    tbl_find er_id i (me_embeddings u) = None"
  using run
proof (cases rule: upsert_cases)
  case (updated r)
  then have r: "r \<in> set (me_rows m)" "is_fact agent key r" by (auto dest: fact_found)
  have rows: "set (me_rows u) = (\<lambda>x. if mr_id x = i then set_fact value meta now x else x) ` set (me_rows m)"
    by (simp add: updated set_tbl_upd)
  have "tbl_pk mr_id (me_rows u)" using inv by (simp add: updated fact_row.pk_upd mem_inv_def)
  moreover have "facts_unique (me_rows u)"
    using inv by (simp add: updated facts_unique_def fact_keys_upd mem_inv_def)
  moreover have "tbl_pk er_id (me_embeddings u)"
    using inv by (simp add: updated tbl_pk_del mem_inv_def)
  moreover have "\<exists>s\<in>set (me_rows u). mr_id s = er_id e \<and> mr_agent s = er_agent e"
    if "e \<in> set (me_embeddings u)" for e
  proof -
    have "e \<in> set (me_embeddings m)" using that by (simp add: updated tbl_del_def)
    then obtain s where "s \<in> set (me_rows m)" "mr_id s = er_id e" "mr_agent s = er_agent e"
      using inv by (auto simp: mem_inv_def)
    then show ?thesis unfolding rows by (intro bexI[of _ "if mr_id s = i then set_fact value meta now s else s"]) auto
  qed
  moreover have "\<exists>s\<in>set (me_rows u). mr_id s = i \<and> mr_agent s = agent"
    unfolding rows using r updated(2) by (intro bexI[of _ "set_fact value meta now r"]) (auto simp: is_fact_def)
  ultimately show ?thesis by (simp add: mem_inv_def updated)
next
  case inserted
  have none: "tbl_find er_id fresh (me_embeddings m) = None"
    using inv inserted(3) by (force simp: mem_inv_def tbl_find_None)
  have "facts_unique (me_rows u)"
    using inv fact_keys_new[OF inserted(1)] by (simp add: facts_unique_def inserted mem_inv_def fact_keys_def)
  then show ?thesis
    using inv inserted none by (auto simp: mem_inv_def intro!: new_id)
qed


lemma remember_fact_cases:
  obtains (raised) e where "remember_fact fresh now agent key value do_embed meta m = (Inl e, m)"
  | (stored) i u where "upsert_fact fresh now agent key value meta m = (Inr i, u)" "\<not> do_embed"
      "remember_fact fresh now agent key value do_embed meta m = (Inr i, u)"
  | (embedded) i u where "upsert_fact fresh now agent key value meta m = (Inr i, u)" "do_embed"
      "tbl_find er_id i (me_embeddings u) = None"
      "remember_fact fresh now agent key value do_embed meta m =
         (Inr i, u\<lparr>me_embeddings := me_embeddings u @ [embedding_of i agent (me_embed m value) m]\<rparr>)"
proof (cases "key = [] \<or> guard_size m value \<noteq> None")
  case True
  then have "\<exists>e. remember_fact fresh now agent key value do_embed meta m = (Inl e, m)"
    by (auto simp: remember_fact_def split: option.split)
  with raised show thesis by blast
next
  case ok: False
  obtain r u where up: "upsert_fact fresh now agent key value meta m = (r, u)" by (meson surj_pair)
  show thesis
  proof (cases r)
    case (Inl e)
    with ok up show thesis by (intro raised) (auto simp: remember_fact_def)
  next
    case (Inr i)
    show thesis
    proof (cases "do_embed")
      case False
      with ok up Inr show thesis by (intro stored) (auto simp: remember_fact_def)
    next
      case True
      show thesis
      proof (cases "guard_dim m (me_embed m value) = None \<and> tbl_find er_id i (me_embeddings u) = None")
        case fine: True
        with ok up Inr True show thesis by (intro embedded) (auto simp: remember_fact_def Let_def)
      next
        case False
        with ok up Inr True show thesis
          by (cases "guard_dim m (me_embed m value)") (auto simp: remember_fact_def Let_def intro: raised)
      qed
    qed
  qed
qed

lemma remember_fact_inv:
  assumes "mem_inv m" shows "mem_inv (snd (remember_fact fresh now agent key value do_embed meta m))"
proof (rule remember_fact_cases[of fresh now agent key "value" do_embed meta m])
  fix i u
  assume up: "upsert_fact fresh now agent key value meta m = (Inr i, u)"
    and "tbl_find er_id i (me_embeddings u) = None"
    and run: "remember_fact fresh now agent key value do_embed meta m =
      (Inr i, u\<lparr>me_embeddings := me_embeddings u @ [embedding_of i agent (me_embed m value) m]\<rparr>)"
  then show ?thesis
    using upsert_inv[OF assms up] by (auto simp: mem_inv_def embedding_of_def intro!: new_id)
qed (use assms upsert_inv in auto)

lemma remember_episode_cases:
  obtains (raised) e where "remember_episode fresh now agent summary meta m = (Inl e, m)"
  | (stored) "tbl_find mr_id fresh (me_rows m) = None" "tbl_find er_id fresh (me_embeddings m) = None"
      "remember_episode fresh now agent summary meta m =
         (Inr fresh,
          m\<lparr>me_rows := me_rows m @
              [\<lparr>mr_id = fresh, mr_agent = agent, mr_kind = EPISODIC, mr_key = None,
                mr_content = summary, mr_metadata = meta, mr_ts_real = now\<rparr>],
            me_embeddings := me_embeddings m @ [embedding_of fresh agent (me_embed m summary) m]\<rparr>)"
proof (cases "guard_size m summary = None \<and> guard_dim m (me_embed m summary) = None \<and>
    tbl_find mr_id fresh (me_rows m) = None \<and> tbl_find er_id fresh (me_embeddings m) = None")
  case True
  then show thesis by (intro stored) (simp_all add: remember_episode_def Let_def)
next
  case False
  then have "\<exists>e. remember_episode fresh now agent summary meta m = (Inl e, m)"
    by (auto simp: remember_episode_def Let_def split: option.splits)
  with raised show thesis by blast
qed

lemma remember_episode_inv:
  assumes "mem_inv m" shows "mem_inv (snd (remember_episode fresh now agent summary meta m))"
proof (rule remember_episode_cases[of fresh now agent summary meta m])
  assume new: "tbl_find mr_id fresh (me_rows m) = None" "tbl_find er_id fresh (me_embeddings m) = None"
    and "remember_episode fresh now agent summary meta m =
         (Inr fresh,
          m\<lparr>me_rows := me_rows m @
              [\<lparr>mr_id = fresh, mr_agent = agent, mr_kind = EPISODIC, mr_key = None,
                mr_content = summary, mr_metadata = meta, mr_ts_real = now\<rparr>],
            me_embeddings := me_embeddings m @ [embedding_of fresh agent (me_embed m summary) m]\<rparr>)"
  with assms show ?thesis
    by (auto simp: mem_inv_def facts_unique_def fact_keys_def embedding_of_def intro!: new_id)
qed (use assms in auto)

lemma distinct_fact_keys_filter: "distinct (fact_keys rows) \<Longrightarrow> distinct (fact_keys (filter P rows))"
  by (induction rows) (auto simp: fact_keys_def split: if_splits)

lemma forget_inv:
  assumes inv: "mem_inv m" shows "mem_inv (forget agent i m)"
proof -
  let ?gone = "\<lambda>r. mr_id r = i \<and> mr_agent r = agent"
  let ?u = "forget agent i m"
  have "\<exists>r\<in>set (me_rows ?u). mr_id r = er_id e \<and> mr_agent r = er_agent e"
    if e: "e \<in> set (me_embeddings ?u)" for e
  proof -
    have "e \<in> set (me_embeddings m)" using e by (auto simp: forget_def Let_def tbl_del_def split: if_splits)
    then obtain r where r: "r \<in> set (me_rows m)" "mr_id r = er_id e" "mr_agent r = er_agent e"
      using inv by (auto simp: mem_inv_def)
    have "\<not> ?gone r"
    proof
      assume "?gone r"
      with r e show False by (auto simp: forget_def Let_def tbl_del_def list_ex_iff split: if_splits)
    qed
    with r show ?thesis by (auto simp: forget_def Let_def)
  qed
  then show ?thesis
    using inv by (auto simp: mem_inv_def forget_def Let_def facts_unique_def
        intro: tbl_pk_filter tbl_pk_del distinct_fact_keys_filter split: if_splits)
qed

text \<open>The operations one agent makes, as steps.\<close>

inductive mem_step :: "string \<Rightarrow> memory \<Rightarrow> memory \<Rightarrow> bool" where
  mst_append: "mem_step agent m (snd (append_working now agent item m))"
| mst_clear: "mem_step agent m (clear_working agent m)"
| mst_episode: "mem_step agent m (snd (remember_episode fresh now agent summary meta m))"
| mst_fact: "mem_step agent m (snd (remember_fact fresh now agent key value do_embed meta m))"
| mst_forget: "mem_step agent m (forget agent i m)"

definition mem_init :: "memory \<Rightarrow> bool" where
  "mem_init m \<longleftrightarrow> me_rows m = [] \<and> me_embeddings m = [] \<and> me_working m = []"

lemma mem_step_inv:
  assumes "mem_step agent m u" and "mem_inv m" shows "mem_inv u"
  using assms
proof cases
  case (mst_append now item)
  with \<open>mem_inv m\<close> show ?thesis
    by (cases "guard_size m (wi_content item)") (auto simp: append_working_def mem_inv_def Let_def)
next
  case mst_clear
  with \<open>mem_inv m\<close> show ?thesis by (simp add: clear_working_def mem_inv_def)
qed (auto intro: remember_episode_inv remember_fact_inv forget_inv)

interpretation memory_system: invariant_system mem_init "\<lambda>m u. \<exists>a. mem_step a m u" mem_inv
proof unfold_locales
  fix m assume "mem_init m" then show "mem_inv m"
    by (simp add: mem_init_def mem_inv_def tbl_pk_def facts_unique_def fact_keys_def)
qed (auto intro: mem_step_inv)

section \<open>What one agent's memory is\<close>

definition working_of :: "string \<Rightarrow> memory \<Rightarrow> working_row list" where
  "working_of b m = filter (\<lambda>r. ow_agent r = b) (me_working m)"

definition rows_of :: "string \<Rightarrow> memory \<Rightarrow> memory_row list" where
  "rows_of b m = filter (\<lambda>r. mr_agent r = b) (me_rows m)"

definition embeddings_of :: "string \<Rightarrow> memory \<Rightarrow> embedding_row list" where
  "embeddings_of b m = filter (\<lambda>e. er_agent e = b) (me_embeddings m)"

lemma find_filtered: "(\<And>x. P x \<Longrightarrow> Q x) \<Longrightarrow> find P (filter Q xs) = find P xs"
  by (induction xs) auto

lemma get_fact_of: "get_fact b k m = map_option mr_content (find (is_fact b k) (rows_of b m))"
  unfolding get_fact_def rows_of_def by (subst find_filtered) (auto simp: is_fact_def)

lemma same_owner:
  assumes "mem_inv m" and "r \<in> set (me_rows m)" and "e \<in> set (me_embeddings m)" and "er_id e = mr_id r"
  shows "er_agent e = mr_agent r"
proof -
  obtain s where s: "s \<in> set (me_rows m)" "mr_id s = er_id e" "mr_agent s = er_agent e"
    using assms(1,3) by (auto simp: mem_inv_def)
  then have "s = r" using assms by (metis mem_inv_def tbl_find_in option.inject)
  with s show ?thesis by simp
qed

lemma own_embedding:
  assumes "mem_inv m" and "r \<in> set (me_rows m)"
  shows "tbl_find er_id (mr_id r) (me_embeddings m) = tbl_find er_id (mr_id r) (embeddings_of (mr_agent r) m)"
proof -
  have "find (\<lambda>e. er_id e = mr_id r) xs = find (\<lambda>e. er_id e = mr_id r) (filter (\<lambda>e. er_agent e = mr_agent r) xs)"
    if "set xs \<subseteq> set (me_embeddings m)" for xs
    using that
  proof (induction xs)
    case (Cons e xs)
    then have "er_id e = mr_id r \<Longrightarrow> er_agent e = mr_agent r" by (intro same_owner[OF assms]) auto
    with Cons show ?case by simp
  qed simp
  from this[of "me_embeddings m"] show ?thesis unfolding tbl_find_def embeddings_of_def by simp
qed

lemma joined_of:
  assumes "mem_inv m"
  shows "joined b ks m = List.map_filter (\<lambda>r. map_option (\<lambda>e. (r, e)) (tbl_find er_id (mr_id r) (embeddings_of b m)))
    (filter (\<lambda>r. mr_kind r \<in> set ks) (rows_of b m))"
proof -
  let ?f = "\<lambda>es r. map_option (\<lambda>e. (r, e)) (tbl_find er_id (mr_id r) es)"
  have swap: "List.map_filter (?f (me_embeddings m)) rs = List.map_filter (?f (embeddings_of b m)) rs"
    if "set rs \<subseteq> set (me_rows m)" and "\<forall>r\<in>set rs. mr_agent r = b" for rs
    using that by (induction rs) (auto simp: own_embedding[OF assms] split: option.split)
  have rows: "filter (\<lambda>r. mr_kind r \<in> set ks) (rows_of b m) =
      filter (\<lambda>r. mr_agent r = b \<and> mr_kind r \<in> set ks) (me_rows m)"
    by (auto simp: rows_of_def intro: filter_cong)
  show ?thesis unfolding joined_def rows by (rule swap) auto
qed


lemma recall_of:
  assumes "mem_inv m" and "mem_inv u" and "rows_of b u = rows_of b m" and "embeddings_of b u = embeddings_of b m"
    and conf: "me_threshold u = me_threshold m" "me_dim u = me_dim m" "me_embed u = me_embed m"
  shows "recall g b q k ks rd u = recall g b q k ks rd m"
proof -
  have "joined b kk u = joined b kk m" for kk by (simp add: joined_of assms)
  moreover have "collect_hits u v rs = collect_hits m v rs" for v rs
    by (induction rs) (auto simp: conf Let_def)
  ultimately show ?thesis by (simp add: recall_def guard_dim_def conf Let_def)
qed

text \<open>What another agent's operation leaves alone.\<close>

definition untouched :: "string \<Rightarrow> memory \<Rightarrow> memory \<Rightarrow> bool" where
  "untouched b m u \<longleftrightarrow>
     working_of b u = working_of b m \<and> rows_of b u = rows_of b m \<and> embeddings_of b u = embeddings_of b m \<and>
     me_threshold u = me_threshold m \<and> me_dim u = me_dim m \<and> me_embed u = me_embed m \<and>
     me_working_size u = me_working_size m"

lemma untouched_refl [simp]: "untouched b m m"
  by (simp add: untouched_def)

lemma upsert_untouched:
  assumes inv: "mem_inv m" and run: "upsert_fact fresh now a key v meta m = (Inr i, u)" and "b \<noteq> a"
  shows "untouched b m u"
  using run
proof (cases rule: upsert_cases)
  case (updated r)
  then have r: "r \<in> set (me_rows m)" "mr_agent r = a" "mr_id r = i" by (auto simp: is_fact_def dest: fact_found)
  have "x = r" if "x \<in> set (me_rows m)" "mr_id x = i" for x
    using inv that r by (metis mem_inv_def tbl_find_in option.inject)
  then have "filter (\<lambda>x. mr_agent x = b) (map (\<lambda>x. if mr_id x = i then set_fact v meta now x else x) xs) =
      filter (\<lambda>x. mr_agent x = b) xs" if "set xs \<subseteq> set (me_rows m)" for xs
    using that r(2) \<open>b \<noteq> a\<close> by (induction xs) auto
  then have "rows_of b u = rows_of b m" by (simp add: rows_of_def updated tbl_upd_def)
  moreover have "er_agent e = a" if "e \<in> set (me_embeddings m)" "er_id e = i" for e
    using same_owner[OF inv r(1) that(1)] that(2) r(2,3) by simp
  then have "filter (\<lambda>e. er_id e \<noteq> i \<and> er_agent e = b) (me_embeddings m) = filter (\<lambda>e. er_agent e = b) (me_embeddings m)"
    using \<open>b \<noteq> a\<close> by (intro filter_cong) auto
  then have "embeddings_of b u = embeddings_of b m"
    by (simp add: embeddings_of_def updated tbl_del_def conj_commute)
  ultimately show ?thesis by (simp add: untouched_def working_of_def updated)
next
  case inserted
  then show ?thesis using \<open>b \<noteq> a\<close> by (simp add: untouched_def working_of_def rows_of_def embeddings_of_def)
qed

lemma step_untouched:
  assumes "mem_inv m" and "mem_step a m u" and "b \<noteq> a"
  shows "untouched b m u"
  using assms(2)
proof cases
  case (mst_append now item)
  with \<open>b \<noteq> a\<close> show ?thesis
    by (cases "guard_size m (wi_content item)")
       (auto simp: append_working_def Let_def untouched_def working_of_def rows_of_def embeddings_of_def)
next
  case mst_clear
  then show ?thesis using \<open>b \<noteq> a\<close>
    by (auto simp: clear_working_def untouched_def working_of_def rows_of_def embeddings_of_def intro!: filter_cong)
next
  case (mst_episode fresh now summary meta)
  show ?thesis unfolding mst_episode
    by (rule remember_episode_cases[of fresh now a summary meta m])
       (use \<open>b \<noteq> a\<close> in \<open>auto simp: untouched_def working_of_def rows_of_def embeddings_of_def embedding_of_def\<close>)
next
  case (mst_fact fresh now key v do_embed meta)
  show ?thesis unfolding mst_fact
  proof (rule remember_fact_cases[of fresh now a key v do_embed meta m])
    fix i w
    assume up: "upsert_fact fresh now a key v meta m = (Inr i, w)"
      and run: "remember_fact fresh now a key v do_embed meta m =
        (Inr i, w\<lparr>me_embeddings := me_embeddings w @ [embedding_of i a (me_embed m v) m]\<rparr>)"
    then show "untouched b m (snd (remember_fact fresh now a key v do_embed meta m))"
      using upsert_untouched[OF assms(1) up assms(3)] \<open>b \<noteq> a\<close>
      by (simp add: untouched_def working_of_def rows_of_def embeddings_of_def embedding_of_def)
  qed (use upsert_untouched assms in auto)
next
  case (mst_forget i)
  have "er_agent e = a" if "r \<in> set (me_rows m)" "mr_id r = i" "mr_agent r = a" "e \<in> set (me_embeddings m)" "er_id e = i" for r e
    using same_owner[OF assms(1)] that by auto
  then have "filter (\<lambda>e. er_id e \<noteq> i \<and> er_agent e = b) (me_embeddings m) = filter (\<lambda>e. er_agent e = b) (me_embeddings m)"
    if "\<exists>r\<in>set (me_rows m). mr_id r = i \<and> mr_agent r = a"
    using that \<open>b \<noteq> a\<close> by (intro filter_cong) auto
  then have "embeddings_of b u = embeddings_of b m"
    by (simp add: mst_forget forget_def Let_def embeddings_of_def tbl_del_def list_ex_iff conj_commute)
  moreover have "rows_of b u = rows_of b m"
    using \<open>b \<noteq> a\<close> by (auto simp: mst_forget forget_def Let_def rows_of_def intro!: filter_cong)
  ultimately show ?thesis by (simp add: mst_forget forget_def Let_def untouched_def working_of_def)
qed


section \<open>Facts\<close>

lemma find_mapped: "(\<And>x. P (f x) = P x) \<Longrightarrow> find P (map f xs) = map_option f (find P xs)"
  by (induction xs) auto

lemma find_append: "find P (xs @ ys) = (case find P xs of None \<Rightarrow> find P ys | Some x \<Rightarrow> Some x)"
  by (induction xs) auto

lemma upsert_facts:
  assumes inv: "mem_inv m" and run: "upsert_fact fresh now agent key v meta m = (Inr i, u)"
  shows "get_fact a k u = (if a = agent \<and> k = key then Some v else get_fact a k m)"
  using run
proof (cases rule: upsert_cases)
  case (updated r)
  then have r: "r \<in> set (me_rows m)" "is_fact agent key r" "mr_id r = i" by (auto dest: fact_found)
  have only: "x = r" if "x \<in> set (me_rows m)" "mr_id x = i" for x
    using inv that r by (metis mem_inv_def tbl_find_in option.inject)
  have look: "find (is_fact a k) (me_rows u) =
      map_option (\<lambda>x. if mr_id x = i then set_fact v meta now x else x) (find (is_fact a k) (me_rows m))"
    by (simp add: updated tbl_upd_def) (rule find_mapped, simp)
  show ?thesis
  proof (cases "a = agent \<and> k = key")
    case True
    then show ?thesis using look updated(1) r(3) by (simp add: get_fact_def)
  next
    case False
    have "mr_id x \<noteq> i" if "find (is_fact a k) (me_rows m) = Some x" for x
    proof
      assume "mr_id x = i"
      with fact_found[OF that] only have "is_fact a k r" by auto
      with r(2) False show False by (simp add: is_fact_def)
    qed
    with look False show ?thesis
      by (cases "find (is_fact a k) (me_rows m)") (auto simp: get_fact_def)
  qed
next
  case inserted
  then show ?thesis
    by (cases "find (is_fact a k) (me_rows m)") (auto simp: get_fact_def find_append is_fact_def)
qed

lemma get_fact_embeddings [simp]: "get_fact a k (m\<lparr>me_embeddings := es\<rparr>) = get_fact a k m"
  by (simp add: get_fact_def)

lemma remember_fact_runs:
  assumes "remember_fact fresh now agent key v do_embed meta m = (Inr i, u)"
  shows "\<exists>w es. upsert_fact fresh now agent key v meta m = (Inr i, w) \<and> u = w\<lparr>me_embeddings := es\<rparr>"
proof (rule remember_fact_cases[of fresh now agent key v do_embed meta m])
  fix j w
  assume "upsert_fact fresh now agent key v meta m = (Inr j, w)"
    and "remember_fact fresh now agent key v do_embed meta m = (Inr j, w)"
  with assms show ?thesis by (intro exI[of _ w] exI[of _ "me_embeddings w"]) auto
qed (use assms in auto)

section \<open>Similarity\<close>

lemma dot_Cons [simp]: "dot (x # a) (y # b) = x * y + dot a b"
  by (simp add: dot_def)

lemma dot_Nil [simp]: "dot [] b = 0" "dot a [] = 0"
  by (simp_all add: dot_def)

lemma dot_self_nonneg: "0 \<le> dot a a"
  by (induction a) auto

text \<open>Cauchy and Schwarz, one component at a time.\<close>

lemma cross_term:
  fixes p x y A B :: real
  assumes "p\<^sup>2 \<le> A * B" and "0 \<le> A" and "0 \<le> B"
  shows "2 * p * x * y \<le> A * y\<^sup>2 + B * x\<^sup>2"
proof (cases "A = 0")
  case True
  with assms(1) have "p = 0" by simp
  with True assms(3) show ?thesis by simp
next
  case False
  then have pos: "0 < A" using assms(2) by simp
  have "0 \<le> (A * y - p * x)\<^sup>2 + (A * B - p\<^sup>2) * x\<^sup>2"
    using assms(1) by (intro add_nonneg_nonneg mult_nonneg_nonneg) auto
  also have "\<dots> = A * (A * y\<^sup>2 + B * x\<^sup>2 - 2 * p * x * y)" by (simp add: power2_eq_square algebra_simps)
  finally have "0 \<le> A * y\<^sup>2 + B * x\<^sup>2 - 2 * p * x * y" using pos by (simp add: zero_le_mult_iff)
  then show ?thesis by simp
qed

lemma dot_bound: "length a = length b \<Longrightarrow> (dot a b)\<^sup>2 \<le> dot a a * dot b b"
proof (induction a b rule: list_induct2)
  case (Cons x a y b)
  have "2 * dot a b * x * y \<le> dot a a * y\<^sup>2 + dot b b * x\<^sup>2"
    by (rule cross_term[OF Cons.IH dot_self_nonneg dot_self_nonneg])
  with Cons.IH show ?case by (simp add: power2_eq_square algebra_simps)
qed simp

lemma cosine_bound: "\<bar>cosine a b\<bar> \<le> 1"
proof (cases "length a = length b \<and> dot a a \<noteq> 0 \<and> dot b b \<noteq> 0")
  case True
  then have pos: "0 < dot a a" "0 < dot b b" using dot_self_nonneg[of a] dot_self_nonneg[of b] by linarith+
  have "\<bar>dot a b\<bar> = sqrt ((dot a b)\<^sup>2)" by simp
  also have "\<dots> \<le> sqrt (dot a a * dot b b)" using True dot_bound[of a b] by (simp only: real_sqrt_le_iff)
  finally have "\<bar>dot a b\<bar> \<le> sqrt (dot a a) * sqrt (dot b b)" by (simp add: real_sqrt_mult)
  moreover have "0 < sqrt (dot a a) * sqrt (dot b b)" using pos by simp
  ultimately show ?thesis using True by (simp add: cosine_def Let_def abs_mult dot_self_nonneg)
qed (auto simp: cosine_def Let_def)

section \<open>Recall\<close>

definition hit_row :: "memory \<Rightarrow> string \<Rightarrow> memory_kind list \<Rightarrow> real list \<Rightarrow> recall_hit \<Rightarrow> bool" where
  "hit_row m a ks q h \<longleftrightarrow>
     list_ex (\<lambda>(r, e). h = hit_of (cosine q (er_vector e)) r \<and> me_threshold m \<le> rh_score h) (joined a ks m)"

lemma hit_score [simp]: "rh_score (hit_of x r) = x"
  by (simp add: hit_of_def)

lemma collect_hits_set:
  "collect_hits m q rows = Inr hs \<Longrightarrow>
     set hs = {h. \<exists>r e. (r, e) \<in> set rows \<and> h = hit_of (cosine q (er_vector e)) r \<and> me_threshold m \<le> rh_score h}"
proof (induction rows arbitrary: hs)
  case (Cons row rows)
  obtain r e where row: "row = (r, e)" by (cases row)
  from Cons.prems obtain hs' where "collect_hits m q rows = Inr hs'"
    and hs: "hs = (if cosine q (er_vector e) < me_threshold m then hs' else hit_of (cosine q (er_vector e)) r # hs')"
    by (auto simp: row Let_def split: if_splits sum.splits) (cases "collect_hits m q rows"; auto)+
  from Cons.IH[OF this(1)] show ?case
    by (auto simp: row hs; blast)
qed simp

lemma sorted_desc: "sorted_wrt (\<lambda>h h'. rh_score h' \<le> rh_score h) (sort_key (\<lambda>h. - rh_score h) hs)"
  using sorted_sort_key[of "\<lambda>h. - rh_score h" hs] by (simp add: sorted_wrt_map)

lemma best_first:
  assumes "sorted_wrt (\<lambda>h h'. rh_score h' \<le> rh_score h) xs" and "x \<in> set xs" and "x \<notin> set (take n xs)"
    and "y \<in> set (take n xs)"
  shows "rh_score x \<le> rh_score y"
proof -
  have "x \<in> set (drop n xs)" using assms(2,3) by (metis Un_iff append_take_drop_id set_append)
  with assms(1,4) show ?thesis by (metis append_take_drop_id sorted_wrt_append)
qed


section \<open>The hash embedder\<close>

lemma length_hashed: "length (fold (bump blake n) ts v) = length v"
  by (induction ts arbitrary: v) (auto simp: bump_def Let_def)

lemma squares_nonneg: "0 \<le> sum_list (map (\<lambda>x. x * x) (v :: real list))"
  by (induction v) auto

lemma scaled_squares: "sum_list (map (\<lambda>x. x * x) (map (\<lambda>x. x / c) v)) = sum_list (map (\<lambda>x. x * x) v) / (c * c :: real)"
  by (induction v) (auto simp: add_divide_distrib)

section \<open>A small memory\<close>

definition demo_memory :: memory where
  "demo_memory =
     \<lparr>me_working = [], me_working_seq = 0, me_rows = [], me_embeddings = [], me_working_size = 50,
      me_max_content_bytes = 100, me_threshold = 3 / 10, me_dim = 1, me_embed = (\<lambda>_. [1]), me_f32 = id\<rparr>"

definition demo_memory1 :: memory where
  "demo_memory1 = snd (remember_fact ''m1'' 5 ''bob'' ''k'' ''v'' True [] demo_memory)"

lemma demo_memory_inv: "mem_inv demo_memory"
  by (simp add: mem_inv_def demo_memory_def tbl_pk_def facts_unique_def fact_keys_def)

lemma demo_remember:
  "remember_fact ''m1'' 5 ''bob'' ''k'' ''v'' True [] demo_memory = (Inr ''m1'', demo_memory1)"
  by (simp add: demo_memory1_def remember_fact_def upsert_fact_def demo_memory_def guard_size_def guard_dim_def utf8_len_def Let_def)

lemma demo_memory1_inv: "mem_inv demo_memory1"
  unfolding demo_memory1_def by (rule remember_fact_inv[OF demo_memory_inv])

definition lone_org :: org where
  "lone_org = \<lparr>og_agents = [\<lparr>ag_id = ''bob'', ag_role = MEMBER, ag_persona_ref = [], ag_reports_to = None,
     ag_status = ACTIVE, ag_hired_at = 0, ag_first_name = [], ag_last_name = [], ag_role_title = None,
     ag_role_description = None, ag_fired_at = None, ag_fired_by = None, ag_fire_reason = None\<rparr>],
     og_fire_pending = [], og_fire_requests = []\<rparr>"

section \<open>Properties\<close>

text \<open>
  C38. A remembered fact comes back: after \<^verbatim>\<open>remember_fact\<close> answers, new or overwriting, \<^verbatim>\<open>get_fact\<close> of
  that agent and key is the value, and every other fact of every agent reads as before.
\<close>

theorem fact_comes_back:
  assumes "mem_inv m" and "remember_fact fresh now agent key v do_embed meta m = (Inr i, u)"
  shows "get_fact a k u = (if a = agent \<and> k = key then Some v else get_fact a k m)"
  using remember_fact_runs[OF assms(2)] upsert_facts[OF assms(1)] by auto

lemma fact_comes_back_witness:
  "get_fact ''bob'' ''k'' demo_memory1 = Some ''v'' \<and> get_fact ''bob'' ''j'' demo_memory1 = None"
  using fact_comes_back[OF demo_memory_inv demo_remember, of "''bob''" "''k''"]
    fact_comes_back[OF demo_memory_inv demo_remember, of "''bob''" "''j''"]
  by (simp add: get_fact_def demo_memory_def)

text \<open>
  C39. Memories are private: whatever an agent does to the memory, including forgetting an id that
  belongs to someone else, another agent's facts, working window and recalls stay what they were.
\<close>

theorem memory_is_private:
  assumes "mem_inv m" and "mem_step a m u" and "b \<noteq> a"
  shows "get_fact b k u = get_fact b k m \<and> working_window b n u = working_window b n m \<and>
    recall g b q j ks rd u = recall g b q j ks rd m"
proof -
  have same: "untouched b m u" by (rule step_untouched[OF assms])
  have "recall g b q j ks rd u = recall g b q j ks rd m"
    by (rule recall_of[OF assms(1) mem_step_inv[OF assms(2,1)]]) (use same in \<open>simp_all add: untouched_def\<close>)
  with same show ?thesis
    by (cases n) (simp_all add: untouched_def get_fact_of working_window_def working_of_def Let_def)
qed

lemma memory_is_private_witness:
  "get_fact ''bob'' ''k'' (forget ''eve'' ''m1'' demo_memory1) = Some ''v''"
proof -
  have "get_fact ''bob'' ''k'' demo_memory1 = Some ''v''"
    using demo_remember by (simp add: demo_memory1_def remember_fact_def upsert_fact_def demo_memory_def
        guard_size_def guard_dim_def utf8_len_def Let_def get_fact_def is_fact_def)
  with memory_is_private[OF demo_memory1_inv mst_forget[of "''eve''" demo_memory1 "''m1''"], of "''bob''" "''k''"]
  show ?thesis by simp
qed

text \<open>
  Recall answers with the best matches: only memories of that agent of the wanted kinds, each at or
  above the threshold and within [-1, 1], best first, at most k of them, and no memory that reaches
  the threshold is left out in favour of a worse one.
\<close>

theorem recall_best_matches:
  assumes "recall g a q k (Some ks) rd m = Inr hs" and "0 \<le> k" and "q \<noteq> []" and "identity_active g a"
    and "ks \<noteq> []"
  shows "int (length hs) \<le> k \<and> sorted_wrt (\<lambda>h h'. rh_score h' \<le> rh_score h) hs \<and>
    (\<forall>h\<in>set hs. hit_row m a ks (me_embed m q) h \<and> \<bar>rh_score h\<bar> \<le> 1) \<and>
    (\<forall>h. hit_row m a ks (me_embed m q) h \<longrightarrow> h \<in> set hs \<or> (\<forall>h'\<in>set hs. rh_score h \<le> rh_score h'))"
proof -
  obtain all where col: "collect_hits m (me_embed m q) (joined a ks m) = Inr all"
    and hs: "hs = take (nat k) (sort_key (\<lambda>h. - rh_score h) all)"
    using assms by (auto simp: recall_def Let_def py_take_def split: if_splits option.splits sum.splits)
      (cases "collect_hits m (me_embed m q) (joined a ks m)"; auto)+
  have rows: "hit_row m a ks (me_embed m q) h \<longleftrightarrow> h \<in> set all" for h
    unfolding collect_hits_set[OF col] hit_row_def list_ex_iff by auto
  have bounded: "\<bar>rh_score h\<bar> \<le> 1" if "h \<in> set all" for h
    using that unfolding collect_hits_set[OF col] by (auto simp: cosine_bound)
  have sub: "h \<in> set all" if "h \<in> set hs" for h using that unfolding hs by (auto dest: in_set_takeD)
  have "sorted_wrt (\<lambda>h h'. rh_score h' \<le> rh_score h) hs" unfolding hs by (rule sorted_wrt_take[OF sorted_desc])
  moreover have "int (length hs) \<le> k" using assms(2) by (simp add: hs)
  moreover have "\<forall>h\<in>set hs. hit_row m a ks (me_embed m q) h \<and> \<bar>rh_score h\<bar> \<le> 1"
    using sub bounded rows by blast
  moreover have "\<forall>h. hit_row m a ks (me_embed m q) h \<longrightarrow> h \<in> set hs \<or> (\<forall>h'\<in>set hs. rh_score h \<le> rh_score h')"
    using rows best_first[OF sorted_desc, of _ all "nat k"] unfolding hs by (metis set_sort)
  ultimately show ?thesis by blast
qed

lemma recall_best_matches_witness:
  "\<exists>h. recall lone_org ''bob'' ''what'' 5 (Some [SEMANTIC]) None demo_memory1 = Inr [h] \<and>
     rh_content h = ''v'' \<and> \<bar>rh_score h\<bar> \<le> 1"
proof -
  let ?h = "hit_of 1 \<lparr>mr_id = ''m1'', mr_agent = ''bob'', mr_kind = SEMANTIC, mr_key = Some ''k'',
    mr_content = ''v'', mr_metadata = [], mr_ts_real = 5\<rparr>"
  have run: "recall lone_org ''bob'' ''what'' 5 (Some [SEMANTIC]) None demo_memory1 = Inr [?h]"
    by (simp add: recall_def identity_active_def lone_org_def org_get_def guard_dim_def demo_memory1_def
        remember_fact_def upsert_fact_def demo_memory_def guard_size_def utf8_len_def Let_def joined_def
        embedding_of_def cosine_def py_take_def)
  have "identity_active lone_org ''bob''" by (simp add: identity_active_def lone_org_def org_get_def)
  from recall_best_matches[OF run _ _ this] have "\<bar>rh_score ?h\<bar> \<le> 1" by simp
  with run show ?thesis by (intro exI[of _ ?h]) (simp add: hit_of_def)
qed

text \<open>
  The default embedder returns a vector of its dimension whose length is exactly 1, or the zero
  vector.
\<close>

theorem hash_embedding_is_unit:
  "length (hash_embed blake n t) = n \<and>
   (sum_list (map (\<lambda>x. x * x) (hash_embed blake n t)) = 1 \<or>
    sum_list (map (\<lambda>x. x * x) (hash_embed blake n t)) = 0)"
proof -
  define v where "v = fold (bump blake n) (tokens t) (replicate n 0)"
  define s where "s = sum_list (map (\<lambda>x. x * x) v)"
  have "length v = n" by (simp add: v_def length_hashed)
  moreover have "sqrt s * sqrt s = s" unfolding s_def by (rule real_sqrt_mult_self[THEN trans]) (simp add: squares_nonneg)
  moreover from this have "sum_list (map (\<lambda>x. x * x) (map (\<lambda>x. x / sqrt s) v)) = 1" if "s \<noteq> 0"
    using that by (simp only: scaled_squares) (simp flip: s_def)
  moreover have "hash_embed blake n t = (if sqrt s = 0 then v else map (\<lambda>x. x / sqrt s) v)"
    by (simp add: hash_embed_def Let_def v_def s_def)
  ultimately show ?thesis by (cases "s = 0") (simp_all flip: s_def)
qed

end
