(* ===== verification/Office.thy ===== *)
theory Office
  imports Performance_Model Memory_Model Workspace_Model Orchestrator_Model
begin

text \<open>
  One running company as \<^verbatim>\<open>factory/bootstrap.py\<close> wires it: the bundle of services with the workspace,
  the memory, the orchestrator and the live agents (\<^verbatim>\<open>CompanyHandle\<close>), and the adapters of
  \<^verbatim>\<open>factory/adapters.py\<close>. The orchestrator refers to the same org chart and event log as the other
  services: a call on it runs with the current ones and its log is taken over afterwards. The quota
  events the workspace emits go through the event sink.
\<close>

section \<open>State\<close>

record office = staff +
  of_workspace :: workspace
  of_memory :: memory
  of_orch :: "orch option"
  of_performance :: bool
  of_connector :: bool
  of_agents :: "string list"
  of_bootstrap_ids :: "(string \<times> string) list"
  of_quota_mb :: int

section \<open>The event sink of the workspace\<close>

fun sink_all :: "(string \<times> payload) list \<Rightarrow> event_store \<Rightarrow> (unit, event_store) outcome" where
  "sink_all [] es = (Inr (), es)"
| "sink_all (e # rest) es = andthen (sink_emit e es) (\<lambda>_ es1. sink_all rest es1)"

section \<open>Running on a part of the company\<close>

text \<open>A workspace call; what it emits goes to the sink, and what the sink raises replaces the answer.\<close>

definition on_ws :: "(workspace \<Rightarrow> 'a ws_out) \<Rightarrow> 'x office_scheme \<Rightarrow> ('a, 'x office_scheme) outcome" where
  "on_ws f w =
     (case f (of_workspace w) of
        (r, ws) \<Rightarrow>
          (case sink_all (drop (length (ws_emitted (of_workspace w))) (ws_emitted ws)) (sv_events w) of
             (Inl e, es) \<Rightarrow> (Inl e, w\<lparr>of_workspace := ws, sv_events := es\<rparr>)
           | (Inr _, es) \<Rightarrow> (r, w\<lparr>of_workspace := ws, sv_events := es\<rparr>)))"

definition on_memory :: "(memory \<Rightarrow> 'a mem_out) \<Rightarrow> 'x office_scheme \<Rightarrow> ('a, 'x office_scheme) outcome" where
  "on_memory = through of_memory (\<lambda>m w. w\<lparr>of_memory := m\<rparr>)"

definition orch_in :: "orch \<Rightarrow> 'x office_scheme \<Rightarrow> orch" where
  "orch_in o_r w = o_r\<lparr>or_identity := sv_org w, or_events := sv_events w\<rparr>"

definition orch_out :: "orch \<Rightarrow> 'x office_scheme \<Rightarrow> 'x office_scheme" where
  "orch_out o_r w = w\<lparr>of_orch := Some o_r, sv_events := or_events o_r\<rparr>"

definition on_orch :: "orch \<Rightarrow> (orch \<Rightarrow> 'a or_out) \<Rightarrow> 'x office_scheme \<Rightarrow> ('a, 'x office_scheme) outcome" where
  "on_orch o_r f w = (case f (orch_in o_r w) of (r, o2) \<Rightarrow> (r, orch_out o2 w))"

text \<open>UTF-8 of the development's characters, byte by byte.\<close>

definition utf8_bytes_of :: "char \<Rightarrow> string" where
  "utf8_bytes_of c =
     (let n = of_char c :: nat in
      if n < 128 then [c] else [char_of (192 + n div 64), char_of (128 + n mod 64)])"

definition utf8_bytes :: "string \<Rightarrow> string" where
  "utf8_bytes s = concat (map utf8_bytes_of s)"

section \<open>What the parts leave alone\<close>

text \<open>None of the kinds the workspace emits is known to the sink.\<close>

definition workspace_kinds :: "string list" where
  "workspace_kinds = [''quota_exceeded'', ''quota_warning'', ''quota_drift'']"

lemma sink_ignores: "k \<in> set workspace_kinds \<Longrightarrow> sink_emit (k, p) es = (Inr (), es)"
  by (auto simp: workspace_kinds_def sink_emit_def sink_supported_def)


lemma sink_ignores_all:
  "fst ` set evs \<subseteq> set workspace_kinds \<Longrightarrow> sink_all evs es = (Inr (), es)"
  by (induction evs) (auto simp: sink_ignores)

lemma on_ws_unlogged:
  assumes "ws_emitted (snd (f (of_workspace w))) = ws_emitted (of_workspace w) @ new"
    and "fst ` set new \<subseteq> set workspace_kinds"
  shows "on_ws f w = (fst (f (of_workspace w)), w\<lparr>of_workspace := snd (f (of_workspace w))\<rparr>)"
  using assms by (cases "f (of_workspace w)") (simp add: on_ws_def sink_ignores_all)

lemma write_emits:
  "\<exists>new. ws_emitted (snd (ws_write a rel d ws)) = ws_emitted ws @ new \<and> fst ` set new \<subseteq> set workspace_kinds"
  by (auto simp: ws_write_def ws_emit_def Let_def workspace_kinds_def split: sum.split option.split prod.split)

lemma reconcile_emits:
  "\<exists>new. ws_emitted (snd (ws_reconcile_quota ws)) = ws_emitted ws @ new \<and> fst ` set new \<subseteq> set workspace_kinds"
  by (auto simp: ws_reconcile_quota_def Let_def drift_event_def workspace_kinds_def)

section \<open>Properties\<close>

text \<open>
  The quota events never reach the company's log: a write that is refused or that crosses the warning
  level, and a reconciliation that finds drift, do to the company what they do to the workspace and
  nothing else, because the sink knows the kinds under other names.
\<close>

theorem quota_events_unlogged:
  "on_ws (ws_write a rel d) w = (fst (ws_write a rel d (of_workspace w)),
     w\<lparr>of_workspace := snd (ws_write a rel d (of_workspace w))\<rparr>) \<and>
   on_ws ws_reconcile_quota w = (fst (ws_reconcile_quota (of_workspace w)),
     w\<lparr>of_workspace := snd (ws_reconcile_quota (of_workspace w))\<rparr>)"
  using write_emits[of a rel d "of_workspace w"] reconcile_emits[of "of_workspace w"] on_ws_unlogged by metis

end
