(* ===== verification/Company_Bootstrap.thy ===== *)
theory Company_Bootstrap
  imports Office
begin

text \<open>
  \<^verbatim>\<open>factory/bootstrap.py\<close>: the bootstrap agents of a fresh company, hiring a member into a running one,
  the clean-up of approvals that direct hires made superfluous, and the repair of unmanaged members.
  The persona loader and the LLM factory are injected: what they raise for a new agent are fields of
  \<open>hire_env\<close>, as are the fresh id, the clock and \<^verbatim>\<open>str\<close> of JSON values that are no strings. The
  characters outside the development's range are written "..." and "-".
\<close>

section \<open>Names\<close>

definition PLACEHOLDER_HIRE_NAMES :: "string list" where
  "PLACEHOLDER_HIRE_NAMES =
     [''tbd'', ''todo'', ''unknown'', ''new'', ''candidate'', ''hire'', ''n/a'', ''na'', ''none'', ''null'',
      ''product designer'', ''engineer'', ''designer'']"

definition clean_hire_name :: "string \<Rightarrow> string" where
  "clean_hire_name name =
     (let cleaned = py_join '' '' (py_split (py_strip name)) in
      if cleaned = [] then []
      else if py_lower cleaned \<in> set PLACEHOLDER_HIRE_NAMES then []
      else if length (py_split cleaned) > 2 then []
      else cleaned)"

definition FALLBACK_MEMBER_NAMES :: "(string \<times> string) list" where
  "FALLBACK_MEMBER_NAMES =
     [(''Huseyin'', ''Kucukdal''), (''Ulara'', ''Kucukdal''), (''Luna'', ''Kucukdal''),
      (''Taylor'', ''Brooks''), (''Jamie'', ''Blake''), (''Quinn'', ''Hayes''), (''Sage'', ''Carter''),
      (''Rowan'', ''Ellis'')]"

definition lower_pair :: "string \<times> string \<Rightarrow> string \<times> string" where
  "lower_pair n = (py_lower (fst n), py_lower (snd n))"

definition taken_names :: "org \<Rightarrow> (string \<times> string) list" where
  "taken_names g =
     remdups (map (\<lambda>a. lower_pair (ag_first_name a, ag_last_name a))
       (filter (\<lambda>a. ag_first_name a \<noteq> [] \<or> ag_last_name a \<noteq> []) (org_all g None)))"

text \<open>The candidates in the order they are tried.\<close>

definition name_candidates :: "nat \<Rightarrow> (string \<times> string) list" where
  "name_candidates offset =
     map (\<lambda>i. FALLBACK_MEMBER_NAMES ! ((offset + i) mod length FALLBACK_MEMBER_NAMES))
       [0..<length FALLBACK_MEMBER_NAMES]"

definition fallback_member_name :: "org \<Rightarrow> string \<times> string" where
  "fallback_member_name g =
     (let existing = taken_names g; offset = length existing in
      case find (\<lambda>n. lower_pair n \<notin> set existing) (name_candidates offset) of
        Some n \<Rightarrow> n
      | None \<Rightarrow> (''Member'', nat_str (offset + 1)))"

section \<open>Approvals that became superfluous\<close>

text \<open>\<^verbatim>\<open>str(payload.get(k, ""))\<close>.\<close>

definition json_text :: "(json \<Rightarrow> string) \<Rightarrow> json \<Rightarrow> string" where
  "json_text to_str j = (case j of JStr s \<Rightarrow> s | _ \<Rightarrow> to_str j)"

definition hire_pending :: "string option \<Rightarrow> approval_row \<Rightarrow> bool" where
  "hire_pending current r \<longleftrightarrow>
     ar_kind r = AK_HIRE \<and> ar_status r = AP_PENDING \<and> Some (ar_request_id r) \<noteq> current"

definition same_hire :: "(json \<Rightarrow> string) \<Rightarrow> string \<Rightarrow> string \<Rightarrow> approval_row \<Rightarrow> bool" where
  "same_hire to_str title manager r \<longleftrightarrow>
     py_lower (py_strip (case map_of (ar_payload r) ''role_title'' of None \<Rightarrow> [] | Some j \<Rightarrow> json_text to_str j)) =
       py_lower (py_strip title) \<and>
     pget (ar_payload r) ''reports_to'' = JStr manager"

definition cancel_each ::
  "(string \<Rightarrow> int) \<Rightarrow> string \<Rightarrow> string \<Rightarrow> string list \<Rightarrow> approvals \<times> event_store \<Rightarrow> approvals \<times> event_store" where
  "cancel_each clock who why ids s = fold (\<lambda>i t. snd (appr_cancel (clock i) i who why t)) ids s"

text \<open>The role title and the manager are texts or absent, as the code's types say.\<close>

definition cancel_duplicate_hires ::
  "(json \<Rightarrow> string) \<Rightarrow> (string \<Rightarrow> int) \<Rightarrow> string option \<Rightarrow> json \<Rightarrow> json \<Rightarrow> string
   \<Rightarrow> 'x services_scheme \<Rightarrow> 'x services_scheme" where
  "cancel_duplicate_hires to_str clock current title manager who w =
     (case (title, manager) of
        (JStr t, JStr m) \<Rightarrow>
          if t = [] \<or> m = [] then w
          else put_appr
            (cancel_each clock who
               (case current of Some c \<Rightarrow> if c = [] then ''duplicate_hire:direct_hire'' else ''duplicate_hire:'' @ c
                | None \<Rightarrow> ''duplicate_hire:direct_hire'')
               (map ar_request_id (filter (same_hire to_str t m) (filter (hire_pending current) (ap_rows (sv_appr w)))))
               (get_appr w)) w
      | _ \<Rightarrow> w)"

definition governance_pending :: "approval_row \<Rightarrow> bool" where
  "governance_pending r \<longleftrightarrow>
     ar_kind r \<in> {AK_HIRE, AK_ROLE_CHANGE, AK_FIRE_DEPTH_1} \<and> ar_status r = AP_PENDING"

definition cancel_pending_governance ::
  "(string \<Rightarrow> int) \<Rightarrow> string \<Rightarrow> 'x services_scheme \<Rightarrow> 'x services_scheme" where
  "cancel_pending_governance clock who w =
     put_appr (cancel_each clock who ''board_approval_no_longer_required''
       (map ar_request_id (filter governance_pending (ap_rows (sv_appr w)))) (get_appr w)) w"

section \<open>Hiring a member\<close>

record hire_env =
  he_to_str :: "json \<Rightarrow> string"
  he_id :: string
  he_now :: int
  he_clock :: "string \<Rightarrow> int"
  he_llm :: "string \<Rightarrow> exn option"
  he_start :: "string \<Rightarrow> exn option"

text \<open>\<^verbatim>\<open>orchestrator.system_send(to, text, kind=NOTIFY)\<close>; its verdict is not looked at.\<close>

definition tell :: "string \<Rightarrow> string \<Rightarrow> 'x office_scheme \<Rightarrow> (unit, 'x office_scheme) outcome" where
  "tell to_a content w =
     (case of_orch w of
        None \<Rightarrow> (Inl (RuntimeError ''company_handle_not_ready''), w)
      | Some o_r \<Rightarrow> andthen (on_orch o_r (or_system_send to_a content NOTIFY None) w) (\<lambda>_ w1. (Inr (), w1)))"

definition welcome_text :: "string \<Rightarrow> string \<Rightarrow> string \<Rightarrow> string" where
  "welcome_text title manager desc =
     ''You have been hired as '' @ title @ ''. You report to '' @ manager @ ''. Your role description:'' @ newline @
     (if desc = [] then ''(no description)'' else desc) @ newline @ newline @
     ''Your manager will send your first concrete task shortly. If a few minutes pass with no message, '' @
     ''introduce yourself to your manager and ask for the first deliverable.''"

definition joined_text :: "string \<Rightarrow> string \<Rightarrow> string \<Rightarrow> string \<Rightarrow> string" where
  "joined_text display title_str i desc =
     display @ title_str @ '' just joined your team (id: '' @ i @ ''). Send them their first concrete '' @
     ''deliverable NOW via send_message. Derive a specific 1-2 sentence task from this role description: '' @
     (if desc = [] then ''(no description)'' else desc)"

definition done_text :: "string \<Rightarrow> string \<Rightarrow> string \<Rightarrow> string \<Rightarrow> string \<Rightarrow> string" where
  "done_text lead_in display title_str i manager =
     lead_in @ '' '' @ display @ title_str @ '' is active (id: '' @ i @ '', reports to '' @ manager @
     ''). The reporting manager has been asked to send the first task - your part is done.''"

definition short_description :: "string \<Rightarrow> string" where
  "short_description desc =
     (let d = py_strip desc in if length d > 500 then take 497 d @ ''...'' else d)"

text \<open>Making the agent live: the workspace, the LLM client, the entry in \<^verbatim>\<open>handle.agents\<close>, the
  registration with the orchestrator, the start.\<close>

definition activate_member :: "hire_env \<Rightarrow> string \<Rightarrow> 'x office_scheme \<Rightarrow> (unit, 'x office_scheme) outcome" where
  "activate_member env i w =
     andthen (on_ws (ws_create_for_agent (he_now env) i (of_quota_mb w)) w)
       (\<lambda>_ w1.
          case he_llm env i of
            Some e \<Rightarrow> (Inl e, w1)
          | None \<Rightarrow>
              let w2 = w1\<lparr>of_agents := List.insert i (of_agents w1),
                          of_orch := map_option (or_register i) (of_orch w1)\<rparr>
              in (case he_start env i of Some e \<Rightarrow> (Inl e, w2) | None \<Rightarrow> (Inr (), w2)))"

definition notify_hire ::
  "string \<Rightarrow> agent \<Rightarrow> string \<Rightarrow> string \<Rightarrow> string \<Rightarrow> string \<Rightarrow> 'x office_scheme \<Rightarrow> (unit, 'x office_scheme) outcome" where
  "notify_hire lead_in rec title desc manager requester w =
     (let i = ag_id rec;
          name = py_strip (ag_first_name rec @ '' '' @ ag_last_name rec);
          display = (if name = [] then i else name);
          title_str = '' ('' @ title @ '')'';
          short = short_description desc in
      andthen (tell i (welcome_text title manager short) w)
        (\<lambda>_ w1.
           andthen (tell manager (joined_text display title_str i short) w1)
             (\<lambda>_ w2.
                if requester \<noteq> [] \<and> requester \<noteq> manager
                then tell requester (done_text lead_in display title_str i manager) w2
                else (Inr (), w2))))"

definition hire_from_payload ::
  "hire_env \<Rightarrow> payload \<Rightarrow> string \<Rightarrow> string \<Rightarrow> 'x office_scheme \<Rightarrow> (agent, 'x office_scheme) outcome" where
  "hire_from_payload env p requester lead_in w =
     (let fld = (\<lambda>k. str_of_or (he_to_str env) (pget p k) []);
          title = py_strip (fld ''role_title''); desc = py_strip (fld ''role_description'');
          manager = py_strip (fld ''reports_to'') in
      if title = [] \<or> desc = [] \<or> manager = [] then (Inl (ValueError ''invalid_hire_payload''), w)
      else
        let f = clean_hire_name (fld ''first_name''); l = clean_hire_name (fld ''last_name'');
            n = (if f = [] \<or> l = [] then fallback_member_name (sv_org w) else (f, l)) in
        andthen
          (on_org (org_add_agent (he_id env) (he_now env) MEMBER ''default'' (Some manager) requester True False
             (fst n) (snd n) (Some title) (Some desc)) w)
          (\<lambda>rec w1.
             andthen (activate_member env (ag_id rec) w1)
               (\<lambda>_ w2. andthen (notify_hire lead_in rec title desc manager requester w2)
                  (\<lambda>_ w3. (Inr rec, w3)))))"

text \<open>The runtime hire service; a handle that is not ready is an orchestrator that is not there yet.\<close>

definition hire_member ::
  "hire_env \<Rightarrow> string \<Rightarrow> payload \<Rightarrow> 'x office_scheme \<Rightarrow> (string \<times> string, 'x office_scheme) outcome" where
  "hire_member env requester p w =
     (if of_orch w = None then (Inl (RuntimeError ''company_handle_not_ready''), w)
      else
        andthen (hire_from_payload env p requester ''Hire completed.'' w)
          (\<lambda>rec w1. (Inr (ag_id rec, ''hired''),
             cancel_duplicate_hires (he_to_str env) (he_clock env) None (pget p ''role_title'')
               (pget p ''reports_to'') requester w1)))"

text \<open>\<^verbatim>\<open>_spawn_hired_agent\<close>: every exception is caught and told to the requester.\<close>

definition spawn_hired_agent :: "hire_env \<Rightarrow> approval \<Rightarrow> 'x office_scheme \<Rightarrow> 'x office_scheme" where
  "spawn_hired_agent env v w =
     (let r = av_row v in
      case hire_from_payload env (ar_payload r) (ar_requester_id r) ''Hire approved and completed.'' w of
        (Inl e, w1) \<Rightarrow>
          snd (tell (ar_requester_id r)
            (''Legacy hire approval ignored because its payload is invalid. '' @
             ''Use propose_hire with role_title, role_description, and reports_to.'') w1)
      | (Inr rec, w1) \<Rightarrow>
          cancel_duplicate_hires (he_to_str env) (he_clock env) (Some (ar_request_id r))
            (pget (ar_payload r) ''role_title'') (pget (ar_payload r) ''reports_to'') (ar_requester_id r) w1)"

text \<open>The approval subscriber: it spawns for approved HIRE requests (the task it creates runs at once).\<close>

definition on_hire_approval :: "hire_env \<Rightarrow> approval \<Rightarrow> 'x office_scheme \<Rightarrow> 'x office_scheme" where
  "on_hire_approval env v w =
     (if ar_kind (av_row v) \<noteq> AK_HIRE then w
      else if ar_status (av_row v) \<noteq> AP_APPROVED then w
      else if of_orch w = None then w
      else spawn_hired_agent env v w)"

section \<open>The bootstrap agents\<close>

definition core_member ::
  "string \<Rightarrow> int \<Rightarrow> role \<Rightarrow> string option \<Rightarrow> string \<Rightarrow> string \<Rightarrow> string \<Rightarrow> org \<times> event_store \<Rightarrow> agent org_out" where
  "core_member i now r manager requested_by first_name last_name =
     org_add_agent i now r ''default'' manager requested_by False True first_name last_name None None"

definition bootstrap_core_agents ::
  "string \<Rightarrow> string \<Rightarrow> string \<Rightarrow> int \<Rightarrow> string \<Rightarrow> org \<times> event_store \<Rightarrow> (agent \<times> agent \<times> agent) org_out" where
  "bootstrap_core_agents i1 i2 i3 now requested_by s =
     andthen (core_member i1 now CEO None requested_by ''Alex'' ''Morgan'' s)
       (\<lambda>ceo s1. andthen (core_member i2 now HR (Some (ag_id ceo)) requested_by ''Jordan'' ''Lee'' s1)
         (\<lambda>hr s2. andthen (core_member i3 now SECURITY (Some (ag_id ceo)) requested_by ''Casey'' ''Chen'' s2)
           (\<lambda>sec s3. (Inr (ceo, hr, sec), s3))))"

definition first_active :: "org \<Rightarrow> role \<Rightarrow> string option" where
  "first_active g r = map_option ag_id (find (\<lambda>a. ag_role a = r) (org_all g (Some ACTIVE)))"

definition resolve_role_to_id :: "org \<Rightarrow> role \<Rightarrow> string \<Rightarrow> string" where
  "resolve_role_to_id g r ceo = (case first_active g r of Some i \<Rightarrow> i | None \<Rightarrow> ceo)"

definition core_roles :: "(string \<times> role) list" where
  "core_roles = [(''ceo'', CEO), (''hr'', HR), (''security'', SECURITY)]"

definition existing_core_ids :: "org \<Rightarrow> exn + (string \<times> string) list" where
  "existing_core_ids g =
     (let out = List.map_filter (\<lambda>(n, r). map_option (\<lambda>i. (n, i)) (first_active g r)) core_roles in
      if length out < 3
      then Inl (RuntimeError (''company missing bootstrap roles; have ['' @
             py_join '', '' (map (\<lambda>(n, i). [CHR 0x27] @ n @ [CHR 0x27]) out) @ '']''))
      else Inr out)"

text \<open>\<^verbatim>\<open>_ensure_project_workspace\<close> and the workspaces of the three.\<close>

fun create_workspaces :: "int \<Rightarrow> int \<Rightarrow> string list \<Rightarrow> workspace \<Rightarrow> unit ws_out" where
  "create_workspaces now mb [] ws = (Inr (), ws)"
| "create_workspaces now mb (i # is) ws =
     andthen (ws_create_for_agent now i mb ws) (\<lambda>_ ws1. create_workspaces now mb is ws1)"

section \<open>Members without a manager\<close>

definition unmanaged :: "agent \<Rightarrow> bool" where
  "unmanaged a \<longleftrightarrow> ag_role a = MEMBER \<and> is_active a \<and> ag_reports_to a = None"

definition repair_notice :: "string \<Rightarrow> agent \<Rightarrow> event_kind \<times> payload" where
  "repair_notice ceo a =
     (let name = py_join '' '' (filter (\<lambda>x. x \<noteq> []) [ag_first_name a, ag_last_name a]);
          display = (if name = [] then ag_id a else name);
          title = (case ag_role_title a of None \<Rightarrow> [] | Some t \<Rightarrow> if t = [] then [] else '' ('' @ t @ '')'') in
      (MESSAGE_SENT,
       [(''from_agent'', JStr ''system''), (''to_agent'', JStr ceo),
        (''content'', JStr (''Repaired unmanaged agent '' @ display @ title @ ''. Agent ID '' @ ag_id a @
           '' now reports to the CEO.''))]))"

definition repair_unmanaged :: "string \<Rightarrow> 'x office_scheme \<Rightarrow> (unit, 'x office_scheme) outcome" where
  "repair_unmanaged who w =
     (case map_of (of_bootstrap_ids w) ''ceo'' of
        None \<Rightarrow> (Inr (), w)
      | Some ceo \<Rightarrow>
          if ceo = [] then (Inr (), w)
          else
            let rows = filter unmanaged (og_agents (sv_org w)) in
            if rows = [] then (Inr (), w)
            else
              on_events (append_all (map (repair_notice ceo) rows) (Some who))
                (w\<lparr>sv_org := (sv_org w)\<lparr>og_agents :=
                     map (\<lambda>a. if unmanaged a then set_reports_to (Some ceo) a else a) (og_agents (sv_org w))\<rparr>\<rparr>))"


section \<open>What a notice leaves alone\<close>

lemma or_event_parts [simp]:
  "or_consumers (snd (or_event k p a c s)) = or_consumers s" "or_agents (snd (or_event k p a c s)) = or_agents s"
  "or_identity (snd (or_event k p a c s)) = or_identity s"
  by (simp_all add: or_event_def split: prod.split)

lemma or_event_log: "log_extends (or_events s) (or_events (snd (or_event k p a c s)))"
  using es_append_extends[of "or_events s" "Inl k" p a c] by (simp add: or_event_def case_prod_beta)

definition same_roster :: "orch \<Rightarrow> orch \<Rightarrow> bool" where
  "same_roster s t \<longleftrightarrow>
     or_consumers t = or_consumers s \<and> or_agents t = or_agents s \<and> or_identity t = or_identity s \<and>
     log_extends (or_events s) (or_events t)"

lemma same_roster_refl [simp]: "same_roster s s"
  by (simp add: same_roster_def)

lemma same_roster_trans: "same_roster s t \<Longrightarrow> same_roster t u \<Longrightarrow> same_roster s u"
  by (auto simp: same_roster_def intro: log_extends_trans)

lemma same_roster_event: "same_roster s (snd (or_event k p a c s))"
  by (simp add: same_roster_def or_event_log)

lemma same_roster_cong: "same_roster s t \<Longrightarrow> or_consumers u = or_consumers t \<Longrightarrow> or_agents u = or_agents t \<Longrightarrow>
   or_identity u = or_identity t \<Longrightarrow> or_events u = or_events t \<Longrightarrow> same_roster s u"
  by (simp add: same_roster_def)

lemma same_roster_andthen:
  assumes "same_roster s (snd m)" and "\<And>a t. same_roster s t \<Longrightarrow> same_roster s (snd (f a t))"
  shows "same_roster s (snd (andthen m f))"
  using assms by (cases m; cases "fst m") auto

lemma enqueue_roster: "same_roster s (snd (or_enqueue f t c corr k s))"
proof (cases "truthy corr \<and> mq_has_correlation (or_queue s) t (the corr)")
  case True
  then show ?thesis by (simp add: or_enqueue_def)
next
  case False
  obtain n s1 where now: "or_call_now s = (n, s1)" by (meson surj_pair)
  then have s1: "same_roster s s1" by (auto simp: or_call_now_def same_roster_def)
  define env where "env = envelope_new (or_hex s (or_reads s)) f t c k corr n"
  obtain r q where q: "mq_push env (or_queue s1) = (r, q)" by (meson surj_pair)
  have s2: "same_roster s (s1\<lparr>or_queue := q\<rparr>)" by (rule same_roster_cong[OF s1]) simp_all
  have ev: "same_roster s (snd (or_event kd p a cc (s1\<lparr>or_queue := q\<rparr>)))" for kd p a cc
    by (rule same_roster_trans[OF s2 same_roster_event])
  show ?thesis
  proof (cases r)
    case (Inl e)
    with False now q show ?thesis
      by (auto simp: or_enqueue_def Let_def env_def intro!: same_roster_andthen ev)
  next
    case (Inr x)
    from False now q Inr show ?thesis
      by (simp add: or_enqueue_def Let_def env_def or_call_now_def)
         (rule same_roster_andthen[OF ev], simp add: same_roster_def)
  qed
qed

lemma system_send_roster: "same_roster s (snd (or_system_send t c k corr s))"
proof -
  have "or_system_send t c k corr s =
      (case or_gate None t c s of Reject r \<Rightarrow> (Inr r, s) | NotDeliverable \<Rightarrow> (Inr REJECTED_INVALID_TARGET, s)
       | Pass \<Rightarrow> or_enqueue None t c corr k s)"
    by (simp add: or_system_send_def or_send.simps[of None] split: gate.split)
  then show ?thesis by (simp add: enqueue_roster split: gate.split)
qed

text \<open>What only notices and registrations happened to.\<close>

definition same_company :: "'x office_scheme \<Rightarrow> 'x office_scheme \<Rightarrow> bool" where
  "same_company w u \<longleftrightarrow>
     sv_org u = sv_org w \<and> sv_cost u = sv_cost w \<and> sv_appr u = sv_appr w \<and> pf_feedback u = pf_feedback w \<and>
     of_workspace u = of_workspace w \<and> of_memory u = of_memory w \<and> of_agents u = of_agents w \<and>
     map_option or_consumers (of_orch u) = map_option or_consumers (of_orch w) \<and>
     map_option or_agents (of_orch u) = map_option or_agents (of_orch w) \<and>
     log_extends (sv_events w) (sv_events u)"

lemma same_company_refl [simp]: "same_company w w"
  by (simp add: same_company_def)

lemma same_company_trans: "same_company w u \<Longrightarrow> same_company u v \<Longrightarrow> same_company w v"
  by (auto simp: same_company_def intro: log_extends_trans)

lemma on_orch_same:
  assumes "of_orch w = Some o_r" and "\<And>s. same_roster s (snd (f s))"
  shows "same_company w (snd (on_orch o_r f w))"
  using assms(2)[of "orch_in o_r w"] assms(1)
  by (simp add: on_orch_def orch_out_def orch_in_def same_company_def same_roster_def case_prod_beta)

lemma andthen_snd: "snd (andthen m (\<lambda>_ w. (Inr (), w))) = snd m"
  by (cases m; cases "fst m") auto

lemma tell_same: "same_company w (snd (tell t c w))"
  by (cases "of_orch w") (simp_all add: tell_def andthen_snd on_orch_same system_send_roster)

lemma same_company_andthen:
  assumes "same_company w (snd m)" and "\<And>a v. same_company w v \<Longrightarrow> same_company w (snd (f a v))"
  shows "same_company w (snd (andthen m f))"
  using assms by (cases m; cases "fst m") auto

lemma notify_same: "same_company w (snd (notify_hire lead_in rec title desc manager requester w))"
  unfolding notify_hire_def Let_def
  by (intro same_company_andthen tell_same) (auto intro: same_company_trans tell_same same_company_andthen)

section \<open>What a hire does\<close>

lemma create_keeps_emitted: "ws_emitted (snd (ws_create_for_agent now i mb ws)) = ws_emitted ws"
  by (simp add: ws_create_for_agent_def ws_mkdir_def split: sum.split)

lemma create_row:
  "fst (ws_create_for_agent now i mb ws) = Inr () \<Longrightarrow>
     \<exists>r. tbl_find wr_agent_id i (ws_rows (snd (ws_create_for_agent now i mb ws))) = Some r \<and>
         wr_quota r = megabytes mb \<and> wr_used r = 0"
  by (auto simp: ws_create_for_agent_def ws_mkdir_def tbl_find_append split: if_splits sum.splits)

lemma on_ws_silent:
  assumes "ws_emitted (snd (f (of_workspace w))) = ws_emitted (of_workspace w)"
  shows "on_ws f w = (fst (f (of_workspace w)), w\<lparr>of_workspace := snd (f (of_workspace w))\<rparr>)"
  using assms by (cases "f (of_workspace w)") (simp add: on_ws_def)


text \<open>The stages of a hire that succeeds.\<close>

lemma andthen_run:
  assumes "andthen m f = (Inr y, u)"
  obtains a v where "m = (Inr a, v)" and "f a v = (Inr y, u)"
  using assms by (cases m; cases "fst m") auto

lemma activate_run:
  assumes "activate_member env i w = (Inr (), u)"
  shows "sv_org u = sv_org w \<and> sv_cost u = sv_cost w \<and> sv_appr u = sv_appr w \<and> i \<in> set (of_agents u) \<and>
    set (of_agents u) \<subseteq> insert i (set (of_agents w)) \<and>
    of_orch u = map_option (or_register i) (of_orch w) \<and>
    (\<exists>r. tbl_find wr_agent_id i (ws_rows (of_workspace u)) = Some r \<and>
         wr_quota r = megabytes (of_quota_mb w) \<and> wr_used r = 0)"
proof -
  let ?ws = "ws_create_for_agent (he_now env) i (of_quota_mb w)"
  have emit: "on_ws ?ws w = (fst (?ws (of_workspace w)), w\<lparr>of_workspace := snd (?ws (of_workspace w))\<rparr>)"
    by (rule on_ws_silent) (rule create_keeps_emitted)
  obtain x w1 where w1: "on_ws ?ws w = (Inr x, w1)"
    using assms by (cases "on_ws ?ws w"; cases "fst (on_ws ?ws w)") (auto simp: activate_member_def)
  then have ok: "fst (?ws (of_workspace w)) = Inr ()" and w1': "w1 = w\<lparr>of_workspace := snd (?ws (of_workspace w))\<rparr>"
    using emit by auto
  have "u = w1\<lparr>of_agents := List.insert i (of_agents w1), of_orch := map_option (or_register i) (of_orch w1)\<rparr>"
    using assms w1 by (auto simp: activate_member_def Let_def split: option.splits)
  then show ?thesis using create_row[OF ok] by (auto simp: w1')
qed

definition live_member :: "string \<Rightarrow> 'x office_scheme \<Rightarrow> bool" where
  "live_member i w \<longleftrightarrow>
     i \<in> set (of_agents w) \<and> (case of_orch w of None \<Rightarrow> False | Some o_r \<Rightarrow> i \<in> set (or_agents o_r)) \<and>
     (case tbl_find wr_agent_id i (ws_rows (of_workspace w)) of None \<Rightarrow> False
      | Some r \<Rightarrow> wr_quota r = megabytes (of_quota_mb w))"

definition consumers_of :: "'x office_scheme \<Rightarrow> string list" where
  "consumers_of w = (case of_orch w of None \<Rightarrow> [] | Some o_r \<Rightarrow> or_consumers o_r)"

lemma register_parts [simp]:
  "or_consumers (or_register i s) = or_consumers s" "or_events (or_register i s) = or_events s"
  "i \<in> set (or_agents (or_register i s))"
  by (auto simp: or_register_def or_call_now_def)

lemma same_company_orch:
  assumes "same_company w u" and "of_orch w = Some o_r"
  obtains o_u where "of_orch u = Some o_u" and "or_consumers o_u = or_consumers o_r" and "or_agents o_u = or_agents o_r"
  using assms by (cases "of_orch u") (auto simp: same_company_def)

lemma quota_kept:
  "of_quota_mb (snd (tell t c w)) = of_quota_mb w"
  "of_quota_mb (snd (notify_hire lead_in rec title desc manager requester w)) = of_quota_mb w"
proof -
  have one: "of_quota_mb (snd (tell t c w)) = of_quota_mb w" for t c and w :: "'x office_scheme"
    by (cases "of_orch w") (simp_all add: tell_def andthen_snd on_orch_def orch_out_def case_prod_beta)
  show "of_quota_mb (snd (tell t c w)) = of_quota_mb w" by (rule one)
  have step: "of_quota_mb (snd (andthen m f)) = of_quota_mb w"
    if "of_quota_mb (snd m) = of_quota_mb w" "\<And>a v. of_quota_mb v = of_quota_mb w \<Longrightarrow> of_quota_mb (snd (f a v)) = of_quota_mb w"
    for m :: "(unit, 'x office_scheme) outcome" and f :: "unit \<Rightarrow> 'x office_scheme \<Rightarrow> (unit, 'x office_scheme) outcome"
    using that by (cases m; cases "fst m") auto
  show "of_quota_mb (snd (notify_hire lead_in rec title desc manager requester w)) = of_quota_mb w"
    unfolding notify_hire_def Let_def by (intro step) (simp_all add: one step)
qed

lemma cancel_duplicates_parts [simp]:
  "sv_org (cancel_duplicate_hires ts cl cur t m who w) = sv_org w"
  "sv_cost (cancel_duplicate_hires ts cl cur t m who w) = sv_cost w"
  "services.more (cancel_duplicate_hires ts cl cur t m who w) = services.more w"
  by (simp_all add: cancel_duplicate_hires_def split: json.split)


lemma on_org_run:
  assumes "on_org f w = (Inr a, u)"
  obtains s where "f (get_org w) = (Inr a, s)" and "u = put_org s w"
  using assms by (cases "f (get_org w)") (auto simp: through_def)

lemma put_org_office [simp]:
  "of_agents (put_org s w) = of_agents w" "of_orch (put_org s w) = of_orch w"
  "of_quota_mb (put_org s w) = of_quota_mb w" "of_workspace (put_org s w) = of_workspace w"
  by (simp_all add: put_org_def)

lemma activate_quota: "of_quota_mb (snd (activate_member env i w)) = of_quota_mb w"
proof -
  let ?ws = "ws_create_for_agent (he_now env) i (of_quota_mb w)"
  have "on_ws ?ws w = (fst (?ws (of_workspace w)), w\<lparr>of_workspace := snd (?ws (of_workspace w))\<rparr>)"
    by (rule on_ws_silent) (rule create_keeps_emitted)
  then show ?thesis
    by (cases "fst (?ws (of_workspace w))") (simp_all add: activate_member_def Let_def split: option.split)
qed

lemma hired_agent:
  assumes "org_add_agent i now r pr m by hr False f l t d s = (Inr a, u)"
  shows "og_agents (fst u) = og_agents (fst s) @ [a] \<and> ag_id a = i \<and> ag_role a = r \<and> ag_reports_to a = m \<and>
    is_active a \<and> hire_check (fst s) i r m False = None"
  using assms
  by (auto simp: org_add_agent_def Let_def is_active_def map_sum_def split: sum.splits option.splits if_splits prod.splits)

lemma hire_stages:
  assumes run: "hire_from_payload env p requester lead_in w = (Inr rec, u)"
  obtains w1 w2 t d manager f l s where
    "manager = py_strip (str_of_or (he_to_str env) (pget p ''reports_to'') [])"
    "org_add_agent (he_id env) (he_now env) MEMBER ''default'' (Some manager) requester True False f l (Some t) (Some d)
       (get_org w) = (Inr rec, s)"
    "w1 = put_org s w" "activate_member env (ag_id rec) w1 = (Inr (), w2)" "same_company w2 u"
    "of_quota_mb u = of_quota_mb w2"
proof -
  define fld where "fld = (\<lambda>k. str_of_or (he_to_str env) (pget p k) [])"
  define t where "t = py_strip (fld ''role_title'')"
  define d where "d = py_strip (fld ''role_description'')"
  define manager where "manager = py_strip (fld ''reports_to'')"
  define n where "n = (if clean_hire_name (fld ''first_name'') = [] \<or> clean_hire_name (fld ''last_name'') = []
    then fallback_member_name (sv_org w) else (clean_hire_name (fld ''first_name''), clean_hire_name (fld ''last_name'')))"
  let ?add = "org_add_agent (he_id env) (he_now env) MEMBER ''default'' (Some manager) requester True False
       (fst n) (snd n) (Some t) (Some d)"
  have run': "andthen (on_org ?add w) (\<lambda>rec w1. andthen (activate_member env (ag_id rec) w1)
      (\<lambda>_ w2. andthen (notify_hire lead_in rec t d manager requester w2) (\<lambda>_ w3. (Inr rec, w3)))) = (Inr rec, u)"
    using run by (auto simp: hire_from_payload_def Let_def n_def manager_def t_def d_def fld_def split: if_splits)
  then obtain a w1 where a: "on_org ?add w = (Inr a, w1)" and rest: "andthen (activate_member env (ag_id a) w1)
      (\<lambda>_ w2. andthen (notify_hire lead_in a t d manager requester w2) (\<lambda>_ w3. (Inr a, w3))) = (Inr rec, u)"
    by (rule andthen_run)
  from rest obtain x w2 where act: "activate_member env (ag_id a) w1 = (Inr x, w2)"
    and rest2: "andthen (notify_hire lead_in a t d manager requester w2) (\<lambda>_ w3. (Inr a, w3)) = (Inr rec, u)"
    by (rule andthen_run)
  from rest2 obtain y where told: "notify_hire lead_in a t d manager requester w2 = (Inr y, u)" and rec: "a = rec"
    by (rule andthen_run) auto
  from a obtain s where "?add (get_org w) = (Inr a, s)" and "w1 = put_org s w" by (rule on_org_run)
  moreover have "same_company w2 u" using notify_same[of w2 lead_in a t d manager requester] told by simp
  moreover have "of_quota_mb u = of_quota_mb w2" using quota_kept(2)[of lead_in a t d manager requester w2] told by simp
  ultimately show thesis
    using act rec that[of manager "fst n" "snd n" t d s w1 w2] by (simp add: manager_def fld_def)
qed

section \<open>Properties of the bootstrap\<close>

text \<open>
  C40. A hire that succeeds adds exactly one agent to the chart, an active member under the manager of the
  payload, spends nothing, and makes the agent live: workspace with the company's default quota, entry
  among the agents and in the routing table. It starts no consumer, so a member hired into a running
  company has nobody who delivers its messages until the company is started again.
\<close>

theorem hire_effect:
  assumes "hire_member env requester p w = (Inr (i, st), u)"
  shows "\<exists>a. og_agents (sv_org u) = og_agents (sv_org w) @ [a] \<and> ag_id a = i \<and> ag_role a = MEMBER \<and>
    is_active a \<and> ag_reports_to a = Some (py_strip (str_of_or (he_to_str env) (pget p ''reports_to'') [])) \<and>
    sv_cost u = sv_cost w \<and> live_member i u \<and> consumers_of u = consumers_of w"
proof -
  have orch: "of_orch w \<noteq> None" using assms by (auto simp: hire_member_def split: if_splits)
  obtain rec v where run: "hire_from_payload env p requester ''Hire completed.'' w = (Inr rec, v)"
    and i: "i = ag_id rec" and u: "u = cancel_duplicate_hires (he_to_str env) (he_clock env) None
      (pget p ''role_title'') (pget p ''reports_to'') requester v"
    using assms orch
    by (cases "hire_from_payload env p requester ''Hire completed.'' w";
        cases "fst (hire_from_payload env p requester ''Hire completed.'' w)") (auto simp: hire_member_def)
  from run obtain w1 w2 t d manager f l s where
    m: "manager = py_strip (str_of_or (he_to_str env) (pget p ''reports_to'') [])"
    and add: "org_add_agent (he_id env) (he_now env) MEMBER ''default'' (Some manager) requester True False f l
      (Some t) (Some d) (get_org w) = (Inr rec, s)"
    and w1: "w1 = put_org s w" and act: "activate_member env (ag_id rec) w1 = (Inr (), w2)"
    and same: "same_company w2 v" and mb: "of_quota_mb v = of_quota_mb w2"
    by (rule hire_stages)
  note a = hired_agent[OF add] and live = activate_run[OF act]
  have mb2: "of_quota_mb w2 = of_quota_mb w1" using activate_quota[of env "ag_id rec" w1] act by simp
  obtain o_r where o_r: "of_orch w = Some o_r" using orch by auto
  have "of_orch w2 = Some (or_register i o_r)" using live o_r by (simp add: w1 i)
  with same obtain o_u where o_u: "of_orch v = Some o_u" "or_consumers o_u = or_consumers o_r"
    "or_agents o_u = or_agents (or_register i o_r)"
    by (metis same_company_orch register_parts(1))
  have more: "of_orch u = of_orch v" "of_agents u = of_agents v" "of_workspace u = of_workspace v"
    "of_quota_mb u = of_quota_mb v"
    using cancel_duplicates_parts(3)[of "he_to_str env" "he_clock env" None "pget p ''role_title''"
      "pget p ''reports_to''" requester v]
    by (cases u; cases v; simp add: u)+
  have "live_member i u"
    using live same mb mb2 o_u by (auto simp: live_member_def more same_company_def i)
  moreover have "consumers_of u = consumers_of w" using o_u o_r by (simp add: consumers_of_def more)
  moreover have "sv_org v = fst s" and "sv_cost v = sv_cost w"
    using same live by (simp_all add: same_company_def w1)
  ultimately show ?thesis using a by (intro exI[of _ rec]) (simp add: u i m get_org_def)
qed


lemma paused_tell:
  assumes "of_orch w = Some o_r" and "\<not> ck_is_accepting_messages (or_clock o_r)"
  shows "\<exists>u. tell t c w = (Inr (), u) \<and> of_orch u = Some (orch_in o_r w)"
proof -
  let ?s = "orch_in o_r w"
  have "\<not> ck_is_accepting_messages (or_clock ?s)" using assms(2) by (simp add: orch_in_def)
  then have "or_gate None t c ?s \<noteq> Pass" by (simp add: or_gate_def)
  then have "\<exists>r. or_system_send t c NOTIFY None ?s = (Inr r, ?s)"
    by (cases "or_gate None t c ?s") (simp_all add: or_system_send_def or_send.simps[of None])
  then show ?thesis using assms(1) by (auto simp: tell_def on_orch_def orch_out_def)
qed

lemma paused_again:
  assumes "of_orch w = Some o_r" and "\<not> ck_is_accepting_messages (or_clock o_r)"
  obtains u o_u where "tell t c w = (Inr (), u)" "of_orch u = Some o_u" "\<not> ck_is_accepting_messages (or_clock o_u)"
  using paused_tell[OF assms, of t c] assms(2) that by (auto simp: orch_in_def)

lemma paused_notify:
  assumes "of_orch w = Some o_r" and "\<not> ck_is_accepting_messages (or_clock o_r)"
  shows "\<exists>u. notify_hire lead_in rec title desc manager requester w = (Inr (), u)"
proof -
  have "\<exists>u. andthen (tell a x w) (\<lambda>_ w1. andthen (tell b y w1)
      (\<lambda>_ w2. if q then tell d z w2 else (Inr (), w2))) = (Inr (), u)" for a b d x y z q
  proof -
    obtain w1 o1 where 1: "tell a x w = (Inr (), w1)" "of_orch w1 = Some o1" "\<not> ck_is_accepting_messages (or_clock o1)"
      by (rule paused_again[OF assms])
    obtain w2 o2 where 2: "tell b y w1 = (Inr (), w2)" "of_orch w2 = Some o2" "\<not> ck_is_accepting_messages (or_clock o2)"
      by (rule paused_again[OF 1(2,3)])
    obtain w3 o3 where "tell d z w2 = (Inr (), w3)" "of_orch w3 = Some o3" "\<not> ck_is_accepting_messages (or_clock o3)"
      by (rule paused_again[OF 2(2,3)])
    with 1 2 show ?thesis by simp
  qed
  then show ?thesis by (simp add: notify_hire_def Let_def)
qed

section \<open>A small company at work\<close>

definition staff_member :: "string \<Rightarrow> role \<Rightarrow> string option \<Rightarrow> agent" where
  "staff_member i r m =
     demo_agent\<lparr>ag_id := i, ag_role := r, ag_reports_to := m\<rparr>"

definition chart_of :: "agent list \<Rightarrow> org" where
  "chart_of as = \<lparr>og_agents = as, og_fire_pending = [], og_fire_requests = []\<rparr>"

definition office_of :: "agent list \<Rightarrow> office" where
  "office_of as =
     \<lparr>sv_org = chart_of as, sv_cost = sv_cost demo_services, sv_appr = fst demo_appr0, sv_events = demo_store,
      pf_feedback = [], of_workspace = demo_ws0, of_memory = demo_memory,
      of_orch = Some (or_create ''acme'' (chart_of as) demo_store ((ck_create 0 None None)\<lparr>ck_state := PAUSED\<rparr>)
        None None None None (\<lambda>n. int n) (\<lambda>n. of_nat n) (\<lambda>n. ''0123456789ab'') (\<lambda>_. AS_IDLE)
        (\<lambda>_. \<lparr>hs_last_heartbeat = 0, hs_consecutive_errors = 0, hs_parse_failures = 0,
               hs_repeat_response_count = 0, hs_avg_turn_seconds = 0, hs_total_turns = 0\<rparr>)),
      of_performance = True, of_connector = True, of_agents = map ag_id as,
      of_bootstrap_ids = [(''ceo'', ''ceo'')], of_quota_mb = 1\<rparr>"

definition demo_hire :: hire_env where
  "demo_hire =
     \<lparr>he_to_str = (\<lambda>_. ''x''), he_id = ''new'', he_now = 5, he_clock = (\<lambda>_. 6), he_llm = (\<lambda>_. None),
      he_start = (\<lambda>_. None)\<rparr>"

definition hire_args :: payload where
  "hire_args = [(''role_title'', JStr ''Dev''), (''role_description'', JStr ''code''), (''reports_to'', JStr ''ceo''),
     (''first_name'', JStr ''Ada''), (''last_name'', JStr ''Ray'')]"

lemma demo_added:
  "(case org_add_agent ''new'' 5 MEMBER ''default'' (Some ''ceo'') ''hr'' True False ''Ada'' ''Ray'' (Some ''Dev'')
      (Some ''code'') (chart_of [staff_member ''ceo'' CEO None], demo_store) of
    (Inl _, _) \<Rightarrow> False | (Inr a, _) \<Rightarrow> ag_id a = ''new'')"
  by code_simp

lemma demo_created: "fst (ws_create_for_agent 5 ''new'' 1 demo_ws0) = Inr ()"
  by code_simp

lemma demo_names: "clean_hire_name ''Ada'' = ''Ada'' \<and> clean_hire_name ''Ray'' = ''Ray'' \<and>
   py_strip ''Dev'' = ''Dev'' \<and> py_strip ''code'' = ''code'' \<and> py_strip ''ceo'' = ''ceo''"
  by code_simp

lemma demo_hired:
  "\<exists>u. hire_member demo_hire ''hr'' hire_args (office_of [staff_member ''ceo'' CEO None]) = (Inr (''new'', ''hired''), u)"
proof -
  let ?w = "office_of [staff_member ''ceo'' CEO None]"
  let ?add = "org_add_agent ''new'' 5 MEMBER ''default'' (Some ''ceo'') ''hr'' True False ''Ada'' ''Ray'' (Some ''Dev'')
      (Some ''code'')"
  have get: "get_org ?w = (chart_of [staff_member ''ceo'' CEO None], demo_store)"
    by (simp add: get_org_def office_of_def)
  obtain a s where a: "?add (get_org ?w) = (Inr a, s)" and i: "ag_id a = ''new''"
    using demo_added get by (auto split: prod.splits sum.splits)
  define w1 where "w1 = put_org s ?w"
  have w1: "on_org ?add ?w = (Inr a, w1)" using a by (simp add: through_def w1_def)
  have parts: "of_workspace w1 = demo_ws0" "of_quota_mb w1 = 1" "of_orch w1 = of_orch ?w"
    by (simp_all add: w1_def office_of_def)
  have emit: "on_ws (ws_create_for_agent 5 ''new'' 1) w1 =
      (Inr (), w1\<lparr>of_workspace := snd (ws_create_for_agent 5 ''new'' 1 demo_ws0)\<rparr>)"
    using on_ws_silent[of "ws_create_for_agent 5 ''new'' 1" w1] create_keeps_emitted[of 5 "''new''" 1 demo_ws0]
    by (simp add: parts demo_created)
  define w2 where "w2 = w1\<lparr>of_workspace := snd (ws_create_for_agent 5 ''new'' 1 demo_ws0),
     of_agents := List.insert ''new'' (of_agents w1), of_orch := map_option (or_register ''new'') (of_orch w1)\<rparr>"
  have act: "activate_member demo_hire ''new'' w1 = (Inr (), w2)"
    using emit by (simp add: activate_member_def demo_hire_def parts w2_def Let_def)
  obtain o_r where o_r: "of_orch w2 = Some o_r" "\<not> ck_is_accepting_messages (or_clock o_r)"
    by (simp add: w2_def parts office_of_def or_create_def ck_is_accepting_messages_def or_register_def or_call_now_def)
  obtain u where u: "notify_hire ''Hire completed.'' a ''Dev'' ''code'' ''ceo'' ''hr'' w2 = (Inr (), u)"
    using paused_notify[OF o_r] by blast
  have "hire_from_payload demo_hire hire_args ''hr'' ''Hire completed.'' ?w = (Inr a, u)"
    using w1 act u demo_names i
    by (simp add: hire_from_payload_def hire_args_def pget_def str_of_or_def Let_def demo_hire_def)
  then show ?thesis by (simp add: hire_member_def office_of_def i)
qed

lemma hire_effect_witness:
  "\<exists>u :: office. ''new'' \<in> org_ids (sv_org u) \<and> live_member ''new'' u \<and> ''new'' \<notin> set (consumers_of u)"
proof -
  obtain u where u: "hire_member demo_hire ''hr'' hire_args (office_of [staff_member ''ceo'' CEO None]) =
      (Inr (''new'', ''hired''), u)" using demo_hired by blast
  have "consumers_of (office_of [staff_member ''ceo'' CEO None]) = []"
    by (simp add: consumers_of_def office_of_def or_create_def)
  with hire_effect[OF u] show ?thesis by (intro exI[of _ u]) (auto simp: org_ids_def)
qed


text \<open>
  The repair at start-up leaves no active member without a manager, changes nothing about the
  managed ones, and spends nothing; it does not look at the number of reports the CEO may have.
\<close>

theorem repair_manages_everyone:
  assumes "map_of (of_bootstrap_ids w) ''ceo'' = Some ceo" and "ceo \<noteq> []"
  shows "og_agents (sv_org (snd (repair_unmanaged who w))) =
      map (\<lambda>a. if unmanaged a then set_reports_to (Some ceo) a else a) (og_agents (sv_org w)) \<and>
    filter unmanaged (og_agents (sv_org (snd (repair_unmanaged who w)))) = [] \<and>
    sv_cost (snd (repair_unmanaged who w)) = sv_cost w"
proof -
  let ?fix = "\<lambda>a. if unmanaged a then set_reports_to (Some ceo) a else a"
  have none: "filter unmanaged (map ?fix as) = []" for as
    by (induction as) (auto simp: unmanaged_def set_reports_to_def)
  show ?thesis
  proof (cases "filter unmanaged (og_agents (sv_org w)) = []")
    case True
    then have "map ?fix (og_agents (sv_org w)) = og_agents (sv_org w)"
      by (auto simp: filter_empty_conv intro!: map_idI)
    with True assms show ?thesis by (simp add: repair_unmanaged_def)
  next
    case False
    with assms show ?thesis
      by (simp add: repair_unmanaged_def through_def case_prod_beta put_events_def none Let_def)
  qed
qed

definition crowded :: office where
  "crowded = office_of (staff_member ''ceo'' CEO None # staff_member ''x'' MEMBER None #
     map (\<lambda>c. staff_member [c] MEMBER (Some ''ceo'')) ''abcde'')"

lemma repair_manages_everyone_witness:
  "filter unmanaged (og_agents (sv_org (snd (repair_unmanaged ''board'' crowded)))) = []"
proof -
  have "map_of (of_bootstrap_ids crowded) ''ceo'' = Some ''ceo''" by (simp add: crowded_def office_of_def)
  then show ?thesis by (rule repair_manages_everyone[THEN conjunct2, THEN conjunct1]) simp
qed

text \<open>The repair can break the span of control: five reports and an orphan make six.\<close>

theorem repair_exceeds_span:
  "staff_ok (sv_org crowded) \<and> \<not> staff_ok (sv_org (snd (repair_unmanaged ''board'' crowded)))"
proof -
  have "map_of (of_bootstrap_ids crowded) ''ceo'' = Some ''ceo''" by (simp add: crowded_def office_of_def)
  then have "og_agents (sv_org (snd (repair_unmanaged ''board'' crowded))) =
      map (\<lambda>a. if unmanaged a then set_reports_to (Some ''ceo'') a else a) (og_agents (sv_org crowded))"
    by (simp add: repair_unmanaged_def through_def case_prod_beta put_events_def crowded_def office_of_def
        chart_of_def unmanaged_def staff_member_def demo_agent_def is_active_def)
  then show ?thesis
    by (auto simp: crowded_def office_of_def chart_of_def staff_ok_def staff_member_def demo_agent_def is_active_def
        unmanaged_def set_reports_to_def org_direct_report_count_def reports_under_def direct_report_limit_def
        org_active_count_def MAX_ACTIVE_AGENTS_def)
qed

text \<open>A member whose LLM client cannot be built stays in the chart, active, and is not live.\<close>

theorem failed_hire_leaves_member:
  assumes "org_add_agent (he_id env) (he_now env) MEMBER ''default'' (Some manager) requester True False f l (Some t)
      (Some d) (get_org w) = (Inr rec, s)" and "he_llm env (he_id env) = Some e"
    and "fst (ws_create_for_agent (he_now env) (he_id env) (of_quota_mb w) (of_workspace w)) = Inr ()"
  shows "\<exists>u. activate_member env (ag_id rec) (put_org s w) = (Inl e, u) \<and>
    rec \<in> set (og_agents (sv_org u)) \<and> is_active rec \<and> of_agents u = of_agents w"
proof -
  note a = hired_agent[OF assms(1)]
  let ?w = "put_org s w"
  have "on_ws (ws_create_for_agent (he_now env) (he_id env) (of_quota_mb w)) ?w =
      (Inr (), ?w\<lparr>of_workspace := snd (ws_create_for_agent (he_now env) (he_id env) (of_quota_mb w) (of_workspace w))\<rparr>)"
    using on_ws_silent[of "ws_create_for_agent (he_now env) (he_id env) (of_quota_mb w)" ?w] assms(3)
      create_keeps_emitted by simp
  with a assms(2) show ?thesis by (simp add: activate_member_def)
qed

text \<open>
  A fresh company has its three bootstrap agents, and a restart finds exactly them again.
\<close>

theorem bootstrap_is_found_again:
  assumes "og_agents (fst s) = []"
    and "bootstrap_core_agents i1 i2 i3 now by_id s = (Inr (ceo, hr, sec), t)"
  shows "existing_core_ids (fst t) = Inr [(''ceo'', i1), (''hr'', i2), (''security'', i3)] \<and>
    ag_reports_to hr = Some i1 \<and> ag_reports_to sec = Some i1 \<and> distinct [i1, i2, i3]"
proof -
  have step: "og_agents (fst u) = og_agents (fst x) @ [a] \<and> ag_id a = i \<and> ag_role a = r \<and> ag_reports_to a = m \<and>
      ag_status a = ACTIVE \<and> ag_hired_at a = now \<and> tbl_find ag_id i (og_agents (fst x)) = None"
    if "core_member i now r m by_id fn ln x = (Inr a, u)" for i r m fn ln x a u
    using that unfolding core_member_def
    by (auto simp: org_add_agent_def Let_def map_sum_def split: sum.splits option.splits if_splits prod.splits)
  obtain s1 where 1: "core_member i1 now CEO None by_id ''Alex'' ''Morgan'' s = (Inr ceo, s1)"
    and r1: "andthen (core_member i2 now HR (Some (ag_id ceo)) by_id ''Jordan'' ''Lee'' s1)
      (\<lambda>hr s2. andthen (core_member i3 now SECURITY (Some (ag_id ceo)) by_id ''Casey'' ''Chen'' s2)
         (\<lambda>sec s3. (Inr (ceo, hr, sec), s3))) = (Inr (ceo, hr, sec), t)"
    using assms(2) unfolding bootstrap_core_agents_def by (auto elim!: andthen_run)
  obtain s2 where 2: "core_member i2 now HR (Some (ag_id ceo)) by_id ''Jordan'' ''Lee'' s1 = (Inr hr, s2)"
    and 3: "core_member i3 now SECURITY (Some (ag_id ceo)) by_id ''Casey'' ''Chen'' s2 = (Inr sec, t)"
    using r1 by (auto elim!: andthen_run)
  show ?thesis
    using step[OF 1] step[OF 2] step[OF 3] assms(1)
    by (auto simp: existing_core_ids_def core_roles_def first_active_def org_all_def tbl_find_append Let_def
        split: if_splits)
qed


lemma bootstrap_is_found_again_witness:
  "\<exists>t. snd (bootstrap_core_agents ''a'' ''b'' ''c'' 0 ''board'' demo_org0) = t \<and>
     existing_core_ids (fst t) = Inr [(''ceo'', ''a''), (''hr'', ''b''), (''security'', ''c'')]"
proof -
  let ?m = "bootstrap_core_agents ''a'' ''b'' ''c'' 0 ''board'' demo_org0"
  have "(case ?m of (Inl _, _) \<Rightarrow> False | (Inr _, _) \<Rightarrow> True)" by code_simp
  then obtain x t where m: "?m = (Inr x, t)" by (cases ?m) (auto split: sum.splits)
  obtain c h k where x: "x = (c, h, k)" by (cases x)
  have "og_agents (fst demo_org0) = []" by (simp add: demo_org0_def)
  from bootstrap_is_found_again[OF this m[unfolded x]] m show ?thesis by (intro exI[of _ t]) simp
qed

end
