(* ===== verification/Tools_Builtin.thy ===== *)
theory Tools_Builtin
  imports Tools_Service Company_Bootstrap
begin

text \<open>
  \<^verbatim>\<open>modules/tools/builtin.py\<close>: the built-in tools, each with its argument class, its executor on the
  running company and its entry in the registry. Pydantic's validation of a class is the field
  \<open>be_validate\<close> of the environment; its documented behaviour is the locale \<open>pydantic_args\<close>. Also
  fields are the descriptions (prose), the decoding of bytes with replacement characters, the texts
  of amounts read as decimals, the conversion of a similarity to a float, and the fresh ids; the one
  clock reading of a call is the time the pipeline passes. An endless walk up the chart, which no
  reachable chart has, is reported as a RuntimeError. Dashes in texts are written "-".
\<close>

section \<open>Argument classes\<close>

datatype arg_rule = MinLen nat | MaxLen nat | Ge int | Le int | OneOf "string list"

type_synonym arg_class = "(string \<times> ftype \<times> fdefault \<times> arg_rule list) list"

definition SendMessageArgs :: arg_class where
  "SendMessageArgs =
     [(''recipient_id'', TStr, Required, [MinLen 1]), (''body'', TStr, Required, [MinLen 1, MaxLen 64000])]"

definition WriteWorkspaceArgs :: arg_class where
  "WriteWorkspaceArgs = [(''path'', TStr, Required, [MinLen 1]), (''content'', TStr, Required, [])]"

definition ReadWorkspaceArgs :: arg_class where
  "ReadWorkspaceArgs = [(''path'', TStr, Required, [MinLen 1])]"

definition ListWorkspaceArgs :: arg_class where
  "ListWorkspaceArgs = [(''path'', TStr, Default (JStr []), [])]"

definition ReadSubordinateArgs :: arg_class where
  "ReadSubordinateArgs = [(''owner_id'', TStr, Required, [MinLen 1]), (''path'', TStr, Required, [MinLen 1])]"

definition RecallArgs :: arg_class where
  "RecallArgs = [(''query'', TStr, Required, [MinLen 1]), (''k'', TInt, Default (JInt 5), [Ge 1, Le 50])]"

definition RememberFactArgs :: arg_class where
  "RememberFactArgs = [(''key'', TStr, Required, [MinLen 1, MaxLen 200]), (''value'', TStr, Required, [MinLen 1])]"

definition SummariseArgs :: arg_class where
  "SummariseArgs = [(''summary'', TStr, Required, [MinLen 1, MaxLen 8000])]"

definition ReportArgs :: arg_class where
  "ReportArgs = [(''body'', TStr, Required, [MinLen 1, MaxLen 16000])]"

definition EscalateArgs :: arg_class where
  "EscalateArgs = [(''body'', TStr, Required, [MinLen 1, MaxLen 16000])]"

definition ProposeHireArgs :: arg_class where
  "ProposeHireArgs =
     [(''first_name'', TOptStr, Default JNull, [MaxLen 120]), (''last_name'', TOptStr, Default JNull, [MaxLen 120]),
      (''role_title'', TStr, Required, [MinLen 1, MaxLen 120]),
      (''role_description'', TStr, Required, [MinLen 1, MaxLen 8000]),
      (''reports_to'', TStr, Required, [MinLen 1]), (''rationale'', TStr, Required, [MinLen 1, MaxLen 8000])]"

definition ProposeFireArgs :: arg_class where
  "ProposeFireArgs =
     [(''target_agent_id'', TStr, Required, [MinLen 1]), (''reason'', TStr, Required, [MinLen 1, MaxLen 8000])]"

definition GiveFeedbackArgs :: arg_class where
  "GiveFeedbackArgs =
     [(''target_id'', TStr, Required, [MinLen 1]), (''rating'', TInt, Required, [Ge 1, Le 5]),
      (''note'', TStr, Required, [MinLen 1, MaxLen 8000])]"

definition ProposeRoleChangeArgs :: arg_class where
  "ProposeRoleChangeArgs =
     [(''target_id'', TStr, Required, [MinLen 1]), (''new_role_title'', TStr, Required, [MinLen 1, MaxLen 120]),
      (''new_role_description'', TStr, Required, [MinLen 1, MaxLen 8000]),
      (''rationale'', TStr, Required, [MinLen 1, MaxLen 8000])]"

definition ProposeReassignArgs :: arg_class where
  "ProposeReassignArgs =
     [(''target_id'', TStr, Required, [MinLen 1]), (''new_reports_to'', TStr, Required, [MinLen 1]),
      (''reason'', TStr, Required, [MinLen 8, MaxLen 8000])]"

definition approval_kinds :: "approval_kind list" where
  "approval_kinds =
     [AK_HIRE, AK_FIRE_DEPTH_1, AK_EXPENSE, AK_EXTERNAL_ACTION, AK_INTER_COMPANY_LINK, AK_SECURITY_FLAG,
      AK_BUDGET_INCREASE, AK_ROLE_CHANGE]"

definition RequestApprovalArgs :: arg_class where
  "RequestApprovalArgs =
     [(''kind'', TStr, Required, [OneOf (map approval_kind_value approval_kinds)]),
      (''payload'', TObj, Default (JObj []), [])]"

definition EmptyArgs :: arg_class where "EmptyArgs = []"

definition OrgChartArgs :: arg_class where "OrgChartArgs = []"

definition ExternalCallArgs :: arg_class where
  "ExternalCallArgs =
     [(''service'', TStr, Required, [MinLen 1]), (''endpoint'', TStr, Required, [MinLen 1]),
      (''payload'', TObj, Default (JObj []), []), (''estimated_cost_usd'', TStr, Default (JStr ''0.00''), [])]"

definition PayInvoiceArgs :: arg_class where
  "PayInvoiceArgs =
     [(''vendor'', TStr, Required, [MinLen 1]), (''amount_usd'', TStr, Required, [MinLen 1]),
      (''description'', TStr, Default (JStr []), [MaxLen 2000])]"

definition RegisterSubArgs :: arg_class where
  "RegisterSubArgs =
     [(''description'', TStr, Required, [MinLen 1]), (''amount_usd'', TStr, Required, [MinLen 1]),
      (''period_days'', TInt, Default (JInt 30), [Ge 1, Le 365])]"

text \<open>What an instance of a class is.\<close>

fun arg_rule_ok :: "arg_rule \<Rightarrow> json \<Rightarrow> bool" where
  "arg_rule_ok (MinLen n) (JStr s) = (n \<le> length s)"
| "arg_rule_ok (MaxLen n) (JStr s) = (length s \<le> n)"
| "arg_rule_ok (Ge i) (JInt j) = (i \<le> j)"
| "arg_rule_ok (Le i) (JInt j) = (j \<le> i)"
| "arg_rule_ok (OneOf ss) (JStr s) = (s \<in> set ss)"
| "arg_rule_ok _ j = (j = JNull)"

definition args_ok :: "arg_class \<Rightarrow> payload \<Rightarrow> bool" where
  "args_ok cls p \<longleftrightarrow>
     map fst p = map fst cls \<and>
     list_all (\<lambda>(n, t, d, rs). has_ftype t (pget p n) \<and> list_all (\<lambda>r. arg_rule_ok r (pget p n)) rs) cls"

text \<open>The arguments with the defaults filled in.\<close>

definition args_dump :: "arg_class \<Rightarrow> payload \<Rightarrow> payload" where
  "args_dump cls p = payload_dump (map (\<lambda>(n, t, d, rs). (n, t, d)) cls) p"

type_synonym arg_validator = "arg_class \<Rightarrow> payload \<Rightarrow> string + payload"

locale pydantic_args =
  fixes validate :: arg_validator
  assumes instances: "validate cls p = Inr q \<Longrightarrow> args_ok cls q"
    and complete_args: "distinct (map fst p) \<Longrightarrow> fst ` set p \<subseteq> fst ` set cls \<Longrightarrow> args_ok cls (args_dump cls p) \<Longrightarrow>
      validate cls p = Inr (args_dump cls p)"

definition strict_args :: arg_validator where
  "strict_args cls p =
     (if distinct (map fst p) \<and> list_all (\<lambda>kv. fst kv \<in> fst ` set cls) p \<and> args_ok cls (args_dump cls p)
      then Inr (args_dump cls p) else Inl ''invalid'')"

interpretation strict_args: pydantic_args strict_args
  by unfold_locales (auto simp: strict_args_def list_all_iff split: if_splits)

definition arg_str :: "payload \<Rightarrow> string \<Rightarrow> string" where
  "arg_str p k = (case pget p k of JStr s \<Rightarrow> s | _ \<Rightarrow> [])"

definition arg_int :: "payload \<Rightarrow> string \<Rightarrow> int" where
  "arg_int p k = (case pget p k of JInt i \<Rightarrow> i | _ \<Rightarrow> 0)"

definition arg_obj :: "payload \<Rightarrow> string \<Rightarrow> payload" where
  "arg_obj p k = (case pget p k of JObj kvs \<Rightarrow> kvs | _ \<Rightarrow> [])"

section \<open>The environment\<close>

record builtin_env =
  be_validate :: arg_validator
  be_description :: "string \<Rightarrow> string"
  be_decode :: "string \<Rightarrow> string"
  be_decimal :: "string \<Rightarrow> exn + rat"
  be_float :: "real \<Rightarrow> rat"
  be_fresh :: "tool_context \<Rightarrow> string"
  be_hire_env :: "tool_context \<Rightarrow> hire_env"
  be_hire_ready :: bool

text \<open>An instance of one of the output classes.\<close>

definition mk_out :: "string \<Rightarrow> payload \<Rightarrow> output_model" where
  "mk_out cls p = \<lparr>om_classes = [cls, ''_Strict'', ''BaseModel''], om_dump = p\<rparr>"

type_synonym 'x executor = "tool_context \<Rightarrow> int \<Rightarrow> payload \<Rightarrow> 'x office_scheme \<Rightarrow> (output_model, 'x office_scheme) outcome"


section \<open>Communication and workspace\<close>

definition send_result_value :: "send_result \<Rightarrow> string" where
  "send_result_value r =
     (case r of QUEUED \<Rightarrow> ''queued'' | REJECTED_PAUSED \<Rightarrow> ''rejected_paused''
      | REJECTED_RATE_LIMIT \<Rightarrow> ''rejected_rate_limit'' | REJECTED_LOOP \<Rightarrow> ''rejected_loop''
      | REJECTED_INVALID_TARGET \<Rightarrow> ''rejected_invalid_target'' | REJECTED_DUPLICATE \<Rightarrow> ''rejected_duplicate''
      | REJECTED_TOO_LARGE \<Rightarrow> ''rejected_too_large'')"

text \<open>The audit event of a message that bypasses the orchestrator.\<close>

definition log_message :: "tool_context \<Rightarrow> string \<Rightarrow> string \<Rightarrow> 'x services_scheme \<Rightarrow> (unit, 'x services_scheme) outcome" where
  "log_message ctx to_a body w =
     andthen (on_events (es_append (Inl MESSAGE_SENT)
                [(''from_agent'', JStr (tc_agent_id ctx)), (''to_agent'', JStr to_a), (''content'', JStr body)]
                (Some (tc_agent_id ctx)) (Some (tc_correlation_id ctx))) w)
       (\<lambda>_ w1. (Inr (), w1))"

definition exec_send_message :: "'x executor" where
  "exec_send_message ctx now p w =
     (let msg_id = ''msg-'' @ take 12 (tc_correlation_id ctx);
          to_a = arg_str p ''recipient_id''; body = arg_str p ''body'';
          out = (\<lambda>i. mk_out ''SendMessageOut'' [(''message_id'', JStr i)]) in
      case of_orch w of
        None \<Rightarrow> andthen (log_message ctx to_a body w) (\<lambda>_ w1. (Inr (out (msg_id @ '':no-orchestrator'')), w1))
      | Some o_r \<Rightarrow>
          andthen (on_orch o_r (or_send_message (tc_agent_id ctx) to_a body (Some (tc_correlation_id ctx)) AGENT_MESSAGE) w)
            (\<lambda>r w1. if r \<noteq> QUEUED then (Inr (out (msg_id @ '':rejected:'' @ send_result_value r)), w1)
                     else (Inr (out msg_id), w1)))"

definition exec_write :: "string \<Rightarrow> payload \<Rightarrow> 'x office_scheme \<Rightarrow> (output_model, 'x office_scheme) outcome" where
  "exec_write owner p w =
     andthen (on_ws (ws_write owner (arg_str p ''path'') (utf8_bytes (arg_str p ''content''))) w)
       (\<lambda>res w1. (Inr (mk_out ''WriteWorkspaceOut'' [(''bytes_written'', JInt (wt_bytes_written res))]), w1))"

definition exec_read :: "builtin_env \<Rightarrow> string \<Rightarrow> payload \<Rightarrow> 'x office_scheme \<Rightarrow> (output_model, 'x office_scheme) outcome" where
  "exec_read env owner p w =
     andthen (on_ws (ws_read_own owner (arg_str p ''path'')) w)
       (\<lambda>raw w1. (Inr (mk_out ''ReadWorkspaceOut'' [(''content'', JStr (be_decode env raw))]), w1))"

definition list_entry :: "file_meta \<Rightarrow> json" where
  "list_entry e =
     JObj [(''relative_path'', JStr (fm_relative_path e)), (''size'', JInt (fm_size e)),
           (''is_dir'', JBool (fm_is_dir e)), (''modified_at'', JFloat (of_int (fm_modified_at e)))]"

definition exec_list :: "string \<Rightarrow> payload \<Rightarrow> 'x office_scheme \<Rightarrow> (output_model, 'x office_scheme) outcome" where
  "exec_list owner p w =
     andthen (on_ws (ws_list owner (arg_str p ''path'')) w)
       (\<lambda>raw w1. (Inr (mk_out ''ListWorkspaceOut'' [(''entries'', JList (map list_entry raw))]), w1))"

definition exec_write_workspace :: "'x executor" where
  "exec_write_workspace ctx now p w = exec_write (tc_agent_id ctx) p w"

definition exec_read_my_workspace :: "builtin_env \<Rightarrow> 'x executor" where
  "exec_read_my_workspace env ctx now p w = exec_read env (tc_agent_id ctx) p w"

definition exec_list_my_workspace :: "'x executor" where
  "exec_list_my_workspace ctx now p w = exec_list (tc_agent_id ctx) p w"

definition exec_read_subordinate :: "builtin_env \<Rightarrow> 'x executor" where
  "exec_read_subordinate env ctx now p w =
     andthen (on_ws (ws_read_subordinate (sv_org w) (tc_agent_id ctx) (arg_str p ''owner_id'') (arg_str p ''path'')) w)
       (\<lambda>raw w1. (Inr (mk_out ''ReadWorkspaceOut'' [(''content'', JStr (be_decode env raw))]), w1))"

definition exec_write_project_workspace :: "'x executor" where
  "exec_write_project_workspace ctx now p w = exec_write PROJECT_WORKSPACE_ID p w"

definition exec_read_project_workspace :: "builtin_env \<Rightarrow> 'x executor" where
  "exec_read_project_workspace env ctx now p w = exec_read env PROJECT_WORKSPACE_ID p w"

definition exec_list_project_workspace :: "'x executor" where
  "exec_list_project_workspace ctx now p w = exec_list PROJECT_WORKSPACE_ID p w"

section \<open>Memory\<close>

definition recall_hit_out :: "builtin_env \<Rightarrow> recall_hit \<Rightarrow> json" where
  "recall_hit_out env h =
     JObj [(''kind'', JStr (memory_kind_value (rh_kind h))), (''item_id'', JStr (rh_item_id h)),
           (''content'', JStr (rh_content h)), (''score'', JFloat (be_float env (rh_score h)))]"

definition exec_recall :: "builtin_env \<Rightarrow> 'x executor" where
  "exec_recall env ctx now p w =
     (case recall (sv_org w) (tc_agent_id ctx) (arg_str p ''query'') (arg_int p ''k'') None None (of_memory w) of
        Inl e \<Rightarrow> (Inl e, w)
      | Inr hits \<Rightarrow> (Inr (mk_out ''RecallOut'' [(''hits'', JList (map (recall_hit_out env) hits))]), w))"

definition exec_remember_fact :: "builtin_env \<Rightarrow> 'x executor" where
  "exec_remember_fact env ctx now p w =
     andthen (on_memory (remember_fact (be_fresh env ctx) now (tc_agent_id ctx) (arg_str p ''key'')
                (arg_str p ''value'') True []) w)
       (\<lambda>i w1. (Inr (mk_out ''RememberOut'' [(''memory_id'', JStr i)]), w1))"

definition exec_summarise :: "builtin_env \<Rightarrow> 'x executor" where
  "exec_summarise env ctx now p w =
     andthen (on_memory (remember_episode (be_fresh env ctx) now (tc_agent_id ctx) (arg_str p ''summary'') []) w)
       (\<lambda>i w1. (Inr (mk_out ''RememberOut'' [(''memory_id'', JStr i)]), w1))"

section \<open>Governance\<close>

definition check_only_ceo :: "tool_context \<Rightarrow> payload \<Rightarrow> 'x office_scheme \<Rightarrow> exn option" where
  "check_only_ceo ctx p w = (if tc_role ctx \<noteq> CEO then Some (ToolPermissionDenied ''only_ceo'') else None)"

definition REPORT_BOARD_LIFETIME_MAX :: nat where "REPORT_BOARD_LIFETIME_MAX = 8"

definition REPORT_BOARD_COOLDOWN_SECONDS :: rat where "REPORT_BOARD_COOLDOWN_SECONDS = 300"

text \<open>The agent's calls of the tool among its first 500 tool calls.\<close>

definition board_calls :: "string \<Rightarrow> event_store \<Rightarrow> event list" where
  "board_calls a es =
     (case es_read None None [TOOL_CALLED] (Some a) None 500 es of
        Inl _ \<Rightarrow> []
      | Inr recent \<Rightarrow> filter (\<lambda>e. pget (ev_payload e) ''tool'' = JStr ''report_to_board'') recent)"

definition seconds_since :: "int \<Rightarrow> event \<Rightarrow> rat" where
  "seconds_since now e = fl (of_int (now - ev_ts_real e) / 1000000)"

definition exec_report_to_board :: "'x executor" where
  "exec_report_to_board ctx now p w =
     (let calls = board_calls (tc_agent_id ctx) (sv_events w) in
      if REPORT_BOARD_LIFETIME_MAX \<le> length calls
      then (Inl (ExecutorFailure
              (''report_to_board_lifetime_cap:8; the Board has already been notified - solve the issue '' @
               ''yourself'')), w)
      else if calls \<noteq> [] \<and> seconds_since now (last calls) < REPORT_BOARD_COOLDOWN_SECONDS
      then (Inl (ExecutorFailure
              (''report_to_board_cooldown:'' @
               int_str \<lfloor>fl (REPORT_BOARD_COOLDOWN_SECONDS - seconds_since now (last calls))\<rfloor> @
               ''s; you just notified the Board - wait, then solve the issue yourself instead of '' @
               ''repeating the report'')), w)
      else
        andthen (log_message ctx ''BOARD'' (arg_str p ''body'') w)
          (\<lambda>_ w1. (Inr (mk_out ''ReportOut'' [(''delivered_to'', JStr ''BOARD'')]), w1)))"

definition exec_escalate :: "'x executor" where
  "exec_escalate ctx now p w =
     (case org_manager_of (sv_org w) (tc_agent_id ctx) of
        Inl e \<Rightarrow> (Inl e, w)
      | Inr None \<Rightarrow> (Inl (ToolPermissionDenied ''no_manager''), w)
      | Inr (Some m) \<Rightarrow>
          andthen (log_message ctx m (arg_str p ''body'') w)
            (\<lambda>_ w1. (Inr (mk_out ''ReportOut'' [(''delivered_to'', JStr m)]), w1)))"


text \<open>\<^verbatim>\<open>str.splitlines\<close>.\<close>

definition is_line_end :: "char \<Rightarrow> bool" where
  "is_line_end c \<longleftrightarrow> of_char c \<in> {10, 11, 12, 13, 28, 29, 30, 133 :: nat}"

fun lines_from :: "string \<Rightarrow> string \<Rightarrow> string list" where
  "lines_from l [] = (if l = [] then [] else [l])"
| "lines_from l [c] = (if is_line_end c then [l] else [l @ [c]])"
| "lines_from l (c # d # cs) =
     (if of_char c = (13 :: nat) \<and> of_char d = (10 :: nat) then l # lines_from [] cs
      else if is_line_end c then l # lines_from [] (d # cs)
      else lines_from (l @ [c]) (d # cs))"

definition py_splitlines :: "string \<Rightarrow> string list" where
  "py_splitlines s = lines_from [] s"

definition reports_to_line :: "string \<Rightarrow> bool" where
  "reports_to_line l \<longleftrightarrow> take 11 (py_lower (py_strip l)) = ''reports to:''"

definition strip_reports_to_line :: "string \<Rightarrow> string" where
  "strip_reports_to_line description =
     py_strip (py_join newline (filter (\<lambda>l. \<not> reports_to_line l) (py_splitlines description)))"

definition PLACEHOLDER_NAME_RE :: "string list" where
  "PLACEHOLDER_NAME_RE =
     [''tbd'', ''todo'', ''unknown'', ''new'', ''candidate'', ''hire'', ''n/a'', ''na'', ''none'', ''null'',
      ''product designer'', ''engineer'', ''designer'']"

definition clean_candidate_name :: "json \<Rightarrow> string option" where
  "clean_candidate_name j =
     (case j of
        JStr s \<Rightarrow>
          (let cleaned = py_join '' '' (py_split (py_strip s)) in
           if cleaned = [] then None
           else if py_lower cleaned \<in> set PLACEHOLDER_NAME_RE then None
           else if length (py_split cleaned) > 2 then None
           else Some cleaned)
      | _ \<Rightarrow> None)"

definition set_or_pop :: "string \<Rightarrow> string option \<Rightarrow> payload \<Rightarrow> payload" where
  "set_or_pop k v p =
     (case v of
        Some s \<Rightarrow> map (\<lambda>(k', j). if k' = k then (k', JStr s) else (k', j)) p
      | None \<Rightarrow> filter (\<lambda>kv. fst kv \<noteq> k) p)"

text \<open>The dump without the absent fields, names cleaned, the description without its reports-to line.\<close>

definition hire_payload :: "payload \<Rightarrow> payload" where
  "hire_payload args =
     (let p = filter (\<lambda>kv. snd kv \<noteq> JNull) args;
          p1 = set_or_pop ''first_name'' (clean_candidate_name (pget p ''first_name'')) p;
          p2 = set_or_pop ''last_name'' (clean_candidate_name (pget p ''last_name'')) p1
      in set_or_pop ''role_description'' (Some (strip_reports_to_line (arg_str p ''role_description''))) p2)"

definition ProposeOut :: "string option \<Rightarrow> string \<Rightarrow> string option \<Rightarrow> output_model" where
  "ProposeOut request_id status agent_id =
     mk_out ''ProposeOut'' [(''request_id'', opt_json request_id), (''status'', JStr status), (''agent_id'', opt_json agent_id)]"

definition exec_propose_hire :: "builtin_env \<Rightarrow> 'x executor" where
  "exec_propose_hire env ctx now p w =
     (let q = hire_payload p in
      if \<not> be_hire_ready env then (Inl (ExecutorFailure ''hire_service_not_configured''), w)
      else
        andthen (hire_member (be_hire_env env ctx) (tc_agent_id ctx) q w)
          (\<lambda>res w1. (Inr (ProposeOut None (if snd res = [] then ''hired'' else snd res) (Some (fst res))), w1)))"

definition fire_result_value :: "fire_result \<Rightarrow> string" where
  "fire_result_value r =
     (case r of DIRECT_FIRED \<Rightarrow> ''direct_fired'' | PENDING_APPROVAL \<Rightarrow> ''pending_approval'' | FIRE_DENIED \<Rightarrow> ''denied'')"

text \<open>A walk up the chart that does not return is the second case.\<close>

definition returning :: "('a, 'w) outcome option \<Rightarrow> 'w \<Rightarrow> ('a, 'w) outcome" where
  "returning m w = (case m of Some r \<Rightarrow> r | None \<Rightarrow> (Inl (RuntimeError ''does not return''), w))"

definition exec_propose_fire :: "'x executor" where
  "exec_propose_fire ctx now p w =
     (let target = arg_str p ''target_agent_id''; reason = arg_str p ''reason'' in
      andthen
        (if of_performance w
         then returning (propose_fire now (tc_agent_id ctx) target reason w) w
         else returning (map_option (\<lambda>(r, s). (r, put_org s w))
                (org_fire now (tc_agent_id ctx) target reason True (get_org w))) w)
        (\<lambda>o_c w1.
           (Inr (ProposeOut (Some (str_or (fo_request_id o_c) [])) (fire_result_value (fo_result o_c)) None), w1)))"


definition exec_give_feedback :: "builtin_env \<Rightarrow> 'x executor" where
  "exec_give_feedback env ctx now p w =
     (if \<not> of_performance w then (Inl (ExecutorFailure ''performance_not_configured''), w)
      else
        andthen
          (give_feedback (be_fresh env ctx) now (tc_agent_id ctx) (arg_str p ''target_id'') (arg_int p ''rating'')
             (arg_str p ''note'') w)
          (\<lambda>f w1. (Inr (mk_out ''GiveFeedbackOut'' [(''feedback_id'', JStr (fb_id f))]), w1)))"

definition exec_propose_role_change :: "builtin_env \<Rightarrow> 'x executor" where
  "exec_propose_role_change env ctx now p w =
     (if \<not> of_performance w then (Inl (ExecutorFailure ''performance_not_configured''), w)
      else
        andthen
          (propose_role_change (he_clock (be_hire_env env ctx)) (tc_agent_id ctx) (arg_str p ''target_id'')
             (arg_str p ''new_role_title'') (arg_str p ''new_role_description'') (arg_str p ''rationale'') w)
          (\<lambda>status w1. (Inr (ProposeOut None status None), w1)))"

definition exec_propose_reassign :: "'x executor" where
  "exec_propose_reassign ctx now p w =
     andthen
       (returning (map_option (\<lambda>(r, s). (r, put_org s w))
          (org_reassign (tc_agent_id ctx) (arg_str p ''target_id'') (arg_str p ''new_reports_to'')
             (arg_str p ''reason'') (get_org w))) w)
       (\<lambda>_ w1. (Inr (ProposeOut None ''reassigned'' (Some (arg_str p ''target_id''))), w1))"

definition kind_arg :: "payload \<Rightarrow> approval_kind option" where
  "kind_arg p = find (\<lambda>k. approval_kind_value k = arg_str p ''kind'') approval_kinds"

definition exec_request_approval :: "builtin_env \<Rightarrow> 'x executor" where
  "exec_request_approval env ctx now p w =
     (case kind_arg p of
        None \<Rightarrow> (Inl (ValueError (arg_str p ''kind'')), w)
      | Some k \<Rightarrow>
          if k \<in> {AK_HIRE, AK_ROLE_CHANGE, AK_FIRE_DEPTH_1}
          then (Inl (ToolPermissionDenied (''approval_not_required:'' @ approval_kind_value k @
                  ''; use propose_hire, propose_role_change, or propose_fire'')), w)
          else
            andthen
              (on_appr (appr_request (be_fresh env ctx) now k (tc_agent_id ctx) (arg_obj p ''payload'')
                 plain_board_route (Some (''req-'' @ tc_correlation_id ctx)) None) w)
              (\<lambda>v w1. (Inr (ProposeOut (Some (ar_request_id (av_row v)))
                              (approval_status_value (ar_status (av_row v))) None), w1)))"

definition exec_org_chart :: "'x executor" where
  "exec_org_chart ctx now p w =
     (case org_get (sv_org w) (tc_agent_id ctx) of
        Inl e \<Rightarrow> (Inl e, w)
      | Inr me \<Rightarrow>
          (case org_manager_of (sv_org w) (tc_agent_id ctx) of
             Inl e \<Rightarrow> (Inl e, w)
           | Inr m \<Rightarrow>
               (Inr (mk_out ''OrgChartOut''
                  [(''self_id'', JStr (ag_id me)), (''role'', JStr (role_value (ag_role me))),
                   (''manager_id'', opt_json m),
                   (''direct_reports'', JList (map JStr (org_direct_reports (sv_org w) (tc_agent_id ctx)))),
                   (''role_title'', opt_json (ag_role_title me)), (''first_name'', JStr (ag_first_name me)),
                   (''last_name'', JStr (ag_last_name me))]), w)))"

definition exec_list_my_approvals :: "'x executor" where
  "exec_list_my_approvals ctx now p w = (Inr (mk_out ''ListOut'' [(''items'', JList [])]), w)"

definition exec_list_my_tasks :: "'x executor" where
  "exec_list_my_tasks ctx now p w = (Inr (mk_out ''ListOut'' [(''items'', JList [])]), w)"

section \<open>External\<close>

text \<open>\<^verbatim>\<open>connector.call(service, endpoint, payload)\<close>: every parameter of \<^verbatim>\<open>Connector.call\<close> is keyword-only.\<close>

definition positional_call :: "string \<Rightarrow> string \<Rightarrow> payload \<Rightarrow> 'x office_scheme \<Rightarrow> (json, 'x office_scheme) outcome" where
  "positional_call service endpoint args w =
     (Inl (TypeError ''Connector.call() takes 1 positional argument but 4 were given''), w)"

definition exec_external_call :: "'x executor" where
  "exec_external_call ctx now p w =
     (if \<not> of_connector w then (Inl (ExecutorFailure ''no_connector_configured''), w)
      else
        andthen (positional_call (arg_str p ''service'') (arg_str p ''endpoint'') (arg_obj p ''payload'') w)
          (\<lambda>response w1.
             let body = (case response of JObj kvs \<Rightarrow> kvs | r \<Rightarrow> [(''value'', r)]) in
             andthen
               (on_events (es_append (Inl EXTERNAL_CALL)
                  [(''service'', JStr (arg_str p ''service'')), (''endpoint'', JStr (arg_str p ''endpoint'')),
                   (''request_id'', JStr (tc_correlation_id ctx)), (''status'', JStr ''ok'')]
                  (Some (tc_agent_id ctx)) (Some (tc_correlation_id ctx))) w1)
               (\<lambda>_ w2. (Inr (mk_out ''ExternalCallOut'' [(''response'', JObj body)]), w2))))"

definition exec_pay_invoice :: "'x executor" where
  "exec_pay_invoice ctx now p w =
     (Inr (mk_out ''PayInvoiceOut''
        [(''vendor'', JStr (arg_str p ''vendor'')), (''paid_usd'', JStr (arg_str p ''amount_usd''))]), w)"

definition exec_register_subscription :: "'x executor" where
  "exec_register_subscription ctx now p w =
     (Inr (mk_out ''RegisterSubOut''
        [(''description'', JStr (arg_str p ''description'')), (''amount_usd'', JStr (arg_str p ''amount_usd'')),
         (''period_days'', JInt (arg_int p ''period_days''))]), w)"

text \<open>The estimators: what reading the text or making the amount raises becomes an ArgsValidationError.\<close>

definition estimate_amount :: "string \<Rightarrow> builtin_env \<Rightarrow> payload \<Rightarrow> exn + money" where
  "estimate_amount k env p =
     (case (case be_decimal env (arg_str p k) of Inl e \<Rightarrow> Inl e | Inr q \<Rightarrow> money_of q) of
        Inl e \<Rightarrow> Inl (ArgsValidationError (''bad '' @ k @ '': '' @ exn_text e))
      | Inr v \<Rightarrow> Inr v)"

definition estimate_external :: "builtin_env \<Rightarrow> payload \<Rightarrow> exn + money" where
  "estimate_external = estimate_amount ''estimated_cost_usd''"

definition estimate_invoice :: "builtin_env \<Rightarrow> payload \<Rightarrow> exn + money" where
  "estimate_invoice = estimate_amount ''amount_usd''"

definition estimate_sub :: "builtin_env \<Rightarrow> payload \<Rightarrow> exn + money" where
  "estimate_sub = estimate_amount ''amount_usd''"


section \<open>The registry\<close>

text \<open>A tool with the defaults of ToolDef: no approval, no estimator, no permission check.\<close>

definition mk_tool ::
  "builtin_env \<Rightarrow> string \<Rightarrow> arg_class \<Rightarrow> string \<Rightarrow> tool_category \<Rightarrow> role list option \<Rightarrow> 'x executor
   \<Rightarrow> 'x office_scheme tool_def" where
  "mk_tool env name cls out_class cat roles ex =
     \<lparr>td_name = name, td_description = be_description env name, td_schema = be_validate env cls,
      td_output_schema = out_class, td_category = cat, td_roles_allowed = roles,
      td_requires_approval = AR_NONE, td_cost_estimator = None, td_permission_check = None,
      td_executor = Some ex\<rparr>"

definition send_message_tool :: "builtin_env \<Rightarrow> 'x office_scheme tool_def" where
  "send_message_tool env =
     mk_tool env ''send_message'' SendMessageArgs ''SendMessageOut'' TC_COMMUNICATION None exec_send_message"

definition request_approval_tool :: "builtin_env \<Rightarrow> 'x office_scheme tool_def" where
  "request_approval_tool env =
     mk_tool env ''request_approval'' RequestApprovalArgs ''ProposeOut'' TC_GOVERNANCE None (exec_request_approval env)"

definition read_my_workspace_tool :: "builtin_env \<Rightarrow> 'x office_scheme tool_def" where
  "read_my_workspace_tool env =
     mk_tool env ''read_my_workspace'' ReadWorkspaceArgs ''ReadWorkspaceOut'' TC_WORKSPACE None (exec_read_my_workspace env)"

definition write_my_workspace_tool :: "builtin_env \<Rightarrow> 'x office_scheme tool_def" where
  "write_my_workspace_tool env =
     mk_tool env ''write_my_workspace'' WriteWorkspaceArgs ''WriteWorkspaceOut'' TC_WORKSPACE None exec_write_workspace"

definition list_my_workspace_tool :: "builtin_env \<Rightarrow> 'x office_scheme tool_def" where
  "list_my_workspace_tool env =
     mk_tool env ''list_my_workspace'' ListWorkspaceArgs ''ListWorkspaceOut'' TC_WORKSPACE None exec_list_my_workspace"

definition read_subordinate_workspace_tool :: "builtin_env \<Rightarrow> 'x office_scheme tool_def" where
  "read_subordinate_workspace_tool env =
     mk_tool env ''read_subordinate_workspace'' ReadSubordinateArgs ''ReadWorkspaceOut'' TC_WORKSPACE None (exec_read_subordinate env)"

definition read_project_workspace_tool :: "builtin_env \<Rightarrow> 'x office_scheme tool_def" where
  "read_project_workspace_tool env =
     mk_tool env ''read_project_workspace'' ReadWorkspaceArgs ''ReadWorkspaceOut'' TC_WORKSPACE None (exec_read_project_workspace env)"

definition write_project_workspace_tool :: "builtin_env \<Rightarrow> 'x office_scheme tool_def" where
  "write_project_workspace_tool env =
     mk_tool env ''write_project_workspace'' WriteWorkspaceArgs ''WriteWorkspaceOut'' TC_WORKSPACE None exec_write_project_workspace"

definition list_project_workspace_tool :: "builtin_env \<Rightarrow> 'x office_scheme tool_def" where
  "list_project_workspace_tool env =
     mk_tool env ''list_project_workspace'' ListWorkspaceArgs ''ListWorkspaceOut'' TC_WORKSPACE None exec_list_project_workspace"

definition recall_memory_tool :: "builtin_env \<Rightarrow> 'x office_scheme tool_def" where
  "recall_memory_tool env =
     mk_tool env ''recall_memory'' RecallArgs ''RecallOut'' TC_MEMORY None (exec_recall env)"

definition remember_fact_tool :: "builtin_env \<Rightarrow> 'x office_scheme tool_def" where
  "remember_fact_tool env =
     mk_tool env ''remember_fact'' RememberFactArgs ''RememberOut'' TC_MEMORY None (exec_remember_fact env)"

definition summarize_and_remember_tool :: "builtin_env \<Rightarrow> 'x office_scheme tool_def" where
  "summarize_and_remember_tool env =
     mk_tool env ''summarize_and_remember'' SummariseArgs ''RememberOut'' TC_MEMORY None (exec_summarise env)"

definition report_to_board_tool :: "builtin_env \<Rightarrow> 'x office_scheme tool_def" where
  "report_to_board_tool env =
     (mk_tool env ''report_to_board'' ReportArgs ''ReportOut'' TC_GOVERNANCE (Some [CEO]) exec_report_to_board)
       \<lparr>td_permission_check := Some check_only_ceo\<rparr>"

definition escalate_to_manager_tool :: "builtin_env \<Rightarrow> 'x office_scheme tool_def" where
  "escalate_to_manager_tool env =
     mk_tool env ''escalate_to_manager'' EscalateArgs ''ReportOut'' TC_GOVERNANCE None exec_escalate"

definition propose_hire_tool :: "builtin_env \<Rightarrow> 'x office_scheme tool_def" where
  "propose_hire_tool env =
     mk_tool env ''propose_hire'' ProposeHireArgs ''ProposeOut'' TC_GOVERNANCE (Some [HR]) (exec_propose_hire env)"

definition propose_fire_tool :: "builtin_env \<Rightarrow> 'x office_scheme tool_def" where
  "propose_fire_tool env =
     mk_tool env ''propose_fire'' ProposeFireArgs ''ProposeOut'' TC_GOVERNANCE None exec_propose_fire"

definition give_feedback_tool :: "builtin_env \<Rightarrow> 'x office_scheme tool_def" where
  "give_feedback_tool env =
     mk_tool env ''give_feedback'' GiveFeedbackArgs ''GiveFeedbackOut'' TC_GOVERNANCE None (exec_give_feedback env)"

definition propose_role_change_tool :: "builtin_env \<Rightarrow> 'x office_scheme tool_def" where
  "propose_role_change_tool env =
     mk_tool env ''propose_role_change'' ProposeRoleChangeArgs ''ProposeOut'' TC_GOVERNANCE None (exec_propose_role_change env)"

definition propose_reassign_tool :: "builtin_env \<Rightarrow> 'x office_scheme tool_def" where
  "propose_reassign_tool env =
     mk_tool env ''propose_reassign'' ProposeReassignArgs ''ProposeOut'' TC_GOVERNANCE None exec_propose_reassign"

definition external_call_tool :: "builtin_env \<Rightarrow> 'x office_scheme tool_def" where
  "external_call_tool env =
     (mk_tool env ''external_call'' ExternalCallArgs ''ExternalCallOut'' TC_EXTERNAL None exec_external_call)
       \<lparr>td_requires_approval := AR_EXTERNAL, td_cost_estimator := Some (estimate_external env)\<rparr>"

definition pay_invoice_tool :: "builtin_env \<Rightarrow> 'x office_scheme tool_def" where
  "pay_invoice_tool env =
     (mk_tool env ''pay_invoice'' PayInvoiceArgs ''PayInvoiceOut'' TC_EXTERNAL (Some [CEO, MEMBER]) exec_pay_invoice)
       \<lparr>td_requires_approval := AR_EXPENSE, td_cost_estimator := Some (estimate_invoice env)\<rparr>"

definition register_subscription_tool :: "builtin_env \<Rightarrow> 'x office_scheme tool_def" where
  "register_subscription_tool env =
     (mk_tool env ''register_subscription'' RegisterSubArgs ''RegisterSubOut'' TC_EXTERNAL (Some [CEO, MEMBER]) exec_register_subscription)
       \<lparr>td_requires_approval := AR_EXPENSE, td_cost_estimator := Some (estimate_sub env)\<rparr>"

definition query_org_chart_tool :: "builtin_env \<Rightarrow> 'x office_scheme tool_def" where
  "query_org_chart_tool env =
     mk_tool env ''query_org_chart'' OrgChartArgs ''OrgChartOut'' TC_INTERNAL_DATA None exec_org_chart"

definition list_my_approvals_tool :: "builtin_env \<Rightarrow> 'x office_scheme tool_def" where
  "list_my_approvals_tool env =
     mk_tool env ''list_my_approvals'' EmptyArgs ''ListOut'' TC_INTERNAL_DATA None exec_list_my_approvals"

definition list_my_tasks_tool :: "builtin_env \<Rightarrow> 'x office_scheme tool_def" where
  "list_my_tasks_tool env =
     mk_tool env ''list_my_tasks'' EmptyArgs ''ListOut'' TC_INTERNAL_DATA None exec_list_my_tasks"

definition BUILTIN_TOOLS :: "builtin_env \<Rightarrow> 'x office_scheme tool_def list" where
  "BUILTIN_TOOLS env =
     [send_message_tool env, request_approval_tool env, read_my_workspace_tool env,
      write_my_workspace_tool env, list_my_workspace_tool env, read_subordinate_workspace_tool env,
      read_project_workspace_tool env, write_project_workspace_tool env,
      list_project_workspace_tool env, recall_memory_tool env, remember_fact_tool env,
      summarize_and_remember_tool env, report_to_board_tool env, escalate_to_manager_tool env,
      propose_hire_tool env, propose_fire_tool env, give_feedback_tool env,
      propose_role_change_tool env, propose_reassign_tool env, external_call_tool env,
      pay_invoice_tool env, register_subscription_tool env, query_org_chart_tool env,
      list_my_approvals_tool env, list_my_tasks_tool env]"

text \<open>\<^verbatim>\<open>register_builtins\<close>: the first registration that raises ends the loop.\<close>

fun register_all :: "'x services_scheme tool_def list \<Rightarrow> 'x tools \<Rightarrow> (unit, 'x) tool_out" where
  "register_all [] t = (Inr (), t)"
| "register_all (d # ds) t = andthen (tl_register d t) (\<lambda>_ t1. register_all ds t1)"

definition register_builtins where
  "register_builtins env t = register_all (BUILTIN_TOOLS env) t"

lemmas builtin_tool_defs =
  send_message_tool_def request_approval_tool_def read_my_workspace_tool_def
  write_my_workspace_tool_def list_my_workspace_tool_def read_subordinate_workspace_tool_def
  read_project_workspace_tool_def write_project_workspace_tool_def list_project_workspace_tool_def
  recall_memory_tool_def remember_fact_tool_def summarize_and_remember_tool_def
  report_to_board_tool_def escalate_to_manager_tool_def propose_hire_tool_def propose_fire_tool_def
  give_feedback_tool_def propose_role_change_tool_def propose_reassign_tool_def
  external_call_tool_def pay_invoice_tool_def register_subscription_tool_def
  query_org_chart_tool_def list_my_approvals_tool_def list_my_tasks_tool_def

end
