(* ===== verification/Builtin_Props.thy ===== *)
theory Builtin_Props
  imports Tools_Builtin
begin

text \<open>
  What the built-in tools do to the company behind them. \<open>careful\<close> is the contract every executor is
  shown to keep: it leaves the budget to the pipeline and keeps the invariant of the org chart.
\<close>

section \<open>Careful executors\<close>

definition careful :: "'x services_scheme \<Rightarrow> ('a, 'x services_scheme) outcome \<Rightarrow> bool" where
  "careful w out \<longleftrightarrow>
     sv_cost (snd out) = sv_cost w \<and> (org_inv (get_org w) \<longrightarrow> org_inv (get_org (snd out)))"

named_theorems careful

lemma org_inv_fst: "org_inv (g, es) = org_inv (g, es')"
  by (simp add: org_inv_def)

lemma careful_same: "sv_cost (snd out) = sv_cost w \<Longrightarrow> sv_org (snd out) = sv_org w \<Longrightarrow> careful w out"
  using org_inv_fst by (auto simp: careful_def get_org_def)

lemma careful_stay [careful, simp]: "careful w (r, w)"
  by (simp add: careful_def)

lemma careful_trans: "careful w (r, v) \<Longrightarrow> careful v out \<Longrightarrow> careful w out"
  by (auto simp: careful_def)

lemma careful_from:
  "sv_cost v = sv_cost w \<Longrightarrow> sv_org v = sv_org w \<Longrightarrow> careful v out \<Longrightarrow> careful w out"
  using org_inv_fst[of "sv_org w" "sv_events w" "sv_events v"] by (auto simp: careful_def get_org_def)

lemma careful_andthen [careful]:
  assumes "careful w m" and "\<And>a v. careful v (f a v)"
  shows "careful w (andthen m f)"
proof (cases m)
  case (Pair r v)
  show ?thesis
  proof (cases r)
    case (Inl e)
    then show ?thesis using assms(1) Pair by (simp add: careful_def)
  next
    case (Inr a)
    then show ?thesis using careful_trans[OF assms(1)[unfolded Pair] assms(2)] Pair by simp
  qed
qed

lemma careful_events [careful]: "careful w (on_events f w)"
  by (rule careful_same) (simp_all add: through_def case_prod_beta)

lemma careful_appr [careful]: "careful w (on_appr f w)"
  by (rule careful_same) (simp_all add: through_def case_prod_beta)

lemma careful_org [careful]:
  "(\<And>s. org_inv s \<Longrightarrow> org_inv (snd (f s))) \<Longrightarrow> careful w (on_org f w)"
  by (simp add: careful_def through_def case_prod_beta org_view.get_put del: split_paired_All)

lemma careful_walk [careful]:
  assumes "\<And>s out. org_inv s \<Longrightarrow> f s = Some out \<Longrightarrow> org_inv (snd out)"
  shows "careful w (returning (map_option (\<lambda>(r, s). (r, put_org s w)) (f (get_org w))) w)"
proof (cases "f (get_org w)")
  case None
  then show ?thesis by (simp add: returning_def)
next
  case (Some out)
  then have "org_inv (get_org w) \<Longrightarrow> org_inv (snd out)" using assms by blast
  then show ?thesis using Some by (cases out) (simp add: returning_def careful_def org_view.get_put)
qed

lemma careful_workspace [careful]: "careful w (on_ws f w)"
  by (rule careful_same) (auto simp: on_ws_def split: prod.split sum.split)

lemma careful_memory [careful]: "careful w (on_memory f w)"
  by (rule careful_same) (simp_all add: on_memory_def through_def case_prod_beta)

lemma careful_orch [careful]: "careful w (on_orch o_r f w)"
  by (rule careful_same) (simp_all add: on_orch_def orch_out_def case_prod_beta)

lemmas careful_parts = fire_inv reassign_inv update_role_details_inv add_agent_inv

lemma careful_put_appr [careful]: "careful w (r, put_appr s w)"
  by (rule careful_same) simp_all

lemma careful_if [careful]: "careful w m \<Longrightarrow> careful w n \<Longrightarrow> careful w (if c then m else n)"
  by simp

section \<open>The executors\<close>

lemma careful_log [careful]: "careful w (log_message ctx t b w)"
  unfolding log_message_def by (intro careful)

lemma careful_same_company: "same_company w (snd out) \<Longrightarrow> careful w out"
  by (rule careful_same) (simp_all add: same_company_def)

lemma careful_activate [careful]: "careful w (activate_member env i w)"
  unfolding activate_member_def Let_def
  by (intro careful) (auto simp: careful_def get_org_def split: option.split)

lemma careful_case_option [careful]:
  "careful w m \<Longrightarrow> (\<And>x. careful w (f x)) \<Longrightarrow> careful w (case o_x of None \<Rightarrow> m | Some x \<Rightarrow> f x)"
  by (cases o_x) simp_all

lemma careful_case_sum [careful]:
  "(\<And>x. careful w (g x)) \<Longrightarrow> (\<And>x. careful w (f x)) \<Longrightarrow> careful w (case r of Inl x \<Rightarrow> g x | Inr x \<Rightarrow> f x)"
  by (cases r) simp_all

lemma careful_notify [careful]: "careful w (notify_hire lead_in rec title desc manager requester w)"
  by (rule careful_same_company) (rule notify_same)

lemma careful_hire_payload [careful]: "careful w (hire_from_payload env p requester lead_in w)"
  unfolding hire_from_payload_def Let_def
  by (intro careful add_agent_inv)

lemma careful_hire [careful]: "careful w (hire_member env requester p w)"
  unfolding hire_member_def
  by (intro careful) (simp add: careful_same)

lemma careful_feedback [careful]: "careful w (give_feedback i n c t r b w)"
  unfolding give_feedback_def Let_def
  by (intro careful careful_from[OF _ _ careful_events]) simp_all

lemma careful_role_change [careful]: "careful w (propose_role_change cl c t ti d r w)"
  unfolding propose_role_change_def apply_role_change_def Let_def
  by (intro careful update_role_details_inv careful_from[OF _ _ careful_events]) simp_all

lemma careful_fire [careful]:
  "careful w (if of_performance w then returning (propose_fire now a t r w) w
     else returning (map_option (\<lambda>(r, s). (r, put_org s w)) (org_fire now a t r True (get_org w))) w)"
  unfolding propose_fire_def by (auto intro!: careful_walk intro: fire_inv)

lemma careful_positional [careful]: "careful w (positional_call s e p w)"
  by (simp add: positional_call_def)

lemmas executor_defs =
  exec_send_message_def exec_write_def exec_read_def exec_list_def exec_write_workspace_def
  exec_read_my_workspace_def exec_list_my_workspace_def exec_read_subordinate_def
  exec_write_project_workspace_def exec_read_project_workspace_def exec_list_project_workspace_def
  exec_recall_def exec_remember_fact_def exec_summarise_def exec_report_to_board_def exec_escalate_def
  exec_propose_hire_def exec_propose_fire_def exec_give_feedback_def exec_propose_role_change_def
  exec_propose_reassign_def exec_request_approval_def exec_org_chart_def exec_list_my_approvals_def
  exec_list_my_tasks_def exec_external_call_def exec_pay_invoice_def exec_register_subscription_def

lemma careful_executors:
  "careful w (exec_send_message ctx now p w)" "careful w (exec_write_workspace ctx now p w)"
  "careful w (exec_read_my_workspace env ctx now p w)" "careful w (exec_list_my_workspace ctx now p w)"
  "careful w (exec_read_subordinate env ctx now p w)" "careful w (exec_write_project_workspace ctx now p w)"
  "careful w (exec_read_project_workspace env ctx now p w)" "careful w (exec_list_project_workspace ctx now p w)"
  "careful w (exec_recall env ctx now p w)" "careful w (exec_remember_fact env ctx now p w)"
  "careful w (exec_summarise env ctx now p w)" "careful w (exec_report_to_board ctx now p w)"
  "careful w (exec_escalate ctx now p w)" "careful w (exec_propose_hire env ctx now p w)"
  "careful w (exec_propose_fire ctx now p w)" "careful w (exec_give_feedback env ctx now p w)"
  "careful w (exec_propose_role_change env ctx now p w)" "careful w (exec_propose_reassign ctx now p w)"
  "careful w (exec_request_approval env ctx now p w)" "careful w (exec_org_chart ctx now p w)"
  "careful w (exec_list_my_approvals ctx now p w)" "careful w (exec_list_my_tasks ctx now p w)"
  "careful w (exec_external_call ctx now p w)" "careful w (exec_pay_invoice ctx now p w)"
  "careful w (exec_register_subscription ctx now p w)"
  unfolding executor_defs Let_def by (intro careful reassign_inv; assumption?)+

section \<open>The pipeline around a careful executor\<close>

text \<open>The registry stays; what holds of the chart and survives the executor survives the call.\<close>

definition kept :: "(org \<Rightarrow> bool) \<Rightarrow> 'x tools \<Rightarrow> ('a, 'x) tool_out \<Rightarrow> bool" where
  "kept P t out \<longleftrightarrow>
     tl_defs (snd out) = tl_defs t \<and> (P (sv_org (tl_sv t)) \<longrightarrow> P (sv_org (tl_sv (snd out))))"

named_theorems kept

lemma kept_stay [kept, simp]: "kept P t (r, t)"
  by (simp add: kept_def)

lemma kept_complete [kept]: "kept P t (r, complete cid a t)"
  by (simp add: kept_def complete_def)

lemma kept_trans: "kept P t (r, u) \<Longrightarrow> kept P u out \<Longrightarrow> kept P t out"
  by (auto simp: kept_def)

lemma kept_case [kept]:
  assumes "kept P t m" and "\<And>r u. kept P u (f r u)"
  shows "kept P t (case m of (r, u) \<Rightarrow> f r u)"
proof (cases m)
  case (Pair r u)
  then show ?thesis using kept_trans[OF assms(1)[unfolded Pair] assms(2)] by simp
qed

lemma kept_andthen [kept]:
  assumes "kept P t m" and "\<And>a u. kept P u (f a u)"
  shows "kept P t (andthen m f)"
proof (cases m)
  case (Pair r u)
  show ?thesis
  proof (cases r)
    case (Inl e)
    then show ?thesis using assms(1) Pair by (simp add: kept_def)
  next
    case (Inr a)
    then show ?thesis using kept_trans[OF assms(1)[unfolded Pair] assms(2)] Pair by simp
  qed
qed

lemma kept_if [kept]: "kept P t m \<Longrightarrow> kept P t n \<Longrightarrow> kept P t (if c then m else n)"
  by simp

lemma kept_case_option [kept]:
  "kept P t m \<Longrightarrow> (\<And>x. kept P t (f x)) \<Longrightarrow> kept P t (case o_x of None \<Rightarrow> m | Some x \<Rightarrow> f x)"
  by (cases o_x) simp_all

lemma kept_case_sum [kept]:
  "(\<And>x. kept P t (g x)) \<Longrightarrow> (\<And>x. kept P t (f x)) \<Longrightarrow> kept P t (case r of Inl x \<Rightarrow> g x | Inr x \<Rightarrow> f x)"
  by (cases r) simp_all

lemma kept_parts [kept]:
  "kept P t (tl_on (on_events f1) t)" "kept P t (tl_on (on_cost f2) t)" "kept P t (tl_on (on_appr f3) t)"
  by (simp_all add: kept_def tl_on_def through_def case_prod_beta)

lemma kept_event [kept]: "kept P t (tl_event k p a cid t)"
  unfolding tl_event_def by (intro kept)

lemma kept_fail [kept]: "kept P t (tl_fail cid name e a k t)"
  unfolding tl_fail_def Let_def by (intro kept)

lemma kept_emit [kept]: "kept P t (tl_emit_only cid name e a t)"
  unfolding tl_emit_only_def by (intro kept)

lemma kept_release [kept]: "kept P t (release_and_fail rid cid name e a k t)"
  unfolding release_and_fail_def by (intro kept)

lemma kept_approval [kept]: "kept P t (tl_handle_approval env tool a cid args t)"
  unfolding tl_handle_approval_def by (intro kept)

lemma kept_commit [kept]: "kept P t (tl_commit env cid tool a rid m out t)"
  unfolding tl_commit_def Let_def by (intro kept)

definition chart_safe :: "(org \<Rightarrow> bool) \<Rightarrow> 'x services_scheme tool_def \<Rightarrow> bool" where
  "chart_safe P tool \<longleftrightarrow>
     (\<forall>ex ctx n p w. td_executor tool = Some ex \<and> P (sv_org w) \<longrightarrow> P (sv_org (snd (ex ctx n p w))))"

lemma kept_executor: "chart_safe P tool \<Longrightarrow> td_executor tool = Some ex \<Longrightarrow> kept P t (tl_on (ex ctx n p) t)"
  by (auto simp: chart_safe_def kept_def tl_on_def case_prod_beta)

lemma kept_execute:
  assumes "chart_safe P tool"
  shows "kept P t (tl_execute env cid tool ctx args parsed rid m t)"
proof (cases "td_executor tool")
  case None
  show ?thesis unfolding tl_execute_def Let_def by (simp only: None option.case) (intro kept)
next
  case (Some ex)
  show ?thesis
    unfolding tl_execute_def Let_def
    by (simp only: Some option.case) (intro kept kept_executor[OF assms Some])
qed

lemma kept_spend:
  assumes "chart_safe P tool"
  shows "kept P t (tl_spend env cid tool ctx args parsed t)"
  unfolding tl_spend_def Let_def
  by (intro kept kept_execute[OF assms]) (auto split: exn.split intro: kept)

lemma kept_invoke:
  assumes "\<And>tool. tool \<in> set (tl_defs t) \<Longrightarrow> chart_safe P tool"
  shows "kept P t (tl_invoke env a n args corr t)"
proof (cases "tl_get t n")
  case (Inl e)
  then show ?thesis unfolding tl_invoke_def Let_def by (simp only: sum.case) (intro kept)
next
  case (Inr tool)
  then have "chart_safe P tool"
    by (auto simp: tl_get_def intro!: assms dest: tbl_find_Some_in split: option.splits)
  then show ?thesis unfolding tl_invoke_def Let_def Inr by (simp only: sum.case) (intro kept kept_spend)
qed

section \<open>The registry\<close>

lemma builtin_fields:
  "map td_name (BUILTIN_TOOLS env) =
     [''send_message'', ''request_approval'', ''read_my_workspace'', ''write_my_workspace'', ''list_my_workspace'',
      ''read_subordinate_workspace'', ''read_project_workspace'', ''write_project_workspace'',
      ''list_project_workspace'', ''recall_memory'', ''remember_fact'', ''summarize_and_remember'',
      ''report_to_board'', ''escalate_to_manager'', ''propose_hire'', ''propose_fire'', ''give_feedback'',
      ''propose_role_change'', ''propose_reassign'', ''external_call'', ''pay_invoice'', ''register_subscription'',
      ''query_org_chart'', ''list_my_approvals'', ''list_my_tasks'']"
  by (simp add: BUILTIN_TOOLS_def builtin_tool_defs mk_tool_def)

lemma register_all_ok:
  assumes "distinct (map td_name (tl_defs t @ ds))" and "\<And>d. d \<in> set ds \<Longrightarrow> td_executor d \<noteq> None"
  shows "register_all ds t = (Inr (), t\<lparr>tl_defs := tl_defs t @ ds\<rparr>)"
  using assms
proof (induction ds arbitrary: t)
  case (Cons d ds)
  have "tbl_find td_name (td_name d) (tl_defs t) = None"
    using Cons.prems(1) by (auto simp: tbl_find_None rev_image_eqI)
  moreover have "td_executor d \<noteq> None" using Cons.prems(2) by simp
  ultimately have "tl_register d t = (Inr (), t\<lparr>tl_defs := tl_defs t @ [d]\<rparr>)"
    by (simp add: tl_register_def)
  moreover have "register_all ds (t\<lparr>tl_defs := tl_defs t @ [d]\<rparr>) =
      (Inr (), (t\<lparr>tl_defs := tl_defs t @ [d]\<rparr>)\<lparr>tl_defs := (tl_defs t @ [d]) @ ds\<rparr>)"
    using Cons.IH[of "t\<lparr>tl_defs := tl_defs t @ [d]\<rparr>"] Cons.prems by simp
  ultimately show ?case by simp
qed simp

lemma builtin_executors: "d \<in> set (BUILTIN_TOOLS env) \<Longrightarrow> td_executor d \<noteq> None"
  by (auto simp: BUILTIN_TOOLS_def builtin_tool_defs mk_tool_def)

lemma registered: "register_builtins env (tl_create w) = (Inr (), (tl_create w)\<lparr>tl_defs := BUILTIN_TOOLS env\<rparr>)"
  unfolding register_builtins_def
  by (subst register_all_ok) (simp_all add: builtin_fields tl_create_def builtin_executors del: not_None_eq)

lemma careful_builtin:
  assumes "d \<in> set (BUILTIN_TOOLS env)" and "td_executor d = Some ex"
  shows "careful w (ex ctx now p w)"
  using assms by (auto simp: BUILTIN_TOOLS_def builtin_tool_defs mk_tool_def careful_executors)

lemma builtin_cost_blind: "list_all cost_blind (BUILTIN_TOOLS env)"
  unfolding list_all_iff cost_blind_def
  by (intro ballI allI impI) (rule conjunct1[OF careful_builtin[unfolded careful_def]])

lemma careful_chart: "careful w out \<Longrightarrow> org_inv (sv_org w, es) \<Longrightarrow> org_inv (sv_org (snd out), es)"
  using org_inv_fst[of "sv_org w" es "sv_events w"] org_inv_fst[of "sv_org (snd out)" es "sv_events (snd out)"]
  by (simp add: careful_def get_org_def)

lemma builtin_chart_safe: "d \<in> set (BUILTIN_TOOLS env) \<Longrightarrow> chart_safe (\<lambda>g. org_inv (g, es)) d"
  unfolding chart_safe_def by (intro allI impI, elim conjE) (rule careful_chart[OF careful_builtin])

section \<open>Where a success comes from\<close>

definition log_grows :: "event_store \<Rightarrow> event_store \<Rightarrow> bool" where
  "log_grows s t \<longleftrightarrow> log_extends s t \<and> (log_inv s \<longrightarrow> log_inv t)"

lemma log_grows_refl [simp]: "log_grows s s"
  by (simp add: log_grows_def)

lemma log_grows_trans: "log_grows s t \<Longrightarrow> log_grows t u \<Longrightarrow> log_grows s u"
  by (auto simp: log_grows_def intro: log_extends_trans)

lemma append_grows: "log_grows s (snd (es_append k p a c s))"
  by (simp add: log_grows_def es_append_extends es_append_log_inv)

lemma append_all_grows: "log_grows s (snd (append_all evs a s))"
proof (induction evs arbitrary: s)
  case (Cons e evs)
  obtain k p where e: "e = (k, p)" by (cases e)
  obtain r s1 where app: "es_append (Inl k) p a None s = (r, s1)" by (meson surj_pair)
  then have "log_grows s s1" using append_grows[of s "Inl k" p a None] by simp
  with Cons.IH[of s1] app e show ?case by (cases r) (auto simp: append_all.simps intro: log_grows_trans)
qed simp

lemma append_all_run: "append_all evs a s = (r, t) \<Longrightarrow> log_grows s t"
  using append_all_grows[of s evs a] by simp

lemma reserve_grows: "log_grows (snd s) (snd (snd (budget_reserve rid now m ref s)))"
  by (auto simp: budget_reserve_def Let_def split: prod.split dest: append_all_run)

lemma commit_grows: "log_grows (snd s) (snd (snd (budget_commit eid now rid m s)))"
  by (auto simp: budget_commit_def Let_def split: option.split prod.split dest: append_all_run)

abbreviation tl_log :: "'x tools \<Rightarrow> event_store" where "tl_log t \<equiv> sv_events (tl_sv t)"

lemma event_grows: "log_grows (tl_log t) (tl_log (snd (tl_event k p a cid t)))"
proof -
  obtain r es where app: "es_append (Inl k) p (Some a) (Some cid) (tl_log t) = (r, es)" by (meson surj_pair)
  then have "log_grows (tl_log t) es" using append_grows[of "tl_log t" "Inl k" p "Some a" "Some cid"] by simp
  then show ?thesis using app by (cases r) (simp_all add: tl_event_def tl_on_def through_def put_events_def)
qed

lemma cost_grows:
  assumes "\<And>s. log_grows (snd s) (snd (snd (f s)))"
  shows "log_grows (tl_log t) (tl_log (snd (tl_on (on_cost f) t)))"
  using assms[of "get_cost (tl_sv t)"] by (simp add: through_def case_prod_beta get_cost_def put_cost_def)

text \<open>A success: the announcement was logged, the executor returned an instance of the declared class, and
  the answer carries it.\<close>

definition ran_to_success ::
  "tool_env \<Rightarrow> string \<Rightarrow> 'x services_scheme tool_def \<Rightarrow> tool_context \<Rightarrow> payload \<Rightarrow> payload \<Rightarrow> 'x tools \<Rightarrow> tool_result
   \<Rightarrow> 'x tools \<Rightarrow> bool" where
  "ran_to_success env cid tool ctx args parsed t1 r u \<longleftrightarrow>
     (\<exists>x t2 ex out t3. tl_event TOOL_CALLED (called_payload (td_name tool) args cid) (tc_agent_id ctx) cid t1 = (Inr x, t2) \<and>
        td_executor tool = Some ex \<and> ex ctx (te_exec_at env) parsed (tl_sv t2) = (Inr out, tl_sv t3) \<and>
        td_output_schema tool \<in> set (om_classes out) \<and> tr_output r = Some out \<and> log_grows (tl_log t3) (tl_log u))"

lemma fail_no_success: "tl_fail cid name e a k t = (Inr r, u) \<Longrightarrow> \<not> tr_ok r"
  by (rule tl_fail_result)

lemma release_no_success: "release_and_fail rid cid name e a k t = (Inr r, u) \<Longrightarrow> \<not> tr_ok r"
  unfolding release_and_fail_def by (blast dest: andthen_Inr fail_no_success)

lemma emit_no_success: "tl_emit_only cid name e a t = (Inr r, u) \<Longrightarrow> \<not> tr_ok r"
  by (rule tl_emit_only_result)

lemma commit_success:
  assumes "tl_commit env cid tool a rid m out t = (Inr r, u)" and "tr_ok r"
  shows "tr_output r = Some out \<and> log_grows (tl_log t) (tl_log u)"
proof -
  obtain charge t1 where pay: "tl_on (on_cost (budget_commit (te_expense env) (te_commit_at env) rid m)) t = (Inr charge, t1)"
    and ok: "cr_ok charge"
    using assms by (auto simp: tl_commit_def Let_def dest!: andthen_Inr dest: fail_no_success split: if_splits)
  define r0 where "r0 = \<lparr>tr_ok = True, tr_output = Some out, tr_error_code = None, tr_error_message = None,
                     tr_cost_usd = amount_usd m, tr_extra = []\<rparr>"
  define p where "p = [(''tool'', JStr (td_name tool)), (''request_id'', JStr cid), (''ok'', JBool True),
                     (''result'', JObj (om_dump out))]"
  have "andthen (tl_event TOOL_RESULT p a cid t1) (\<lambda>_ t2. (Inr r0, complete cid r0 t2)) = (Inr r, u)"
    using assms(1) pay ok by (simp add: tl_commit_def Let_def r0_def p_def)
  then obtain x t2 where ev: "tl_event TOOL_RESULT p a cid t1 = (Inr x, t2)" and "r = r0" "u = complete cid r0 t2"
    by (auto dest!: andthen_Inr)
  moreover have "log_grows (tl_log t) (tl_log t1)"
    using cost_grows[where f = "budget_commit (te_expense env) (te_commit_at env) rid m", OF commit_grows, of t] pay by simp
  moreover have "log_grows (tl_log t1) (tl_log t2)" using event_grows[of t1 TOOL_RESULT p a cid] ev by simp
  ultimately show ?thesis by (auto simp: r0_def complete_def intro: log_grows_trans)
qed

lemma execute_success:
  assumes "tl_execute env cid tool ctx args parsed rid m t = (Inr r, u)" and "tr_ok r"
  shows "ran_to_success env cid tool ctx args parsed t r u"
proof -
  obtain x t2 where ev: "tl_event TOOL_CALLED (called_payload (td_name tool) args cid) (tc_agent_id ctx) cid t = (Inr x, t2)"
    using assms(1) unfolding tl_execute_def Let_def called_payload_def by (blast dest: andthen_Inr)
  note rest = assms(1)[unfolded tl_execute_def Let_def, folded called_payload_def, unfolded ev andthen_simps]
  show ?thesis
  proof (cases "td_executor tool")
    case None
    with rest assms(2) show ?thesis by (auto dest: release_no_success simp: andthen_def)
  next
    case (Some ex)
    obtain y t3 where run: "tl_on (ex ctx (te_exec_at env) parsed) t2 = (y, t3)" by (meson surj_pair)
    then have ex: "ex ctx (te_exec_at env) parsed (tl_sv t2) = (y, tl_sv t3)" by (auto dest: tl_on_eq)
    show ?thesis
    proof (cases y)
      case (Inl e)
      with rest Some run assms(2) show ?thesis by (auto dest: release_no_success simp: andthen_def)
    next
      case (Inr out)
      then have cls: "td_output_schema tool \<in> set (om_classes out)"
        and "tl_commit env cid tool (tc_agent_id ctx) rid m out t3 = (Inr r, u)"
        using rest Some run assms(2) by (auto dest: release_no_success simp: andthen_def split: if_splits)
      from commit_success[OF this(2) assms(2)] cls ev Some ex Inr show ?thesis
        unfolding ran_to_success_def by blast
    qed
  qed
qed

lemma request_grows: "log_grows (snd s) (snd (snd (appr_request f n k a p ro cid to s)))"
  using append_grows
  by (auto simp: appr_request_def announce_def Let_def case_prod_beta split: option.split sum.split)

lemma approval_grows: "log_grows (tl_log t) (tl_log (snd (tl_handle_approval env tool a cid args t)))"
proof (cases "approval_kind_for (td_requires_approval tool)")
  case (Inr k)
  let ?req = "appr_request (te_uuid env) (te_request_at env) k a
      [(''tool'', JStr (td_name tool)), (''args'', JObj args)] plain_board_route (Some cid) None"
  obtain v s where run: "?req (get_appr (tl_sv t)) = (v, s)" by (meson surj_pair)
  then have "log_grows (tl_log t) (snd s)"
    using request_grows[of "get_appr (tl_sv t)" "te_uuid env" "te_request_at env" k a
      "[(''tool'', JStr (td_name tool)), (''args'', JObj args)]" plain_board_route "Some cid" None]
    by (simp add: get_appr_def)
  then show ?thesis
    using run Inr by (cases v) (simp_all add: tl_handle_approval_def tl_on_def through_def put_appr_def)
qed (simp add: tl_handle_approval_def)

lemma spend_success:
  assumes run: "tl_spend env cid tool ctx args parsed t = (Inr r, u)" and ok: "tr_ok r"
  shows "\<exists>t1. log_grows (tl_log t) (tl_log t1) \<and> ran_to_success env cid tool ctx args parsed t1 r u"
proof -
  obtain m where est: "tool_estimate tool parsed = Inr m" using run by (cases "tool_estimate tool parsed") (auto simp: tl_spend_def)
  let ?res = "budget_reserve (te_reservation env) (te_reserve_at env) m cid"
  obtain x t1 where res: "tl_on (on_cost ?res) t = (x, t1)" by (meson surj_pair)
  have t1: "log_grows (tl_log t) (tl_log t1)"
    using cost_grows[where f = ?res, OF reserve_grows, of t] res by simp
  note step = run[unfolded tl_spend_def Let_def est sum.case res prod.case]
  show ?thesis
  proof (cases x)
    case (Inl e)
    with step ok show ?thesis by (auto dest: fail_no_success split: exn.splits)
  next
    case (Inr rs)
    note exec = execute_success[OF _ ok, of env cid tool ctx args parsed "rs_id rs" m]
    show ?thesis
    proof (cases "td_requires_approval tool = AR_NONE")
      case True
      with step Inr exec t1 show ?thesis by auto
    next
      case False
      with step Inr obtain d t2 where hand: "tl_handle_approval env tool (tc_agent_id ctx) cid args t1 = (Inr d, t2)"
        and "(if d = ''pending''
              then andthen (tl_on (on_cost (budget_release (rs_id rs))) t2)
                     (\<lambda>_ t3. tl_emit_only cid (td_name tool) (PendingApproval (''pending:'' @ cid)) (tc_agent_id ctx) t3)
              else if d = ''denied''
              then release_and_fail (rs_id rs) cid (td_name tool) (ToolApprovalDenied (''denied:'' @ cid))
                     (tc_agent_id ctx) TOOL_DENIED t2
              else tl_execute env cid tool ctx args parsed (rs_id rs) m t2) = (Inr r, u)"
        by (auto dest!: andthen_Inr)
      with ok have "tl_execute env cid tool ctx args parsed (rs_id rs) m t2 = (Inr r, u)"
        by (auto dest!: andthen_Inr dest: emit_no_success release_no_success split: if_splits)
      moreover have "log_grows (tl_log t1) (tl_log t2)"
        using approval_grows[of t1 env tool "tc_agent_id ctx" cid args] hand by simp
      ultimately show ?thesis using exec t1 by (blast intro: log_grows_trans)
    qed
  qed
qed

lemma invoke_success:
  assumes run: "tl_invoke env a n args (Some cid) t = (Inr r, u)" and ok: "tr_ok r"
    and cid: "cid \<noteq> []" and fresh: "tl_completed t cid = None"
  obtains tool ag parsed t1 where "tl_get t n = Inr tool" "org_get (sv_org (tl_sv t)) a = Inr ag"
    "td_schema tool args = Inr parsed" "log_grows (tl_log t) (tl_log t1)"
    "ran_to_success env cid tool \<lparr>tc_agent_id = a, tc_role = ag_role ag, tc_correlation_id = cid\<rparr> args parsed t1 r u"
proof -
  have str: "str_or (Some cid) x = cid" for x using cid by (simp add: str_or_def)
  note run' = run[unfolded tl_invoke_def Let_def str fresh option.case]
  obtain tool where tool: "tl_get t n = Inr tool"
    using run' ok by (cases "tl_get t n") (auto dest: fail_no_success)
  obtain ag where ag: "org_get (sv_org (tl_sv t)) a = Inr ag"
    using run' tool by (cases "org_get (sv_org (tl_sv t)) a") auto
  obtain parsed where parsed: "td_schema tool args = Inr parsed"
    using run' tool ag ok by (cases "td_schema tool args") (auto dest: fail_no_success split: if_splits)
  have "tl_spend env cid tool \<lparr>tc_agent_id = a, tc_role = ag_role ag, tc_correlation_id = cid\<rparr> args parsed t = (Inr r, u)"
    using run' tool ag parsed ok by (auto dest: fail_no_success split: if_splits option.splits)
  from spend_success[OF this ok] tool ag parsed that show thesis by blast
qed

lemma invoke_success_of:
  assumes "tl_get t n = Inr tool" and "tl_invoke env a n args (Some cid) t = (Inr r, u)" and "tr_ok r"
    and "cid \<noteq> []" and "tl_completed t cid = None"
  obtains ag parsed t1 where "org_get (sv_org (tl_sv t)) a = Inr ag" "td_schema tool args = Inr parsed"
    "log_grows (tl_log t) (tl_log t1)"
    "ran_to_success env cid tool \<lparr>tc_agent_id = a, tc_role = ag_role ag, tc_correlation_id = cid\<rparr> args parsed t1 r u"
  using invoke_success[OF assms(2-5)] assms(1) sum.inject(2) by metis

section \<open>Reports to the Board\<close>

text \<open>The agent's tool calls, and whether the log shows the cooldown between a call and the moment \<open>now\<close>.\<close>

definition tool_call_of :: "string \<Rightarrow> event \<Rightarrow> bool" where
  "tool_call_of a e \<longleftrightarrow> ev_kind e = TOOL_CALLED \<and> ev_actor_agent_id e = Some a"

definition called_within :: "rat \<Rightarrow> string \<Rightarrow> int \<Rightarrow> event_store \<Rightarrow> bool" where
  "called_within limit cid now es \<longleftrightarrow>
     list_all (\<lambda>e. ev_kind e = TOOL_CALLED \<and> ev_correlation_id e = Some cid \<longrightarrow> seconds_since now e < limit) (es_events es)"

lemma event_logged:
  assumes "tl_event k p a cid t = (Inr x, u)"
  shows "\<exists>e. es_events (tl_log u) = es_events (tl_log t) @ [e] \<and> ev_kind e = k \<and> ev_actor_agent_id e = Some a \<and>
    ev_correlation_id e = Some cid \<and>
    (\<exists>sch. model_for k = Some sch \<and> es_validate (tl_log t) sch p = Some (ev_payload e))"
proof -
  obtain r es where app: "es_append (Inl k) p (Some a) (Some cid) (tl_log t) = (r, es)" by (meson surj_pair)
  with assms obtain e where "r = Inr e" "tl_log u = es"
    by (cases r) (auto simp: tl_event_def tl_on_def through_def put_events_def)
  with es_appended[of k p "Some a" "Some cid" "tl_log t" e es] app show ?thesis by auto
qed

lemma called_payload_valid:
  "valid_payload ToolCalledPayload (called_payload n args cid)"
  "pget (payload_dump ToolCalledPayload (called_payload n args cid)) ''tool'' = JStr n"
  by (simp_all add: valid_payload_def ToolCalledPayload_def called_payload_def payload_dump_def pget_def)

lemma report_refused:
  assumes inv: "log_inv es" and log: "es_events es = evs @ [e]"
    and e: "tool_call_of a e" "pget (ev_payload e) ''tool'' = JStr ''report_to_board''"
    and few: "length (filter (tool_call_of a) (es_events es)) \<le> 500"
    and soon: "seconds_since now e < REPORT_BOARD_COOLDOWN_SECONDS"
    and ctx: "tc_agent_id ctx = a" and w: "sv_events w = es"
  shows "\<exists>m. exec_report_to_board ctx now p w = (Inl (ExecutorFailure m), w)"
proof -
  have "filter (read_match None None [TOOL_CALLED] (Some a) None) (es_events es) = filter (tool_call_of a) (es_events es)"
    by (rule filter_cong) (auto simp: read_match_def tool_call_of_def)
  then have "es_read None None [TOOL_CALLED] (Some a) None 500 es = Inr (filter (tool_call_of a) evs @ [e])"
    using log_inv_read[OF inv, of 500 None None "[TOOL_CALLED]" "Some a" None] few log e(1) by simp
  then have "board_calls a es = filter (\<lambda>e. pget (ev_payload e) ''tool'' = JStr ''report_to_board'') (filter (tool_call_of a) evs) @ [e]"
    using e(2) by (simp add: board_calls_def)
  then show ?thesis
    using soon by (simp add: exec_report_to_board_def Let_def ctx w)
qed

lemma andthen_value_snd: "snd (andthen m (\<lambda>_ w. (Inr y, w))) = snd m"
  by (cases m; cases "fst m") auto

lemma log_message_grows: "log_grows (sv_events w) (sv_events (snd (log_message ctx t b w)))"
  unfolding log_message_def andthen_snd
  using append_grows by (simp add: through_def case_prod_beta put_events_def)

lemma report_grows: "log_grows (sv_events w) (sv_events (snd (exec_report_to_board ctx now p w)))"
  by (simp add: exec_report_to_board_def Let_def andthen_value_snd log_message_grows)

section \<open>Outputs\<close>

lemma builtin_outputs:
  assumes "d \<in> set (BUILTIN_TOOLS env)" and "td_executor d = Some ex" and "ex ctx now p w = (Inr out, u)"
  shows "om_classes out = [td_output_schema d, ''_Strict'', ''BaseModel'']"
  using assms
  by (auto simp: BUILTIN_TOOLS_def builtin_tool_defs mk_tool_def executor_defs Let_def mk_out_def ProposeOut_def
      elim!: andthen_run split: if_splits option.splits sum.splits)

section \<open>A company with its tools\<close>

type_synonym 'x office_tools = "('x office_ext staff_ext) tools"

definition demo_builtin :: builtin_env where
  "demo_builtin =
     \<lparr>be_validate = strict_args, be_description = (\<lambda>_. []), be_decode = (\<lambda>s. s), be_decimal = (\<lambda>_. Inr 1),
      be_float = (\<lambda>_. 0), be_fresh = (\<lambda>_. ''f1''), be_hire_env = (\<lambda>_. demo_hire), be_hire_ready = True\<rparr>"

text \<open>The chief executive has reported eight times before.\<close>

definition past_report :: "int \<Rightarrow> event" where
  "past_report i =
     \<lparr>ev_id = i, ev_company_id = ''acme'', ev_kind = TOOL_CALLED, ev_payload = [(''tool'', JStr ''report_to_board'')],
      ev_actor_agent_id = Some ''ceo'', ev_correlation_id = None, ev_ts_company = i, ev_ts_real = i\<rparr>"

definition quiet_office :: "event_store \<Rightarrow> office" where
  "quiet_office es =
     \<lparr>sv_org = chart_of [staff_member ''ceo'' CEO None], sv_cost = sv_cost demo_services, sv_appr = fst demo_appr0,
      sv_events = es, pf_feedback = [], of_workspace = demo_ws0, of_memory = demo_memory, of_orch = None,
      of_performance = True, of_connector = True, of_agents = [''ceo''], of_bootstrap_ids = [], of_quota_mb = 1\<rparr>"

definition demo_office_tools :: "unit office_tools" where
  "demo_office_tools =
     (tl_create (quiet_office (demo_store\<lparr>es_events := map past_report [1, 2, 3, 4, 5, 6, 7, 8], es_seq := 8\<rparr>)))
     \<lparr>tl_defs := [report_to_board_tool demo_builtin]\<rparr>"

definition board_env :: tool_env where
  "board_env = Tools_Service.demo_env\<lparr>te_exec_at := 9\<rparr>"

definition board_report :: "(tool_result, unit office_ext staff_ext) tool_out" where
  "board_report = tl_invoke board_env ''ceo'' ''report_to_board'' [(''body'', JStr ''x'')] (Some ''r1'') demo_office_tools"

text \<open>The call, stage by stage.\<close>

definition new_event :: "event_store \<Rightarrow> event_kind \<Rightarrow> payload \<Rightarrow> string \<Rightarrow> string \<Rightarrow> event" where
  "new_event s k v a cid =
     \<lparr>ev_id = es_seq s + 1, ev_company_id = es_company_id s, ev_kind = k, ev_payload = v,
      ev_actor_agent_id = Some a, ev_correlation_id = Some cid,
      ev_ts_company = es_clock_company s (es_seq s + 1), ev_ts_real = es_clock_real s (es_seq s + 1)\<rparr>"

definition with_event :: "event \<Rightarrow> 'x tools \<Rightarrow> 'x tools" where
  "with_event e t =
     t\<lparr>tl_sv := (tl_sv t)\<lparr>sv_events :=
       es_broadcast e ((tl_log t)\<lparr>es_events := es_events (tl_log t) @ [e], es_seq := es_seq (tl_log t) + 1\<rparr>)\<rparr>\<rparr>"

lemma event_accepted:
  assumes "model_for k = Some sch" and "es_validate (tl_log t) sch p = Some v"
    and "int (utf8_len (json_dumps (es_float_repr (tl_log t)) (JObj v))) \<le> es_max_payload_bytes (tl_log t)"
    and "es_migrated (tl_log t)"
  shows "tl_event k p a cid t = (Inr (), with_event (new_event (tl_log t) k v a cid) t)"
  using assms
  by (simp add: tl_event_def tl_on_def through_def put_events_def es_append_def es_validate_payload_def Let_def
      with_event_def new_event_def)

definition cap_text :: string where
  "cap_text = ''report_to_board_lifetime_cap:8; the Board has already been notified - solve the issue yourself''"

definition announced :: payload where
  "announced = [(''tool'', JStr ''report_to_board''), (''arguments'', JObj [(''body'', JStr ''x'')]), (''request_id'', JStr ''r1'')]"

definition answered :: payload where
  "answered = [(''tool'', JStr ''report_to_board''), (''request_id'', JStr ''r1''), (''ok'', JBool False), (''result'', JNull),
     (''error'', JStr (''executor_failure: '' @ cap_text))]"

lemma announced_fits: "utf8_len (json_dumps (\<lambda>_. ''0.5'') (JObj announced)) \<le> 1000"
  by code_simp

lemma answered_fits: "utf8_len (json_dumps (\<lambda>_. ''0.5'') (JObj answered)) \<le> 1000"
  by code_simp

lemma announced_valid: "strict_validate ToolCalledPayload (called_payload ''report_to_board'' [(''body'', JStr ''x'')] ''r1'') = Some announced"
  by code_simp

lemma answered_valid:
  "strict_validate ToolResultPayload (fail_payload ''r1'' ''report_to_board'' (ExecutorFailure cap_text) TOOL_RESULT) = Some answered"
  by code_simp

definition held_cost :: cost where
  "held_cost = (sv_cost demo_services)\<lparr>ct_reservations :=
     [\<lparr>rs_id = ''v'', rs_units = 0, rs_ref = ''r1'', rs_status = OPEN, rs_created_at = 7\<rparr>]\<rparr>"

lemma demo_zero: "to_units (Money 0) = 0" "fst (evaluate_thresholds held_cost) = []" "seconds_since 9 (past_report 9) = 0"
  by code_simp+

definition held_tools :: "unit office_tools" where
  "held_tools = demo_office_tools\<lparr>tl_sv := (tl_sv demo_office_tools)\<lparr>sv_cost := snd (evaluate_thresholds held_cost)\<rparr>\<rparr>"

definition announced_tools :: "unit office_tools" where
  "announced_tools = with_event (new_event (tl_log held_tools) TOOL_CALLED announced ''ceo'' ''r1'') held_tools"

definition ceo_context :: tool_context where
  "ceo_context = \<lparr>tc_agent_id = ''ceo'', tc_role = CEO, tc_correlation_id = ''r1''\<rparr>"

lemmas demo_office_defs = demo_office_tools_def quiet_office_def tl_create_def demo_store_def

lemma thresholds_reservations [simp]: "ct_reservations (snd (evaluate_thresholds c)) = ct_reservations c"
  by (simp add: evaluate_thresholds_def Let_def case_prod_beta)

lemma demo_reserve:
  "tl_on (on_cost (budget_reserve ''v'' 7 (Money 0) ''r1'')) demo_office_tools =
     (Inr \<lparr>rs_id = ''v'', rs_units = 0, rs_ref = ''r1'', rs_status = OPEN, rs_created_at = 7\<rparr>, held_tools)"
proof -
  have c: "ct_reservations (sv_cost demo_services) = []" "ct_total (sv_cost demo_services) = 100000"
    "\<not> ct_blocked (sv_cost demo_services)" "sum_expenses (sv_cost demo_services) = 0"
    "sum_open_reservations (sv_cost demo_services) = 0"
    by (simp_all add: demo_services_def sum_expenses_def sum_open_reservations_def)
  obtain c1 where th: "evaluate_thresholds held_cost = ([], c1)" using demo_zero(2) by (metis prod.collapse)
  have "budget_reserve ''v'' 7 (Money 0) ''r1'' (sv_cost demo_services, es) =
      (Inr \<lparr>rs_id = ''v'', rs_units = 0, rs_ref = ''r1'', rs_status = OPEN, rs_created_at = 7\<rparr>, c1, es)" for es
    using th by (simp add: budget_reserve_def demo_zero(1) c held_cost_def tbl_find_def Let_def append_all.simps)
  then show ?thesis
    by (simp add: tl_on_def through_def get_cost_def put_cost_def demo_office_tools_def quiet_office_def tl_create_def
        held_tools_def th)
qed

lemma demo_refused: "exec_report_to_board ceo_context 9 [(''body'', JStr ''x'')] (tl_sv announced_tools) =
   (Inl (ExecutorFailure cap_text), tl_sv announced_tools)"
proof -
  have log: "es_events (tl_log announced_tools) = map past_report [1, 2, 3, 4, 5, 6, 7, 8] @
      [new_event (tl_log held_tools) TOOL_CALLED announced ''ceo'' ''r1'']"
    by (simp add: announced_tools_def with_event_def held_tools_def demo_office_defs)
  have "log_inv (tl_log announced_tools)"
    by (simp add: log_inv_def log) (simp add: announced_tools_def with_event_def held_tools_def demo_office_defs past_report_def new_event_def)
  then have "board_calls ''ceo'' (tl_log announced_tools) = es_events (tl_log announced_tools)"
    by (simp add: board_calls_def log_inv_read log read_match_def past_report_def new_event_def pget_def announced_def)
  then show ?thesis
    by (simp add: exec_report_to_board_def ceo_context_def log REPORT_BOARD_LIFETIME_MAX_def cap_text_def)
qed

lemma demo_board_report:
  "\<exists>r u. board_report = (Inr r, u) \<and> tr_error_code r = Some ''executor_failure'' \<and>
     called_within REPORT_BOARD_COOLDOWN_SECONDS ''r1'' 9 (tl_log u) \<and>
     length (filter (tool_call_of ''ceo'') (es_events (tl_log u))) \<le> 500"
proof -
  let ?args = "[(''body'', JStr ''x'')]" and ?tool = "report_to_board_tool demo_builtin :: (unit office_ext staff_ext services_scheme) tool_def"
  have args: "be_validate demo_builtin ReportArgs ?args = Inr ?args"
    by (simp add: demo_builtin_def strict_args_def ReportArgs_def args_ok_def args_dump_def payload_dump_def pget_def)
  have "board_report = tl_spend board_env ''r1'' ?tool ceo_context ?args ?args demo_office_tools"
    by (simp add: board_report_def tl_invoke_def str_or_def demo_office_tools_def tl_create_def quiet_office_def tl_get_def
        tbl_find_def report_to_board_tool_def mk_tool_def args org_get_def chart_of_def staff_member_def demo_agent_def
        is_role_allowed_def tool_denied_def check_only_ceo_def ceo_context_def Let_def)
  also have "\<dots> = tl_execute board_env ''r1'' ?tool ceo_context ?args ?args ''v'' (Money 0) held_tools"
    by (simp add: tl_spend_def Let_def tool_estimate_def report_to_board_tool_def mk_tool_def board_env_def
        Tools_Service.demo_env_def demo_reserve)
  finally have run: "board_report = tl_execute board_env ''r1'' ?tool ceo_context ?args ?args ''v'' (Money 0) held_tools" .
  have log: "es_float_repr (tl_log t) = (\<lambda>_. ''0.5'') \<and> es_max_payload_bytes (tl_log t) = 262144 \<and>
      es_validate (tl_log t) = strict_validate \<and> es_migrated (tl_log t)"
    if "t = held_tools \<or> t = announced_tools" for t
    using that by (auto simp: announced_tools_def with_event_def held_tools_def demo_office_defs)
  have ann: "tl_event TOOL_CALLED (called_payload ''report_to_board'' ?args ''r1'') ''ceo'' ''r1'' held_tools = (Inr (), announced_tools)"
    unfolding announced_tools_def
    by (rule event_accepted[where sch = ToolCalledPayload]) (use log announced_fits in \<open>simp_all add: announced_valid\<close>)
  define released where "released = announced_tools\<lparr>tl_sv := put_cost (close_reservation RELEASED ''v''
     (tl_cost announced_tools), tl_log announced_tools) (tl_sv announced_tools)\<rparr>"
  have rel: "tl_on (on_cost (budget_release ''v'')) announced_tools = (Inr (), released)"
    by (simp add: tl_on_def through_def budget_release_def get_cost_def released_def)
       (simp add: announced_tools_def with_event_def held_tools_def held_cost_def tbl_find_def)
  have rlog: "tl_log released = tl_log announced_tools" by (simp add: released_def put_cost_def)
  define u where "u = with_event (new_event (tl_log announced_tools) TOOL_RESULT answered ''ceo'' ''r1'') released"
  have ans: "tl_event TOOL_RESULT (fail_payload ''r1'' ''report_to_board'' (ExecutorFailure cap_text) TOOL_RESULT) ''ceo'' ''r1''
      released = (Inr (), u)"
    unfolding u_def rlog[symmetric]
    by (rule event_accepted[where sch = ToolResultPayload])
       (use log answered_fits in \<open>simp_all add: answered_valid rlog\<close>)
  define r where "r = \<lparr>tr_ok = False, tr_output = None, tr_error_code = Some ''executor_failure'',
     tr_error_message = Some cap_text, tr_cost_usd = 0, tr_extra = []\<rparr>"
  have fail: "tl_fail ''r1'' ''report_to_board'' (ExecutorFailure cap_text) ''ceo'' TOOL_RESULT released = (Inr r, complete ''r1'' r u)"
    by (simp add: tl_fail_def ans error_code_def tool_code_def r_def Let_def)
  have ran: "board_report = (Inr r, complete ''r1'' r u)"
    unfolding run tl_execute_def Let_def called_payload_def[symmetric]
    using demo_refused ann
    by (simp add: report_to_board_tool_def mk_tool_def ceo_context_def board_env_def tl_on_def release_and_fail_def rel[unfolded tl_on_def]
        fail tool_code_def)
  have logged: "es_events (tl_log (complete ''r1'' r u)) = map past_report [1, 2, 3, 4, 5, 6, 7, 8] @
      [new_event (tl_log held_tools) TOOL_CALLED announced ''ceo'' ''r1'',
       new_event (tl_log announced_tools) TOOL_RESULT answered ''ceo'' ''r1'']"
    by (simp add: complete_def u_def with_event_def rlog)
       (simp add: announced_tools_def with_event_def held_tools_def demo_office_defs)
  have since: "seconds_since 9 (new_event (tl_log held_tools) TOOL_CALLED announced ''ceo'' ''r1'') = 0"
    using demo_zero(3) by (simp add: seconds_since_def new_event_def past_report_def held_tools_def demo_office_defs)
  have facts: "ev_kind (new_event s k v a c) = k" "ev_correlation_id (new_event s k v a c) = Some c"
    "ev_correlation_id (past_report i) = None" for s k v a c i
    by (simp_all add: new_event_def past_report_def)
  have within: "called_within REPORT_BOARD_COOLDOWN_SECONDS ''r1'' 9 (tl_log (complete ''r1'' r u))"
    by (simp add: called_within_def logged facts since REPORT_BOARD_COOLDOWN_SECONDS_def)
  have "length (filter (tool_call_of ''ceo'') (es_events (tl_log (complete ''r1'' r u)))) \<le> 500"
    by (rule order_trans[OF length_filter_le]) (simp add: logged)
  with ran within show ?thesis by (intro exI[of _ r] exI[of _ "complete ''r1'' r u"]) (simp add: r_def)
qed

section \<open>Properties\<close>

inductive tool_session :: "builtin_env \<Rightarrow> 'x office_tools \<Rightarrow> bool" for env where
  ts_start: "org_inv (get_org w) \<Longrightarrow> tool_session env (snd (register_builtins env (tl_create w)))"
| ts_call: "tool_session env t \<Longrightarrow> tool_session env (snd (tl_invoke e a n args corr t))"

text \<open>
  Whatever the agents call, in any order, with any arguments and whether or not the call raises, no
  built-in tool breaks the org chart or loses the registry: every state reachable by calls of the built-in
  tools from a company whose chart is in order has its chart in order (unique ids, acyclic, active managers,
  spans of control, head count).
\<close>

theorem builtin_calls_keep_chart:
  assumes "tool_session env t"
  shows "tl_defs t = BUILTIN_TOOLS env \<and> org_inv (get_org (tl_sv t))"
  using assms
proof induction
  case (ts_start w)
  then show ?case by (simp only: registered snd_conv) (simp add: tl_create_def)
next
  case (ts_call t e a n args corr)
  have "kept (\<lambda>g. org_inv (g, tl_log t)) t (tl_invoke e a n args corr t)"
    by (rule kept_invoke) (simp add: ts_call.IH builtin_chart_safe)
  then show ?case
    using ts_call.IH org_inv_fst[of _ "tl_log t" "tl_log (snd (tl_invoke e a n args corr t))"]
    by (simp add: kept_def get_org_def)
qed

lemma quiet_office_inv: "org_inv (get_org (quiet_office es))"
  by (simp add: org_inv_def get_org_def quiet_office_def chart_of_def chart_ok_def staff_ok_def tbl_pk_def mgr_rel_def
      org_direct_report_count_def org_active_count_def MAX_ACTIVE_AGENTS_def staff_member_def demo_agent_def reports_under_def acyclic_def)

lemma builtin_calls_keep_chart_witness:
  "org_inv (get_org (tl_sv (snd (tl_invoke board_env ''ceo'' ''propose_fire''
     [(''target_agent_id'', JStr ''ceo''), (''reason'', JStr ''no longer needed'')] (Some ''r1'')
     (snd (register_builtins demo_builtin (tl_create (quiet_office demo_store))))))))"
  by (rule conjunct2[OF builtin_calls_keep_chart[OF ts_call[OF ts_start[OF quiet_office_inv]]]])

text \<open>
  Every built-in executor that returns, returns an instance of the output class its ToolDef declares, so
  no call of a built-in tool fails because of its output's type.
\<close>

theorem builtin_outputs_typed:
  assumes "d \<in> set (BUILTIN_TOOLS env)" and "td_executor d = Some ex" and "ex ctx now p w = (Inr out, u)"
  shows "td_output_schema d \<in> set (om_classes out)"
  by (simp add: builtin_outputs[OF assms])

lemma builtin_outputs_typed_witness:
  "''ListOut'' \<in> set (om_classes (mk_out ''ListOut'' [(''items'', JList [])]))"
  using builtin_outputs_typed[of "list_my_tasks_tool demo_builtin" demo_builtin exec_list_my_tasks ceo_context 9 "[]"
      "quiet_office demo_store" "mk_out ''ListOut'' [(''items'', JList [])]" "quiet_office demo_store"]
  by (simp add: BUILTIN_TOOLS_def list_my_tasks_tool_def mk_tool_def exec_list_my_tasks_def)

text \<open>
  A report to the Board never gets through: the pipeline logs the call before it runs the executor, and
  the executor takes that very entry for an earlier report and refuses for the next 300 seconds. No call of
  the tool succeeds unless those seconds pass between the entry and the executor's own look at the clock (or
  the agent has made more than 500 tool calls, which the executor's read does not see).
\<close>

theorem board_report_never_succeeds:
  assumes "tl_get t ''report_to_board'' = Inr (report_to_board_tool env)"
    and "log_inv (tl_log t)" and "pydantic (es_validate (tl_log t))"
    and "cid \<noteq> []" and "tl_completed t cid = None"
    and "tl_invoke e a ''report_to_board'' args (Some cid) t = (Inr r, u)"
    and "called_within REPORT_BOARD_COOLDOWN_SECONDS cid (te_exec_at e) (tl_log u)"
    and "length (filter (tool_call_of a) (es_events (tl_log u))) \<le> 500"
  shows "\<not> tr_ok r"
proof
  assume ok: "tr_ok r"
  obtain ag :: agent and parsed t1 where grow: "log_grows (tl_log t) (tl_log t1)"
    and ran: "ran_to_success e cid (report_to_board_tool env)
      \<lparr>tc_agent_id = a, tc_role = ag_role ag, tc_correlation_id = cid\<rparr> args parsed t1 r u"
    by (rule invoke_success_of[OF assms(1,6) ok assms(4,5)])
  then obtain x t2 out t3 where
    call: "tl_event TOOL_CALLED (called_payload ''report_to_board'' args cid) a cid t1 = (Inr x, t2)"
    and run: "exec_report_to_board \<lparr>tc_agent_id = a, tc_role = ag_role ag, tc_correlation_id = cid\<rparr> (te_exec_at e) parsed
        (tl_sv t2) = (Inr out, tl_sv t3)" and more: "log_grows (tl_log t3) (tl_log u)"
    by (auto simp: ran_to_success_def report_to_board_tool_def mk_tool_def)
  from event_logged[OF call] obtain ev sch where ev: "es_events (tl_log t2) = es_events (tl_log t1) @ [ev]"
    "ev_kind ev = TOOL_CALLED" "ev_actor_agent_id ev = Some a" "ev_correlation_id ev = Some cid"
    "es_validate (tl_log t1) ToolCalledPayload (called_payload ''report_to_board'' args cid) = Some (ev_payload ev)"
    by auto
  have "es_validate (tl_log t1) = es_validate (tl_log t)" using grow by (simp add: log_grows_def log_extends_def)
  then have named: "pget (ev_payload ev) ''tool'' = JStr ''report_to_board''"
    using ev(5) pydantic.exact_values[OF assms(3) called_payload_valid(1), of "''report_to_board''" args cid]
      called_payload_valid(2)[of "''report_to_board''" args cid] by simp
  have t2: "log_grows (tl_log t1) (tl_log t2)"
    using event_grows[of t1 TOOL_CALLED "called_payload ''report_to_board'' args cid" a cid] call by simp
  have "log_grows (tl_log t2) (tl_log u)"
    using log_grows_trans[OF _ more] report_grows[of "tl_sv t2"] run by (metis snd_conv)
  then obtain new where u: "es_events (tl_log u) = es_events (tl_log t2) @ new"
    by (auto simp: log_grows_def log_extends_def)
  have "\<exists>m. exec_report_to_board \<lparr>tc_agent_id = a, tc_role = ag_role ag, tc_correlation_id = cid\<rparr> (te_exec_at e) parsed
      (tl_sv t2) = (Inl (ExecutorFailure m), tl_sv t2)"
  proof (rule report_refused)
    show "log_inv (tl_log t2)" using grow t2 assms(2) by (simp add: log_grows_def)
    show "seconds_since (te_exec_at e) ev < REPORT_BOARD_COOLDOWN_SECONDS"
      using assms(7) u ev by (simp add: called_within_def)
    show "length (filter (tool_call_of a) (es_events (tl_log t2))) \<le> 500" using assms(8) u by simp
  qed (use ev named in \<open>simp_all add: tool_call_of_def\<close>)
  with run show False by simp
qed

lemma board_report_never_succeeds_witness:
  "\<exists>r u. board_report = (Inr r, u) \<and> tr_error_code r = Some ''executor_failure'' \<and> \<not> tr_ok r"
proof -
  obtain r u where run: "board_report = (Inr r, u)" and r: "tr_error_code r = Some ''executor_failure''"
    and u: "called_within REPORT_BOARD_COOLDOWN_SECONDS ''r1'' 9 (tl_log u)"
      "length (filter (tool_call_of ''ceo'') (es_events (tl_log u))) \<le> 500"
    using demo_board_report by blast
  have "tl_get demo_office_tools ''report_to_board'' = Inr (report_to_board_tool demo_builtin)"
    by (simp add: tl_get_def demo_office_tools_def report_to_board_tool_def mk_tool_def tbl_find_def)
  moreover have "log_inv (tl_log demo_office_tools)" "es_validate (tl_log demo_office_tools) = strict_validate"
    "tl_completed demo_office_tools ''r1'' = None"
    by (simp_all add: demo_office_tools_def demo_office_defs log_inv_def past_report_def)
  ultimately have "\<not> tr_ok r"
    using board_report_never_succeeds[of demo_office_tools demo_builtin "''r1''" board_env "''ceo''" _ r u]
      run[unfolded board_report_def] u strict.pydantic_axioms by (simp add: board_env_def)
  with run r show ?thesis by blast
qed

text \<open>
  No external call made through the built-in tool succeeds: the executor hands its three arguments to
  the connector by position, and every parameter of Connector.call is keyword-only.
\<close>

theorem external_call_never_succeeds:
  assumes "tl_get t ''external_call'' = Inr (external_call_tool env)"
    and "cid \<noteq> []" and "tl_completed t cid = None"
    and "tl_invoke e a ''external_call'' args (Some cid) t = (Inr r, u)"
  shows "\<not> tr_ok r"
proof
  assume ok: "tr_ok r"
  obtain ag :: agent and parsed t1 where
    "ran_to_success e cid (external_call_tool env) \<lparr>tc_agent_id = a, tc_role = ag_role ag, tc_correlation_id = cid\<rparr> args parsed t1 r u"
    by (rule invoke_success_of[OF assms(1,4) ok assms(2,3)])
  then show False
    by (auto simp: ran_to_success_def external_call_tool_def mk_tool_def exec_external_call_def positional_call_def
        split: if_splits)
qed

end
