(* ===== verification/Security_Model.thy ===== *)
theory Security_Model
  imports Company_Bootstrap Sanitizer_Model
begin

text \<open>
  \<^verbatim>\<open>modules/security_agent\<close>: the static rules on an approval and on a window of events, the review
  of an approval, the sweep of recent events, and what a finding sets in motion. The three default
  patterns for personal data are matched the way \<^verbatim>\<open>re\<close> does, by backtracking, on code points below
  256. The reviewing LLM is injected: it is a parameter that gives a decision and a note, or raises.
\<close>

section \<open>Texts of Python values\<close>

definition apostrophe :: char where "apostrophe = char_of (39 :: nat)"

definition double_quote :: char where "double_quote = char_of (34 :: nat)"

definition repr_char :: "char \<Rightarrow> char \<Rightarrow> string" where
  "repr_char q c =
     (let n = of_char c :: nat in
      if c = q \<or> c = backslash then [backslash, c]
      else if n = 10 then [backslash, CHR ''n'']
      else if n = 13 then [backslash, CHR ''r'']
      else if n = 9 then [backslash, CHR ''t'']
      else if n < 32 \<or> 127 \<le> n \<and> n \<le> 160 \<or> n = 173
      then [backslash, CHR ''x'', hex_digit (n div 16), hex_digit (n mod 16)]
      else [c])"

definition py_repr :: "string \<Rightarrow> string" where
  "py_repr s =
     (let q = (if apostrophe \<in> set s \<and> double_quote \<notin> set s then double_quote else apostrophe)
      in [q] @ concat (map (repr_char q) s) @ [q])"

text \<open>\<^verbatim>\<open>repr\<close> of a JSON value; \<open>fr\<close> gives the text of a float.\<close>

fun json_repr :: "(rat \<Rightarrow> string) \<Rightarrow> json \<Rightarrow> string"
  and repr_list :: "(rat \<Rightarrow> string) \<Rightarrow> json list \<Rightarrow> string list"
  and repr_items :: "(rat \<Rightarrow> string) \<Rightarrow> (string \<times> json) list \<Rightarrow> string list"
where
  "json_repr fr JNull = ''None''"
| "json_repr fr (JBool b) = bool_str b"
| "json_repr fr (JInt i) = int_str i"
| "json_repr fr (JFloat r) = fr r"
| "json_repr fr (JStr s) = py_repr s"
| "json_repr fr (JList xs) = ''['' @ py_join '', '' (repr_list fr xs) @ '']''"
| "json_repr fr (JObj kvs) = ''{'' @ py_join '', '' (repr_items fr kvs) @ ''}''"
| "repr_list fr [] = []"
| "repr_list fr (x # xs) = json_repr fr x # repr_list fr xs"
| "repr_items fr [] = []"
| "repr_items fr ((k, v) # kvs) = (py_repr k @ '': '' @ json_repr fr v) # repr_items fr kvs"

text \<open>\<^verbatim>\<open>str(payload.get(k, ""))\<close>.\<close>

definition text_at :: "(rat \<Rightarrow> string) \<Rightarrow> payload \<Rightarrow> string \<Rightarrow> string" where
  "text_at fr p k = (case map_of p k of None \<Rightarrow> [] | Some j \<Rightarrow> json_text (json_repr fr) j)"

text \<open>\<^verbatim>\<open>_flatten\<close>.\<close>

fun flatten :: "(rat \<Rightarrow> string) \<Rightarrow> json \<Rightarrow> string"
  and flatten_list :: "(rat \<Rightarrow> string) \<Rightarrow> json list \<Rightarrow> string list"
  and flatten_items :: "(rat \<Rightarrow> string) \<Rightarrow> (string \<times> json) list \<Rightarrow> string list"
where
  "flatten fr (JStr s) = s"
| "flatten fr (JObj kvs) = py_join '' '' (flatten_items fr kvs)"
| "flatten fr (JList xs) = py_join '' '' (flatten_list fr xs)"
| "flatten fr JNull = json_repr fr JNull"
| "flatten fr (JBool b) = json_repr fr (JBool b)"
| "flatten fr (JInt i) = json_repr fr (JInt i)"
| "flatten fr (JFloat r) = json_repr fr (JFloat r)"
| "flatten_list fr [] = []"
| "flatten_list fr (x # xs) = flatten fr x # flatten_list fr xs"
| "flatten_items fr [] = []"
| "flatten_items fr ((k, v) # kvs) = flatten fr v # flatten_items fr kvs"

text \<open>\<^verbatim>\<open>int(value)\<close>; a text may have a sign, digits, and single underscores between digits.\<close>

fun digits_val :: "int \<Rightarrow> bool \<Rightarrow> string \<Rightarrow> int option" where
  "digits_val acc after_digit [] = (if after_digit then Some acc else None)"
| "digits_val acc after_digit (c # cs) =
     (let n = of_char c :: nat in
      if 48 \<le> n \<and> n \<le> 57 then digits_val (acc * 10 + int (n - 48)) True cs
      else if n = 95 \<and> after_digit then digits_val acc False cs
      else None)"

definition int_of_text :: "string \<Rightarrow> int option" where
  "int_of_text s =
     (case py_strip s of
        [] \<Rightarrow> None
      | c # cs \<Rightarrow> if c = CHR ''-'' then map_option uminus (digits_val 0 False cs)
                  else if c = CHR ''+'' then digits_val 0 False cs
                  else digits_val 0 False (c # cs))"

fun py_int :: "json \<Rightarrow> exn + int" where
  "py_int (JInt i) = Inr i"
| "py_int (JBool b) = Inr (if b then 1 else 0)"
| "py_int (JFloat r) = Inr (if r < 0 then \<lceil>r\<rceil> else \<lfloor>r\<rfloor>)"
| "py_int (JStr s) =
     (case int_of_text s of Some i \<Rightarrow> Inr i
      | None \<Rightarrow> Inl (ValueError ''invalid literal for int() with base 10''))"
| "py_int _ = Inl (TypeError ''int() argument must be a string, a bytes-like object or a real number'')"

section \<open>Patterns\<close>

text \<open>The part of \<^verbatim>\<open>re\<close> the default patterns use. A matcher gives the ways to match at a position
  in the order the engine tries them: the text before (reversed) and the text after.\<close>

datatype rx =
    RBound
  | RSet "char \<Rightarrow> bool"
  | RSeq rx rx
  | RLazy "char \<Rightarrow> bool"
  | RRep nat nat rx

fun at_boundary :: "string \<Rightarrow> string \<Rightarrow> bool" where
  "at_boundary pre s =
     ((case pre of [] \<Rightarrow> False | c # _ \<Rightarrow> is_word c) \<noteq> (case s of [] \<Rightarrow> False | c # _ \<Rightarrow> is_word c))"

fun lazy_ends :: "(char \<Rightarrow> bool) \<Rightarrow> string \<Rightarrow> string \<Rightarrow> (string \<times> string) list" where
  "lazy_ends P pre [] = [(pre, [])]"
| "lazy_ends P pre (c # cs) = (pre, c # cs) # (if P c then lazy_ends P (c # pre) cs else [])"

fun rep_ends ::
  "nat \<Rightarrow> nat \<Rightarrow> (string \<Rightarrow> string \<Rightarrow> (string \<times> string) list) \<Rightarrow> string \<Rightarrow> string
   \<Rightarrow> (string \<times> string) list" where
  "rep_ends 0 0 m pre s = [(pre, s)]"
| "rep_ends 0 (Suc k) m pre s =
     concat (map (\<lambda>(u, v). rep_ends 0 k m u v) (m pre s)) @ [(pre, s)]"
| "rep_ends (Suc n) k m pre s = concat (map (\<lambda>(u, v). rep_ends n k m u v) (m pre s))"

text \<open>\<open>RRep n k\<close> is the greedy \<^verbatim>\<open>{n,n+k}\<close>, \<open>RLazy\<close> the lazy star of a set.\<close>

primrec rx_ends :: "rx \<Rightarrow> string \<Rightarrow> string \<Rightarrow> (string \<times> string) list" where
  "rx_ends RBound pre s = (if at_boundary pre s then [(pre, s)] else [])"
| "rx_ends (RSet P) pre s = (case s of [] \<Rightarrow> [] | c # cs \<Rightarrow> if P c then [(c # pre, cs)] else [])"
| "rx_ends (RSeq a b) pre s = concat (map (\<lambda>(u, v). rx_ends b u v) (rx_ends a pre s))"
| "rx_ends (RLazy P) pre s = lazy_ends P pre s"
| "rx_ends (RRep n k r) pre s = rep_ends n k (rx_ends r) pre s"

text \<open>\<^verbatim>\<open>pattern.search(text)\<close>: the text matched at the leftmost position where one is found.\<close>

fun rx_search :: "rx \<Rightarrow> string \<Rightarrow> string \<Rightarrow> string option" where
  "rx_search r pre s =
     (case rx_ends r pre s of
        (u, v) # _ \<Rightarrow> Some (take (length s - length v) s)
      | [] \<Rightarrow> (case s of [] \<Rightarrow> None | c # cs \<Rightarrow> rx_search r (c # pre) cs))"

declare rx_search.simps [simp del]

definition rx_digit :: "char \<Rightarrow> bool" where
  "rx_digit c \<longleftrightarrow> (let n = of_char c :: nat in 48 \<le> n \<and> n \<le> 57)"

definition rx_upper :: "char \<Rightarrow> bool" where
  "rx_upper c \<longleftrightarrow> (let n = of_char c :: nat in 65 \<le> n \<and> n \<le> 90)"

record pii_pattern =
  pp_pattern :: string
  pp_search :: "string \<Rightarrow> string option"

definition ssn_rx :: rx where
  "ssn_rx =
     RSeq RBound (RSeq (RRep 3 0 (RSet rx_digit)) (RSeq (RSet ((=) CHR ''-''))
       (RSeq (RRep 2 0 (RSet rx_digit)) (RSeq (RSet ((=) CHR ''-''))
         (RSeq (RRep 4 0 (RSet rx_digit)) RBound)))))"

definition card_rx :: rx where
  "card_rx =
     RSeq RBound (RSeq (RRep 13 3
       (RSeq (RSet rx_digit) (RLazy (\<lambda>c. c = CHR '' '' \<or> c = CHR ''-'')))) RBound)"

definition iban_rx :: rx where
  "iban_rx =
     RSeq RBound (RSeq (RRep 2 0 (RSet rx_upper)) (RSeq (RRep 2 0 (RSet rx_digit))
       (RSeq (RRep 10 20 (RSet (\<lambda>c. rx_upper c \<or> rx_digit c))) RBound)))"

definition DEFAULT_PII_PATTERNS :: "pii_pattern list" where
  "DEFAULT_PII_PATTERNS =
     (let b = [backslash] in
      [\<lparr>pp_pattern = b @ ''b'' @ b @ ''d{3}-'' @ b @ ''d{2}-'' @ b @ ''d{4}'' @ b @ ''b'',
        pp_search = rx_search ssn_rx []\<rparr>,
       \<lparr>pp_pattern = b @ ''b(?:'' @ b @ ''d[ -]*?){13,16}'' @ b @ ''b'',
        pp_search = rx_search card_rx []\<rparr>,
       \<lparr>pp_pattern = b @ ''b[A-Z]{2}'' @ b @ ''d{2}[A-Z0-9]{10,30}'' @ b @ ''b'',
        pp_search = rx_search iban_rx []\<rparr>])"

section \<open>Findings\<close>

datatype severity = SEV_INFO | SEV_WARN | SEV_HIGH | SEV_CRITICAL

fun severity_value :: "severity \<Rightarrow> string" where
  "severity_value SEV_INFO = ''info''"
| "severity_value SEV_WARN = ''warn''"
| "severity_value SEV_HIGH = ''high''"
| "severity_value SEV_CRITICAL = ''critical''"

fun severity_order :: "severity \<Rightarrow> nat" where
  "severity_order SEV_INFO = 0"
| "severity_order SEV_WARN = 1"
| "severity_order SEV_HIGH = 2"
| "severity_order SEV_CRITICAL = 3"

record security_finding =
  sf_severity :: severity
  sf_rule :: string
  sf_description :: string
  sf_evidence :: payload
  sf_suggested_action :: string
  sf_subject_agent :: "string option"

record rule_context =
  rc_allowlist_check :: "string \<Rightarrow> string \<Rightarrow> bool"
  rc_budget_total_cents :: int
  rc_pii_patterns :: "pii_pattern list"
  rc_high_volume_threshold :: int
  rc_retry_threshold :: int
  rc_workspace_root :: string

definition default_context :: "(string \<Rightarrow> string \<Rightarrow> bool) option \<Rightarrow> int \<Rightarrow> rule_context" where
  "default_context check budget =
     \<lparr>rc_allowlist_check = (case check of None \<Rightarrow> (\<lambda>_ _. True) | Some f \<Rightarrow> f),
      rc_budget_total_cents = budget, rc_pii_patterns = DEFAULT_PII_PATTERNS,
      rc_high_volume_threshold = 10, rc_retry_threshold = 5,
      rc_workspace_root = ''/data/companies''\<rparr>"

type_synonym approval_rule = "approval \<Rightarrow> rule_context \<Rightarrow> exn + security_finding list"

type_synonym event_rule = "event list \<Rightarrow> rule_context \<Rightarrow> exn + security_finding list"

section \<open>Rules on an approval\<close>

definition rule_external_call_allowlist :: "(rat \<Rightarrow> string) \<Rightarrow> approval_rule" where
  "rule_external_call_allowlist fr v ctx =
     (let r = av_row v; service = text_at fr (ar_payload r) ''service'';
          action = text_at fr (ar_payload r) ''action'' in
      if ar_kind r \<noteq> AK_EXTERNAL_ACTION then Inr []
      else if service = [] then Inr []
      else if \<not> rc_allowlist_check ctx service action
      then Inr [\<lparr>sf_severity = SEV_CRITICAL, sf_rule = ''external_call_allowlist'',
                 sf_description = ''External call to '' @ service @ ''/'' @ action @
                   '' is not on the allowlist.'',
                 sf_evidence = [(''service'', JStr service), (''action'', JStr action)],
                 sf_suggested_action = ''deny'', sf_subject_agent = Some (ar_requester_id r)\<rparr>]
      else Inr [])"

text \<open>The quotient is rounded as a double, its percentage once more.\<close>

definition rule_expense_threshold :: approval_rule where
  "rule_expense_threshold v ctx =
     (let r = av_row v; budget = rc_budget_total_cents ctx in
      if ar_kind r \<noteq> AK_EXPENSE then Inr []
      else if budget \<le> 0 then Inr []
      else case py_int (case map_of (ar_payload r) ''amount_cents'' of None \<Rightarrow> JInt 0 | Some j \<Rightarrow> j) of
          Inl e \<Rightarrow> Inl e
        | Inr amount \<Rightarrow>
            let ratio = fl (of_int amount / of_int budget) in
            if ratio \<ge> 1 / 2
            then Inr [\<lparr>sf_severity = SEV_HIGH, sf_rule = ''expense_over_50pct_budget'',
                       sf_description = ''Expense ('' @ int_str amount @ '' cents) is '' @
                         int_str (round_half_even (fl (ratio * 100))) @ ''% of the total budget.'',
                       sf_evidence = [(''amount_cents'', JInt amount), (''budget_cents'', JInt budget),
                                      (''ratio'', JFloat ratio)],
                       sf_suggested_action = ''escalate'',
                       sf_subject_agent = Some (ar_requester_id r)\<rparr>]
            else Inr [])"

definition rule_email_recipient_count :: approval_rule where
  "rule_email_recipient_count v ctx =
     (let r = av_row v in
      if ar_kind r \<noteq> AK_EXTERNAL_ACTION then Inr []
      else if map_of (ar_payload r) ''service'' \<noteq> Some (JStr ''email'') then Inr []
      else case pget (ar_payload r) ''to'' of
          JList recipients \<Rightarrow>
            if length recipients \<ge> 100
            then Inr [\<lparr>sf_severity = SEV_HIGH, sf_rule = ''email_mass_send'',
                       sf_description = ''Email to '' @ nat_str (length recipients) @ '' recipients.'',
                       sf_evidence = [(''count'', JInt (int (length recipients)))],
                       sf_suggested_action = ''escalate'',
                       sf_subject_agent = Some (ar_requester_id r)\<rparr>]
            else Inr []
        | _ \<Rightarrow> Inr [])"

fun first_pii :: "pii_pattern list \<Rightarrow> string \<Rightarrow> (pii_pattern \<times> string) option" where
  "first_pii [] blob = None"
| "first_pii (p # ps) blob =
     (case pp_search p blob of Some m \<Rightarrow> Some (p, m) | None \<Rightarrow> first_pii ps blob)"

definition rule_pii_in_payload :: "(rat \<Rightarrow> string) \<Rightarrow> approval_rule" where
  "rule_pii_in_payload fr v ctx =
     (let r = av_row v in
      case first_pii (rc_pii_patterns ctx) (flatten fr (JObj (ar_payload r))) of
        None \<Rightarrow> Inr []
      | Some (p, m) \<Rightarrow>
          Inr [\<lparr>sf_severity = SEV_HIGH, sf_rule = ''pii_in_payload'',
                sf_description = ''Payload appears to contain PII matching '' @
                  py_repr (pp_pattern p) @ ''.'',
                sf_evidence = [(''pattern'', JStr (pp_pattern p)), (''match'', JStr (take 6 m))],
                sf_suggested_action = ''deny'', sf_subject_agent = Some (ar_requester_id r)\<rparr>])"

definition starts_with :: "string \<Rightarrow> string \<Rightarrow> bool" where
  "starts_with p s \<longleftrightarrow> take (length p) s = p"

definition rule_persona_path_outside_workspace :: "(rat \<Rightarrow> string) \<Rightarrow> approval_rule" where
  "rule_persona_path_outside_workspace fr v ctx =
     (let r = av_row v; persona = text_at fr (ar_payload r) ''persona_ref'' in
      if ar_kind r \<noteq> AK_HIRE then Inr []
      else if persona = [] then Inr []
      else if CHR ''/'' \<notin> set persona then Inr []
      else if (starts_with ''..'' persona \<or> starts_with ''/'' persona) \<and>
              \<not> starts_with (rc_workspace_root ctx) persona
      then Inr [\<lparr>sf_severity = SEV_CRITICAL, sf_rule = ''persona_path_traversal'',
                 sf_description = ''Persona ref '' @ py_repr persona @ '' escapes the workspace.'',
                 sf_evidence = [(''persona_ref'', JStr persona)],
                 sf_suggested_action = ''deny'', sf_subject_agent = Some (ar_requester_id r)\<rparr>]
      else Inr [])"

definition injection_markers :: "string list" where
  "injection_markers = [''<script'', ''system:'', ''ignore previous instructions'']"

definition rule_prompt_injection_marker :: "(rat \<Rightarrow> string) \<Rightarrow> approval_rule" where
  "rule_prompt_injection_marker fr v ctx =
     (let r = av_row v in
      if ar_kind r \<noteq> AK_EXTERNAL_ACTION then Inr []
      else case find (\<lambda>m. py_in m (py_lower (flatten fr (JObj (ar_payload r))))) injection_markers of
          None \<Rightarrow> Inr []
        | Some hit \<Rightarrow>
            Inr [\<lparr>sf_severity = SEV_HIGH, sf_rule = ''prompt_injection_marker'',
                  sf_description = ''Payload contains injection marker '' @ py_repr hit @ ''.'',
                  sf_evidence = [(''marker'', JStr hit)],
                  sf_suggested_action = ''deny'', sf_subject_agent = Some (ar_requester_id r)\<rparr>])"

section \<open>Rules on a window of events\<close>

text \<open>\<^verbatim>\<open>collections.Counter\<close>: keys in the order they were first counted.\<close>

fun count_one :: "string \<Rightarrow> (string \<times> nat) list \<Rightarrow> (string \<times> nat) list" where
  "count_one k [] = [(k, 1)]"
| "count_one k ((j, n) # rest) = (if j = k then (j, n + 1) # rest else (j, n) # count_one k rest)"

definition counter :: "string list \<Rightarrow> (string \<times> nat) list" where
  "counter ks = fold count_one ks []"

definition minute_us :: int where "minute_us = 60000000"

text \<open>One minute before the latest event; on no events \<^verbatim>\<open>datetime.min\<close> minus a minute overflows.\<close>

definition one_min_ago :: "event list \<Rightarrow> exn + int" where
  "one_min_ago evs =
     (if evs = [] then Inl (OverflowError ''date value out of range'')
      else Inr (Max (ev_ts_company ` set evs) - minute_us))"

definition recent_calls :: "int \<Rightarrow> event list \<Rightarrow> event list" where
  "recent_calls since evs = filter (\<lambda>e. ev_kind e = EXTERNAL_CALL \<and> \<not> ev_ts_company e < since) evs"

definition rule_high_volume_external_calls :: event_rule where
  "rule_high_volume_external_calls evs ctx =
     (case one_min_ago evs of
        Inl e \<Rightarrow> Inl e
      | Inr since \<Rightarrow>
          Inr (map (\<lambda>(actor, n).
              \<lparr>sf_severity = SEV_HIGH, sf_rule = ''high_volume_external_calls'',
               sf_description = ''Agent '' @ actor @ '' issued '' @ nat_str n @ '' external calls in 1 min.'',
               sf_evidence = [(''agent_id'', JStr actor), (''count'', JInt (int n))],
               sf_suggested_action = ''suspend'', sf_subject_agent = Some actor\<rparr>)
            (filter (\<lambda>(actor, n). int n \<ge> rc_high_volume_threshold ctx)
              (counter (map (\<lambda>e. str_or (ev_actor_agent_id e) []) (recent_calls since evs))))))"

definition rule_repeated_request_id :: "(rat \<Rightarrow> string) \<Rightarrow> event_rule" where
  "rule_repeated_request_id fr evs ctx =
     (case one_min_ago evs of
        Inl e \<Rightarrow> Inl e
      | Inr since \<Rightarrow>
          Inr (map (\<lambda>(rid, n).
              \<lparr>sf_severity = SEV_WARN, sf_rule = ''excessive_retries'',
               sf_description = ''Request id '' @ rid @ '' retried '' @ nat_str n @ '' times in 1 min.'',
               sf_evidence = [(''request_id'', JStr rid), (''count'', JInt (int n))],
               sf_suggested_action = ''investigate'', sf_subject_agent = None\<rparr>)
            (filter (\<lambda>(rid, n). int n \<ge> rc_retry_threshold ctx)
              (counter (filter (\<lambda>rid. rid \<noteq> [])
                (map (\<lambda>e. text_at fr (ev_payload e) ''request_id'') (recent_calls since evs)))))))"

section \<open>Rule sets\<close>

definition DEFAULT_APPROVAL_RULES :: "(rat \<Rightarrow> string) \<Rightarrow> approval_rule list" where
  "DEFAULT_APPROVAL_RULES fr =
     [rule_external_call_allowlist fr, rule_expense_threshold, rule_email_recipient_count,
      rule_pii_in_payload fr, rule_persona_path_outside_workspace fr,
      rule_prompt_injection_marker fr]"

definition DEFAULT_EVENT_RULES :: "(rat \<Rightarrow> string) \<Rightarrow> event_rule list" where
  "DEFAULT_EVENT_RULES fr = [rule_high_volume_external_calls, rule_repeated_request_id fr]"

record static_rule_set =
  rl_approval_rules :: "approval_rule list"
  rl_event_rules :: "event_rule list"

definition default_rules :: "(rat \<Rightarrow> string) \<Rightarrow> static_rule_set" where
  "default_rules fr =
     \<lparr>rl_approval_rules = DEFAULT_APPROVAL_RULES fr, rl_event_rules = DEFAULT_EVENT_RULES fr\<rparr>"

text \<open>The findings of the rules in order; the first rule that raises ends the evaluation.\<close>

fun run_rules :: "('x \<Rightarrow> rule_context \<Rightarrow> exn + security_finding list) list \<Rightarrow> 'x \<Rightarrow> rule_context
    \<Rightarrow> exn + security_finding list" where
  "run_rules [] x ctx = Inr []"
| "run_rules (rule # rules) x ctx =
     (case rule x ctx of
        Inl e \<Rightarrow> Inl e
      | Inr fs \<Rightarrow> (case run_rules rules x ctx of Inl e \<Rightarrow> Inl e | Inr gs \<Rightarrow> Inr (fs @ gs)))"

definition evaluate_rules :: "static_rule_set \<Rightarrow> approval \<Rightarrow> rule_context \<Rightarrow> exn + security_finding list" where
  "evaluate_rules rs v ctx = run_rules (rl_approval_rules rs) v ctx"

definition evaluate_events :: "static_rule_set \<Rightarrow> event list \<Rightarrow> rule_context \<Rightarrow> exn + security_finding list" where
  "evaluate_events rs evs ctx = run_rules (rl_event_rules rs) evs ctx"

section \<open>The policy\<close>

text \<open>A reading of \<^verbatim>\<open>now\<close>: with an offset, as the events have it, or without one.\<close>

datatype now_reading = Aware int | Naive int

record security_policy =
  sp_agent_id :: string
  sp_rules :: static_rule_set
  sp_context :: rule_context
  sp_llm :: "(approval \<Rightarrow> security_finding list \<Rightarrow> exn + decision \<times> string) option"
  sp_now :: now_reading
  sp_suspender :: bool

datatype review_outcome = RV_APPROVED | RV_DENIED | RV_DEFERRED

record review_result =
  rv_outcome :: review_outcome
  rv_findings :: "security_finding list"
  rv_reason :: string

text \<open>\<^verbatim>\<open>max\<close> keeps the first of the maximal ones.\<close>

fun max_severity :: "security_finding list \<Rightarrow> severity option" where
  "max_severity [] = None"
| "max_severity (f # fs) =
     (case max_severity fs of
        None \<Rightarrow> Some (sf_severity f)
      | Some s \<Rightarrow> if severity_order (sf_severity f) \<ge> severity_order s then Some (sf_severity f) else Some s)"

definition findings_note :: "security_finding list \<Rightarrow> string" where
  "findings_note fs =
     (if fs = [] then ''no_findings''
      else py_join ''; '' (map (\<lambda>f. severity_value (sf_severity f) @ '':'' @ sf_rule f) (take 3 fs)))"

definition record_decision ::
  "security_policy \<Rightarrow> int \<Rightarrow> approval \<Rightarrow> decision \<Rightarrow> string \<Rightarrow> approvals \<times> event_store \<Rightarrow> unit appr_out" where
  "record_decision sp now v d n s =
     (if \<not> ro_require_security (av_route v) then (Inr (), s)
      else case appr_decide now (ar_request_id (av_row v)) (sp_agent_id sp) d (Some n) s of
             (r, t) \<Rightarrow> (map_sum id (\<lambda>_. ()) r, t))"

definition emit_veto ::
  "security_policy \<Rightarrow> approval \<Rightarrow> security_finding list \<Rightarrow> string option
   \<Rightarrow> approvals \<times> event_store \<Rightarrow> unit appr_out" where
  "emit_veto sp v fs n s =
     (case es_append (Inl SECURITY_VETO)
             [(''target'', JStr (ar_requester_id (av_row v))),
              (''rule'', JStr (case fs of [] \<Rightarrow> ''unspecified'' | f # _ \<Rightarrow> sf_rule f)),
              (''note'', JStr (str_or n (findings_note fs)))]
             (Some (sp_agent_id sp)) None (snd s) of
        (r, es) \<Rightarrow> (map_sum id (\<lambda>_. ()) r, fst s, es))"

text \<open>\<open>now\<close> is the clock of the approvals; the reviewer runs before anything is recorded.\<close>

definition review_approval ::
  "security_policy \<Rightarrow> int \<Rightarrow> approval \<Rightarrow> approvals \<times> event_store \<Rightarrow> review_result appr_out" where
  "review_approval sp now v s =
     (case evaluate_rules (sp_rules sp) v (sp_context sp) of
        Inl e \<Rightarrow> (Inl e, s)
      | Inr fs \<Rightarrow>
          if max_severity fs = Some SEV_CRITICAL
          then andthen (record_decision sp now v DENY (findings_note fs) s) (\<lambda>_ s1.
               andthen (emit_veto sp v fs None s1) (\<lambda>_ s2.
                 (Inr \<lparr>rv_outcome = RV_DENIED, rv_findings = fs, rv_reason = ''critical_finding''\<rparr>, s2)))
          else if max_severity fs = Some SEV_HIGH
          then (case sp_llm sp of
                  None \<Rightarrow>
                    (Inr \<lparr>rv_outcome = RV_DEFERRED, rv_findings = fs, rv_reason = ''needs_human_review''\<rparr>, s)
                | Some llm \<Rightarrow>
                    (case llm v fs of
                       Inl e \<Rightarrow> (Inl e, s)
                     | Inr (d, n) \<Rightarrow>
                         andthen (record_decision sp now v d n s) (\<lambda>_ s1.
                           if d = DENY
                           then andthen (emit_veto sp v fs (Some n) s1) (\<lambda>_ s2.
                                (Inr \<lparr>rv_outcome = RV_DENIED, rv_findings = fs,
                                      rv_reason = ''llm_denied:'' @ n\<rparr>, s2))
                           else (Inr \<lparr>rv_outcome = RV_APPROVED, rv_findings = fs,
                                      rv_reason = ''llm_approved:'' @ n\<rparr>, s1))))
          else andthen (if ro_require_security (av_route v)
                        then record_decision sp now v APPROVE ''auto_clear'' s else (Inr (), s)) (\<lambda>_ s1.
                 (Inr \<lparr>rv_outcome = RV_APPROVED, rv_findings = fs, rv_reason = ''auto_clear''\<rparr>, s1)))"

definition scan_kinds :: "event_kind list" where
  "scan_kinds = [EXTERNAL_CALL, EXPENSE_CHARGED, AGENT_HEALTH_ALERT]"

text \<open>Comparing an event's time, which has an offset, with a time without one raises.\<close>

definition scan_window :: "now_reading \<Rightarrow> int \<Rightarrow> event list \<Rightarrow> exn + event list" where
  "scan_window now minutes evs =
     (case now of
        Aware t \<Rightarrow> Inr (filter (\<lambda>e. ev_ts_company e \<ge> t - minutes * minute_us) evs)
      | Naive t \<Rightarrow> if evs = [] then Inr []
                   else Inl (TypeError ''can't compare offset-naive and offset-aware datetimes''))"

definition scan_recent_events :: "security_policy \<Rightarrow> int \<Rightarrow> event_store \<Rightarrow> exn + security_finding list" where
  "scan_recent_events sp minutes es =
     (case es_read None None scan_kinds None None 1000 es of
        Inl e \<Rightarrow> Inl e
      | Inr evs \<Rightarrow>
          (case scan_window (sp_now sp) minutes evs of
             Inl e \<Rightarrow> Inl e
           | Inr recent \<Rightarrow> evaluate_events (sp_rules sp) recent (sp_context sp)))"

definition flag_payload :: "security_finding \<Rightarrow> payload" where
  "flag_payload f =
     [(''severity'', JStr (severity_value (sf_severity f))),
      (''target'', JStr (str_or (sf_subject_agent f) ''unknown'')),
      (''rule'', JStr (sf_rule f)), (''note'', JStr (sf_description f))]"

definition flag_request :: "security_finding \<Rightarrow> payload" where
  "flag_request f =
     [(''severity'', JStr (severity_value (sf_severity f))), (''rule'', JStr (sf_rule f)),
      (''subject_agent'', JStr (str_or (sf_subject_agent f) ''unknown'')),
      (''description'', JStr (sf_description f)), (''evidence'', JObj (sf_evidence f)),
      (''suggested_action'', JStr (sf_suggested_action f))]"

definition suspend_subject :: "security_policy \<Rightarrow> security_finding \<Rightarrow> 'x office_scheme \<Rightarrow> (unit, 'x office_scheme) outcome" where
  "suspend_subject sp f w =
     (case of_orch w of
        Some o_r \<Rightarrow>
          if sf_severity f = SEV_CRITICAL \<and> sp_suspender sp \<and> truthy (sf_subject_agent f)
          then on_orch o_r (or_suspend (the (sf_subject_agent f)) (''security:'' @ sf_rule f)) w
          else (Inr (), w)
      | None \<Rightarrow> (Inr (), w))"

definition auto_flag ::
  "security_policy \<Rightarrow> string \<Rightarrow> int \<Rightarrow> security_finding \<Rightarrow> 'x office_scheme
   \<Rightarrow> (approval option, 'x office_scheme) outcome" where
  "auto_flag sp fresh now f w =
     (if sf_severity f = SEV_INFO then (Inr None, w)
      else andthen (on_events (es_append (Inl SECURITY_FLAG) (flag_payload f) (Some (sp_agent_id sp)) None) w)
        (\<lambda>_ w1. andthen (suspend_subject sp f w1)
        (\<lambda>_ w2. andthen (on_appr (appr_request fresh now AK_SECURITY_FLAG (sp_agent_id sp) (flag_request f)
                   board_route None None) w2)
        (\<lambda>v w3. (Inr (Some v), w3)))))"

section \<open>Severities and counters\<close>

lemma max_severity_None: "max_severity fs = None \<longleftrightarrow> fs = []"
  by (cases fs) (auto split: option.splits)

lemma max_severity_upper:
  "f \<in> set fs \<Longrightarrow> \<exists>s. max_severity fs = Some s \<and> severity_order (sf_severity f) \<le> severity_order s"
  by (induction fs) (auto split: option.splits simp: max_severity_None)

lemma max_severity_in: "max_severity fs = Some s \<Longrightarrow> s \<in> sf_severity ` set fs"
  by (induction fs arbitrary: s) (auto split: option.splits if_splits)

lemma critical_iff: "max_severity fs = Some SEV_CRITICAL \<longleftrightarrow> SEV_CRITICAL \<in> sf_severity ` set fs"
proof
  assume "SEV_CRITICAL \<in> sf_severity ` set fs"
  then obtain f where "f \<in> set fs" "sf_severity f = SEV_CRITICAL" by auto
  with max_severity_upper[of f fs] obtain s
    where "max_severity fs = Some s" "3 \<le> severity_order s" by auto
  then show "max_severity fs = Some SEV_CRITICAL" by (cases s) auto
qed (rule max_severity_in)

lemma count_one_get: "map_of (count_one k c) j =
    (if j = k then Some (Suc (case map_of c k of None \<Rightarrow> 0 | Some n \<Rightarrow> n)) else map_of c j)"
  by (induction c) auto

lemma count_one_keys: "fst ` set (count_one k c) = insert k (fst ` set c)"
  by (induction k c rule: count_one.induct) (simp_all add: insert_commute)

lemma count_one_distinct: "distinct (map fst c) \<Longrightarrow> distinct (map fst (count_one k c))"
  by (induction k c rule: count_one.induct) (auto simp: count_one_keys)

lemma counter_fold:
  "distinct (map fst c) \<Longrightarrow>
     distinct (map fst (fold count_one ks c)) \<and>
     (\<forall>j. map_of (fold count_one ks c) j =
        (if j \<in> set ks then Some (count_list ks j + (case map_of c j of None \<Rightarrow> 0 | Some n \<Rightarrow> n))
         else map_of c j))"
proof (induction ks arbitrary: c)
  case (Cons k ks)
  have "distinct (map fst (count_one k c))" using count_one_distinct[OF Cons.prems] by simp
  from Cons.IH[OF this] show ?case by (auto simp: count_one_get split: option.splits)
qed simp

lemma in_counter: "(k, n) \<in> set (counter ks) \<longleftrightarrow> k \<in> set ks \<and> n = count_list ks k"
proof -
  have d: "distinct (map fst (counter ks))" and
    m: "map_of (counter ks) k = (if k \<in> set ks then Some (count_list ks k) else None)"
    using counter_fold[of "[]" ks] by (auto simp: counter_def)
  have "(k, n) \<in> set (counter ks) \<longleftrightarrow> map_of (counter ks) k = Some n"
    by (simp add: map_of_eq_Some_iff[OF d])
  then show ?thesis by (auto simp: m)
qed

section \<open>What a review does to the table of approvals\<close>

text \<open>The decision a review records, if the route has a security leg.\<close>

definition review_verdict :: "security_policy \<Rightarrow> approval \<Rightarrow> (decision \<times> string) option" where
  "review_verdict sp v =
     (case evaluate_rules (sp_rules sp) v (sp_context sp) of
        Inl e \<Rightarrow> None
      | Inr fs \<Rightarrow>
          if SEV_CRITICAL \<in> sf_severity ` set fs then Some (DENY, findings_note fs)
          else if SEV_HIGH \<in> sf_severity ` set fs
          then (case sp_llm sp of None \<Rightarrow> None
                | Some llm \<Rightarrow> (case llm v fs of Inl e \<Rightarrow> None | Inr dn \<Rightarrow> Some dn))
          else Some (APPROVE, ''auto_clear''))"

lemma high_iff:
  "SEV_CRITICAL \<notin> sf_severity ` set fs \<Longrightarrow>
     max_severity fs = Some SEV_HIGH \<longleftrightarrow> SEV_HIGH \<in> sf_severity ` set fs"
proof
  assume no: "SEV_CRITICAL \<notin> sf_severity ` set fs" and "SEV_HIGH \<in> sf_severity ` set fs"
  then obtain f where "f \<in> set fs" "sf_severity f = SEV_HIGH" by auto
  with max_severity_upper[of f fs] obtain s
    where s: "max_severity fs = Some s" "2 \<le> severity_order s" by auto
  with no critical_iff[of fs] show "max_severity fs = Some SEV_HIGH" by (cases s) auto
qed (rule max_severity_in)

definition reviewed_rows ::
  "security_policy \<Rightarrow> int \<Rightarrow> approval \<Rightarrow> approvals \<times> event_store \<Rightarrow> approval_row list" where
  "reviewed_rows sp now v s =
     (case review_verdict sp v of
        None \<Rightarrow> ap_rows (fst s)
      | Some (d, n) \<Rightarrow> ap_rows (fst (snd (record_decision sp now v d n s))))"

lemma emit_veto_rows [simp]: "fst (snd (emit_veto sp v fs n s)) = fst s"
  by (simp add: emit_veto_def split: prod.splits)

lemma andthen_state:
  "(\<And>a t. m = (Inr a, t) \<Longrightarrow> h (snd (f a t)) = h t) \<Longrightarrow> h (snd (andthen m f)) = h (snd m)"
  by (cases m; cases "fst m") auto

lemma review_rows: "ap_rows (fst (snd (review_approval sp now v s))) = reviewed_rows sp now v s"
proof (cases "evaluate_rules (sp_rules sp) v (sp_context sp)")
  case (Inl e)
  then show ?thesis by (simp add: review_approval_def reviewed_rows_def review_verdict_def)
next
  case (Inr fs)
  note keep = andthen_state[where h = "\<lambda>s. ap_rows (fst s)"]
  show ?thesis
  proof (cases "SEV_CRITICAL \<in> sf_severity ` set fs")
    case True
    then show ?thesis
      by (simp add: review_approval_def reviewed_rows_def review_verdict_def Inr critical_iff keep)
  next
    case False
    then show ?thesis
      by (auto simp: review_approval_def reviewed_rows_def review_verdict_def Inr critical_iff
          high_iff keep record_decision_def split: option.splits sum.splits)
  qed
qed

lemma recorded_row:
  assumes "tbl_find ar_request_id (ar_request_id (av_row v)) (ap_rows (fst s)) = Some r"
    and "ar_status r = AP_PENDING" and "ro_require_security (av_route v)"
  shows "tbl_find ar_request_id (ar_request_id (av_row v))
      (ap_rows (fst (snd (record_decision sp now v d n s)))) =
     Some (decide_row (sp_agent_id sp) d (Some n) now r)"
proof -
  have "ap_rows (fst (snd (record_decision sp now v d n s))) =
      ap_rows (fst (snd (appr_decide now (ar_request_id (av_row v)) (sp_agent_id sp) d (Some n) s)))"
    using assms(3) by (simp add: record_decision_def split: prod.splits)
  also have "\<dots> = tbl_upd ar_request_id (ar_request_id (av_row v))
      (decide_row (sp_agent_id sp) d (Some n) now) (ap_rows (fst s))"
    by (rule decide_rows[OF assms(1,2)])
  finally show ?thesis using assms(1) by (simp add: decided.find_upd_same)
qed

section \<open>Properties\<close>

text \<open>
  C6. Review of a pending request whose security leg is open: whatever the call returns or raises, the
  row is denied, its security leg is opened, or it is left alone, as the verdict says, and every
  other row is as before. So a first review never approves the request itself.
\<close>

theorem review_effect:
  assumes row: "tbl_find ar_request_id (ar_request_id (av_row v)) (ap_rows (fst s)) = Some r"
    and pend: "ar_status r = AP_PENDING" and route: "ro_require_security (av_route v)"
    and leg: "ar_require_security r" "ar_security_decision r = None"
  shows "tbl_find ar_request_id i (ap_rows (fst (snd (review_approval sp now v s)))) =
    (if i \<noteq> ar_request_id (av_row v) then tbl_find ar_request_id i (ap_rows (fst s))
     else Some (case review_verdict sp v of
         None \<Rightarrow> r
       | Some (DENY, n) \<Rightarrow> set_final AP_DENIED (sp_agent_id sp) now (Some n) (set_security DENY now r)
       | Some (APPROVE, n) \<Rightarrow> set_security APPROVE now r))"
proof (cases "review_verdict sp v")
  case None
  then show ?thesis using row by (simp add: review_rows reviewed_rows_def)
next
  case (Some dn)
  obtain d n where dn: "dn = (d, n)" by (cases dn)
  have rows: "ap_rows (fst (snd (review_approval sp now v s))) =
      ap_rows (fst (snd (record_decision sp now v d n s)))"
    by (simp add: review_rows reviewed_rows_def Some dn)
  show ?thesis
  proof (cases "i = ar_request_id (av_row v)")
    case True
    then show ?thesis
      using recorded_row[OF row pend route, of sp now d n] leg
      by (cases d) (simp_all add: rows Some dn decide_row_def)
  next
    case False
    have "ap_rows (fst (snd (record_decision sp now v d n s))) =
        tbl_upd ar_request_id (ar_request_id (av_row v)) (decide_row (sp_agent_id sp) d (Some n) now) (ap_rows (fst s))"
      using decide_rows[OF row pend, of now "sp_agent_id sp" d "Some n"] route
      by (simp add: record_decision_def case_prod_beta)
    with False show ?thesis by (simp add: rows decided.find_upd_other)
  qed
qed

lemma finding_decides:
  assumes "evaluate_rules (sp_rules sp) v (sp_context sp) = Inr fs" and "SEV_CRITICAL \<in> sf_severity ` set fs"
  shows "review_verdict sp v = Some (DENY, findings_note fs)"
  using assms by (simp add: review_verdict_def)

text \<open>
  The second review of the same request: its security leg is already open, so what the security
  agent records is the main decision. Two clean reviews in a row approve the request without
  anyone the route names.
\<close>

theorem second_review_approves:
  assumes row: "tbl_find ar_request_id (ar_request_id (av_row v)) (ap_rows (fst s)) = Some r"
    and pend: "ar_status r = AP_PENDING" and route: "ro_require_security (av_route v)"
    and leg: "ar_require_security r" "ar_security_decision r = None"
    and clear: "review_verdict sp v = Some (APPROVE, n)"
  shows "\<exists>r2. tbl_find ar_request_id (ar_request_id (av_row v))
      (ap_rows (fst (snd (review_approval sp now2 v (snd (review_approval sp now1 v s)))))) = Some r2 \<and>
    ar_status r2 = AP_APPROVED \<and> ar_decided_by r2 = Some (sp_agent_id sp) \<and> ar_decided_at r2 = Some now2"
proof -
  let ?s1 = "snd (review_approval sp now1 v s)" and ?i = "ar_request_id (av_row v)"
  have row1: "tbl_find ar_request_id ?i (ap_rows (fst ?s1)) = Some (set_security APPROVE now1 r)"
    using review_effect[OF row pend route leg, of ?i sp now1] clear by simp
  have pend1: "ar_status (set_security APPROVE now1 r) = AP_PENDING"
    using pend by (simp add: set_security_def)
  show ?thesis
    using recorded_row[OF row1 pend1 route, of sp now2 APPROVE n] clear leg
    by (auto simp: review_rows reviewed_rows_def decide_row_def set_final_def set_security_def decided_status_def)
qed

lemma count_list_filter: "count_list (map f xs) k = length (filter (\<lambda>x. f x = k) xs)"
  by (induction xs) auto

text \<open>
  The burst rule names exactly the actors with at least the threshold of external calls within the
  minute before the latest event of the window (calls of no actor count as those of "").
\<close>

theorem burst_flagged_iff:
  assumes "evs \<noteq> []" and "0 < rc_high_volume_threshold ctx"
  shows "\<exists>fs. rule_high_volume_external_calls evs ctx = Inr fs \<and>
    (\<forall>actor. Some actor \<in> sf_subject_agent ` set fs \<longleftrightarrow>
       rc_high_volume_threshold ctx \<le> int (length (filter (\<lambda>e. ev_kind e = EXTERNAL_CALL \<and>
           Max (ev_ts_company ` set evs) - 60000000 \<le> ev_ts_company e \<and>
           str_or (ev_actor_agent_id e) [] = actor) evs)))"
proof -
  define since where "since = Max (ev_ts_company ` set evs) - minute_us"
  define calls where "calls = map (\<lambda>e. str_or (ev_actor_agent_id e) []) (recent_calls since evs)"
  have since: "one_min_ago evs = Inr since" using assms(1) by (simp add: one_min_ago_def since_def)
  have n: "count_list calls actor = length (filter (\<lambda>e. ev_kind e = EXTERNAL_CALL \<and>
      since \<le> ev_ts_company e \<and> str_or (ev_actor_agent_id e) [] = actor) evs)" for actor
    unfolding calls_def count_list_filter recent_calls_def filter_filter
    by (rule arg_cong[where f = length], rule filter_cong) auto
  have "(\<exists>n. (actor, n) \<in> set (counter calls) \<and> rc_high_volume_threshold ctx \<le> int n) \<longleftrightarrow>
      rc_high_volume_threshold ctx \<le> int (count_list calls actor)" for actor
    using assms(2) by (cases "actor \<in> set calls") (auto simp: in_counter count_notin)
  then show ?thesis
    unfolding n
    by (auto simp: rule_high_volume_external_calls_def since calls_def[symmetric] image_image
        since_def[symmetric] minute_us_def[symmetric] case_prod_beta intro!: exI) force+
qed

lemma quiet_rules_raise: "evaluate_events (default_rules fr) [] ctx = Inl (OverflowError ''date value out of range'')"
  by (simp add: evaluate_events_def default_rules_def DEFAULT_EVENT_RULES_def
      rule_high_volume_external_calls_def one_min_ago_def)

text \<open>
  C20. The sweep of a company as it is wired: its clock is \<^verbatim>\<open>datetime.now()\<close>, without an offset. It raises
  on every log: on one without events of the three kinds because the rules subtract a minute from
  \<^verbatim>\<open>datetime.min\<close>, on any other because the times cannot be compared.
\<close>

theorem wired_scan_raises:
  assumes "sp_rules sp = default_rules fr" and "sp_now sp = Naive t"
  shows "\<exists>e. scan_recent_events sp minutes es = Inl e \<and>
    (e = OverflowError ''date value out of range'' \<or>
     e = TypeError ''can't compare offset-naive and offset-aware datetimes'')"
proof -
  obtain evs where evs: "es_read None None scan_kinds None None 1000 es = Inr evs"
    by (cases "es_migrated es") (simp_all add: es_read_def)
  show ?thesis
    by (cases "evs = []") (simp_all add: scan_recent_events_def evs scan_window_def assms quiet_rules_raise)
qed

text \<open>A clock with an offset still raises whenever the window is quiet.\<close>

theorem quiet_scan_raises:
  assumes "sp_rules sp = default_rules fr" and "sp_now sp = Aware t"
    and "es_read None None scan_kinds None None 1000 es = Inr evs"
    and "filter (\<lambda>e. ev_ts_company e \<ge> t - minutes * minute_us) evs = []"
  shows "scan_recent_events sp minutes es = Inl (OverflowError ''date value out of range'')"
  using assms(4) by (simp add: scan_recent_events_def scan_window_def assms(1-3) quiet_rules_raise)

text \<open>
  With the context the company is wired with, two of the rules are blind: the allowlist admits
  everything and the total budget is nought.
\<close>

theorem wired_rules_blind:
  "rule_external_call_allowlist fr v (default_context None 0) = Inr [] \<and>
   rule_expense_threshold v (default_context None 0) = Inr []"
  by (simp add: rule_external_call_allowlist_def rule_expense_threshold_def default_context_def Let_def)

text \<open>
  The persona rule looks at how the path begins only: one that climbs out further on, or that begins
  with the text of the workspace root, is not found.
\<close>

theorem persona_rule_misses:
  assumes "hd p \<noteq> CHR ''.'' \<and> hd p \<noteq> CHR ''/'' \<or> starts_with (rc_workspace_root ctx) p"
    and "text_at fr (ar_payload (av_row v)) ''persona_ref'' = p"
  shows "rule_persona_path_outside_workspace fr v ctx = Inr []"
  using assms by (cases p) (auto simp: rule_persona_path_outside_workspace_def Let_def starts_with_def)

lemma event_keeps_suspended [simp]: "or_suspended (snd (or_event k p a c s)) = or_suspended s"
  by (simp add: or_event_def split: prod.splits)

lemma notice_keeps_suspended [simp]:
  "or_suspended (snd (or_notify_manager_suspended a s)) = or_suspended s"
  by (simp add: or_notify_manager_suspended_def health_alert_def split: option.splits)

lemma suspend_suspends: "a \<in> set (or_suspended (snd (or_suspend a why s)))"
proof (cases "a \<in> set (or_suspended s)")
  case False
  let ?s = "s\<lparr>or_suspended := or_suspended s @ [a]\<rparr>"
  have "or_suspended (snd (or_suspend a why s)) =
      or_suspended (snd (health_alert a ''high'' (''suspended:'' @ why) ?s))"
    using False by (simp add: or_suspend_def andthen_state[where h = or_suspended])
  then show ?thesis by (simp add: health_alert_def)
qed (simp add: or_suspend_def)

lemma request_adds:
  assumes "appr_request fresh now k who p board_route None None s = (Inr v, t)"
    and "fresh \<noteq> []" and "tbl_find ar_request_id fresh (ap_rows (fst s)) = None"
  shows "tbl_find ar_request_id fresh (ap_rows (fst t)) = Some (av_row v) \<and> ar_status (av_row v) = AP_PENDING \<and>
    ar_kind (av_row v) = k \<and> ar_route_target (av_row v) = ''board'' \<and> ar_payload (av_row v) = p \<and>
    ar_requester_id (av_row v) = who"
  using assms
  by (auto simp: appr_request_def str_or_def Let_def board_route_def mk_route_def announce_def
      tbl_find_append encode_target_def split: prod.splits sum.splits)

text \<open>
  C21. A critical finding about an agent, once it is flagged: the agent is suspended with the orchestrator
  and a pending request to the board describes the finding.
\<close>

theorem critical_flag_suspends:
  assumes run: "auto_flag sp fresh now f w = (Inr res, w')"
    and crit: "sf_severity f = SEV_CRITICAL" "sp_suspender sp" "of_orch w = Some o_r"
    and who: "sf_subject_agent f = Some a" "a \<noteq> []"
    and new: "fresh \<noteq> []" "tbl_find ar_request_id fresh (ap_rows (sv_appr w)) = None"
  shows "\<exists>o2 r. of_orch w' = Some o2 \<and> a \<in> set (or_suspended o2) \<and>
    tbl_find ar_request_id fresh (ap_rows (sv_appr w')) = Some r \<and> ar_status r = AP_PENDING \<and>
    ar_kind r = AK_SECURITY_FLAG \<and> ar_route_target r = ''board'' \<and> ar_payload r = flag_request f"
proof -
  let ?e = "es_append (Inl SECURITY_FLAG) (flag_payload f) (Some (sp_agent_id sp)) None"
  let ?q = "appr_request fresh now AK_SECURITY_FLAG (sp_agent_id sp) (flag_request f) board_route None None"
  obtain w1 where w1: "snd (on_events ?e w) = w1" by blast
  obtain w2 where w2: "snd (suspend_subject sp f w1) = w2" by blast
  obtain v where v: "on_appr ?q w2 = (Inr v, w')"
    using run crit(1) w1 w2
    by (cases "on_events ?e w"; cases "fst (on_events ?e w)";
        cases "suspend_subject sp f w1"; cases "fst (suspend_subject sp f w1)";
        cases "on_appr ?q w2"; cases "fst (on_appr ?q w2)") (auto simp: auto_flag_def)
  have o1: "of_orch w1 = Some o_r" and a1: "sv_appr w1 = sv_appr w"
    using w1 crit(3) by (auto simp: through_def put_events_def split: prod.splits)
  have s: "suspend_subject sp f w1 = on_orch o_r (or_suspend a (''security:'' @ sf_rule f)) w1"
    by (simp add: suspend_subject_def o1 crit who truthy_def)
  have o2: "of_orch w2 = Some (snd (or_suspend a (''security:'' @ sf_rule f) (orch_in o_r w1)))"
    and a2: "sv_appr w2 = sv_appr w"
    using w2 by (auto simp: s on_orch_def orch_out_def a1 split: prod.splits)
  obtain t where t: "?q (get_appr w2) = (Inr v, t)" and w': "w' = put_appr t w2"
    using v by (auto simp: through_def split: prod.splits)
  have "of_orch w' = of_orch w2" "sv_appr w' = fst t" by (simp_all add: w' put_appr_def)
  with request_adds[OF t new(1)] new(2) o2 suspend_suspends[of a] show ?thesis
    by (auto simp: get_appr_def a2)
qed

section \<open>Examples\<close>

definition demo_policy :: security_policy where
  "demo_policy =
     \<lparr>sp_agent_id = ''sec'', sp_rules = default_rules (\<lambda>_. ''0.5''), sp_context = default_context None 0,
      sp_llm = None, sp_now = Naive 0, sp_suspender = True\<rparr>"

definition demo_approval :: approval where
  "demo_approval =
     \<lparr>av_row = demo_row, av_route = \<lparr>ro_target = BOARD, ro_agent_id = None, ro_require_security = True\<rparr>\<rparr>"

lemma demo_verdict: "review_verdict demo_policy demo_approval = Some (APPROVE, ''auto_clear'')"
proof -
  have "first_pii DEFAULT_PII_PATTERNS [] = None" by code_simp
  then have "evaluate_rules (default_rules (\<lambda>_. ''0.5'')) demo_approval (default_context None 0) = Inr []"
    by (simp add: evaluate_rules_def default_rules_def DEFAULT_APPROVAL_RULES_def demo_approval_def demo_row_def
        rule_external_call_allowlist_def rule_expense_threshold_def rule_email_recipient_count_def
        rule_pii_in_payload_def rule_persona_path_outside_workspace_def rule_prompt_injection_marker_def
        default_context_def Let_def)
  then show ?thesis by (simp add: review_verdict_def demo_policy_def)
qed

lemma demo_pending:
  "tbl_find ar_request_id (ar_request_id (av_row demo_approval)) (ap_rows (fst demo_appr)) = Some demo_row"
  "ar_status demo_row = AP_PENDING" "ro_require_security (av_route demo_approval)"
  "ar_require_security demo_row" "ar_security_decision demo_row = None"
  by (simp_all add: demo_appr_rows demo_approval_def demo_row_def)

lemma demo_approval_id: "ar_request_id (av_row demo_approval) = ''r1''"
  by (simp add: demo_approval_def demo_row_def)

lemma review_effect_witness:
  "tbl_find ar_request_id ''r1'' (ap_rows (fst (snd (review_approval demo_policy 9 demo_approval demo_appr)))) =
     Some (set_security APPROVE 9 demo_row)"
  using review_effect[OF demo_pending, of "''r1''" demo_policy 9]
  by (simp add: demo_verdict demo_approval_id)

lemma second_review_approves_witness:
  "\<exists>r2. tbl_find ar_request_id ''r1'' (ap_rows (fst (snd (review_approval demo_policy 11 demo_approval
      (snd (review_approval demo_policy 9 demo_approval demo_appr)))))) = Some r2 \<and>
    ar_status r2 = AP_APPROVED \<and> ar_decided_by r2 = Some ''sec''"
  using second_review_approves[OF demo_pending demo_verdict, of 11 9]
  by (auto simp: demo_approval_id demo_policy_def)

definition demo_call :: event where
  "demo_call =
     \<lparr>ev_id = 1, ev_company_id = ''acme'', ev_kind = EXTERNAL_CALL, ev_payload = [],
      ev_actor_agent_id = Some ''bob'', ev_correlation_id = None, ev_ts_company = 100, ev_ts_real = 100\<rparr>"

lemma burst_flagged_iff_witness:
  "\<exists>fs. rule_high_volume_external_calls (replicate 10 demo_call) (default_context None 0) = Inr fs \<and>
     Some ''bob'' \<in> sf_subject_agent ` set fs \<and> Some ''eve'' \<notin> sf_subject_agent ` set fs"
proof -
  obtain fs where fs: "rule_high_volume_external_calls (replicate 10 demo_call) (default_context None 0) = Inr fs"
    "\<forall>actor. Some actor \<in> sf_subject_agent ` set fs \<longleftrightarrow>
       rc_high_volume_threshold (default_context None 0) \<le> int (length (filter (\<lambda>e. ev_kind e = EXTERNAL_CALL \<and>
           Max (ev_ts_company ` set (replicate 10 demo_call)) - 60000000 \<le> ev_ts_company e \<and>
           str_or (ev_actor_agent_id e) [] = actor) (replicate 10 demo_call)))"
    using burst_flagged_iff[of "replicate 10 demo_call" "default_context None 0"]
    by (auto simp: default_context_def)
  show ?thesis
    using fs(1) by (simp add: fs(2)) (simp add: default_context_def demo_call_def str_or_def)
qed

lemma wired_scan_raises_witness: "\<exists>e. scan_recent_events demo_policy 5 demo_store = Inl e"
  using wired_scan_raises[of demo_policy "\<lambda>_. ''0.5''" 0 5 demo_store] by (auto simp: demo_policy_def)

lemma quiet_scan_raises_witness:
  "scan_recent_events (demo_policy\<lparr>sp_now := Aware 7\<rparr>) 5 demo_store =
     Inl (OverflowError ''date value out of range'')"
  by (rule quiet_scan_raises[where evs = "[]"]) (simp_all add: demo_policy_def demo_store_def es_read_def)

lemma persona_rule_misses_witness:
  "rule_persona_path_outside_workspace (\<lambda>_. []) (demo_approval\<lparr>av_row := demo_row\<lparr>ar_kind := AK_HIRE,
      ar_payload := [(''persona_ref'', JStr ''a/../../etc'')]\<rparr>\<rparr>) (default_context None 0) = Inr []"
  by (rule persona_rule_misses) (simp_all add: text_at_def json_text_def)

definition demo_finding :: security_finding where
  "demo_finding =
     \<lparr>sf_severity = SEV_CRITICAL, sf_rule = ''r'', sf_description = ''d'', sf_evidence = [],
      sf_suggested_action = ''deny'', sf_subject_agent = Some ''ceo''\<rparr>"

lemma strict_accepts:
  assumes "model_for k = Some sch" and "valid_payload sch p" and "es_validate es = strict_validate"
    and "int (utf8_len (json_dumps (es_float_repr es) (JObj (payload_dump sch p)))) \<le> es_max_payload_bytes es"
    and "es_migrated es"
  shows "\<exists>e. es_append (Inl k) p a c es =
    (Inr e, es_broadcast e (es\<lparr>es_events := es_events es @ [e], es_seq := es_seq es + 1\<rparr>))"
  using assms by (simp add: es_append_def es_validate_payload_def strict_validate_def Let_def)

text \<open>A log with room accepts small payloads that fit their schema, and still has room.\<close>

definition roomy :: "event_store \<Rightarrow> bool" where
  "roomy es \<longleftrightarrow> es_migrated es \<and> es_validate es = strict_validate \<and> 1000 \<le> es_max_payload_bytes es \<and>
     es_float_repr es = (\<lambda>_. ''0.5'')"

lemma roomy_append:
  assumes "roomy es" and "model_for k = Some sch"
    and "valid_payload sch p \<and> utf8_len (json_dumps (\<lambda>_. ''0.5'') (JObj (payload_dump sch p))) \<le> 1000"
  shows "\<exists>e es'. es_append (Inl k) p a c es = (Inr e, es') \<and> roomy es'"
proof -
  have "int (utf8_len (json_dumps (es_float_repr es) (JObj (payload_dump sch p)))) \<le> es_max_payload_bytes es"
    using assms(1,3) by (simp add: roomy_def)
  from strict_accepts[OF assms(2) _ _ this, of a c] assms(1,3) show ?thesis
    by (auto simp: roomy_def es_broadcast_def)
qed

lemma flag_fits: "valid_payload SecurityFlagPayload (flag_payload demo_finding) \<and>
   utf8_len (json_dumps (\<lambda>_. ''0.5'') (JObj (payload_dump SecurityFlagPayload (flag_payload demo_finding)))) \<le> 1000"
  by code_simp

definition alert_payload :: payload where
  "alert_payload = [(''agent_id'', JStr ''ceo''), (''severity'', JStr ''high''), (''issue'', JStr ''suspended:security:r'')]"

definition ask_payload :: payload where
  "ask_payload = [(''approval_id'', JStr ''new''), (''requested_by'', JStr ''sec''),
     (''subject'', JStr ''security_flag''), (''details'', JObj (flag_request demo_finding))]"

lemma alert_fits: "valid_payload AgentHealthAlertPayload alert_payload \<and>
   utf8_len (json_dumps (\<lambda>_. ''0.5'') (JObj (payload_dump AgentHealthAlertPayload alert_payload))) \<le> 1000"
  by code_simp

lemma ask_fits: "valid_payload ApprovalRequestedPayload ask_payload \<and>
   utf8_len (json_dumps (\<lambda>_. ''0.5'') (JObj (payload_dump ApprovalRequestedPayload ask_payload))) \<le> 1000"
  by code_simp

lemma demo_flagged:
  "\<exists>v w'. auto_flag demo_policy ''new'' 5 demo_finding (office_of [staff_member ''ceo'' CEO None]) = (Inr (Some v), w')"
proof -
  let ?w = "office_of [staff_member ''ceo'' CEO None]"
  have "roomy (sv_events ?w)" by (simp add: roomy_def office_of_def demo_store_def)
  from roomy_append[OF this _ flag_fits, of SECURITY_FLAG "Some ''sec''" None]
  obtain e1 es1 where a1: "es_append (Inl SECURITY_FLAG) (flag_payload demo_finding) (Some ''sec'') None (sv_events ?w) = (Inr e1, es1)"
    and r1: "roomy es1" by auto
  define w1 where "w1 = put_events es1 ?w"
  have parts: "of_orch w1 = of_orch ?w" "sv_events w1 = es1" "sv_org w1 = sv_org ?w" "sv_appr w1 = sv_appr ?w"
    by (simp_all add: w1_def put_events_def)
  obtain o_r where o_r: "of_orch w1 = Some o_r" "or_suspended o_r = []"
    by (simp add: parts office_of_def or_create_def)
  let ?o = "(orch_in o_r w1)\<lparr>or_suspended := [''ceo'']\<rparr>"
  have "roomy (or_events ?o)" using r1 by (simp add: orch_in_def parts)
  from roomy_append[OF this _ alert_fits, of AGENT_HEALTH_ALERT "Some ''ceo''" None]
  obtain e2 es2 where a2: "es_append (Inl AGENT_HEALTH_ALERT) alert_payload (Some ''ceo'') None (or_events ?o) = (Inr e2, es2)"
    and r2: "roomy es2" by auto
  have "or_suspend ''ceo'' ''security:r'' (orch_in o_r w1) = (Inr (), ?o\<lparr>or_events := es2\<rparr>)"
  proof -
    have "or_manager_of (?o\<lparr>or_events := es2\<rparr>) ''ceo'' = None"
      by (simp add: or_manager_of_def orch_in_def parts office_of_def chart_of_def staff_member_def org_manager_of_def
          org_get_def demo_agent_def)
    then show ?thesis
      using a2 o_r(2) by (simp add: or_suspend_def orch_in_def health_alert_def or_event_def alert_payload_def
          or_notify_manager_suspended_def)
  qed
  then obtain w2 where w2: "suspend_subject demo_policy demo_finding w1 = (Inr (), w2)" "sv_events w2 = es2" "sv_appr w2 = sv_appr ?w"
    by (simp add: suspend_subject_def o_r demo_finding_def demo_policy_def truthy_def on_orch_def orch_out_def parts)
  from roomy_append[OF r2 _ ask_fits, of APPROVAL_REQUESTED "Some ''sec''" None]
  obtain e3 es3 where a3: "es_append (Inl APPROVAL_REQUESTED) ask_payload (Some ''sec'') None es2 = (Inr e3, es3)" by auto
  have "\<exists>v t. appr_request ''new'' 5 AK_SECURITY_FLAG ''sec'' (flag_request demo_finding) board_route None None (get_appr w2) = (Inr v, t)"
    using a3 by (simp add: get_appr_def w2 office_of_def demo_appr0_def appr_create_def appr_request_def Let_def str_or_def
        board_route_def mk_route_def announce_def ask_payload_def DEFAULT_REQUIRE_SECURITY_def)
  then obtain v t where "appr_request ''new'' 5 AK_SECURITY_FLAG ''sec'' (flag_request demo_finding) board_route None None (get_appr w2) = (Inr v, t)"
    by blast
  moreover have "sf_severity demo_finding \<noteq> SEV_INFO" "sp_agent_id demo_policy = ''sec''"
    by (simp_all add: demo_finding_def demo_policy_def)
  ultimately show ?thesis
    using a1 w2 by (simp add: auto_flag_def through_def w1_def[symmetric])
qed

lemma critical_flag_suspends_witness:
  "\<exists>w' o2 r. auto_flag demo_policy ''new'' 5 demo_finding (office_of [staff_member ''ceo'' CEO None]) = (Inr (Some r), w') \<and>
     of_orch w' = Some o2 \<and> ''ceo'' \<in> set (or_suspended o2)"
proof -
  obtain v w' where run: "auto_flag demo_policy ''new'' 5 demo_finding (office_of [staff_member ''ceo'' CEO None]) = (Inr (Some v), w')"
    using demo_flagged by blast
  obtain o_r where "of_orch (office_of [staff_member ''ceo'' CEO None]) = Some o_r" by (simp add: office_of_def)
  from critical_flag_suspends[OF run _ _ this, of "''ceo''"] run show ?thesis
    by (auto simp: demo_finding_def demo_policy_def office_of_def demo_appr0_def appr_create_def)
qed

end
