(* ===== verification/Agent_Runtime.thy ===== *)
theory Agent_Runtime
  imports Builtin_Props Security_Model
begin

text \<open>
  \<^verbatim>\<open>modules/agent_runtime\<close>: the health tracker, persona templates, one turn of an agent around the
  LLM client, and the agent's loop over its inbox. The LLM client is injected: opening a turn may
  raise, and what its stream yields next is a function \<open>tn_next\<close> of the number of events consumed
  and of the results submitted so far, so a stream may react to every result. A stream need not end:
  the loop has fuel, and running out of it is the value \<open>None\<close>.

  The templates themselves are prose and a parameter; characters outside the development's range are
  written "-".
\<close>

section \<open>The health tracker\<close>

record health_tracker =
  ht_last_heartbeat :: int
  ht_consecutive_errors :: int
  ht_parse_failures :: int
  ht_total_turns :: int
  ht_sum_turn_seconds :: rat
  ht_recent_responses :: "string list"
  ht_repeat_count :: int

definition REPEAT_WINDOW :: nat where "REPEAT_WINDOW = 5"

definition ht_create :: "int \<Rightarrow> health_tracker" where
  "ht_create now =
     \<lparr>ht_last_heartbeat = now, ht_consecutive_errors = 0, ht_parse_failures = 0, ht_total_turns = 0,
      ht_sum_turn_seconds = 0, ht_recent_responses = [], ht_repeat_count = 0\<rparr>"

text \<open>The number of common words by that of all words, rounded as a double.\<close>

definition word_jaccard :: "string \<Rightarrow> string \<Rightarrow> rat" where
  "word_jaccard a b =
     (let sa = remdups (py_split (py_lower a)); sb = remdups (py_split (py_lower b)) in
      if a = [] \<or> b = [] then 0
      else if sa = [] \<or> sb = [] then 0
      else fl (of_nat (length (filter (\<lambda>w. w \<in> set sb) sa)) / of_nat (length (remdups (sa @ sb)))))"

definition record_heartbeat :: "int \<Rightarrow> health_tracker \<Rightarrow> health_tracker" where
  "record_heartbeat ts h = h\<lparr>ht_last_heartbeat := ts\<rparr>"

definition record_turn :: "rat \<Rightarrow> int \<Rightarrow> health_tracker \<Rightarrow> health_tracker" where
  "record_turn duration ts h =
     h\<lparr>ht_total_turns := ht_total_turns h + 1,
       ht_sum_turn_seconds := fl (ht_sum_turn_seconds h + max 0 duration), ht_last_heartbeat := ts\<rparr>"

definition record_error :: "health_tracker \<Rightarrow> health_tracker" where
  "record_error h = h\<lparr>ht_consecutive_errors := ht_consecutive_errors h + 1\<rparr>"

definition reset_error_streak :: "health_tracker \<Rightarrow> health_tracker" where
  "reset_error_streak h = h\<lparr>ht_consecutive_errors := 0\<rparr>"

definition record_parse_failure :: "health_tracker \<Rightarrow> health_tracker" where
  "record_parse_failure h = h\<lparr>ht_parse_failures := ht_parse_failures h + 1\<rparr>"

text \<open>\<^verbatim>\<open>deque(maxlen=5)\<close>; the literal 0.9 is the double \<open>WARNING_RATIO\<close> of the workspace.\<close>

definition record_response :: "string \<Rightarrow> health_tracker \<Rightarrow> health_tracker" where
  "record_response t h =
     (let recent = ht_recent_responses h @ [t] in
      h\<lparr>ht_repeat_count :=
          ht_repeat_count h + (if list_ex (\<lambda>p. word_jaccard p t > WARNING_RATIO) (ht_recent_responses h) then 1 else 0),
        ht_recent_responses := drop (length recent - REPEAT_WINDOW) recent\<rparr>)"

definition ht_snapshot :: "health_tracker \<Rightarrow> health_signals" where
  "ht_snapshot h =
     \<lparr>hs_last_heartbeat = ht_last_heartbeat h, hs_consecutive_errors = ht_consecutive_errors h,
      hs_parse_failures = ht_parse_failures h, hs_repeat_response_count = ht_repeat_count h,
      hs_avg_turn_seconds =
        (if ht_total_turns h \<noteq> 0 then fl (ht_sum_turn_seconds h / of_int (ht_total_turns h)) else 0),
      hs_total_turns = ht_total_turns h\<rparr>"

section \<open>Texts\<close>

text \<open>\<^verbatim>\<open>str.find\<close>.\<close>

fun py_find :: "string \<Rightarrow> string \<Rightarrow> nat option" where
  "py_find p [] = (if p = [] then Some 0 else None)"
| "py_find p (c # cs) =
     (if take (length p) (c # cs) = p then Some 0 else map_option Suc (py_find p cs))"

definition py_find_from :: "string \<Rightarrow> nat \<Rightarrow> string \<Rightarrow> nat option" where
  "py_find_from p i s = (if i > length s then None else map_option (\<lambda>k. i + k) (py_find p (drop i s)))"

definition TASK_DONE_OPEN :: string where "TASK_DONE_OPEN = ''<task_done''"

definition TASK_DONE_CLOSE :: string where "TASK_DONE_CLOSE = ''/>''"

definition summary_attr :: "string \<Rightarrow> string option" where
  "summary_attr body =
     (case py_find ''summary='' body of
        None \<Rightarrow> None
      | Some i \<Rightarrow>
          (case py_strip (drop (i + 8) body) of
             [] \<Rightarrow> None
           | q # rest \<Rightarrow>
               if q = apostrophe \<or> q = double_quote
               then (case py_find [q] rest of None \<Rightarrow> None | Some k \<Rightarrow> Some (take k rest))
               else None))"

definition detect_task_done :: "string \<Rightarrow> bool \<times> string option" where
  "detect_task_done t =
     (case py_find TASK_DONE_OPEN t of
        None \<Rightarrow> (False, None)
      | Some i \<Rightarrow>
          (case py_find_from TASK_DONE_CLOSE i t of
             None \<Rightarrow> (False, None)
           | Some e \<Rightarrow> (True, summary_attr (drop (i + length TASK_DONE_OPEN) (take e t)))))"

definition tool_correlation_id :: "string option \<Rightarrow> string \<Rightarrow> nat \<Rightarrow> string" where
  "tool_correlation_id corr use_id n =
     str_or corr ''turn'' @ '':'' @ (if use_id = [] then nat_str n else use_id)"

section \<open>Personas\<close>

text \<open>\<^verbatim>\<open>{{ name }}\<close>: the name and what follows it, when the text begins so.\<close>

definition name_start :: "char \<Rightarrow> bool" where
  "name_start c \<longleftrightarrow> (let n = of_char c :: nat in 65 \<le> n \<and> n \<le> 90 \<or> 97 \<le> n \<and> n \<le> 122 \<or> n = 95)"

definition name_char :: "char \<Rightarrow> bool" where
  "name_char c \<longleftrightarrow> name_start c \<or> (let n = of_char c :: nat in 48 \<le> n \<and> n \<le> 57)"

definition template_var :: "string \<Rightarrow> (string \<times> string) option" where
  "template_var s =
     (if take 2 s \<noteq> ''{{'' then None
      else
        let t = dropWhile is_space (drop 2 s); name = takeWhile name_char t;
            rest = dropWhile is_space (drop (length name) t) in
        if name = [] \<or> \<not> name_start (hd name) \<or> take 2 rest \<noteq> ''}}'' then None
        else Some (name, drop 2 rest))"

lemma template_var_shorter: "template_var s = Some (n, rest) \<Longrightarrow> length rest < length s"
proof -
  assume a: "template_var s = Some (n, rest)"
  let ?t = "dropWhile is_space (drop 2 s)"
  let ?r = "dropWhile is_space (drop (length n) ?t)"
  have "take 2 s = ''{{''" and "rest = drop 2 ?r"
    using a by (auto simp: template_var_def Let_def split: if_splits)
  moreover have "length ?r \<le> length ?t" "length ?t \<le> length (drop 2 s)"
    using length_dropWhile_le[of is_space "drop (length n) ?t"] length_dropWhile_le[of is_space "drop 2 s"] by auto
  moreover have "2 \<le> length s" using calculation(1) by (cases s; cases "tl s") auto
  ultimately show "length rest < length s" by simp
qed

function render :: "string \<Rightarrow> (string \<times> string) list \<Rightarrow> exn + string" where
  "render s ctx =
     (case template_var s of
        Some (name, rest) \<Rightarrow>
          (case map_of ctx name of
             None \<Rightarrow> Inl (PersonaLoadError (''missing template variable: '' @ name))
           | Some v \<Rightarrow> map_sum id (\<lambda>t. v @ t) (render rest ctx))
      | None \<Rightarrow> (case s of [] \<Rightarrow> Inr [] | c # cs \<Rightarrow> map_sum id (\<lambda>t. c # t) (render cs ctx)))"
  by pat_completeness auto
termination
  by (relation "measure (\<lambda>(s, _). length s)") (auto dest: template_var_shorter)

declare render.simps [simp del]

type_synonym persona_loader = "role \<times> string \<Rightarrow> string option"

definition persona_register :: "role \<Rightarrow> string \<Rightarrow> string \<Rightarrow> persona_loader \<Rightarrow> persona_loader" where
  "persona_register r ref template l = l((r, ref) \<mapsto> template)"

definition persona_load :: "persona_loader \<Rightarrow> role \<Rightarrow> string \<Rightarrow> (string \<times> string) list \<Rightarrow> exn + string" where
  "persona_load l r ref ctx =
     (case (case l (r, ref) of None \<Rightarrow> l (r, ''default'') | Some t \<Rightarrow> Some t) of
        None \<Rightarrow> Inl (PersonaLoadError (''no persona for role='' @ role_value r @ '' ref='' @ ref))
      | Some t \<Rightarrow> render t ctx)"

definition agent_display :: "agent \<Rightarrow> string" where
  "agent_display a =
     (let n = py_strip (ag_first_name a @ '' '' @ ag_last_name a) in if n = [] then ag_id a else n)"

text \<open>\<^verbatim>\<open>_persona_ctx\<close>. The literal gives five keys twice; the later value counts.\<close>

definition persona_ctx ::
  "string \<Rightarrow> string \<Rightarrow> agent \<Rightarrow> string list \<Rightarrow> string list \<Rightarrow> (string \<times> string) list" where
  "persona_ctx company mission a reports tool_names =
     [(''agent_id'', ag_id a), (''role'', role_value (ag_role a)),
      (''role_title'', str_or (ag_role_title a) (role_value (ag_role a))),
      (''role_description'', str_or (ag_role_description a) []),
      (''first_name'', ag_first_name a), (''last_name'', ag_last_name a),
      (''agent_name'', agent_display a), (''company_id'', company),
      (''manager_name'', str_or (ag_reports_to a) ''(none)''),
      (''direct_reports'', str_or (Some (py_join '', '' reports)) ''(none)''),
      (''company_mission'', mission), (''available_tools'', py_join '', '' tool_names)]"

section \<open>A turn\<close>

datatype turn_event = TE_Text string | TE_Tool string string payload | TE_Stop string

record submission =
  sb_tool_use_id :: string
  sb_ok :: bool
  sb_output :: payload

datatype llm_step = LNext turn_event | LEnd | LRaise exn

record turn_env =
  tn_now :: int
  tn_started :: rat
  tn_ended :: rat
  tn_mem_now :: int
  tn_company :: string
  tn_mission :: string
  tn_personas :: persona_loader
  tn_schema_of :: "string \<Rightarrow> json"
  tn_score_text :: "real \<Rightarrow> string"
  tn_open :: "string \<Rightarrow> working_item list \<Rightarrow> payload list \<Rightarrow> string list \<Rightarrow> nat \<Rightarrow> exn option"
  tn_open_timeout :: bool
  tn_next :: "nat \<Rightarrow> submission list \<Rightarrow> llm_step"
  tn_submit :: "submission \<Rightarrow> exn option"
  tn_tool_env :: "nat \<Rightarrow> tool_env"

record 'x turn =
  tu_tools :: "'x office_tools"
  tu_health :: health_tracker
  tu_submitted :: "submission list"
  tu_chunks :: "string list"
  tu_calls :: nat
  tu_replied :: bool
  tu_stop :: "string option"

record turn_outcome =
  to_text :: string
  to_tool_invocations :: nat
  to_task_done :: bool
  to_summary :: "string option"
  to_duration_seconds :: rat
  to_truncated_reason :: "string option"

fun message_kind_value :: "message_kind \<Rightarrow> string" where
  "message_kind_value USER_REQUEST = ''user_request''"
| "message_kind_value AGENT_MESSAGE = ''agent_message''"
| "message_kind_value MK_APPROVAL_DECIDED = ''approval_decided''"
| "message_kind_value ORPHAN = ''orphan''"
| "message_kind_value NOTIFY = ''notify''"

definition tu_on :: "('x office_tools \<Rightarrow> (exn + 'a) \<times> 'x office_tools) \<Rightarrow> 'x turn \<Rightarrow> ('a, 'x turn) outcome" where
  "tu_on f u = (case f (tu_tools u) of (r, t) \<Rightarrow> (r, u\<lparr>tu_tools := t\<rparr>))"

definition remember_item ::
  "turn_env \<Rightarrow> string \<Rightarrow> string \<Rightarrow> string \<Rightarrow> payload \<Rightarrow> 'x turn \<Rightarrow> (unit, 'x turn) outcome" where
  "remember_item env agent who content meta =
     tu_on (tl_on (on_memory (append_working (tn_mem_now env) agent
       \<lparr>wi_role = who, wi_content = content, wi_ts_company = tn_now env, wi_metadata = meta\<rparr>)))"

definition turn_log ::
  "event_kind \<Rightarrow> payload \<Rightarrow> string option \<Rightarrow> string option \<Rightarrow> 'x turn \<Rightarrow> (event, 'x turn) outcome" where
  "turn_log k p actor corr = tu_on (tl_on (on_events (es_append (Inl k) p actor corr)))"

definition format_recall :: "(real \<Rightarrow> string) \<Rightarrow> recall_hit list \<Rightarrow> string" where
  "format_recall score hits =
     (if hits = [] then ''No relevant memories.''
      else py_join newline (''Relevant memories:'' #
        map (\<lambda>h. ''- ('' @ memory_kind_value (rh_kind h) @ '', score='' @ score (rh_score h) @ '') '' @ rh_content h) hits))"

text \<open>\<^verbatim>\<open>int(now.timestamp() * 1000)\<close>, for the id of a message that has none.\<close>

definition fallback_message_id :: "int \<Rightarrow> string" where
  "fallback_message_id now = ''m-'' @ int_str \<lfloor>fl (fl (of_int now / 1000000) * 1000)\<rfloor>"

text \<open>Up to the system prompt.\<close>

definition turn_opening :: "turn_env \<Rightarrow> agent \<Rightarrow> incoming_message \<Rightarrow> 'x turn \<Rightarrow> (string, 'x turn) outcome" where
  "turn_opening env a msg u =
     andthen (remember_item env (ag_id a) ''user'' (im_content msg)
        [(''kind'', JStr (message_kind_value (im_kind msg))), (''from_agent'', JStr (str_or (im_from msg) [])),
         (''correlation_id'', JStr (str_or (im_corr msg) []))] u)
     (\<lambda>_ u1. andthen (turn_log MESSAGE_DELIVERED
        [(''message_id'', JStr (str_or (im_corr msg) (fallback_message_id (tn_now env)))),
         (''to_agent'', JStr (ag_id a))] (im_from msg) (im_corr msg) u1)
     (\<lambda>_ u2.
        let w = tl_sv (tu_tools u2) in
        case recall (sv_org w) (ag_id a) (take 500 (im_content msg)) 5 None None (of_memory w) of
          Inl e \<Rightarrow> (Inl e, u2)
        | Inr hits \<Rightarrow>
            (case persona_load (tn_personas env) (ag_role a) (str_or (Some (ag_persona_ref a)) ''default'')
                    (persona_ctx (tn_company env) (tn_mission env) a (org_direct_reports (sv_org w) (ag_id a))
                      (map td_name (tl_for_role (tu_tools u2) (ag_role a)))) of
               Inl e \<Rightarrow> (Inl e, u2)
             | Inr persona \<Rightarrow> (Inr (persona @ newline @ newline @ format_recall (tn_score_text env) hits), u2))))"

definition LLM_RETRY_ATTEMPTS :: nat where "LLM_RETRY_ATTEMPTS = 2"

text \<open>The last of the attempts that raise gives the text of the failure.\<close>

definition run_llm_with_retry :: "(nat \<Rightarrow> exn option) \<Rightarrow> exn + nat" where
  "run_llm_with_retry attempt =
     (case find (\<lambda>n. attempt n = None) [1..<LLM_RETRY_ATTEMPTS + 2] of
        Some n \<Rightarrow> Inr n
      | None \<Rightarrow> Inl (LLMFailure (case attempt (LLM_RETRY_ATTEMPTS + 1) of
                                  Some e \<Rightarrow> exn_text e | None \<Rightarrow> ''llm_unavailable'')))"

definition open_stream :: "turn_env \<Rightarrow> agent \<Rightarrow> string \<Rightarrow> 'x turn \<Rightarrow> (unit, 'x turn) outcome" where
  "open_stream env a system u =
     (let history = working_window (ag_id a) (Some 20) (of_memory (tl_sv (tu_tools u)));
          schemas = claude_sdk_schema (\<lambda>d. tn_schema_of env (td_name d)) (tu_tools u) (ag_role a);
          keys = [''persona'', role_value (ag_role a), str_or (ag_role_title a) []] in
      if tn_open_timeout env
      then (Inl (TurnTimeout ''llm timeout''), u\<lparr>tu_health := record_error (tu_health u)\<rparr>)
      else case run_llm_with_retry (tn_open env system history schemas keys) of
             Inl e \<Rightarrow> (Inl e, u)
           | Inr _ \<Rightarrow> (Inr (), u))"

definition submit_result :: "turn_env \<Rightarrow> submission \<Rightarrow> 'x turn \<Rightarrow> (unit, 'x turn) outcome" where
  "submit_result env sb u =
     (case tn_submit env sb of
        Some e \<Rightarrow> (Inl e, u)
      | None \<Rightarrow> (Inr (), u\<lparr>tu_submitted := tu_submitted u @ [sb]\<rparr>))"

definition after_first :: "string \<Rightarrow> string \<Rightarrow> string option" where
  "after_first p s = map_option (\<lambda>i. drop (i + length p) s) (py_find p s)"

text \<open>Why a call counts as rejected, if it does: it failed, or it is a message the orchestrator
  turned down although the tool answered ok.\<close>

definition rejection_of :: "(rat \<Rightarrow> string) \<Rightarrow> string \<Rightarrow> tool_result \<Rightarrow> string option" where
  "rejection_of fr name r =
     (if \<not> tr_ok r
      then Some (str_or (tr_error_message r) (str_or (tr_error_code r) ''tool_failed''))
      else if name = ''send_message''
      then (case tr_output r of
              None \<Rightarrow> None
            | Some out \<Rightarrow> after_first '':rejected:'' (text_at fr (om_dump out) ''message_id''))
      else None)"

definition result_payload :: "tool_result \<Rightarrow> string option \<Rightarrow> payload" where
  "result_payload r rejection =
     [(''ok'', JBool (tr_ok r)), (''error_code'', opt_json (tr_error_code r)),
      (''error_message'', opt_json (tr_error_message r))] @
     (case tr_output r of None \<Rightarrow> [] | Some out \<Rightarrow> [(''output'', JObj (om_dump out))]) @
     (if truthy rejection
      then [(''rejected'', JBool True), (''rejection_reason'', JStr (the rejection))] else [])"

definition backtick :: char where "backtick = char_of (96 :: nat)"

definition rejection_note :: "string \<Rightarrow> string \<Rightarrow> string" where
  "rejection_note name reason =
     ''Your last '' @ [backtick] @ name @ [backtick] @ '' call was rejected: '' @ reason @
     ''. Do NOT retry the same call - change something concrete (different recipient, different '' @
     ''reports_to, different content) or escalate to your manager.''"

definition after_call ::
  "turn_env \<Rightarrow> agent \<Rightarrow> string \<Rightarrow> string \<Rightarrow> tool_result \<Rightarrow> 'x turn \<Rightarrow> (unit, 'x turn) outcome" where
  "after_call env a use_id name r u =
     (let rejection = rejection_of (es_float_repr (tl_log (tu_tools u))) name r;
          ok = (tr_ok r \<and> rejection = None) in
      andthen (submit_result env
        \<lparr>sb_tool_use_id = use_id, sb_ok = ok, sb_output = result_payload r rejection\<rparr> u)
      (\<lambda>_ u1. andthen (remember_item env (ag_id a) ''tool'' (name @ '': ok='' @ bool_str ok) [(''tool'', JStr name)] u1)
      (\<lambda>_ u2.
         if truthy rejection
         then remember_item env (ag_id a) ''system'' (rejection_note name (the rejection))
                [(''tool'', JStr name), (''rejection'', JStr (the rejection))] u2
         else (Inr (), u2))))"

definition replies_to :: "incoming_message \<Rightarrow> string \<Rightarrow> payload \<Rightarrow> tool_result \<Rightarrow> bool" where
  "replies_to msg name inp r \<longleftrightarrow>
     tr_ok r \<and> name = ''send_message'' \<and> truthy (im_from msg) \<and>
     map_of inp ''recipient_id'' = Some (JStr (the (im_from msg)))"

definition handle_tool ::
  "turn_env \<Rightarrow> agent \<Rightarrow> incoming_message \<Rightarrow> string \<Rightarrow> string \<Rightarrow> payload \<Rightarrow> 'x turn \<Rightarrow> (unit, 'x turn) outcome" where
  "handle_tool env a msg use_id name inp u =
     (let n = tu_calls u + 1 in
      case tl_invoke (tn_tool_env env n) (ag_id a) name inp
             (Some (tool_correlation_id (im_corr msg) use_id n)) (tu_tools u) of
        (Inl e, t) \<Rightarrow>
          submit_result env
            \<lparr>sb_tool_use_id = use_id, sb_ok = False, sb_output = [(''error'', JStr (exn_text e))]\<rparr>
            (u\<lparr>tu_tools := t, tu_calls := n, tu_health := record_error (tu_health u)\<rparr>)
      | (Inr r, t) \<Rightarrow>
          after_call env a use_id name r
            (u\<lparr>tu_tools := t, tu_calls := n, tu_replied := (tu_replied u \<or> replies_to msg name inp r)\<rparr>))"

fun handle_event ::
  "turn_env \<Rightarrow> agent \<Rightarrow> incoming_message \<Rightarrow> turn_event \<Rightarrow> 'x turn \<Rightarrow> (unit, 'x turn) outcome" where
  "handle_event env a msg (TE_Stop why) u = (Inr (), u\<lparr>tu_stop := (if why = [] then None else Some why)\<rparr>)"
| "handle_event env a msg (TE_Tool use_id name inp) u = handle_tool env a msg use_id name inp u"
| "handle_event env a msg (TE_Text t) u = (Inr (), u\<lparr>tu_chunks := tu_chunks u @ [t]\<rparr>)"

fun stream_loop ::
  "turn_env \<Rightarrow> agent \<Rightarrow> incoming_message \<Rightarrow> nat \<Rightarrow> nat \<Rightarrow> 'x turn \<Rightarrow> (unit, 'x turn) outcome option" where
  "stream_loop env a msg 0 k u = None"
| "stream_loop env a msg (Suc fuel) k u =
     (case tn_next env k (tu_submitted u) of
        LEnd \<Rightarrow> Some (Inr (), u)
      | LRaise e \<Rightarrow> Some (Inl e, u)
      | LNext ev \<Rightarrow>
          (case handle_event env a msg ev u of
             (Inl e, v) \<Rightarrow> Some (Inl e, v)
           | (Inr _, v) \<Rightarrow> stream_loop env a msg fuel (Suc k) v))"

text \<open>What the handlers around the stream turn an exception into.\<close>

definition stream_error :: "exn \<Rightarrow> exn" where
  "stream_error e =
     (case e of
        LLMFailure m \<Rightarrow> LLMFailure m
      | TurnTimeout m \<Rightarrow> TurnTimeout m
      | TimeoutError _ \<Rightarrow> TurnTimeout ''llm stream timeout''
      | _ \<Rightarrow> LLMFailure (str_or (Some (exn_text e)) ''llm_stream_error''))"

definition cut_off_note :: "nat \<Rightarrow> string" where
  "cut_off_note n =
     ''Your previous turn was cut off at the tool-call cap after '' @ nat_str n @
     '' tool calls. Continue from where you left off - do not restart the plan.''"

definition note_truncated :: "turn_env \<Rightarrow> agent \<Rightarrow> incoming_message \<Rightarrow> 'x turn \<Rightarrow> (unit, 'x turn) outcome" where
  "note_truncated env a msg u =
     (if tu_stop u = Some ''tool_loop_cap''
      then andthen (turn_log AGENT_TURN_TRUNCATED
             [(''agent_id'', JStr (ag_id a)), (''reason'', JStr ''tool_loop_cap''),
              (''tool_invocations'', JInt (int (tu_calls u)))] (Some (ag_id a)) (im_corr msg) u)
           (\<lambda>_ u1. remember_item env (ag_id a) ''system'' (cut_off_note (tu_calls u)) [] u1)
      else (Inr (), u))"

text \<open>The safety net: a reply to an agent that got none. What it raises is dropped.\<close>

definition auto_ack :: "turn_env \<Rightarrow> agent \<Rightarrow> incoming_message \<Rightarrow> string \<Rightarrow> 'x turn \<Rightarrow> 'x turn" where
  "auto_ack env a msg full u =
     (if truthy (im_from msg) \<and> im_from msg \<noteq> Some ''system'' \<and> \<not> tu_replied u
      then snd (tu_on (tl_invoke (tn_tool_env env 0) (ag_id a) ''send_message''
             [(''recipient_id'', JStr (the (im_from msg))),
              (''body'', JStr (take 1500 (str_or (Some (py_strip full)) ''Understood.'')))]
             (Some (str_or (im_corr msg) ''turn'' @ '':auto_ack''))) u)
      else u)"

definition close_turn :: "turn_env \<Rightarrow> agent \<Rightarrow> incoming_message \<Rightarrow> string \<Rightarrow> 'x turn \<Rightarrow> (turn_outcome, 'x turn) outcome" where
  "close_turn env a msg full u =
     (let duration = fl (tn_ended env - tn_started env); task = detect_task_done full;
          u1 = u\<lparr>tu_health := reset_error_streak (record_turn duration (tn_now env) (tu_health u))\<rparr> in
      andthen (turn_log AGENT_TURN_COMPLETED
         [(''agent_id'', JStr (ag_id a)), (''task_done'', JBool (fst task)),
          (''duration_seconds'', JFloat duration), (''tool_invocations'', JInt (int (tu_calls u)))]
         (Some (ag_id a)) (im_corr msg) u1)
      (\<lambda>_ u2. andthen (turn_log AGENT_HEARTBEAT [(''agent_id'', JStr (ag_id a)), (''state'', JStr ''idle'')]
         (Some (ag_id a)) None u2)
      (\<lambda>_ u3.
         (Inr \<lparr>to_text = full, to_tool_invocations = tu_calls u, to_task_done = fst task,
               to_summary = snd task, to_duration_seconds = duration,
               to_truncated_reason = (if tu_stop u = Some ''tool_loop_cap'' then tu_stop u else None)\<rparr>, u3))))"

definition finish_turn :: "turn_env \<Rightarrow> agent \<Rightarrow> incoming_message \<Rightarrow> 'x turn \<Rightarrow> (turn_outcome, 'x turn) outcome" where
  "finish_turn env a msg u =
     (let full = concat (tu_chunks u) in
      andthen (if full = [] then (Inr (), u)
               else andthen (remember_item env (ag_id a) ''agent'' full [] u)
                      (\<lambda>_ u1. (Inr (), u1\<lparr>tu_health := record_response full (tu_health u1)\<rparr>)))
      (\<lambda>_ u1. andthen (note_truncated env a msg u1)
      (\<lambda>_ u2. close_turn env a msg full (auto_ack env a msg full u2))))"

definition start_turn :: "'x office_tools \<Rightarrow> health_tracker \<Rightarrow> 'x turn" where
  "start_turn t h =
     \<lparr>tu_tools = t, tu_health = h, tu_submitted = [], tu_chunks = [], tu_calls = 0, tu_replied = False,
      tu_stop = None\<rparr>"

definition run_turn ::
  "turn_env \<Rightarrow> nat \<Rightarrow> agent \<Rightarrow> incoming_message \<Rightarrow> 'x office_tools \<Rightarrow> health_tracker
   \<Rightarrow> (turn_outcome, 'x turn) outcome option" where
  "run_turn env fuel a msg t h =
     (case andthen (turn_opening env a msg (start_turn t h)) (open_stream env a) of
        (Inl e, u) \<Rightarrow> Some (Inl e, u)
      | (Inr _, u) \<Rightarrow>
          (case stream_loop env a msg fuel 0 u of
             None \<Rightarrow> None
           | Some (Inl e, v) \<Rightarrow> Some (Inl (stream_error e), v\<lparr>tu_health := record_error (tu_health v)\<rparr>)
           | Some (Inr _, v) \<Rightarrow> Some (finish_turn env a msg v)))"

section \<open>The agent\<close>

text \<open>The task of the loop: none, one that runs, one that is over, with the exception that ended it.\<close>

datatype agent_task = No_Task | Task_Running | Task_Ended "exn option"

text \<open>\<open>None\<close> in the inbox is the sentinel. \<open>la_in_get\<close>: the loop waits in \<^verbatim>\<open>queue.get\<close>, past the
  test of the stop event.\<close>

record live_agent =
  la_id :: string
  la_status :: run_status
  la_inbox :: "incoming_message option list"
  la_stop :: bool
  la_task :: agent_task
  la_in_get :: bool
  la_health :: health_tracker

record agent_env =
  ae_turn :: turn_env
  ae_fuel :: nat
  ae_accepting :: bool
  ae_completion :: "working_item list \<Rightarrow> exn + string"
  ae_episode_id :: string
  ae_episode_now :: int

definition la_create :: "string \<Rightarrow> int \<Rightarrow> org \<Rightarrow> exn + live_agent" where
  "la_create i now g =
     (case org_get g i of
        Inl e \<Rightarrow> Inl e
      | Inr _ \<Rightarrow> Inr \<lparr>la_id = i, la_status = AS_STOPPED, la_inbox = [], la_stop = False, la_task = No_Task,
                     la_in_get = False, la_health = ht_create now\<rparr>)"

text \<open>The persona is rendered once, with no tools and no reports named, so that its failure surfaces
  early; the record is the one the agent was made with.\<close>

definition la_start :: "turn_env \<Rightarrow> agent \<Rightarrow> live_agent \<Rightarrow> (unit, live_agent) outcome" where
  "la_start env rec la =
     (if la_task la = Task_Running then (Inr (), la)
      else
        let la1 = la\<lparr>la_stop := False, la_status := AS_IDLE\<rparr> in
        case persona_load (tn_personas env) (ag_role rec) (str_or (Some (ag_persona_ref rec)) ''default'')
               (persona_ctx (tn_company env) (tn_mission env) rec [] []) of
          Inl e \<Rightarrow> (Inl e, la1)
        | Inr _ \<Rightarrow> (Inr (), la1\<lparr>la_task := Task_Running, la_in_get := False\<rparr>))"

definition la_deliver :: "incoming_message \<Rightarrow> live_agent \<Rightarrow> live_agent" where
  "la_deliver m la = la\<lparr>la_inbox := la_inbox la @ [Some m]\<rparr>"

definition summarise_turn ::
  "agent_env \<Rightarrow> string \<Rightarrow> incoming_message \<Rightarrow> turn_outcome \<Rightarrow> 'x office_tools \<Rightarrow> (string, 'x office_ext staff_ext) tool_out" where
  "summarise_turn env i msg out t =
     (let history = working_window i (Some 20) (of_memory (tl_sv t));
          summary = (if truthy (to_summary out) then the (to_summary out)
                     else case ae_completion env history of
                            Inr s \<Rightarrow> s
                          | Inl _ \<Rightarrow> str_or (Some (take 500 (to_text out))) ''(no summary)'') in
      tl_on (on_memory (remember_episode (ae_episode_id env) (ae_episode_now env) i summary
        [(''correlation_id'', JStr (str_or (im_corr msg) []))])) t)"

definition is_turn_failure :: "exn \<Rightarrow> bool" where
  "is_turn_failure e = (case e of LLMFailure _ \<Rightarrow> True | TurnTimeout _ \<Rightarrow> True | _ \<Rightarrow> False)"

definition turn_failure_code :: "exn \<Rightarrow> string" where
  "turn_failure_code e = (case e of TurnTimeout _ \<Rightarrow> ''turn_timeout'' | _ \<Rightarrow> ''llm_failure'')"

definition handle_message ::
  "agent_env \<Rightarrow> incoming_message \<Rightarrow> live_agent \<times> 'x office_tools
   \<Rightarrow> (turn_outcome, live_agent \<times> 'x office_tools) outcome option" where
  "handle_message env msg s =
     (let la = (fst s)\<lparr>la_status := AS_WORKING\<rparr>; t = snd s in
      case org_get (sv_org (tl_sv t)) (la_id la) of
        Inl e \<Rightarrow> Some (Inl e, la, t)
      | Inr a \<Rightarrow>
          (case run_turn (ae_turn env) (ae_fuel env) a msg t (la_health la) of
             None \<Rightarrow> None
           | Some (Inl e, u) \<Rightarrow>
               (let la1 = la\<lparr>la_health := tu_health u\<rparr> in
                if is_turn_failure e
                then
                  (case tl_on (on_events (es_append (Inl AGENT_HEALTH_ALERT)
                          [(''agent_id'', JStr (la_id la)), (''issue'', JStr (turn_failure_code e)),
                           (''severity'', JStr ''warn''), (''detail'', JStr (take 500 (exn_text e)))]
                          (Some (la_id la)) None)) (tu_tools u) of
                     (r, t1) \<Rightarrow>
                       Some (Inl (case r of Inl e2 \<Rightarrow> e2 | Inr _ \<Rightarrow> e),
                             la1\<lparr>la_health := record_error (tu_health u), la_status := AS_UNHEALTHY\<rparr>, t1))
                else Some (Inl e, la1, tu_tools u))
           | Some (Inr out, u) \<Rightarrow>
               (let la1 = la\<lparr>la_health := tu_health u\<rparr> in
                case (if to_task_done out then summarise_turn env (la_id la) msg out (tu_tools u)
                      else (Inr [], tu_tools u)) of
                  (Inl e, t1) \<Rightarrow> Some (Inl e, la1, t1)
                | (Inr _, t1) \<Rightarrow> Some (Inr out, la1\<lparr>la_status := AS_IDLE\<rparr>, t1))))"

text \<open>One step of the loop: the test of the stop event, or taking a message and handling it. An
  exception ends the task.\<close>

definition loop_step ::
  "agent_env \<Rightarrow> live_agent \<times> 'x office_tools \<Rightarrow> (live_agent \<times> 'x office_tools) option" where
  "loop_step env s =
     (let la = fst s in
      if la_task la \<noteq> Task_Running then Some s
      else if \<not> la_in_get la
      then Some (if la_stop la then la\<lparr>la_task := Task_Ended None\<rparr> else la\<lparr>la_in_get := True\<rparr>, snd s)
      else
        case la_inbox la of
          [] \<Rightarrow> Some s
        | None # rest \<Rightarrow> Some (la\<lparr>la_inbox := rest, la_task := Task_Ended None\<rparr>, snd s)
        | Some m # rest \<Rightarrow>
            let la1 = la\<lparr>la_inbox := rest, la_in_get := False\<rparr> in
            if \<not> ae_accepting env then Some (la1\<lparr>la_inbox := rest @ [Some m]\<rparr>, snd s)
            else
              (case handle_message env m (la1, snd s) of
                 None \<Rightarrow> None
               | Some (Inl e, la2, t) \<Rightarrow> Some (la2\<lparr>la_task := Task_Ended (Some e)\<rparr>, t)
               | Some (Inr _, la2, t) \<Rightarrow> Some (la2, t)))"

text \<open>\<^verbatim>\<open>stop\<close>: the event is set, a task gets a sentinel and is waited for or cancelled. Waiting for a
  task that an exception has ended raises the exception, unless it is a timeout.\<close>

definition la_stop_request :: "live_agent \<Rightarrow> live_agent" where
  "la_stop_request la =
     la\<lparr>la_stop := True, la_inbox := la_inbox la @ (if la_task la = No_Task then [] else [None])\<rparr>"

definition is_timeout :: "exn \<Rightarrow> bool" where
  "is_timeout e = (case e of TimeoutError _ \<Rightarrow> True | _ \<Rightarrow> False)"

definition la_stop_done :: "live_agent \<Rightarrow> (unit, live_agent) outcome" where
  "la_stop_done la =
     (case la_task la of
        Task_Ended (Some e) \<Rightarrow>
          if is_timeout e then (Inr (), la\<lparr>la_task := No_Task, la_status := AS_STOPPED\<rparr>) else (Inl e, la)
      | _ \<Rightarrow> (Inr (), la\<lparr>la_task := No_Task, la_status := AS_STOPPED\<rparr>))"

definition process_one ::
  "agent_env \<Rightarrow> live_agent \<times> 'x office_tools
   \<Rightarrow> (turn_outcome option, live_agent \<times> 'x office_tools) outcome option" where
  "process_one env s =
     (case la_inbox (fst s) of
        [] \<Rightarrow> Some (Inr None, s)
      | None # rest \<Rightarrow> Some (Inr None, (fst s)\<lparr>la_inbox := rest\<rparr>, snd s)
      | Some m # rest \<Rightarrow>
          map_option (\<lambda>(r, s1). (map_sum id Some r, s1)) (handle_message env m ((fst s)\<lparr>la_inbox := rest\<rparr>, snd s)))"

section \<open>What a turn leaves alone\<close>

definition turn_kept :: "(org \<Rightarrow> bool) \<Rightarrow> 'x turn \<Rightarrow> ('a, 'x turn) outcome \<Rightarrow> bool" where
  "turn_kept P u out \<longleftrightarrow> kept P (tu_tools u) (fst out, tu_tools (snd out))"

lemma turn_kept_same: "tu_tools (snd out) = tu_tools u \<Longrightarrow> turn_kept P u out"
  by (simp add: turn_kept_def)

lemma turn_kept_trans: "turn_kept P u (r, v) \<Longrightarrow> turn_kept P v out \<Longrightarrow> turn_kept P u out"
  by (auto simp: turn_kept_def kept_def)

lemma turn_kept_from: "tu_tools v = tu_tools u \<Longrightarrow> turn_kept P v out \<Longrightarrow> turn_kept P u out"
  by (simp add: turn_kept_def)

lemma turn_kept_andthen:
  assumes "turn_kept P u m" and "\<And>a v. m = (Inr a, v) \<Longrightarrow> turn_kept P v (f a v)"
  shows "turn_kept P u (andthen m f)"
proof (cases m)
  case (Pair r v)
  show ?thesis
  proof (cases r)
    case (Inl e)
    then show ?thesis using assms(1) Pair by (simp add: turn_kept_def kept_def)
  next
    case (Inr a)
    then show ?thesis using turn_kept_trans[OF assms(1)[unfolded Pair] assms(2)] Pair by simp
  qed
qed

lemma turn_kept_on: "kept P (tu_tools u) (f (tu_tools u)) \<Longrightarrow> turn_kept P u (tu_on f u)"
  by (simp add: turn_kept_def tu_on_def kept_def case_prod_beta)

lemma turn_kept_remember: "turn_kept P u (remember_item env i who c meta u)"
  unfolding remember_item_def
  by (rule turn_kept_on) (simp add: kept_def tl_on_def on_memory_def through_def case_prod_beta)

lemma turn_kept_log: "turn_kept P u (turn_log k p actor corr u)"
  unfolding turn_log_def by (rule turn_kept_on) (rule kept_parts)

lemma turn_kept_submit: "turn_kept P u (submit_result env sb u)"
  by (rule turn_kept_same) (simp add: submit_result_def split: option.splits)

lemma turn_kept_opening: "turn_kept P u (turn_opening env a msg u)"
  unfolding turn_opening_def
  by (intro turn_kept_andthen turn_kept_remember turn_kept_log)
     (auto simp: Let_def intro: turn_kept_same split: sum.splits)

lemma turn_kept_open: "turn_kept P u (open_stream env a system u)"
  by (rule turn_kept_same) (simp add: open_stream_def Let_def split: sum.splits)

lemma turn_kept_after: "turn_kept P u (after_call env a i n r u)"
  unfolding after_call_def Let_def
  by (intro turn_kept_andthen turn_kept_submit turn_kept_remember)
     (auto intro: turn_kept_remember turn_kept_same)

definition registry_safe :: "(org \<Rightarrow> bool) \<Rightarrow> 'x turn \<Rightarrow> bool" where
  "registry_safe P u \<longleftrightarrow> (\<forall>tool\<in>set (tl_defs (tu_tools u)). chart_safe P tool)"

lemma turn_kept_invoke: "registry_safe P u \<Longrightarrow> kept P (tu_tools u) (tl_invoke env a n args corr (tu_tools u))"
  by (rule kept_invoke) (simp add: registry_safe_def)

lemma turn_kept_tool:
  assumes "registry_safe P u" shows "turn_kept P u (handle_tool env a msg i n inp u)"
proof -
  obtain r t where run: "tl_invoke (tn_tool_env env (Suc (tu_calls u))) (ag_id a) n inp
      (Some (tool_correlation_id (im_corr msg) i (Suc (tu_calls u)))) (tu_tools u) = (r, t)" by (meson surj_pair)
  have "kept P (tu_tools u) (r, t)" using turn_kept_invoke[OF assms] run by metis
  then have t: "turn_kept P u (r, v)" if "tu_tools v = t" for v
    using that by (simp add: turn_kept_def kept_def)
  show ?thesis
    by (cases r) (auto simp: handle_tool_def run Let_def
        intro: turn_kept_trans[OF t turn_kept_submit] turn_kept_trans[OF t turn_kept_after])
qed

lemma turn_kept_event: "registry_safe P u \<Longrightarrow> turn_kept P u (handle_event env a msg ev u)"
  by (cases ev) (auto intro: turn_kept_same turn_kept_tool)

lemma turn_kept_safe: "turn_kept P u (r, v) \<Longrightarrow> registry_safe P u \<Longrightarrow> registry_safe P v"
  by (simp add: turn_kept_def kept_def registry_safe_def)

lemma turn_kept_loop:
  "registry_safe P u \<Longrightarrow> stream_loop env a msg fuel k u = Some out \<Longrightarrow> turn_kept P u out"
proof (induction fuel arbitrary: k u)
  case (Suc fuel)
  show ?case
  proof (cases "tn_next env k (tu_submitted u)")
    case (LNext ev)
    obtain r v where ev: "handle_event env a msg ev u = (r, v)" by (meson surj_pair)
    have k: "turn_kept P u (r, v)" using turn_kept_event[OF Suc.prems(1), of env a msg ev] ev by simp
    show ?thesis
    proof (cases r)
      case (Inl e)
      then show ?thesis using Suc.prems(2) LNext ev k by (simp add: turn_kept_def kept_def)
    next
      case (Inr x)
      then have "turn_kept P v out"
        using Suc.prems LNext ev Suc.IH[OF turn_kept_safe[OF k Suc.prems(1)]] by simp
      then show ?thesis by (rule turn_kept_trans[OF k])
    qed
  qed (use Suc.prems in \<open>auto intro: turn_kept_same\<close>)
qed simp

lemma turn_kept_ack:
  "registry_safe P u \<Longrightarrow> turn_kept P u (r, auto_ack env a msg full u)"
  using turn_kept_invoke[of P u] by (simp add: auto_ack_def turn_kept_def kept_def tu_on_def case_prod_beta)

lemma turn_kept_close: "turn_kept P u (close_turn env a msg full u)"
proof (rule turn_kept_from)
  let ?v = "u\<lparr>tu_health := reset_error_streak
      (record_turn (fl (tn_ended env - tn_started env)) (tn_now env) (tu_health u))\<rparr>"
  show "tu_tools ?v = tu_tools u" by simp
  show "turn_kept P ?v (close_turn env a msg full u)"
    unfolding close_turn_def Let_def
    by (intro turn_kept_andthen turn_kept_log) (rule turn_kept_same, simp)
qed

lemma turn_kept_finish:
  assumes "registry_safe P u" shows "turn_kept P u (finish_turn env a msg u)"
  unfolding finish_turn_def Let_def
proof (rule turn_kept_andthen)
  let ?full = "concat (tu_chunks u)"
  let ?m = "if ?full = [] then (Inr (), u)
     else andthen (remember_item env (ag_id a) ''agent'' ?full [] u)
            (\<lambda>_ u1. (Inr (), u1\<lparr>tu_health := record_response ?full (tu_health u1)\<rparr>))"
  have same: "turn_kept P v (Inr (), v\<lparr>tu_health := h\<rparr>)" for v :: "'a turn" and h
    by (rule turn_kept_same) simp
  show m: "turn_kept P u ?m"
    by (cases "?full = []") (simp_all only: if_True if_False, rule turn_kept_same, simp,
        rule turn_kept_andthen[OF turn_kept_remember same])
  fix x u1 assume "?m = (Inr x, u1)"
  with m have k1: "turn_kept P u (Inr x, u1)" by simp
  show "turn_kept P u1 (andthen (note_truncated env a msg u1)
      (\<lambda>_ u2. close_turn env a msg ?full (auto_ack env a msg ?full u2)))"
  proof (rule turn_kept_andthen)
    show n: "turn_kept P u1 (note_truncated env a msg u1)"
      by (cases "tu_stop u1 = Some ''tool_loop_cap''")
         (simp_all add: note_truncated_def turn_kept_same turn_kept_andthen turn_kept_remember turn_kept_log)
    fix y u2 assume "note_truncated env a msg u1 = (Inr y, u2)"
    with n have "turn_kept P u1 (Inr y, u2)" by simp
    then have "registry_safe P u2" using turn_kept_safe k1 assms by blast
    then show "turn_kept P u2 (close_turn env a msg (concat (tu_chunks u)) (auto_ack env a msg (concat (tu_chunks u)) u2))"
      using turn_kept_trans[OF turn_kept_ack turn_kept_close] by blast
  qed
qed

lemma turn_kept_run:
  assumes "run_turn env fuel a msg t h = Some (r, u)" and "\<And>tool. tool \<in> set (tl_defs t) \<Longrightarrow> chart_safe P tool"
  shows "kept P t (r, tu_tools u)"
proof -
  let ?u0 = "start_turn t h"
  have safe: "registry_safe P ?u0" using assms(2) by (simp add: registry_safe_def start_turn_def)
  obtain r1 u1 where o1: "andthen (turn_opening env a msg ?u0) (open_stream env a) = (r1, u1)" by (meson surj_pair)
  have "turn_kept P ?u0 (andthen (turn_opening env a msg ?u0) (open_stream env a))"
    by (rule turn_kept_andthen[OF turn_kept_opening turn_kept_open])
  with o1 have k1: "turn_kept P ?u0 (r1, u1)" by simp
  have "turn_kept P ?u0 (r, u)"
  proof (cases r1)
    case (Inl e)
    then show ?thesis using assms(1) o1 k1 by (simp add: run_turn_def turn_kept_def kept_def)
  next
    case (Inr x)
    then obtain r2 v where s2: "stream_loop env a msg fuel 0 u1 = Some (r2, v)"
      using assms(1) o1 by (auto simp: run_turn_def split: option.splits)
    have safe1: "registry_safe P u1" using turn_kept_safe[OF k1 safe] .
    note k2 = turn_kept_trans[OF k1 turn_kept_loop[OF safe1 s2]]
    show ?thesis
    proof (cases r2)
      case (Inl e)
      then show ?thesis using assms(1) o1 k2 Inr s2 by (auto simp: run_turn_def turn_kept_def kept_def)
    next
      case inr2: (Inr y)
      have "(r, u) = finish_turn env a msg v" using assms(1) o1 Inr s2 inr2 by (simp add: run_turn_def)
      then show ?thesis
        using turn_kept_trans[OF k2 turn_kept_finish[OF turn_kept_safe[OF k2 safe]]] by metis
    qed
  qed
  then show ?thesis by (simp add: turn_kept_def start_turn_def)
qed

lemma kept_message:
  assumes run: "handle_message env msg (la, t) = Some (r, la', t')"
    and safe: "\<And>tool. tool \<in> set (tl_defs t) \<Longrightarrow> chart_safe P tool"
  shows "kept P t (r, t')"
proof (cases "org_get (sv_org (tl_sv t)) (la_id la)")
  case (Inl e)
  then show ?thesis using run by (simp add: handle_message_def)
next
  case (Inr a)
  then obtain r1 u where r1: "run_turn (ae_turn env) (ae_fuel env) a msg t (la_health la) = Some (r1, u)"
    using run by (auto simp: handle_message_def Let_def split: option.splits)
  have "t' = tu_tools u \<or> (\<exists>f. t' = snd (tl_on (on_events f :: _ \<Rightarrow> (event, _) outcome) (tu_tools u))) \<or>
      (\<exists>f. t' = snd (tl_on (on_memory f :: _ \<Rightarrow> (string, _) outcome) (tu_tools u)))"
    using run Inr r1
    by (auto simp: handle_message_def Let_def summarise_turn_def split: if_splits prod.splits sum.splits)
       (metis snd_conv)+
  then have "tl_defs t' = tl_defs (tu_tools u) \<and> sv_org (tl_sv t') = sv_org (tl_sv (tu_tools u))"
    by (auto simp: on_memory_def through_def case_prod_beta)
  with turn_kept_run[OF r1 safe] show ?thesis by (simp add: kept_def)
qed

text \<open>Any number of agents at work on one company: each step is a step of some agent's loop.\<close>

inductive agents_at_work :: "builtin_env \<Rightarrow> 'x office_tools \<Rightarrow> bool" for benv where
  aw_start: "org_inv (get_org w) \<Longrightarrow> agents_at_work benv (snd (register_builtins benv (tl_create w)))"
| aw_step: "agents_at_work benv t \<Longrightarrow> loop_step env (la, t) = Some (la', t') \<Longrightarrow> agents_at_work benv t'"

text \<open>
  C3. Agents that work on a company's registry and services with the built-in tools, however their
  turns interleave and whatever their models answer, never break the organisation chart and never
  change the set of tools.
\<close>

theorem agents_keep_chart:
  assumes "agents_at_work benv t"
  shows "tl_defs t = BUILTIN_TOOLS benv \<and> org_inv (get_org (tl_sv t))"
  using assms
proof induction
  case (aw_start w)
  then show ?case by (simp only: registered snd_conv) (simp add: tl_create_def)
next
  case (aw_step t env la la' t')
  show ?case
  proof (cases "t' = t")
    case False
    then obtain m la1 r la2 where "handle_message env m (la1, t) = Some (r, la2, t')"
      using aw_step.hyps(2)
      by (auto simp: loop_step_def Let_def split: if_splits list.splits option.splits sum.splits prod.splits)
    then have "kept (\<lambda>g. org_inv (g, tl_log t)) t (r, t')"
      by (rule kept_message) (simp add: aw_step.IH builtin_chart_safe)
    then show ?thesis
      using aw_step.IH org_inv_fst[of _ "tl_log t" "tl_log t'"] by (simp add: kept_def get_org_def)
  qed (use aw_step.IH in simp)
qed

section \<open>What a turn does to the health of its agent\<close>

lemma tu_on_health [simp]:
  "tu_health (snd (tu_on f u)) = tu_health u" "tu_calls (snd (tu_on f u)) = tu_calls u"
  "tu_stop (snd (tu_on f u)) = tu_stop u" "tu_chunks (snd (tu_on f u)) = tu_chunks u"
  by (simp_all add: tu_on_def case_prod_beta)

lemma remember_health [simp]:
  "tu_health (snd (remember_item env i who c meta u)) = tu_health u"
  "tu_calls (snd (remember_item env i who c meta u)) = tu_calls u"
  by (simp_all add: remember_item_def)

lemma log_health [simp]:
  "tu_health (snd (turn_log k p actor corr u)) = tu_health u"
  "tu_calls (snd (turn_log k p actor corr u)) = tu_calls u"
  by (simp_all add: turn_log_def)

lemma andthen_health:
  "(\<And>a v. m = (Inr a, v) \<Longrightarrow> h (snd (f a v)) = h v) \<Longrightarrow> h (snd (andthen m f)) = h (snd m)"
  by (cases m; cases "fst m") auto

lemma tu_on_submitted [simp]: "tu_submitted (snd (tu_on f u)) = tu_submitted u"
  by (simp add: tu_on_def case_prod_beta)

lemma remember_submitted [simp]: "tu_submitted (snd (remember_item env i who c meta u)) = tu_submitted u"
  by (simp add: remember_item_def)

lemma log_submitted [simp]: "tu_submitted (snd (turn_log k p actor corr u)) = tu_submitted u"
  by (simp add: turn_log_def)

lemma opening_health:
  "tu_health (snd (turn_opening env a msg u)) = tu_health u"
  "tu_calls (snd (turn_opening env a msg u)) = tu_calls u"
  "tu_submitted (snd (turn_opening env a msg u)) = tu_submitted u"
  by (simp_all add: turn_opening_def andthen_health[where h = tu_health] andthen_health[where h = tu_calls]
      andthen_health[where h = tu_submitted] Let_def split: sum.splits)

lemma submit_health [simp]:
  "tu_health (snd (submit_result env sb u)) = tu_health u" "tu_calls (snd (submit_result env sb u)) = tu_calls u"
  by (simp_all add: submit_result_def split: option.splits)

lemma after_health [simp]:
  "tu_health (snd (after_call env a i n r u)) = tu_health u" "tu_calls (snd (after_call env a i n r u)) = tu_calls u"
  by (simp_all add: after_call_def Let_def andthen_health[where h = tu_health] andthen_health[where h = tu_calls])

text \<open>A tracker that differs by counted errors only.\<close>

definition only_errors :: "health_tracker \<Rightarrow> health_tracker \<Rightarrow> bool" where
  "only_errors h h' \<longleftrightarrow>
     h'\<lparr>ht_consecutive_errors := 0\<rparr> = h\<lparr>ht_consecutive_errors := 0\<rparr> \<and> ht_consecutive_errors h \<le> ht_consecutive_errors h'"

lemma only_errors_refl [simp]: "only_errors h h"
  by (simp add: only_errors_def)

lemma only_errors_trans: "only_errors h1 h2 \<Longrightarrow> only_errors h2 h3 \<Longrightarrow> only_errors h1 h3"
  by (auto simp: only_errors_def)

lemma only_errors_record [simp]: "only_errors h (record_error h)"
  by (simp add: only_errors_def record_error_def)

lemma event_errors: "only_errors (tu_health u) (tu_health (snd (handle_event env a msg ev u)))"
  by (cases ev) (auto simp: handle_tool_def Let_def split: prod.splits sum.splits)

lemma loop_errors:
  "stream_loop env a msg fuel k u = Some (r, v) \<Longrightarrow> only_errors (tu_health u) (tu_health v)"
proof (induction fuel arbitrary: k u)
  case (Suc fuel)
  show ?case
  proof (cases "tn_next env k (tu_submitted u)")
    case (LNext ev)
    obtain r1 u1 where ev: "handle_event env a msg ev u = (r1, u1)" by (meson surj_pair)
    with event_errors[of u env a msg ev] have e: "only_errors (tu_health u) (tu_health u1)" by simp
    show ?thesis
      using Suc.prems LNext ev e Suc.IH[of "Suc k" u1]
      by (cases r1) (auto intro: only_errors_trans)
  qed (use Suc.prems in auto)
qed simp

lemma note_health [simp]: "tu_health (snd (note_truncated env a msg u)) = tu_health u"
  "tu_calls (snd (note_truncated env a msg u)) = tu_calls u"
  by (simp_all add: note_truncated_def andthen_health[where h = tu_health] andthen_health[where h = tu_calls])

lemma ack_health [simp]: "tu_health (auto_ack env a msg full u) = tu_health u"
  "tu_calls (auto_ack env a msg full u) = tu_calls u" "tu_stop (auto_ack env a msg full u) = tu_stop u"
  by (simp_all add: auto_ack_def)

text \<open>Two events end a turn that returns.\<close>

lemma turn_log_adds:
  assumes "turn_log k p actor corr u = (Inr e, v)"
  shows "es_events (tl_log (tu_tools v)) = es_events (tl_log (tu_tools u)) @ [e] \<and> ev_kind e = k \<and>
    ev_actor_agent_id e = actor \<and> ev_correlation_id e = corr"
  using assms
  by (auto simp: turn_log_def tu_on_def tl_on_def through_def put_events_def es_append_def Let_def es_broadcast_def
      split: prod.splits sum.splits if_splits)

lemma close_effect:
  assumes "close_turn env a msg full u = (Inr out, v)"
  shows "(\<exists>e1 e2. es_events (tl_log (tu_tools v)) = es_events (tl_log (tu_tools u)) @ [e1, e2] \<and>
      ev_kind e1 = AGENT_TURN_COMPLETED \<and> ev_kind e2 = AGENT_HEARTBEAT \<and>
      ev_actor_agent_id e1 = Some (ag_id a) \<and> ev_actor_agent_id e2 = Some (ag_id a) \<and>
      ev_correlation_id e1 = im_corr msg) \<and>
    ht_consecutive_errors (tu_health v) = 0 \<and>
    ht_total_turns (tu_health v) = ht_total_turns (tu_health u) + 1 \<and>
    ht_last_heartbeat (tu_health v) = tn_now env \<and>
    to_text out = full \<and> to_tool_invocations out = tu_calls u \<and>
    (to_task_done out, to_summary out) = detect_task_done full"
proof -
  define u1 where "u1 = u\<lparr>tu_health := reset_error_streak
      (record_turn (fl (tn_ended env - tn_started env)) (tn_now env) (tu_health u))\<rparr>"
  obtain e1 u2 where s1: "turn_log AGENT_TURN_COMPLETED
         [(''agent_id'', JStr (ag_id a)), (''task_done'', JBool (fst (detect_task_done full))),
          (''duration_seconds'', JFloat (fl (tn_ended env - tn_started env))), (''tool_invocations'', JInt (int (tu_calls u)))]
         (Some (ag_id a)) (im_corr msg) u1 = (Inr e1, u2)"
    using assms by (auto simp: close_turn_def Let_def u1_def elim: andthen_run)
  obtain e2 where s2: "turn_log AGENT_HEARTBEAT [(''agent_id'', JStr (ag_id a)), (''state'', JStr ''idle'')]
         (Some (ag_id a)) None u2 = (Inr e2, v)"
    using assms s1 by (auto simp: close_turn_def Let_def u1_def elim: andthen_run)
  have out: "to_text out = full" "to_tool_invocations out = tu_calls u"
    "(to_task_done out, to_summary out) = detect_task_done full"
    using assms s1 s2 by (auto simp: close_turn_def Let_def u1_def)
  have h: "tu_health v = tu_health u1"
    using log_health(1)[of AGENT_TURN_COMPLETED _ "Some (ag_id a)" "im_corr msg" u1]
      log_health(1)[of AGENT_HEARTBEAT _ "Some (ag_id a)" None u2] s1 s2 by (metis snd_conv)
  have "tu_tools u1 = tu_tools u" by (simp add: u1_def)
  with turn_log_adds[OF s1] turn_log_adds[OF s2] out show ?thesis
    by (simp add: h) (auto simp: u1_def reset_error_streak_def record_turn_def)
qed

text \<open>Every tool call of a stream gets one result.\<close>

lemma submitted_once:
  "submit_result env sb u = (Inr x, v) \<Longrightarrow> v = u\<lparr>tu_submitted := tu_submitted u @ [sb]\<rparr>"
  by (auto simp: submit_result_def split: option.splits)

lemma after_submits:
  fixes u :: "'x turn"
  assumes run: "after_call env a i n r u = (Inr x, v)"
  shows "\<exists>sb. tu_submitted v = tu_submitted u @ [sb] \<and> sb_tool_use_id sb = i"
proof -
  define rej where "rej = rejection_of (es_float_repr (tl_log (tu_tools u))) n r"
  define sb where "sb = \<lparr>sb_tool_use_id = i, sb_ok = (tr_ok r \<and> rej = None), sb_output = result_payload r rej\<rparr>"
  define rest where "rest = (\<lambda>(_ :: unit) (u1 :: 'x turn). andthen (remember_item env (ag_id a) ''tool''
      (n @ '': ok='' @ bool_str (tr_ok r \<and> rej = None)) [(''tool'', JStr n)] u1)
      (\<lambda>_ u2. if truthy rej then remember_item env (ag_id a) ''system'' (rejection_note n (the rej))
                [(''tool'', JStr n), (''rejection'', JStr (the rej))] u2 else (Inr (), u2)))"
  have eq: "after_call env a i n r u = andthen (submit_result env sb u) rest"
    by (simp only: after_call_def Let_def rej_def sb_def rest_def)
  have keep: "tu_submitted (snd (rest y u1)) = tu_submitted u1" for y u1
    by (simp add: rest_def andthen_health[where h = tu_submitted])
  from run[unfolded eq] obtain y u1 where s1: "submit_result env sb u = (Inr y, u1)" and s2: "rest y u1 = (Inr x, v)"
    by (rule andthen_run)
  have "tu_submitted v = tu_submitted u1" using keep[of y u1] s2 by simp
  with submitted_once[OF s1] show ?thesis by (auto simp: sb_def)
qed

lemma tool_submits:
  assumes "handle_tool env a msg i n inp u = (Inr x, v)"
  shows "tu_calls v = Suc (tu_calls u) \<and> (\<exists>sb. tu_submitted v = tu_submitted u @ [sb] \<and> sb_tool_use_id sb = i)"
proof -
  obtain r t where run: "tl_invoke (tn_tool_env env (Suc (tu_calls u))) (ag_id a) n inp
      (Some (tool_correlation_id (im_corr msg) i (Suc (tu_calls u)))) (tu_tools u) = (r, t)" by (meson surj_pair)
  show ?thesis
  proof (cases r)
    case (Inl e)
    let ?u1 = "u\<lparr>tu_tools := t, tu_calls := Suc (tu_calls u), tu_health := record_error (tu_health u)\<rparr>"
    have s: "submit_result env \<lparr>sb_tool_use_id = i, sb_ok = False, sb_output = [(''error'', JStr (exn_text e))]\<rparr> ?u1 = (Inr x, v)"
      using assms run Inl by (simp add: handle_tool_def Let_def)
    from submitted_once[OF s] show ?thesis by simp
  next
    case (Inr res)
    let ?u1 = "u\<lparr>tu_tools := t, tu_calls := Suc (tu_calls u), tu_replied := (tu_replied u \<or> replies_to msg n inp res)\<rparr>"
    have s: "after_call env a i n res ?u1 = (Inr x, v)"
      using assms run Inr by (simp add: handle_tool_def Let_def)
    from after_submits[OF s] after_health(2)[of env a i n res ?u1] s show ?thesis by simp
  qed
qed

lemma loop_submits:
  "stream_loop env a msg fuel k u = Some (Inr x, v) \<Longrightarrow>
     length (tu_submitted v) + tu_calls u = length (tu_submitted u) + tu_calls v"
proof (induction fuel arbitrary: k u)
  case (Suc fuel)
  show ?case
  proof (cases "tn_next env k (tu_submitted u)")
    case (LNext ev)
    obtain r u1 where ev: "handle_event env a msg ev u = (r, u1)" by (meson surj_pair)
    then obtain y where r: "r = Inr y" and go: "stream_loop env a msg fuel (Suc k) u1 = Some (Inr x, v)"
      using Suc.prems LNext by (cases r) auto
    have "length (tu_submitted u1) + tu_calls u = length (tu_submitted u) + tu_calls u1"
      using ev r by (cases ev) (auto dest: tool_submits)
    with Suc.IH[OF go] show ?thesis by simp
  qed (use Suc.prems in auto)
qed simp

lemma finish_submitted:
  assumes "finish_turn env a msg u = (Inr out, v)"
  shows "tu_submitted v = tu_submitted u"
proof -
  have a: "tu_submitted (snd (andthen m f)) = tu_submitted (snd m)"
    if "\<And>a v. tu_submitted (snd (f a v)) = tu_submitted v" for m :: "('b, 'a turn) outcome" and f :: "'b \<Rightarrow> 'a turn \<Rightarrow> ('c, 'a turn) outcome"
    using that by (cases m; cases "fst m") auto
  have l: "tu_submitted (snd (turn_log k p actor corr w)) = tu_submitted w" for k p actor corr and w :: "'a turn"
    by (simp add: turn_log_def)
  have n: "tu_submitted (snd (note_truncated env a msg w)) = tu_submitted w" for w :: "'a turn"
    by (simp add: note_truncated_def a l)
  have k: "tu_submitted (auto_ack env a msg full w) = tu_submitted w" for full and w :: "'a turn"
    by (simp add: auto_ack_def)
  have c: "tu_submitted (snd (close_turn env a msg full w)) = tu_submitted w" for full and w :: "'a turn"
    by (simp add: close_turn_def Let_def a l)
  have "tu_submitted (snd (finish_turn env a msg u)) = tu_submitted u"
    unfolding finish_turn_def Let_def by (subst a, subst a, simp add: c k, simp add: n, simp add: a)
  with assms show ?thesis by simp
qed

text \<open>
  C7. A turn that returns ends with its completion and a heartbeat as the last two events of the log,
  clears the agent's error streak whatever its tool calls raised, counts one turn, and has submitted
  exactly one result for every tool call of the stream.
\<close>

theorem turn_effect:
  assumes "run_turn env fuel a msg t h = Some (Inr out, u)"
  shows "(\<exists>pre e1 e2. es_events (tl_log (tu_tools u)) = pre @ [e1, e2] \<and>
      ev_kind e1 = AGENT_TURN_COMPLETED \<and> ev_kind e2 = AGENT_HEARTBEAT \<and>
      ev_actor_agent_id e1 = Some (ag_id a) \<and> ev_actor_agent_id e2 = Some (ag_id a) \<and>
      ev_correlation_id e1 = im_corr msg) \<and>
    ht_consecutive_errors (tu_health u) = 0 \<and>
    ht_total_turns (tu_health u) = ht_total_turns h + 1 \<and>
    ht_last_heartbeat (tu_health u) = tn_now env \<and>
    length (tu_submitted u) = to_tool_invocations out \<and>
    (to_task_done out, to_summary out) = detect_task_done (to_text out)"
proof -
  obtain u1 v where o1: "andthen (turn_opening env a msg (start_turn t h)) (open_stream env a) = (Inr (), u1)"
    and s: "stream_loop env a msg fuel 0 u1 = Some (Inr (), v)"
    and fin: "finish_turn env a msg v = (Inr out, u)"
    using assms by (auto simp: run_turn_def split: prod.splits sum.splits option.splits)
  let ?full = "concat (tu_chunks v)"
  obtain system u0 where a1: "turn_opening env a msg (start_turn t h) = (Inr system, u0)"
    and a2: "open_stream env a system u0 = (Inr (), u1)"
    using o1 by (rule andthen_run)
  have "u1 = u0" using a2 by (auto simp: open_stream_def Let_def split: if_splits sum.splits)
  then have h1: "tu_health u1 = h" and c1: "tu_calls u1 = 0" "tu_submitted u1 = []"
    using opening_health[of env a msg "start_turn t h"] a1 by (simp_all add: start_turn_def)
  obtain x1 x2 v1 v2 where f1: "(if ?full = [] then (Inr (), v)
               else andthen (remember_item env (ag_id a) ''agent'' ?full [] v)
                      (\<lambda>_ u1. (Inr (), u1\<lparr>tu_health := record_response ?full (tu_health u1)\<rparr>))) = (Inr x1, v1)"
    and f2: "note_truncated env a msg v1 = (Inr x2, v2)"
    and f3: "close_turn env a msg ?full (auto_ack env a msg ?full v2) = (Inr out, u)"
    using fin unfolding finish_turn_def Let_def by (elim andthen_run) blast
  have rem: "tu_health w = tu_health v \<and> tu_calls w = tu_calls v"
    if "remember_item env (ag_id a) ''agent'' ?full [] v = (y, w)" for y w
    using remember_health[of env "ag_id a" "''agent''" ?full "[]" v] that by simp
  have "ht_total_turns (tu_health v1) = ht_total_turns (tu_health v)"
    and cv1: "tu_calls v1 = tu_calls v"
    using f1 by (auto simp: record_response_def Let_def dest!: rem split: if_splits elim!: andthen_run)
  moreover have "ht_total_turns (tu_health v) = ht_total_turns h"
    using loop_errors[OF s] h1 by (simp add: only_errors_def) (metis health_tracker.select_convs(4) health_tracker.surjective health_tracker.update_convs(2))
  moreover have "tu_health v2 = tu_health v1" "tu_calls v2 = tu_calls v1"
    using note_health[of env a msg v1] f2 by simp_all
  moreover have "tu_submitted u = tu_submitted v" by (rule finish_submitted[OF fin])
  ultimately show ?thesis
    using close_effect[OF f3] loop_submits[OF s] c1 cv1 by auto
qed


section \<open>Endings\<close>

text \<open>
  C17. A client that fails whenever a turn is opened ends the agent's loop at the first message: the task
  is over, what is delivered afterwards stays in the inbox, nothing takes it up again, and
  stopping the agent raises the failure once more, unless it is a timeout.
\<close>

theorem llm_outage_ends_loop:
  assumes down: "\<And>system history schemas keys n. n \<in> {1, 2, 3} \<Longrightarrow> tn_open (ae_turn env) system history schemas keys n \<noteq> None"
    and live: "la_task la = Task_Running" "la_in_get la" "la_inbox la = Some m # rest" "ae_accepting env"
  shows "\<exists>e la' t'. loop_step env (la, t) = Some (la', t') \<and> la_task la' = Task_Ended (Some e) \<and> la_inbox la' = rest \<and>
    fst (la_stop_done (la_stop_request la')) = (if is_timeout e then Inr () else Inl e) \<and>
    (\<forall>env2 m2 t2. loop_step env2 (la_deliver m2 la', t2) = Some (la_deliver m2 la', t2))"
proof -
  have "[1..<2 + 2] = [1, 2, 3::nat]" by (simp add: upt_rec)
  then have retry: "\<exists>e. run_llm_with_retry (tn_open (ae_turn env) s h sc k) = Inl e" for s h sc k
    using down[of 1 s h sc k] down[of 2 s h sc k] down[of 3 s h sc k]
    unfolding run_llm_with_retry_def LLM_RETRY_ATTEMPTS_def by simp
  have open_raises: "\<exists>e u'. open_stream (ae_turn env) a s u = (Inl e, u')" for a s and u :: "'a turn"
    using retry[of s "working_window (ag_id a) (Some 20) (of_memory (tl_sv (tu_tools u)))"
        "claude_sdk_schema (\<lambda>d. tn_schema_of (ae_turn env) (td_name d)) (tu_tools u) (ag_role a)"
        "[''persona'', role_value (ag_role a), str_or (ag_role_title a) []]"]
    by (auto simp: open_stream_def Let_def)
  have raises: "\<exists>e u'. andthen (turn_opening (ae_turn env) a m u) (open_stream (ae_turn env) a) = (Inl e, u')"
    for a and u :: "'a turn"
    using open_raises by (cases "turn_opening (ae_turn env) a m u"; cases "fst (turn_opening (ae_turn env) a m u)") auto
  have turn: "\<exists>e u'. run_turn (ae_turn env) f a m t h = Some (Inl e, u')" for f a h
    using raises[of a "start_turn t h"] by (auto simp: run_turn_def)
  have "\<exists>e la2 t2. handle_message env m (l, t) = Some (Inl e, la2, t2) \<and> la_inbox la2 = la_inbox l" for l
  proof (cases "org_get (sv_org (tl_sv t)) (la_id l)")
    case (Inr a)
    obtain e u' where "run_turn (ae_turn env) (ae_fuel env) a m t (la_health l) = Some (Inl e, u')"
      using turn by blast
    then show ?thesis using Inr by (simp add: handle_message_def Let_def split: prod.splits)
  qed (simp add: handle_message_def)
  then obtain e la2 t2 where "handle_message env m (la\<lparr>la_inbox := rest, la_in_get := False\<rparr>, t) = Some (Inl e, la2, t2)"
    "la_inbox la2 = rest" by fastforce
  then show ?thesis using live by (auto simp: loop_step_def la_deliver_def la_stop_done_def la_stop_request_def)
qed

text \<open>An exception of the stream is counted by the turn and once more by the agent.\<close>

theorem stream_failure_counts_twice:
  assumes "org_get (sv_org (tl_sv t)) (la_id la) = Inr a"
    and "andthen (turn_opening (ae_turn env) a msg (start_turn t (la_health la))) (open_stream (ae_turn env) a) = (Inr (), u)"
    and "tn_next (ae_turn env) 0 [] = LRaise (LLMFailure why)" and "ae_fuel env = Suc f" and "tu_submitted u = []"
  shows "\<exists>out la' t'. handle_message env msg (la, t) = Some (out, la', t') \<and>
    ht_consecutive_errors (la_health la') = ht_consecutive_errors (tu_health u) + 2"
  using assms
  by (simp add: handle_message_def run_turn_def stream_error_def is_turn_failure_def record_error_def Let_def
      split: prod.splits)

text \<open>
  A stop that finds the agent between two messages leaves its sentinel in the inbox: the loop ends by
  the stop event. When the agent is started again, the loop takes the old sentinel and ends at once.
\<close>

theorem stale_sentinel_ends_restart:
  assumes live: "la_task la = Task_Running" "\<not> la_in_get la" "la_inbox la = []"
    and ended: "loop_step env1 (la_stop_request la, t) = Some (la1, t1)"
    and again: "la_start tenv rec (snd (la_stop_done la1)) = (Inr (), la2)"
  shows "\<exists>la3. loop_step env2 (la2, t2) = Some (la3, t2) \<and>
    (\<exists>la4. loop_step env3 (la3, t3) = Some (la4, t3) \<and> la_task la4 = Task_Ended None)"
proof -
  have la1: "la1 = la\<lparr>la_stop := True, la_inbox := [None], la_task := Task_Ended None\<rparr>"
    using live ended by (auto simp: loop_step_def la_stop_request_def Let_def)
  then have "la_task la2 = Task_Running \<and> \<not> la_in_get la2 \<and> \<not> la_stop la2 \<and> la_inbox la2 = [None]"
    using again by (auto simp: la_start_def la_stop_done_def Let_def split: sum.splits)
  then show ?thesis by (simp add: loop_step_def)
qed

lemma loop_returns:
  fixes n k d :: nat and u :: "'x turn"
  assumes stops: "\<And>k subs. n \<le> k \<Longrightarrow> tn_next env k subs = LEnd"
  shows "n \<le> k + d \<Longrightarrow> stream_loop env a msg (Suc d) k u \<noteq> None"
proof (induction d arbitrary: k u)
  case 0
  then show ?case by (simp add: stops)
next
  case (Suc d)
  have "n \<le> Suc k + d" using Suc.prems by simp
  then have "stream_loop env a msg (Suc d) (Suc k) v \<noteq> None" for v :: "'x turn"
    by (rule Suc.IH)
  then show ?case
    by (subst stream_loop.simps(2)) (auto simp del: stream_loop.simps split: llm_step.splits prod.splits sum.splits)
qed


section \<open>A turn, run\<close>

definition demo_turn :: turn_env where
  "demo_turn =
     \<lparr>tn_now = 5, tn_started = 0, tn_ended = 0, tn_mem_now = 5, tn_company = ''acme'', tn_mission = ''m'',
      tn_personas = (\<lambda>_. Some ''{{ role }}''), tn_schema_of = (\<lambda>_. JNull), tn_score_text = (\<lambda>_. []),
      tn_open = (\<lambda>_ _ _ _ _. None), tn_open_timeout = False,
      tn_next = (\<lambda>k _. if k = 0 then LNext (TE_Text ''ok'') else LEnd), tn_submit = (\<lambda>_. None),
      tn_tool_env = (\<lambda>_. board_env)\<rparr>"

definition board_request :: incoming_message where
  "board_request = \<lparr>im_content = ''go'', im_kind = USER_REQUEST, im_from = None, im_corr = Some ''r1''\<rparr>"

definition calm :: "'x turn \<Rightarrow> bool" where
  "calm u \<longleftrightarrow>
     roomy (tl_log (tu_tools u)) \<and>
     (let m = of_memory (tl_sv (tu_tools u)) in
      me_rows m = [] \<and> me_max_content_bytes m = 100 \<and> me_dim m = 1 \<and> me_embed m = (\<lambda>_. [1]))"

lemma calm_remember:
  assumes "calm u" and "utf8_len c \<le> 100"
  shows "\<exists>v. remember_item env i who c meta u = (Inr (), v) \<and> calm v"
  using assms
  by (simp add: calm_def remember_item_def tu_on_def tl_on_def on_memory_def through_def append_working_def guard_size_def Let_def)

lemma calm_log:
  assumes "calm u" and "model_for k = Some sch"
    and "valid_payload sch p \<and> utf8_len (json_dumps (\<lambda>_. ''0.5'') (JObj (payload_dump sch p))) \<le> 1000"
  shows "\<exists>e v. turn_log k p a c u = (Inr e, v) \<and> calm v"
proof -
  obtain e es where "es_append (Inl k) p a c (tl_log (tu_tools u)) = (Inr e, es)" "roomy es"
    using roomy_append[OF _ assms(2,3), of "tl_log (tu_tools u)" a c] assms(1) by (auto simp: calm_def)
  then show ?thesis
    using assms(1) by (simp add: calm_def turn_log_def tu_on_def tl_on_def through_def put_events_def Let_def)
qed

lemma delivered_fits: "valid_payload MessageDeliveredPayload [(''message_id'', JStr ''r1''), (''to_agent'', JStr ''ceo'')] \<and>
   utf8_len (json_dumps (\<lambda>_. ''0.5'') (JObj (payload_dump MessageDeliveredPayload
     [(''message_id'', JStr ''r1''), (''to_agent'', JStr ''ceo'')]))) \<le> 1000"
  by code_simp

definition completed_payload :: payload where
  "completed_payload = [(''agent_id'', JStr ''ceo''), (''task_done'', JBool False), (''duration_seconds'', JFloat 0),
     (''tool_invocations'', JInt 0)]"

lemma completed_fits: "valid_payload AgentTurnCompletedPayload completed_payload \<and>
   utf8_len (json_dumps (\<lambda>_. ''0.5'') (JObj (payload_dump AgentTurnCompletedPayload completed_payload))) \<le> 1000"
  by code_simp

lemma idle_fits: "valid_payload AgentHeartbeatPayload [(''agent_id'', JStr ''ceo''), (''state'', JStr ''idle'')] \<and>
   utf8_len (json_dumps (\<lambda>_. ''0.5'') (JObj (payload_dump AgentHeartbeatPayload
     [(''agent_id'', JStr ''ceo''), (''state'', JStr ''idle'')]))) \<le> 1000"
  by code_simp

lemma demo_persona: "persona_load (tn_personas demo_turn) r ref (persona_ctx c m a rs ns) = Inr (role_value (ag_role a))"
  by (simp add: demo_turn_def persona_load_def persona_ctx_def render.simps template_var_def name_char_def name_start_def
      is_space_def)

lemma demo_turn_runs:
  assumes calm0: "calm (start_turn t (ht_create 1))"
  shows "\<exists>out v. run_turn demo_turn 2 (staff_member ''ceo'' CEO None) board_request t (ht_create 1) = Some (Inr out, v)"
proof -
  let ?a = "staff_member ''ceo'' CEO None"
  have a: "ag_id ?a = ''ceo''" by (simp add: staff_member_def demo_agent_def)
  from calm_remember[OF calm0, of "im_content board_request"]
  obtain u1 where s1: "remember_item demo_turn ''ceo'' ''user'' (im_content board_request)
        [(''kind'', JStr (message_kind_value (im_kind board_request))), (''from_agent'', JStr (str_or (im_from board_request) [])),
         (''correlation_id'', JStr (str_or (im_corr board_request) []))] (start_turn t (ht_create 1)) = (Inr (), u1)"
    and c1: "calm u1" by (fastforce simp: board_request_def utf8_len_def)
  obtain e2 u2 where s2: "turn_log MESSAGE_DELIVERED [(''message_id'', JStr ''r1''), (''to_agent'', JStr ''ceo'')] None (Some ''r1'') u1 = (Inr e2, u2)"
    and c2: "calm u2" using calm_log[OF c1 _ delivered_fits, of MESSAGE_DELIVERED None "Some ''r1''"] by auto
  have rec: "recall (sv_org (tl_sv (tu_tools u2))) ''ceo'' q 5 None None (of_memory (tl_sv (tu_tools u2))) = Inr []" for q
    using c2 by (simp add: recall_def calm_def Let_def guard_dim_def joined_def List.map_filter_def py_take_def)
  obtain system where o1: "turn_opening demo_turn ?a board_request (start_turn t (ht_create 1)) = (Inr system, u2)"
    using s1 s2 rec by (simp add: turn_opening_def a demo_persona Let_def) (simp add: board_request_def str_or_def demo_persona)
  have o2: "open_stream demo_turn ?a system u2 = (Inr (), u2)"
    by (simp add: open_stream_def demo_turn_def Let_def run_llm_with_retry_def upt_rec LLM_RETRY_ATTEMPTS_def)
  let ?u3 = "u2\<lparr>tu_chunks := tu_chunks u2 @ [''ok'']\<rparr>"
  have o3: "stream_loop demo_turn ?a board_request 2 0 u2 = Some (Inr (), ?u3)"
    by (simp add: demo_turn_def numeral_2_eq_2)
  have "calm ?u3" using c2 by (simp add: calm_def)
  from calm_remember[OF this, of "''ok''"]
  obtain u4 where s4: "remember_item demo_turn ''ceo'' ''agent'' ''ok'' [] ?u3 = (Inr (), u4)" and c4: "calm u4"
    by (fastforce simp: utf8_len_def)
  define h where "h = record_response ''ok'' (tu_health u4)"
  have "u1 = snd (remember_item demo_turn ''ceo'' ''user'' (im_content board_request)
        [(''kind'', JStr (message_kind_value (im_kind board_request))), (''from_agent'', JStr (str_or (im_from board_request) [])),
         (''correlation_id'', JStr (str_or (im_corr board_request) []))] (start_turn t (ht_create 1)))"
    "u2 = snd (turn_log MESSAGE_DELIVERED [(''message_id'', JStr ''r1''), (''to_agent'', JStr ''ceo'')] None (Some ''r1'') u1)"
    "u4 = snd (remember_item demo_turn ''ceo'' ''agent'' ''ok'' [] ?u3)"
    using s1 s2 s4 by simp_all
  then have u2: "tu_chunks u2 = []" "tu_calls u4 = 0" "tu_stop u4 = None"
    by (simp_all only: remember_item_def turn_log_def tu_on_health) (simp_all add: start_turn_def)
  let ?u5 = "u4\<lparr>tu_health := h\<rparr>"
  have c5: "calm (u4\<lparr>tu_health := x\<rparr>)" for x using c4 by (simp add: calm_def)
  obtain e6 u6 where s6: "turn_log AGENT_TURN_COMPLETED completed_payload (Some ''ceo'') (Some ''r1'')
     (u4\<lparr>tu_health := reset_error_streak (record_turn 0 5 h)\<rparr>) = (Inr e6, u6)" and c6: "calm u6"
    using calm_log[OF c5 _ completed_fits, of AGENT_TURN_COMPLETED "Some ''ceo''" "Some ''r1''" "reset_error_streak (record_turn 0 5 h)"] by auto
  obtain e7 u7 where s7: "turn_log AGENT_HEARTBEAT [(''agent_id'', JStr ''ceo''), (''state'', JStr ''idle'')] (Some ''ceo'') None u6 = (Inr e7, u7)"
    using calm_log[OF c6 _ idle_fits, of AGENT_HEARTBEAT "Some ''ceo''" None] by auto
  have full: "concat (tu_chunks ?u3) = ''ok''" by (simp add: u2)
  have task: "detect_task_done ''ok'' = (False, None)" by code_simp
  have z: "fl 0 = 0" by code_simp
  have fin: "\<exists>out. finish_turn demo_turn ?a board_request ?u3 = (Inr out, u7)"
    using s4 s6 s7
    by (simp add: finish_turn_def full a note_truncated_def u2 auto_ack_def truthy_def board_request_def close_turn_def Let_def
        task completed_payload_def h_def demo_turn_def z)
  then show ?thesis
    by (simp add: run_turn_def o1 o2 o3) (metis o3)
qed

definition crew_tools :: "unit office_tools" where
  "crew_tools = snd (register_builtins demo_builtin (tl_create (quiet_office demo_store)))"

lemma crew_tools_eq: "crew_tools = (tl_create (quiet_office demo_store))\<lparr>tl_defs := BUILTIN_TOOLS demo_builtin\<rparr>"
  by (simp only: crew_tools_def registered snd_conv)

lemma crew_tools_calm: "calm (start_turn crew_tools h)"
  by (simp add: calm_def start_turn_def crew_tools_eq tl_create_def quiet_office_def roomy_def demo_store_def demo_memory_def)

lemma turn_effect_witness:
  "\<exists>out u. run_turn demo_turn 2 (staff_member ''ceo'' CEO None) board_request crew_tools (ht_create 1) = Some (Inr out, u) \<and>
    ht_total_turns (tu_health u) = ht_total_turns (ht_create 1) + 1 \<and> length (tu_submitted u) = to_tool_invocations out"
proof -
  obtain out u where run: "run_turn demo_turn 2 (staff_member ''ceo'' CEO None) board_request crew_tools (ht_create 1) = Some (Inr out, u)"
    using demo_turn_runs[OF crew_tools_calm] by blast
  from run turn_effect[OF run] show ?thesis by blast
qed

definition ceo_live :: live_agent where
  "ceo_live =
     \<lparr>la_id = ''ceo'', la_status = AS_IDLE, la_inbox = [Some board_request], la_stop = False, la_task = Task_Running,
      la_in_get = True, la_health = ht_create 1\<rparr>"

definition demo_agent_env :: agent_env where
  "demo_agent_env =
     \<lparr>ae_turn = demo_turn, ae_fuel = 2, ae_accepting = True, ae_completion = (\<lambda>_. Inr ''s''),
      ae_episode_id = ''m1'', ae_episode_now = 5\<rparr>"

lemma demo_step: "\<exists>la' t'. loop_step demo_agent_env (ceo_live, crew_tools) = Some (la', t')"
proof -
  obtain out u where run: "run_turn demo_turn 2 (staff_member ''ceo'' CEO None) board_request crew_tools (ht_create 1) = Some (Inr out, u)"
    using demo_turn_runs[OF crew_tools_calm] by blast
  have "org_get (sv_org (tl_sv crew_tools)) ''ceo'' = Inr (staff_member ''ceo'' CEO None)"
    by (simp add: crew_tools_eq tl_create_def quiet_office_def chart_of_def org_get_def staff_member_def demo_agent_def)
  with run show ?thesis
    by (simp add: loop_step_def ceo_live_def demo_agent_env_def handle_message_def Let_def split: prod.splits sum.splits)
qed

lemma agents_keep_chart_witness:
  "\<exists>la' t'. loop_step demo_agent_env (ceo_live, crew_tools) = Some (la', t') \<and> org_inv (get_org (tl_sv t'))"
proof -
  obtain la' t' where s: "loop_step demo_agent_env (ceo_live, crew_tools) = Some (la', t')"
    using demo_step by blast
  from s agents_keep_chart[OF aw_step[OF aw_start[OF quiet_office_inv] s[unfolded crew_tools_def]]] show ?thesis
    by blast
qed

lemma llm_outage_ends_loop_witness:
  "\<exists>la' t'. loop_step (demo_agent_env\<lparr>ae_turn := demo_turn\<lparr>tn_open := \<lambda>_ _ _ _ _. Some (LLMFailure ''down'')\<rparr>\<rparr>)
       (ceo_live, crew_tools) = Some (la', t') \<and> la_inbox la' = [] \<and> la_task la' \<noteq> Task_Running"
  using llm_outage_ends_loop[of "demo_agent_env\<lparr>ae_turn := demo_turn\<lparr>tn_open := \<lambda>_ _ _ _ _. Some (LLMFailure ''down'')\<rparr>\<rparr>"
      ceo_live board_request "[]" crew_tools]
  by (auto simp: demo_agent_env_def ceo_live_def)


end
