(* ===== verification/Efficiency_Model.thy ===== *)
theory Efficiency_Model
  imports Security_Model
begin

text \<open>
  \<^verbatim>\<open>modules/efficiency\<close>: the six detectors, the table of findings, and the service that runs the detectors
  over a window of the event log and reconciles what they report with the open findings. The metric
  window is a separate data structure. Dashes of texts are written "-".
\<close>

section \<open>Domain types\<close>

datatype eff_severity = EFF_INFO | EFF_WARN | EFF_CRITICAL

fun eff_severity_value :: "eff_severity \<Rightarrow> string" where
  "eff_severity_value EFF_INFO = ''info''"
| "eff_severity_value EFF_WARN = ''warn''"
| "eff_severity_value EFF_CRITICAL = ''critical''"

datatype finding_status = FS_OPEN | FS_ACKNOWLEDGED | FS_CLOSED

datatype subject_type = ST_AGENT | ST_MANAGER | ST_COMPANY | ST_TOOL | ST_APPROVAL

fun subject_type_value :: "subject_type \<Rightarrow> string" where
  "subject_type_value ST_AGENT = ''agent''"
| "subject_type_value ST_MANAGER = ''manager''"
| "subject_type_value ST_COMPANY = ''company''"
| "subject_type_value ST_TOOL = ''tool''"
| "subject_type_value ST_APPROVAL = ''approval''"

record finding_candidate =
  fc_detector_code :: string
  fc_severity :: eff_severity
  fc_subject_type :: subject_type
  fc_subject_id :: "string option"
  fc_evidence :: payload
  fc_recommendation :: "string option"

record finding =
  fd_id :: string
  fd_detector_code :: string
  fd_severity :: eff_severity
  fd_subject_type :: subject_type
  fd_subject_id :: "string option"
  fd_opened_at :: int
  fd_last_seen_at :: int
  fd_closed_at :: "int option"
  fd_occurrences :: int
  fd_evidence :: payload
  fd_recommendation :: "string option"
  fd_status :: finding_status

section \<open>Configuration\<close>

record loop_tool_repeat_config =
  lt_window_seconds :: int
  lt_repeat_threshold :: int

record stall_no_event_config =
  sn_window_seconds :: int
  sn_min_prior_events :: int

record approvals_backlog_config =
  ab_min_age_seconds :: int
  ab_min_count :: int

record cost_no_output_config =
  cn_window_seconds :: int
  cn_min_spend_usd :: rat

record tool_error_storm_config =
  te_window_seconds :: int
  te_min_calls :: int
  te_error_rate :: rat

record org_manager_bottleneck_config =
  ob_min_total_pending :: int
  ob_top1_share :: rat

record efficiency_config =
  ec_loop :: loop_tool_repeat_config
  ec_stall :: stall_no_event_config
  ec_backlog :: approvals_backlog_config
  ec_cost :: cost_no_output_config
  ec_storm :: tool_error_storm_config
  ec_bottleneck :: org_manager_bottleneck_config

definition efficiency_default :: efficiency_config where
  "efficiency_default =
     \<lparr>ec_loop = \<lparr>lt_window_seconds = 300, lt_repeat_threshold = 4\<rparr>,
      ec_stall = \<lparr>sn_window_seconds = 900, sn_min_prior_events = 1\<rparr>,
      ec_backlog = \<lparr>ab_min_age_seconds = 1800, ab_min_count = 1\<rparr>,
      ec_cost = \<lparr>cn_window_seconds = 3600, cn_min_spend_usd = 5\<rparr>,
      ec_storm = \<lparr>te_window_seconds = 600, te_min_calls = 10, te_error_rate = fl (3 / 10)\<rparr>,
      ec_bottleneck = \<lparr>ob_min_total_pending = 5, ob_top1_share = fl (6 / 10)\<rparr>\<rparr>"

definition max_window_seconds :: "efficiency_config \<Rightarrow> int" where
  "max_window_seconds cfg =
     max (max (lt_window_seconds (ec_loop cfg)) (sn_window_seconds (ec_stall cfg)))
       (max (cn_window_seconds (ec_cost cfg)) (te_window_seconds (ec_storm cfg)))"

section \<open>The metric window\<close>

text \<open>The age limit in microseconds and the events in the order of arrival.\<close>

record metric_window =
  mw_max_age :: int
  mw_buf :: "event list"

definition mw_create :: "int \<Rightarrow> metric_window" where
  "mw_create max_age_seconds = \<lparr>mw_max_age = max_age_seconds * 1000000, mw_buf = []\<rparr>"

definition mw_prune :: "int \<Rightarrow> metric_window \<Rightarrow> metric_window" where
  "mw_prune now w = w\<lparr>mw_buf := dropWhile (\<lambda>e. ev_ts_real e < now - mw_max_age w) (mw_buf w)\<rparr>"

definition mw_append :: "event \<Rightarrow> metric_window \<Rightarrow> metric_window" where
  "mw_append e w = mw_prune (ev_ts_real e) (w\<lparr>mw_buf := mw_buf w @ [e]\<rparr>)"

definition mw_in_last :: "int \<Rightarrow> int \<Rightarrow> metric_window \<Rightarrow> event list" where
  "mw_in_last now secs w =
     rev (takeWhile (\<lambda>e. \<not> ev_ts_real e < now - secs * 1000000) (rev (mw_buf w)))"

definition mw_extend :: "event list \<Rightarrow> metric_window \<Rightarrow> metric_window" where
  "mw_extend es w = fold mw_append es w"

section \<open>What detectors see\<close>

text \<open>The rows of the approvals; \<open>None\<close> when their table is missing.\<close>

record detector_context =
  dc_now :: int
  dc_events :: "event list"
  dc_config :: efficiency_config
  dc_approvals :: "approval_row list option"
  dc_float_repr :: "rat \<Rightarrow> string"

type_synonym detector = "detector_context \<Rightarrow> exn + finding_candidate list"

text \<open>\<^verbatim>\<open>timedelta.total_seconds\<close> of a difference in microseconds, and \<^verbatim>\<open>int\<close> of a float.\<close>

definition total_seconds :: "int \<Rightarrow> rat" where
  "total_seconds us = fl (of_int us / 1000000)"

definition truncate_float :: "rat \<Rightarrow> int" where
  "truncate_float r = (if r < 0 then \<lceil>r\<rceil> else \<lfloor>r\<rfloor>)"

definition round_places :: "nat \<Rightarrow> rat \<Rightarrow> rat" where
  "round_places n x = fl (of_int (round_half_even (x * 10 ^ n)) / 10 ^ n)"

definition age_at :: "detector_context \<Rightarrow> event \<Rightarrow> rat" where
  "age_at ctx e = total_seconds (dc_now ctx - ev_ts_company e)"

definition grave :: char where "grave = char_of (96 :: nat)"

definition last_five :: "int list \<Rightarrow> json" where
  "last_five ids = JList (map JInt (drop (length ids - 5) ids))"

text \<open>A dict of lists that keeps the order of first insertion.\<close>

fun add_sample :: "'k \<Rightarrow> int \<Rightarrow> ('k \<times> int list) list \<Rightarrow> ('k \<times> int list) list" where
  "add_sample k i [] = [(k, [i])]"
| "add_sample k i ((j, ids) # rest) = (if j = k then (j, ids @ [i]) # rest else (j, ids) # add_sample k i rest)"

definition no_approvals :: exn where
  "no_approvals = OperationalError ''no such table: approvals''"

section \<open>Detectors\<close>

definition CODE_loop :: string where "CODE_loop = ''loop.tool_repeat''"
definition CODE_stall :: string where "CODE_stall = ''stall.no_event''"
definition CODE_backlog :: string where "CODE_backlog = ''approvals.backlog''"
definition CODE_cost :: string where "CODE_cost = ''cost.no_output''"
definition CODE_storm :: string where "CODE_storm = ''tool.error_storm''"
definition CODE_bottleneck :: string where "CODE_bottleneck = ''org.manager_bottleneck''"

lemmas code_defs = CODE_loop_def CODE_stall_def CODE_backlog_def CODE_cost_def CODE_storm_def CODE_bottleneck_def

text \<open>\<^verbatim>\<open>loop_tool_repeat.py\<close>. \<open>counts\<close> and \<open>samples\<close> grow together, so the count is the number of samples.\<close>

definition tool_of :: "detector_context \<Rightarrow> event \<Rightarrow> string" where
  "tool_of ctx e = text_at (dc_float_repr ctx) (ev_payload e) ''tool''"

definition loop_key :: "detector_context \<Rightarrow> event \<Rightarrow> (string \<times> string) option" where
  "loop_key ctx e =
     (let actor = str_or (ev_actor_agent_id e) []; tool = tool_of ctx e in
      if actor = [] \<or> tool = [] then None else Some (actor, tool))"

definition loop_samples :: "detector_context \<Rightarrow> ((string \<times> string) \<times> int list) list" where
  "loop_samples ctx =
     fold (\<lambda>e acc. case loop_key ctx e of None \<Rightarrow> acc | Some k \<Rightarrow> add_sample k (ev_id e) acc)
       (filter (\<lambda>e. ev_kind e = TOOL_CALLED \<and> age_at ctx e \<le> of_int (lt_window_seconds (ec_loop (dc_config ctx))))
         (dc_events ctx)) []"

definition loop_candidate :: "int \<Rightarrow> (string \<times> string) \<times> int list \<Rightarrow> finding_candidate" where
  "loop_candidate window s =
     (case s of ((actor, tool), ids) \<Rightarrow>
       \<lparr>fc_detector_code = CODE_loop, fc_severity = EFF_WARN, fc_subject_type = ST_AGENT, fc_subject_id = Some actor,
        fc_evidence =
          [(''tool'', JStr tool), (''count'', JInt (int (length ids))), (''window_seconds'', JInt window),
           (''sample_event_ids'', last_five ids)],
        fc_recommendation =
          Some (''Agent '' @ actor @ '' called tool '' @ [grave] @ tool @ [grave] @ '' '' @ nat_str (length ids) @
            '' times in the last '' @ int_str (window div 60) @
            '' minutes. Their manager should investigate - may be stuck in a loop.'')\<rparr>)"

definition detect_loop :: detector where
  "detect_loop ctx =
     (let cfg = ec_loop (dc_config ctx) in
      Inr (map (loop_candidate (lt_window_seconds cfg))
        (filter (\<lambda>(_, ids). lt_repeat_threshold cfg \<le> int (length ids)) (loop_samples ctx))))"

text \<open>\<^verbatim>\<open>stall_no_event.py\<close>.\<close>

fun note_last :: "string \<Rightarrow> event \<Rightarrow> (string \<times> event) list \<Rightarrow> (string \<times> event) list" where
  "note_last a e [] = [(a, e)]"
| "note_last a e ((b, p) # rest) =
     (if b = a then (if ev_ts_company e > ev_ts_company p then (b, e) else (b, p)) # rest
      else (b, p) # note_last a e rest)"

definition last_event_per_agent :: "event list \<Rightarrow> (string \<times> event) list" where
  "last_event_per_agent es =
     fold (\<lambda>e acc. let a = str_or (ev_actor_agent_id e) [] in if a = [] then acc else note_last a e acc) es []"

definition stall_candidate :: "detector_context \<Rightarrow> string \<times> event \<Rightarrow> finding_candidate" where
  "stall_candidate ctx p =
     (case p of (a, e) \<Rightarrow>
       let gap = truncate_float (age_at ctx e) in
       \<lparr>fc_detector_code = CODE_stall, fc_severity = EFF_WARN, fc_subject_type = ST_AGENT, fc_subject_id = Some a,
        fc_evidence =
          [(''last_event_id'', JInt (ev_id e)), (''last_event_kind'', JStr (kind_value (ev_kind e))),
           (''gap_seconds'', JInt gap), (''window_seconds'', JInt (sn_window_seconds (ec_stall (dc_config ctx))))],
        fc_recommendation =
          Some (''Agent '' @ a @ '' has produced no activity for the last '' @ int_str (gap div 60) @
            '' minutes. Is it being assigned tasks, or is it waiting?'')\<rparr>)"

definition detect_stall :: detector where
  "detect_stall ctx =
     Inr (map (stall_candidate ctx)
       (filter (\<lambda>(_, e). \<not> age_at ctx e < of_int (sn_window_seconds (ec_stall (dc_config ctx))))
         (last_event_per_agent (dc_events ctx))))"

text \<open>\<^verbatim>\<open>approvals_backlog.py\<close>.\<close>

definition pending_rows :: "approval_row list \<Rightarrow> approval_row list" where
  "pending_rows rows = filter (\<lambda>r. ar_status r = AP_PENDING) rows"

definition row_age :: "int \<Rightarrow> approval_row \<Rightarrow> rat" where
  "row_age now r = total_seconds (now - ar_created_at r)"

definition backlog_candidate :: "approvals_backlog_config \<Rightarrow> int \<Rightarrow> nat \<Rightarrow> approval_row list \<Rightarrow> finding_candidate" where
  "backlog_candidate cfg now pending aged =
     (let oldest = hd aged; age = truncate_float (row_age now oldest); kind = approval_kind_value (ar_kind oldest) in
      \<lparr>fc_detector_code = CODE_backlog, fc_severity = EFF_WARN, fc_subject_type = ST_COMPANY, fc_subject_id = None,
       fc_evidence =
         [(''pending_count'', JInt (int pending)), (''aged_count'', JInt (int (length aged))),
          (''oldest_request_id'', JStr (ar_request_id oldest)), (''oldest_kind'', JStr kind),
          (''oldest_age_seconds'', JInt age), (''threshold_seconds'', JInt (ab_min_age_seconds cfg))],
       fc_recommendation =
         Some (nat_str (length aged) @ '' approval(s) have been pending for more than '' @
           int_str (ab_min_age_seconds cfg div 60) @ '' minutes. Oldest: '' @ ar_request_id oldest @ '' ('' @ kind @
           '', ~'' @ int_str (age div 60) @ '' min).'')\<rparr>)"

definition detect_backlog :: detector where
  "detect_backlog ctx =
     (case dc_approvals ctx of
        None \<Rightarrow> Inl no_approvals
      | Some rows \<Rightarrow>
          let cfg = ec_backlog (dc_config ctx); pending = pending_rows rows;
              aged = filter (\<lambda>r. of_int (ab_min_age_seconds cfg) \<le> row_age (dc_now ctx) r) pending in
          if int (length pending) < ab_min_count cfg \<or> aged = [] then Inr []
          else Inr [backlog_candidate cfg (dc_now ctx) (length pending)
                 (sort_key (\<lambda>r. - row_age (dc_now ctx) r) aged)])"

text \<open>\<^verbatim>\<open>cost_no_output.py\<close>: cents, expenses and messages of the window.\<close>

fun spend_tally :: "event list \<Rightarrow> int \<times> nat \<times> nat \<Rightarrow> int \<times> nat \<times> nat" where
  "spend_tally [] t = t"
| "spend_tally (e # es) (cents, expenses, messages) =
     spend_tally es
       (if ev_kind e = EXPENSE_CHARGED
        then (case py_int (case map_of (ev_payload e) ''amount_cents'' of None \<Rightarrow> JInt 0 | Some j \<Rightarrow> j) of
                Inl _ \<Rightarrow> (cents, expenses, messages)
              | Inr n \<Rightarrow> (cents + n, expenses + 1, messages))
        else if ev_kind e = MESSAGE_SENT then (cents, expenses, messages + 1)
        else (cents, expenses, messages))"

definition cost_candidate :: "int \<Rightarrow> rat \<Rightarrow> nat \<Rightarrow> nat \<Rightarrow> finding_candidate" where
  "cost_candidate window dollars expenses messages =
     \<lparr>fc_detector_code = CODE_cost, fc_severity = EFF_WARN, fc_subject_type = ST_COMPANY, fc_subject_id = None,
      fc_evidence =
        [(''spend_usd'', JFloat (round_places 2 dollars)), (''expense_count'', JInt (int expenses)),
         (''message_count'', JInt (int messages)), (''window_seconds'', JInt window)],
      fc_recommendation =
        Some (''$'' @ fmt2 dollars @ '' spent ('' @ nat_str expenses @ '' item(s)) in the last '' @ int_str (window div 60) @
          '' minutes, but no agent messages produced. Is the budget being wasted?'')\<rparr>"

definition detect_cost :: detector where
  "detect_cost ctx =
     (let cfg = ec_cost (dc_config ctx);
          (cents, expenses, messages) =
            spend_tally (filter (\<lambda>e. age_at ctx e \<le> of_int (cn_window_seconds cfg)) (dc_events ctx)) (0, 0, 0);
          dollars = fl (of_int cents / 100) in
      if dollars < cn_min_spend_usd cfg \<or> 0 < messages then Inr []
      else Inr [cost_candidate (cn_window_seconds cfg) dollars expenses messages])"

text \<open>\<^verbatim>\<open>tool_error_storm.py\<close>: calls per tool, and the events of its failed calls.\<close>

fun storm_tally ::
  "detector_context \<Rightarrow> event list \<Rightarrow> (string \<times> nat) list \<times> (string \<times> int list) list
   \<Rightarrow> (string \<times> nat) list \<times> (string \<times> int list) list" where
  "storm_tally ctx [] t = t"
| "storm_tally ctx (e # es) (totals, samples) =
     (let tool = tool_of ctx e in
      storm_tally ctx es
        (if tool = [] then (totals, samples)
         else (count_one tool totals,
               if json_truthy (case map_of (ev_payload e) ''ok'' of None \<Rightarrow> JBool True | Some j \<Rightarrow> j)
               then samples else add_sample tool (ev_id e) samples)))"

definition failed_calls :: "(string \<times> int list) list \<Rightarrow> string \<Rightarrow> int list" where
  "failed_calls samples tool = (case map_of samples tool of None \<Rightarrow> [] | Some ids \<Rightarrow> ids)"

definition storm_rate :: "nat \<Rightarrow> nat \<Rightarrow> rat" where
  "storm_rate err n = fl (of_nat err / of_nat n)"

definition storm_candidate :: "int \<Rightarrow> string \<Rightarrow> nat \<Rightarrow> int list \<Rightarrow> finding_candidate" where
  "storm_candidate window tool n ids =
     (let err = length ids; rate = storm_rate err n in
      \<lparr>fc_detector_code = CODE_storm, fc_severity = EFF_CRITICAL, fc_subject_type = ST_TOOL, fc_subject_id = Some tool,
       fc_evidence =
         [(''total_calls'', JInt (int n)), (''error_count'', JInt (int err)),
          (''error_rate'', JFloat (round_places 3 rate)), (''window_seconds'', JInt window),
          (''sample_event_ids'', last_five ids)],
       fc_recommendation =
         Some (''Tool '' @ [grave] @ tool @ [grave] @ '' returned '' @ nat_str err @ ''/'' @ nat_str n @ '' errors ('' @
           int_str (truncate_float (fl (rate * 100))) @ ''%) in the last '' @ int_str (window div 60) @
           '' minutes. Check the Connector / external service.'')\<rparr>)"

definition detect_storm :: detector where
  "detect_storm ctx =
     (let cfg = ec_storm (dc_config ctx);
          (totals, samples) = storm_tally ctx
            (filter (\<lambda>e. ev_kind e = TOOL_RESULT \<and> age_at ctx e \<le> of_int (te_window_seconds cfg)) (dc_events ctx)) ([], []) in
      Inr (map (\<lambda>(tool, n). storm_candidate (te_window_seconds cfg) tool n (failed_calls samples tool))
        (filter (\<lambda>(tool, n).
             te_min_calls cfg \<le> int n \<and> failed_calls samples tool \<noteq> [] \<and>
             \<not> storm_rate (length (failed_calls samples tool)) n < te_error_rate cfg) totals)))"

text \<open>\<^verbatim>\<open>org_manager_bottleneck.py\<close>; \<^verbatim>\<open>most_common(1)\<close> is the first key of maximal count.\<close>

fun most_common :: "(string \<times> nat) list \<Rightarrow> (string \<times> nat) option" where
  "most_common [] = None"
| "most_common (p # ps) =
     (case most_common ps of None \<Rightarrow> Some p | Some q \<Rightarrow> if snd p < snd q then Some q else Some p)"

definition managers_of :: "approval_row list \<Rightarrow> string list" where
  "managers_of rows =
     map (\<lambda>r. drop 6 (ar_route_target r)) (filter (\<lambda>r. starts_with ''agent:'' (ar_route_target r)) rows)"

definition bottleneck_candidate :: "string \<Rightarrow> nat \<Rightarrow> nat \<Rightarrow> finding_candidate" where
  "bottleneck_candidate manager n managed =
     (let share = fl (of_nat n / of_nat managed) in
      \<lparr>fc_detector_code = CODE_bottleneck, fc_severity = EFF_WARN, fc_subject_type = ST_MANAGER,
       fc_subject_id = Some manager,
       fc_evidence =
         [(''manager_id'', JStr manager), (''manager_pending'', JInt (int n)),
          (''total_pending_to_managers'', JInt (int managed)), (''share'', JFloat (round_places 3 share))],
       fc_recommendation =
         Some (''Manager '' @ manager @ '' is handling '' @ int_str (truncate_float (fl (share * 100))) @
           ''% of all open approvals ('' @ nat_str n @ ''/'' @ nat_str managed @
           ''). Load should be balanced - consider delegating to another agent or redistributing authority.'')\<rparr>)"

definition detect_bottleneck :: detector where
  "detect_bottleneck ctx =
     (case dc_approvals ctx of
        None \<Rightarrow> Inl no_approvals
      | Some rows \<Rightarrow>
          let cfg = ec_bottleneck (dc_config ctx); pending = pending_rows rows;
              per_manager = counter (managers_of pending); managed = sum_list (map snd per_manager) in
          (case most_common per_manager of
             None \<Rightarrow> Inr []
           | Some (manager, n) \<Rightarrow>
               if int (length pending) < ob_min_total_pending cfg \<or> int managed < ob_min_total_pending cfg \<or>
                  fl (of_nat n / of_nat managed) < ob_top1_share cfg
               then Inr []
               else Inr [bottleneck_candidate manager n managed]))"

definition R1_DETECTORS :: "(string \<times> detector) list" where
  "R1_DETECTORS =
     [(CODE_loop, detect_loop), (CODE_stall, detect_stall), (CODE_backlog, detect_backlog), (CODE_cost, detect_cost),
      (CODE_storm, detect_storm), (CODE_bottleneck, detect_bottleneck)]"

section \<open>The table of findings\<close>

text \<open>\<open>ef_table\<close>: the table exists; \<open>ef_recorded\<close>: its migration is recorded in the schema versions. Rows
  of equal times come in the order of insertion.\<close>

record efficiency =
  ef_events :: event_store
  ef_rows :: "finding list"
  ef_table :: bool
  ef_recorded :: bool
  ef_parked :: "string list"
  ef_task :: bool
  ef_stopped :: bool
  ef_config :: efficiency_config

type_synonym 'a eff_out = "('a, efficiency) outcome"

definition no_findings_table :: exn where
  "no_findings_table = OperationalError ''no such table: efficiency_findings''"

text \<open>\<^verbatim>\<open>migrate\<close>: a recorded version is skipped.\<close>

definition fs_migrate :: "efficiency \<Rightarrow> unit eff_out" where
  "fs_migrate s =
     (if ef_recorded s then (Inr (), s)
      else if ef_table s then (Inl (OperationalError ''table efficiency_findings already exists''), s)
      else (Inr (), s\<lparr>ef_table := True, ef_recorded := True\<rparr>))"

definition fs_get :: "string \<Rightarrow> efficiency \<Rightarrow> exn + finding" where
  "fs_get i s =
     (if \<not> ef_table s then Inl no_findings_table
      else case tbl_find fd_id i (ef_rows s) of None \<Rightarrow> Inl (FindingNotFound i) | Some f \<Rightarrow> Inr f)"

definition fs_list ::
  "finding_status option \<Rightarrow> eff_severity list option \<Rightarrow> string option \<Rightarrow> int \<Rightarrow> efficiency \<Rightarrow> exn + finding list" where
  "fs_list status severities code limit s =
     (if severities = Some [] then Inr []
      else if \<not> ef_table s then Inl no_findings_table
      else
        let rows = sort_key (\<lambda>f. - fd_opened_at f) (filter (\<lambda>f.
              (case status of None \<Rightarrow> True | Some t \<Rightarrow> fd_status f = t) \<and>
              (case severities of None \<Rightarrow> True | Some vs \<Rightarrow> fd_severity f \<in> set vs) \<and>
              (case code of None \<Rightarrow> True | Some c \<Rightarrow> fd_detector_code f = c)) (ef_rows s)) in
        Inr (if limit < 0 then rows else take (nat limit) rows))"

definition fd_open :: "finding \<Rightarrow> bool" where
  "fd_open f \<longleftrightarrow> fd_status f \<noteq> FS_CLOSED"

definition fd_key :: "finding \<Rightarrow> string \<times> subject_type \<times> string option" where
  "fd_key f = (fd_detector_code f, fd_subject_type f, fd_subject_id f)"

definition fc_key :: "finding_candidate \<Rightarrow> string \<times> subject_type \<times> string option" where
  "fc_key c = (fc_detector_code c, fc_subject_type c, fc_subject_id c)"

definition find_open :: "string \<times> subject_type \<times> string option \<Rightarrow> efficiency \<Rightarrow> exn + finding option" where
  "find_open k s =
     (if \<not> ef_table s then Inl no_findings_table
      else Inr (List.find (\<lambda>f. fd_key f = k \<and> fd_open f) (ef_rows s)))"

definition list_open :: "string \<Rightarrow> efficiency \<Rightarrow> exn + finding list" where
  "list_open code s =
     (if \<not> ef_table s then Inl no_findings_table
      else Inr (sort_key fd_opened_at (filter (\<lambda>f. fd_detector_code f = code \<and> fd_open f) (ef_rows s))))"

text \<open>A statement on a row, then the row read back.\<close>

definition fs_update :: "string \<Rightarrow> (finding \<Rightarrow> finding) \<Rightarrow> efficiency \<Rightarrow> finding eff_out" where
  "fs_update i f s = (let t = s\<lparr>ef_rows := tbl_upd fd_id i f (ef_rows s)\<rparr> in (fs_get i t, t))"

definition refreshed :: "int \<Rightarrow> finding_candidate \<Rightarrow> finding \<Rightarrow> finding" where
  "refreshed now c f =
     f\<lparr>fd_last_seen_at := now, fd_occurrences := fd_occurrences f + 1, fd_evidence := fc_evidence c,
       fd_severity := fc_severity c,
       fd_recommendation := (case fc_recommendation c of None \<Rightarrow> fd_recommendation f | Some r \<Rightarrow> Some r)\<rparr>"

definition opened_finding :: "string \<Rightarrow> int \<Rightarrow> finding_candidate \<Rightarrow> finding" where
  "opened_finding i now c =
     \<lparr>fd_id = i, fd_detector_code = fc_detector_code c, fd_severity = fc_severity c,
      fd_subject_type = fc_subject_type c, fd_subject_id = fc_subject_id c, fd_opened_at = now,
      fd_last_seen_at = now, fd_closed_at = None, fd_occurrences = 1, fd_evidence = fc_evidence c,
      fd_recommendation = fc_recommendation c, fd_status = FS_OPEN\<rparr>"

definition upsert_from_candidate :: "string \<Rightarrow> int \<Rightarrow> finding_candidate \<Rightarrow> efficiency \<Rightarrow> (finding \<times> bool) eff_out" where
  "upsert_from_candidate fresh now c s =
     (case find_open (fc_key c) s of
        Inl e \<Rightarrow> (Inl e, s)
      | Inr (Some f) \<Rightarrow>
          (case fs_update (fd_id f) (refreshed now c) s of (r, t) \<Rightarrow> (map_sum id (\<lambda>g. (g, False)) r, t))
      | Inr None \<Rightarrow>
          if tbl_find fd_id fresh (ef_rows s) \<noteq> None
          then (Inl (IntegrityError ''UNIQUE constraint failed: efficiency_findings.id''), s)
          else
            let t = s\<lparr>ef_rows := ef_rows s @ [opened_finding fresh now c]\<rparr> in
            (map_sum id (\<lambda>g. (g, True)) (fs_get fresh t), t))"

definition closed_finding :: "int \<Rightarrow> finding \<Rightarrow> finding" where
  "closed_finding now f = f\<lparr>fd_status := FS_CLOSED, fd_closed_at := Some now\<rparr>"

definition fs_close :: "string \<Rightarrow> int \<Rightarrow> efficiency \<Rightarrow> finding eff_out" where
  "fs_close i now s =
     (case fs_get i s of
        Inl e \<Rightarrow> (Inl e, s)
      | Inr f \<Rightarrow> if fd_status f = FS_CLOSED then (Inr f, s) else fs_update i (closed_finding now) s)"

definition auto_close :: "string \<Rightarrow> int \<Rightarrow> efficiency \<Rightarrow> finding eff_out" where
  "auto_close i now s =
     (case fs_get i s of
        Inl e \<Rightarrow> (Inl e, s)
      | Inr f \<Rightarrow> if fd_status f = FS_CLOSED then (Inr f, s) else fs_update i (closed_finding now) s)"

definition fs_acknowledge :: "string \<Rightarrow> efficiency \<Rightarrow> finding eff_out" where
  "fs_acknowledge i s =
     (case fs_get i s of
        Inl e \<Rightarrow> (Inl e, s)
      | Inr f \<Rightarrow>
          if fd_status f = FS_CLOSED then (Inl (EffInvalidTransition (''cannot ack a closed finding: '' @ i)), s)
          else fs_update i (\<lambda>f. f\<lparr>fd_status := FS_ACKNOWLEDGED\<rparr>) s)"

section \<open>The service\<close>

text \<open>The clock of the service, the rows of the approvals, and per detector and position the fresh id and
  the clock of the table.\<close>

record efficiency_env =
  ee_now :: int
  ee_approvals :: "approval_row list option"
  ee_fresh :: "string \<Rightarrow> nat \<Rightarrow> string"
  ee_store_now :: "string \<Rightarrow> nat \<Rightarrow> int"

definition READ_LIMIT :: int where "READ_LIMIT = 5000"

definition eff_create :: "event_store \<Rightarrow> efficiency_config \<Rightarrow> efficiency" where
  "eff_create es cfg =
     \<lparr>ef_events = es, ef_rows = [], ef_table = False, ef_recorded = False, ef_parked = [], ef_task = False,
      ef_stopped = False, ef_config = cfg\<rparr>"

definition eff_start :: "efficiency \<Rightarrow> efficiency" where
  "eff_start s = (if ef_task s then s else s\<lparr>ef_stopped := False, ef_task := True\<rparr>)"

definition eff_stop :: "efficiency \<Rightarrow> efficiency" where
  "eff_stop s = s\<lparr>ef_stopped := True, ef_task := False\<rparr>"

text \<open>What an event is refused for is dropped.\<close>

definition safe_emit :: "event_kind \<Rightarrow> payload \<Rightarrow> efficiency \<Rightarrow> efficiency" where
  "safe_emit k p s = s\<lparr>ef_events := snd (es_append (Inl k) p None None (ef_events s))\<rparr>"

definition safe_emit_opened :: "string \<Rightarrow> finding_candidate \<Rightarrow> efficiency \<Rightarrow> efficiency" where
  "safe_emit_opened i c =
     safe_emit EFFICIENCY_FINDING_OPENED
       [(''finding_id'', JStr i), (''detector_code'', JStr (fc_detector_code c)),
        (''severity'', JStr (eff_severity_value (fc_severity c))),
        (''subject_type'', JStr (subject_type_value (fc_subject_type c))), (''subject_id'', opt_json (fc_subject_id c)),
        (''evidence'', JObj (fc_evidence c)), (''recommendation'', opt_json (fc_recommendation c))]"

definition safe_emit_closed :: "string \<Rightarrow> string \<Rightarrow> string \<Rightarrow> efficiency \<Rightarrow> efficiency" where
  "safe_emit_closed i code reason =
     safe_emit EFFICIENCY_FINDING_CLOSED
       [(''finding_id'', JStr i), (''detector_code'', JStr code), (''reason'', JStr reason)]"

fun reconcile_open ::
  "efficiency_env \<Rightarrow> string \<Rightarrow> nat \<Rightarrow> finding_candidate list \<Rightarrow> efficiency \<Rightarrow> unit eff_out" where
  "reconcile_open env code k [] s = (Inr (), s)"
| "reconcile_open env code k (c # cs) s =
     (if fc_detector_code c \<noteq> code then reconcile_open env code (Suc k) cs s
      else andthen (upsert_from_candidate (ee_fresh env code k) (ee_store_now env code k) c s)
        (\<lambda>(f, opened) t.
           reconcile_open env code (Suc k) cs (if opened then safe_emit_opened (fd_id f) c t else t)))"

fun reconcile_close ::
  "efficiency_env \<Rightarrow> string \<Rightarrow> nat \<Rightarrow> finding list \<Rightarrow> efficiency \<Rightarrow> unit eff_out" where
  "reconcile_close env code k [] s = (Inr (), s)"
| "reconcile_close env code k (f # fs) s =
     andthen (auto_close (fd_id f) (ee_store_now env code k) s)
       (\<lambda>g t. reconcile_close env code (Suc k) fs
                (if fd_status g = FS_CLOSED then safe_emit_closed (fd_id f) code ''resolved'' t else t))"

definition firing_keys :: "string \<Rightarrow> finding_candidate list \<Rightarrow> (string \<times> subject_type \<times> string option) set" where
  "firing_keys code cs = fc_key ` set (filter (\<lambda>c. fc_detector_code c = code) cs)"

definition reconcile :: "efficiency_env \<Rightarrow> string \<Rightarrow> finding_candidate list \<Rightarrow> efficiency \<Rightarrow> unit eff_out" where
  "reconcile env code cs s =
     andthen (reconcile_open env code 0 cs s) (\<lambda>_ t.
       case list_open code t of
         Inl e \<Rightarrow> (Inl e, t)
       | Inr fs \<Rightarrow> reconcile_close env code (length cs) (filter (\<lambda>f. fd_key f \<notin> firing_keys code cs) fs) t)"

definition missing_table :: "exn \<Rightarrow> bool" where
  "missing_table e = (case e of OperationalError m \<Rightarrow> py_in ''no such table'' (py_lower m) | _ \<Rightarrow> False)"

definition park :: "string \<Rightarrow> exn \<Rightarrow> efficiency \<Rightarrow> efficiency" where
  "park code e s =
     (if missing_table e \<and> code \<notin> set (ef_parked s) then s\<lparr>ef_parked := ef_parked s @ [code]\<rparr> else s)"

fun run_detectors ::
  "efficiency_env \<Rightarrow> detector_context \<Rightarrow> (string \<times> detector) list \<Rightarrow> efficiency \<Rightarrow> finding_candidate list \<times> efficiency" where
  "run_detectors env ctx [] s = ([], s)"
| "run_detectors env ctx ((code, detect) # ds) s =
     (if code \<in> set (ef_parked s) then run_detectors env ctx ds s
      else case detect ctx of
             Inl e \<Rightarrow> run_detectors env ctx ds (park code e s)
           | Inr cs \<Rightarrow>
               (case reconcile env code cs s of
                  (Inl e, t) \<Rightarrow> run_detectors env ctx ds (park code e t)
                | (Inr _, t) \<Rightarrow> (case run_detectors env ctx ds t of (out, u) \<Rightarrow> (cs @ out, u))))"

definition tick_window :: "efficiency_config \<Rightarrow> int \<Rightarrow> event list \<Rightarrow> event list" where
  "tick_window cfg now es =
     filter (\<lambda>e. fl (total_seconds now - of_int (max_window_seconds cfg)) \<le> total_seconds (ev_ts_company e)) es"

definition tick_context :: "efficiency_env \<Rightarrow> event list \<Rightarrow> efficiency \<Rightarrow> detector_context" where
  "tick_context env recent s =
     \<lparr>dc_now = ee_now env, dc_events = tick_window (ef_config s) (ee_now env) recent, dc_config = ef_config s,
      dc_approvals = ee_approvals env, dc_float_repr = es_float_repr (ef_events s)\<rparr>"

definition eff_tick :: "efficiency_env \<Rightarrow> efficiency \<Rightarrow> finding_candidate list eff_out" where
  "eff_tick env s =
     (case es_read None None [] None None READ_LIMIT (ef_events s) of
        Inl e \<Rightarrow> (Inl e, s)
      | Inr recent \<Rightarrow> (case run_detectors env (tick_context env recent s) R1_DETECTORS s of (cs, t) \<Rightarrow> (Inr cs, t)))"

text \<open>One pass of the loop: the tick, and the repair of the table when the tick raises for it.\<close>

definition eff_pass :: "efficiency_env \<Rightarrow> efficiency \<Rightarrow> efficiency" where
  "eff_pass env s =
     (if ef_stopped s then s
      else case eff_tick env s of
             (Inr _, t) \<Rightarrow> t
           | (Inl e, t) \<Rightarrow>
               if missing_table e
               then (case fs_migrate t of (Inr _, u) \<Rightarrow> u\<lparr>ef_parked := []\<rparr> | (Inl _, u) \<Rightarrow> u)
               else t)"

definition eff_acknowledge :: "string \<Rightarrow> efficiency \<Rightarrow> unit eff_out" where
  "eff_acknowledge i s = (case fs_acknowledge i s of (r, t) \<Rightarrow> (map_sum id (\<lambda>_. ()) r, t))"

definition manual_close :: "string \<Rightarrow> int \<Rightarrow> efficiency \<Rightarrow> unit eff_out" where
  "manual_close i now s =
     andthen (fs_close i now s) (\<lambda>f t.
       (Inr (), if fd_status f = FS_CLOSED then safe_emit_closed (fd_id f) (fd_detector_code f) ''manual'' t else t))"

section \<open>One open finding per subject\<close>

definition open_keys :: "efficiency \<Rightarrow> (string \<times> subject_type \<times> string option) list" where
  "open_keys s = map fd_key (filter fd_open (ef_rows s))"

definition row_sane :: "finding \<Rightarrow> bool" where
  "row_sane f \<longleftrightarrow> (fd_closed_at f = None \<longleftrightarrow> fd_open f) \<and> 1 \<le> fd_occurrences f"

definition eff_inv :: "efficiency \<Rightarrow> bool" where
  "eff_inv s \<longleftrightarrow> tbl_pk fd_id (ef_rows s) \<and> distinct (open_keys s) \<and> (\<forall>f\<in>set (ef_rows s). row_sane f)"

text \<open>Statements that keep id, key and status of a row.\<close>

lemma upd_keeps_keys:
  assumes "\<And>f. fd_key (h f) = fd_key f \<and> fd_open (h f) = fd_open f"
  shows "map fd_key (filter fd_open (tbl_upd fd_id i h rows)) = map fd_key (filter fd_open rows)"
  using assms by (induction rows) (auto simp: tbl_upd_def)

lemma upd_closes:
  assumes "\<And>f. \<not> fd_open (h f)"
  shows "filter fd_open (tbl_upd fd_id i h rows) = filter (\<lambda>f. fd_open f \<and> fd_id f \<noteq> i) rows"
  using assms by (induction rows) (auto simp: tbl_upd_def)

lemma upd_ids: "(\<And>f. fd_id (h f) = fd_id f) \<Longrightarrow> map fd_id (tbl_upd fd_id i h rows) = map fd_id rows"
  by (induction rows) (auto simp: tbl_upd_def)

lemma refreshed_simps [simp]:
  "fd_id (refreshed now c f) = fd_id f" "fd_key (refreshed now c f) = fd_key f"
  "fd_open (refreshed now c f) = fd_open f" "row_sane f \<Longrightarrow> row_sane (refreshed now c f)"
  "fd_detector_code (refreshed now c f) = fd_detector_code f" "fd_status (refreshed now c f) = fd_status f"
  by (simp_all add: refreshed_def fd_key_def fd_open_def row_sane_def)

lemma opened_simps [simp]:
  "fd_id (opened_finding i now c) = i" "fd_key (opened_finding i now c) = fc_key c"
  "fd_open (opened_finding i now c)" "row_sane (opened_finding i now c)"
  "fd_detector_code (opened_finding i now c) = fc_detector_code c"
  by (simp_all add: opened_finding_def fd_key_def fc_key_def fd_open_def row_sane_def)

lemma closed_simps [simp]:
  "fd_id (closed_finding now f) = fd_id f" "fd_key (closed_finding now f) = fd_key f"
  "\<not> fd_open (closed_finding now f)" "row_sane f \<Longrightarrow> row_sane (closed_finding now f)"
  "fd_status (closed_finding now f) = FS_CLOSED"
  by (simp_all add: closed_finding_def fd_key_def fd_open_def row_sane_def)

lemma acknowledged_simps [simp]:
  "fd_id (f\<lparr>fd_status := FS_ACKNOWLEDGED\<rparr>) = fd_id f" "fd_key (f\<lparr>fd_status := FS_ACKNOWLEDGED\<rparr>) = fd_key f"
  "fd_open (f\<lparr>fd_status := FS_ACKNOWLEDGED\<rparr>)"
  by (simp_all add: fd_key_def fd_open_def)

lemma get_upd:
  assumes "tbl_find fd_id i (ef_rows s) = Some f" and "ef_table s" and "\<And>f. fd_id (h f) = fd_id f"
  shows "fs_update i h s = (Inr (h f), s\<lparr>ef_rows := tbl_upd fd_id i h (ef_rows s)\<rparr>)"
proof -
  have "tbl_find fd_id i (tbl_upd fd_id i h rows) = map_option h (tbl_find fd_id i rows)" for rows
    using assms(3) by (induction rows) (auto simp: tbl_upd_def)
  with assms show ?thesis by (simp add: fs_update_def fs_get_def Let_def)
qed

lemma find_open_Some:
  "find_open k s = Inr (Some f) \<Longrightarrow> f \<in> set (ef_rows s) \<and> fd_key f = k \<and> fd_open f \<and> ef_table s"
  by (auto simp: find_open_def find_Some_iff split: if_splits)

lemma find_open_None: "find_open k s = Inr None \<Longrightarrow> k \<notin> set (open_keys s) \<and> ef_table s"
  by (auto simp: find_open_def find_None_iff open_keys_def split: if_splits)

text \<open>What a candidate does to the table.\<close>

lemma upsert_refresh:
  assumes "eff_inv s" and "find_open (fc_key c) s = Inr (Some f)"
  shows "upsert_from_candidate fresh now c s =
    (Inr (refreshed now c f, False), s\<lparr>ef_rows := tbl_upd fd_id (fd_id f) (refreshed now c) (ef_rows s)\<rparr>)"
proof -
  have f: "f \<in> set (ef_rows s)" "ef_table s" using find_open_Some[OF assms(2)] by simp_all
  have "tbl_find fd_id (fd_id f) (ef_rows s) = Some f"
    using tbl_find_in[of fd_id, OF _ f(1)] assms(1) by (simp add: eff_inv_def)
  from get_upd[OF this f(2), of "refreshed now c"] show ?thesis
    by (simp add: upsert_from_candidate_def assms(2))
qed

lemma upsert_insert:
  assumes "find_open (fc_key c) s = Inr None" and "tbl_find fd_id fresh (ef_rows s) = None"
  shows "upsert_from_candidate fresh now c s =
    (Inr (opened_finding fresh now c, True), s\<lparr>ef_rows := ef_rows s @ [opened_finding fresh now c]\<rparr>)"
  using assms find_open_None[OF assms(1)]
  by (simp add: upsert_from_candidate_def fs_get_def Let_def tbl_find_append)

lemma refresh_inv:
  assumes "eff_inv s"
  shows "eff_inv (s\<lparr>ef_rows := tbl_upd fd_id i (refreshed now c) (ef_rows s)\<rparr>)"
    "open_keys (s\<lparr>ef_rows := tbl_upd fd_id i (refreshed now c) (ef_rows s)\<rparr>) = open_keys s"
  using assms
  by (auto simp: eff_inv_def open_keys_def upd_keeps_keys upd_ids tbl_pk_def set_tbl_upd)

lemma insert_inv:
  assumes "eff_inv s" and "fc_key c \<notin> set (open_keys s)" and "tbl_find fd_id fresh (ef_rows s) = None"
  shows "eff_inv (s\<lparr>ef_rows := ef_rows s @ [opened_finding fresh now c]\<rparr>)"
    "open_keys (s\<lparr>ef_rows := ef_rows s @ [opened_finding fresh now c]\<rparr>) = open_keys s @ [fc_key c]"
  using assms tbl_pk_insert[of fd_id "ef_rows s" "opened_finding fresh now c"]
  by (auto simp: eff_inv_def open_keys_def)

lemma distinct_filtered:
  "distinct (map k (filter P xs)) \<Longrightarrow> distinct (map k (filter (\<lambda>x. P x \<and> Q x) xs))"
  by (induction xs) (auto split: if_splits)

lemma close_inv:
  assumes "eff_inv s"
  shows "eff_inv (s\<lparr>ef_rows := tbl_upd fd_id i (closed_finding now) (ef_rows s)\<rparr>)"
proof -
  have "distinct (map fd_key (filter (\<lambda>f. fd_open f \<and> fd_id f \<noteq> i) (ef_rows s)))"
    by (rule distinct_filtered) (use assms in \<open>simp add: eff_inv_def open_keys_def\<close>)
  then show ?thesis
    using assms by (auto simp: eff_inv_def open_keys_def upd_closes upd_ids tbl_pk_def set_tbl_upd)
qed

lemma acknowledge_inv:
  assumes "eff_inv s" and "tbl_find fd_id i (ef_rows s) = Some f" and "fd_open f"
  shows "eff_inv (s\<lparr>ef_rows := tbl_upd fd_id i (\<lambda>f. f\<lparr>fd_status := FS_ACKNOWLEDGED\<rparr>) (ef_rows s)\<rparr>)"
proof -
  let ?h = "\<lambda>f :: finding. f\<lparr>fd_status := FS_ACKNOWLEDGED\<rparr>"
  have only: "g = f" if "g \<in> set (ef_rows s)" "fd_id g = i" for g
    using that assms(1,2) by (auto simp: eff_inv_def dest: tbl_find_in)
  have "map fd_key (filter fd_open (tbl_upd fd_id i ?h rows)) = map fd_key (filter fd_open rows)"
    if "\<And>g. g \<in> set rows \<Longrightarrow> fd_id g = i \<Longrightarrow> fd_open g" for rows
    using that by (induction rows) (simp_all add: tbl_upd_def)
  from this[of "ef_rows s"] only assms(3)
  have k: "map fd_key (filter fd_open (tbl_upd fd_id i ?h (ef_rows s))) = map fd_key (filter fd_open (ef_rows s))"
    by blast
  have "row_sane (?h g)" if "g \<in> set (ef_rows s)" "fd_id g = i" for g
    using only[OF that] assms that by (auto simp: eff_inv_def row_sane_def fd_open_def)
  then have sane: "\<forall>g\<in>set (tbl_upd fd_id i ?h (ef_rows s)). row_sane g"
    using assms(1) by (auto simp: eff_inv_def set_tbl_upd)
  have ids: "map fd_id (tbl_upd fd_id i ?h (ef_rows s)) = map fd_id (ef_rows s)" by (rule upd_ids) simp
  show ?thesis using assms(1) k sane ids by (simp add: eff_inv_def open_keys_def tbl_pk_def)
qed


section \<open>Invariant of the service\<close>

lemma safe_emit_simps [simp]:
  "ef_rows (safe_emit k p s) = ef_rows s" "ef_table (safe_emit k p s) = ef_table s"
  "ef_parked (safe_emit k p s) = ef_parked s" "ef_config (safe_emit k p s) = ef_config s"
  "open_keys (safe_emit k p s) = open_keys s" "eff_inv (safe_emit k p s) = eff_inv s"
  by (simp_all add: safe_emit_def open_keys_def eff_inv_def)

lemma emit_simps [simp]:
  "ef_rows (safe_emit_opened i c s) = ef_rows s" "ef_table (safe_emit_opened i c s) = ef_table s"
  "ef_parked (safe_emit_opened i c s) = ef_parked s" "ef_config (safe_emit_opened i c s) = ef_config s"
  "open_keys (safe_emit_opened i c s) = open_keys s" "eff_inv (safe_emit_opened i c s) = eff_inv s"
  "ef_rows (safe_emit_closed i d r s) = ef_rows s" "ef_table (safe_emit_closed i d r s) = ef_table s"
  "ef_parked (safe_emit_closed i d r s) = ef_parked s" "ef_config (safe_emit_closed i d r s) = ef_config s"
  "open_keys (safe_emit_closed i d r s) = open_keys s" "eff_inv (safe_emit_closed i d r s) = eff_inv s"
  by (simp_all add: safe_emit_opened_def safe_emit_closed_def)

lemma eff_inv_other [simp]:
  "eff_inv (s\<lparr>ef_events := es\<rparr>) = eff_inv s" "eff_inv (s\<lparr>ef_parked := ps\<rparr>) = eff_inv s"
  "eff_inv (s\<lparr>ef_table := b\<rparr>) = eff_inv s" "eff_inv (s\<lparr>ef_recorded := b\<rparr>) = eff_inv s"
  "eff_inv (s\<lparr>ef_task := b\<rparr>) = eff_inv s" "eff_inv (s\<lparr>ef_stopped := b\<rparr>) = eff_inv s"
  by (simp_all add: eff_inv_def open_keys_def)

lemma candidate_inv:
  assumes "eff_inv s" shows "eff_inv (snd (upsert_from_candidate fresh now c s))"
proof (cases "find_open (fc_key c) s")
  case (Inr r)
  show ?thesis
  proof (cases r)
    case None
    with Inr assms insert_inv(1)[OF assms, of c fresh now] find_open_None[of "fc_key c" s] show ?thesis
      by (simp add: upsert_from_candidate_def Let_def)
  next
    case (Some f)
    with Inr upsert_refresh[OF assms, of c f] refresh_inv(1)[OF assms] show ?thesis by simp
  qed
qed (simp add: upsert_from_candidate_def assms)

lemma update_state: "snd (fs_update i h s) = s\<lparr>ef_rows := tbl_upd fd_id i h (ef_rows s)\<rparr>"
  by (simp add: fs_update_def Let_def)

lemma closing_inv: "eff_inv s \<Longrightarrow> eff_inv (snd (auto_close i now s)) \<and> eff_inv (snd (fs_close i now s))"
  by (simp add: auto_close_def fs_close_def update_state close_inv split: sum.splits)

lemma ack_inv: "eff_inv s \<Longrightarrow> eff_inv (snd (fs_acknowledge i s))"
  by (auto simp: fs_acknowledge_def update_state fs_get_def fd_open_def split: sum.splits option.splits if_splits
      intro!: acknowledge_inv)

lemma andthen_keeps:
  assumes "P (snd m)" and "\<And>a v. P v \<Longrightarrow> P (snd (f a v))"
  shows "P (snd (andthen m f))"
  using assms by (cases m; cases "fst m") auto

lemma reconcile_open_inv: "eff_inv s \<Longrightarrow> eff_inv (snd (reconcile_open env code k cs s))"
proof (induction cs arbitrary: k s)
  case (Cons c cs)
  have "eff_inv (snd (andthen (upsert_from_candidate (ee_fresh env code k) (ee_store_now env code k) c s)
        (\<lambda>(f, opened) t. reconcile_open env code (Suc k) cs (if opened then safe_emit_opened (fd_id f) c t else t))))"
    by (rule andthen_keeps[where P = eff_inv], rule candidate_inv[OF Cons.prems]) (simp add: Cons.IH case_prod_beta)
  with Cons show ?case by simp
qed simp

lemma reconcile_close_inv: "eff_inv s \<Longrightarrow> eff_inv (snd (reconcile_close env code k fs s))"
proof (induction fs arbitrary: k s)
  case (Cons f fs)
  show ?case
    unfolding reconcile_close.simps
    by (rule andthen_keeps[where P = eff_inv]) (use closing_inv[OF Cons.prems] in \<open>auto intro: Cons.IH\<close>)
qed simp

lemma reconcile_inv: "eff_inv s \<Longrightarrow> eff_inv (snd (reconcile env code cs s))"
  unfolding reconcile_def
  by (rule andthen_keeps[where P = eff_inv], rule reconcile_open_inv)
     (auto simp: reconcile_close_inv split: sum.splits)

lemma park_inv [simp]: "eff_inv (park code e s) = eff_inv s" "ef_rows (park code e s) = ef_rows s"
  by (simp_all add: park_def)

lemma run_detectors_inv: "eff_inv s \<Longrightarrow> eff_inv (snd (run_detectors env ctx ds s))"
proof (induction ds arbitrary: s)
  case (Cons d ds)
  obtain code detect where d: "d = (code, detect)" by (cases d)
  show ?case
  proof (cases "detect ctx")
    case (Inl e)
    then show ?thesis using Cons by (simp add: d)
  next
    case (Inr cs)
    obtain r t where rc: "reconcile env code cs s = (r, t)" by (meson surj_pair)
    then have "eff_inv t" using reconcile_inv[OF Cons.prems, of env code cs] by simp
    then show ?thesis using Inr Cons rc by (cases r) (simp_all add: d case_prod_beta)
  qed
qed simp

inductive eff_step :: "efficiency \<Rightarrow> efficiency \<Rightarrow> bool" where
  efs_pass: "eff_step s (eff_pass env s)"
| efs_start: "eff_step s (eff_start s)"
| efs_stop: "eff_step s (eff_stop s)"
| efs_migrate: "eff_step s (snd (fs_migrate s))"
| efs_acknowledge: "eff_step s (snd (eff_acknowledge i s))"
| efs_close: "eff_step s (snd (manual_close i now s))"
| efs_log: "eff_step s (s\<lparr>ef_events := es\<rparr>)"

definition eff_init :: "efficiency \<Rightarrow> bool" where
  "eff_init s \<longleftrightarrow> (\<exists>es cfg. s = eff_create es cfg)"

lemma tick_inv: "eff_inv s \<Longrightarrow> eff_inv (snd (eff_tick env s))"
  using run_detectors_inv[of s env] by (simp add: eff_tick_def case_prod_beta split: sum.splits)

lemma migrate_inv [simp]: "eff_inv (snd (fs_migrate s)) = eff_inv s"
  by (simp add: fs_migrate_def)

lemma eff_step_inv:
  assumes "eff_step s t" and "eff_inv s" shows "eff_inv t"
  using assms
proof cases
  case (efs_pass env)
  obtain r u where tick: "eff_tick env s = (r, u)" by (meson surj_pair)
  then have u: "eff_inv u" using tick_inv[OF assms(2), of env] by simp
  obtain x w where mig: "fs_migrate u = (x, w)" by (meson surj_pair)
  with u migrate_inv[of u] have w: "eff_inv w" by simp
  then show ?thesis
    using efs_pass tick mig u w assms(2) by (cases r; cases x) (simp_all add: eff_pass_def)
next
  case (efs_close i now)
  have "eff_inv (snd (manual_close i now s))"
    unfolding manual_close_def
    by (rule andthen_keeps[where P = eff_inv]) (use closing_inv[OF assms(2)] in auto)
  with efs_close show ?thesis by simp
next
  case (efs_acknowledge i)
  then show ?thesis using ack_inv[OF assms(2), of i] by (simp add: eff_acknowledge_def case_prod_beta)
qed (simp_all add: eff_start_def eff_stop_def)

interpretation finding_system: invariant_system eff_init eff_step eff_inv
proof unfold_locales
  fix s assume "eff_init s"
  then show "eff_inv s" by (auto simp: eff_init_def eff_create_def eff_inv_def open_keys_def tbl_pk_def)
qed (rule eff_step_inv)

text \<open>
  C26. However ticks, acknowledgements, closings, repairs and other writers of the log interleave, two
  findings of the table never have one id, at most one finding per detector and subject is open, and a
  finding has a closing time exactly when it is closed.
\<close>

theorem findings_deduplicated:
  assumes "reach eff_init eff_step s"
  shows "distinct (map fd_id (ef_rows s)) \<and>
    (\<forall>f\<in>set (ef_rows s). \<forall>g\<in>set (ef_rows s). fd_open f \<and> fd_open g \<and> fd_key f = fd_key g \<longrightarrow> f = g) \<and>
    (\<forall>f\<in>set (ef_rows s). (fd_closed_at f = None) = fd_open f)"
proof -
  have inv: "eff_inv s" by (rule finding_system.reach_inv[OF assms])
  have "f = g" if "f \<in> set (ef_rows s)" "g \<in> set (ef_rows s)" "fd_open f" "fd_open g" "fd_key f = fd_key g" for f g
    using inv that by (auto simp: eff_inv_def open_keys_def distinct_map inj_on_def)
  with inv show ?thesis by (auto simp: eff_inv_def tbl_pk_def row_sane_def)
qed

section \<open>A tick makes the open findings those that fire\<close>

definition ids_of :: "efficiency \<Rightarrow> string set" where
  "ids_of s = fd_id ` set (ef_rows s)"

definition fresh_ids :: "efficiency_env \<Rightarrow> bool" where
  "fresh_ids env \<longleftrightarrow> (\<forall>c k d j. ee_fresh env c k = ee_fresh env d j \<longrightarrow> c = d \<and> k = j)"

text \<open>A stage of a tick that works: what it leaves alone.\<close>

definition stage :: "efficiency \<Rightarrow> string set \<Rightarrow> efficiency \<Rightarrow> bool" where
  "stage s new t \<longleftrightarrow> eff_inv t \<and> ef_table t \<and> ids_of t \<subseteq> ids_of s \<union> new \<and> ef_parked t = ef_parked s"

lemma stage_trans: "stage s A t \<Longrightarrow> stage t B u \<Longrightarrow> stage s (A \<union> B) u"
  by (auto simp: stage_def)

lemma stage_emit [simp]:
  "stage s A (safe_emit_opened i c t) = stage s A t" "stage s A (safe_emit_closed i d r t) = stage s A t"
  by (simp_all add: stage_def ids_of_def)

lemma ids_upd: "(\<And>f. fd_id (h f) = fd_id f) \<Longrightarrow> ids_of (s\<lparr>ef_rows := tbl_upd fd_id i h (ef_rows s)\<rparr>) = ids_of s"
  by (simp add: ids_of_def upd_ids flip: set_map)

lemma upsert_run:
  assumes "eff_inv s" "ef_table s" "fresh \<notin> ids_of s"
  shows "\<exists>f b t. upsert_from_candidate fresh now c s = (Inr (f, b), t) \<and> stage s {fresh} t \<and>
    set (open_keys t) = insert (fc_key c) (set (open_keys s))"
proof (cases "find_open (fc_key c) s")
  case (Inl e)
  then show ?thesis using assms(2) by (simp add: find_open_def)
next
  case (Inr r)
  have free: "tbl_find fd_id fresh (ef_rows s) = None" using assms(3) by (simp add: tbl_find_None ids_of_def)
  show ?thesis
  proof (cases r)
    case None
    with Inr have no: "find_open (fc_key c) s = Inr None" by simp
    from upsert_insert[OF no free] insert_inv[OF assms(1) _ free] find_open_None[OF no] assms(2) show ?thesis
      by (auto simp: stage_def ids_of_def)
  next
    case (Some f)
    with Inr have yes: "find_open (fc_key c) s = Inr (Some f)" by simp
    have "fc_key c \<in> set (open_keys s)"
      using find_open_Some[OF yes] by (simp add: open_keys_def image_eqI[of "fc_key c" fd_key f])
    moreover have "ids_of (s\<lparr>ef_rows := tbl_upd fd_id (fd_id f) (refreshed now c) (ef_rows s)\<rparr>) = ids_of s"
      by (simp add: ids_upd)
    ultimately show ?thesis
      using upsert_refresh[OF assms(1) yes] refresh_inv[OF assms(1)] assms(2) by (auto simp: stage_def)
  qed
qed

lemma reconcile_open_run:
  assumes "fresh_ids env"
  shows "eff_inv s \<Longrightarrow> ef_table s \<Longrightarrow> (\<And>j. k \<le> j \<Longrightarrow> ee_fresh env code j \<notin> ids_of s) \<Longrightarrow>
    \<exists>t. reconcile_open env code k cs s = (Inr (), t) \<and> stage s (range (ee_fresh env code)) t \<and>
      set (open_keys t) = set (open_keys s) \<union> firing_keys code cs"
proof (induction cs arbitrary: k s)
  case Nil
  then show ?case by (simp add: stage_def firing_keys_def)
next
  case (Cons c cs)
  show ?case
  proof (cases "fc_detector_code c = code")
    case False
    have "\<And>j. Suc k \<le> j \<Longrightarrow> ee_fresh env code j \<notin> ids_of s" using Cons.prems(3) by simp
    from Cons.IH[OF Cons.prems(1,2) this] False show ?thesis by (simp add: firing_keys_def)
  next
    case True
    obtain f b t where up: "upsert_from_candidate (ee_fresh env code k) (ee_store_now env code k) c s = (Inr (f, b), t)"
      and st: "stage s {ee_fresh env code k} t" and keys: "set (open_keys t) = insert (fc_key c) (set (open_keys s))"
      using upsert_run[OF Cons.prems(1,2) Cons.prems(3)[OF le_refl]] by blast
    let ?t = "if b then safe_emit_opened (fd_id f) c t else t"
    have st': "stage s {ee_fresh env code k} ?t" and keys': "set (open_keys ?t) = insert (fc_key c) (set (open_keys s))"
      using st keys by simp_all
    have "ee_fresh env code j \<notin> ids_of ?t" if "Suc k \<le> j" for j
    proof -
      have "ee_fresh env code j \<noteq> ee_fresh env code k" using assms that unfolding fresh_ids_def by (metis Suc_n_not_le_n)
      moreover have "ids_of ?t \<subseteq> insert (ee_fresh env code k) (ids_of s)" using st' by (simp add: stage_def)
      ultimately show ?thesis using Cons.prems(3)[of j] that by auto
    qed
    then obtain u where u: "reconcile_open env code (Suc k) cs ?t = (Inr (), u)" "stage ?t (range (ee_fresh env code)) u"
      "set (open_keys u) = set (open_keys ?t) \<union> firing_keys code cs"
      using Cons.IH[of ?t "Suc k"] st' by (auto simp: stage_def)
    have "stage s (range (ee_fresh env code)) u" using stage_trans[OF st' u(2)] by (simp add: insert_absorb)
    moreover have "reconcile_open env code k (c # cs) s = (Inr (), u)" using True up u(1) by simp
    moreover have "firing_keys code (c # cs) = insert (fc_key c) (firing_keys code cs)" using True by (simp add: firing_keys_def)
    ultimately show ?thesis using u(3) keys' by auto
  qed
qed

lemma auto_close_run:
  assumes "eff_inv s" "ef_table s" "f \<in> set (ef_rows s)" "fd_open f"
  shows "\<exists>g t. auto_close (fd_id f) now s = (Inr g, t) \<and> stage s {} t \<and> fd_status g = FS_CLOSED \<and>
    set (open_keys t) = set (open_keys s) - {fd_key f} \<and>
    (\<forall>h\<in>set (ef_rows s). fd_id h \<noteq> fd_id f \<longrightarrow> h \<in> set (ef_rows t))"
proof -
  have found: "tbl_find fd_id (fd_id f) (ef_rows s) = Some f"
    using tbl_find_in[of fd_id, OF _ assms(3)] assms(1) by (simp add: eff_inv_def)
  let ?t = "s\<lparr>ef_rows := tbl_upd fd_id (fd_id f) (closed_finding now) (ef_rows s)\<rparr>"
  have run: "auto_close (fd_id f) now s = (Inr (closed_finding now f), ?t)"
    using get_upd[OF found assms(2), of "closed_finding now"] found assms(2,4)
    by (simp add: auto_close_def fs_get_def fd_open_def)
  have only: "fd_id g = fd_id f \<longleftrightarrow> g = f" if "g \<in> set (ef_rows s)" for g
    using that found assms(1) tbl_find_in[of fd_id "ef_rows s" g] by (auto simp: eff_inv_def)
  have one: "fd_key g = fd_key f \<longleftrightarrow> g = f" if "g \<in> set (ef_rows s)" "fd_open g" for g
    using that assms by (auto simp: eff_inv_def open_keys_def distinct_map inj_on_def)
  have opens: "set (filter fd_open (ef_rows ?t)) = {g \<in> set (ef_rows s). fd_open g \<and> g \<noteq> f}"
    using only by (auto simp: upd_closes)
  have keys: "set (open_keys ?t) = set (open_keys s) - {fd_key f}"
  proof (intro set_eqI iffI)
    fix k assume "k \<in> set (open_keys ?t)"
    then obtain g where "g \<in> set (filter fd_open (ef_rows ?t))" "k = fd_key g"
      unfolding open_keys_def set_map by blast
    with opens one[of g] show "k \<in> set (open_keys s) - {fd_key f}" by (simp add: open_keys_def image_eqI[of k fd_key g])
  next
    fix k assume "k \<in> set (open_keys s) - {fd_key f}"
    then obtain g where g: "g \<in> set (filter fd_open (ef_rows s))" "k = fd_key g" "k \<noteq> fd_key f"
      unfolding open_keys_def set_map by blast
    then have "g \<in> set (filter fd_open (ef_rows ?t))" unfolding opens by auto
    with g(2) show "k \<in> set (open_keys ?t)" unfolding open_keys_def set_map by blast
  qed
  have "ids_of ?t = ids_of s" by (simp add: ids_upd)
  then have "stage s {} ?t" using close_inv[OF assms(1)] assms(2) by (simp add: stage_def)
  moreover have "\<forall>h\<in>set (ef_rows s). fd_id h \<noteq> fd_id f \<longrightarrow> h \<in> set (ef_rows ?t)"
    by (auto simp: set_tbl_upd)
  ultimately show ?thesis using run keys by auto
qed

lemma reconcile_close_run:
  "eff_inv s \<Longrightarrow> ef_table s \<Longrightarrow> distinct (map fd_id fs) \<Longrightarrow> (\<And>f. f \<in> set fs \<Longrightarrow> f \<in> set (ef_rows s) \<and> fd_open f) \<Longrightarrow>
    \<exists>t. reconcile_close env code k fs s = (Inr (), t) \<and> stage s {} t \<and>
      set (open_keys t) = set (open_keys s) - fd_key ` set fs"
proof (induction fs arbitrary: k s)
  case Nil
  then show ?case by (simp add: stage_def)
next
  case (Cons f fs)
  obtain g t where cl: "auto_close (fd_id f) (ee_store_now env code k) s = (Inr g, t)" and st: "stage s {} t"
    and g: "fd_status g = FS_CLOSED" and keys: "set (open_keys t) = set (open_keys s) - {fd_key f}"
    and rest: "\<forall>h\<in>set (ef_rows s). fd_id h \<noteq> fd_id f \<longrightarrow> h \<in> set (ef_rows t)"
    using auto_close_run[OF Cons.prems(1,2), of f] Cons.prems(4)[of f] by (metis list.set_intros(1))
  let ?t = "safe_emit_closed (fd_id f) code ''resolved'' t"
  have later: "h \<in> set (ef_rows ?t) \<and> fd_open h" if "h \<in> set fs" for h
  proof -
    have "fd_id h \<noteq> fd_id f" using Cons.prems(3) that by (auto simp: image_iff)
    then show ?thesis using rest Cons.prems(4)[of h] that by simp
  qed
  obtain u where u: "reconcile_close env code (Suc k) fs ?t = (Inr (), u)" "stage ?t {} u"
    "set (open_keys u) = set (open_keys ?t) - fd_key ` set fs"
    using Cons.IH[of ?t "Suc k", OF _ _ _ later] st Cons.prems(3) by (auto simp: stage_def)
  have "stage s {} u" using stage_trans[of s "{}" ?t "{}" u] st u(2) by simp
  then show ?case using cl g u(1,3) keys by auto
qed

lemma reconcile_run:
  assumes "fresh_ids env" "eff_inv s" "ef_table s" "\<And>j. ee_fresh env code j \<notin> ids_of s"
  shows "\<exists>t. reconcile env code cs s = (Inr (), t) \<and> stage s (range (ee_fresh env code)) t \<and>
    set (open_keys t) = {k \<in> set (open_keys s). fst k \<noteq> code} \<union> firing_keys code cs"
proof -
  obtain t where t: "reconcile_open env code 0 cs s = (Inr (), t)" "stage s (range (ee_fresh env code)) t"
    "set (open_keys t) = set (open_keys s) \<union> firing_keys code cs"
    using reconcile_open_run[OF assms(1-3) assms(4)] by blast
  then have inv: "eff_inv t" "ef_table t" by (simp_all add: stage_def)
  let ?fs = "filter (\<lambda>f. fd_key f \<notin> firing_keys code cs)
      (sort_key fd_opened_at (filter (\<lambda>f. fd_detector_code f = code \<and> fd_open f) (ef_rows t)))"
  have open_t: "f \<in> set (ef_rows t) \<and> fd_open f" if "f \<in> set ?fs" for f using that by simp
  have dist: "distinct (map fd_id ?fs)"
  proof -
    have "distinct (ef_rows t)" and "inj_on fd_id (set (ef_rows t))"
      using inv(1) by (auto simp: eff_inv_def tbl_pk_def distinct_map)
    then show ?thesis by (auto simp: distinct_map distinct_sort inj_on_def)
  qed
  obtain u where u: "reconcile_close env code (length cs) ?fs t = (Inr (), u)" "stage t {} u"
    "set (open_keys u) = set (open_keys t) - fd_key ` set ?fs"
    using reconcile_close_run[OF inv dist open_t] by blast
  have gone: "fd_key ` set ?fs = {k \<in> set (open_keys t). fst k = code} - firing_keys code cs"
    by (auto simp: open_keys_def fd_key_def)
  have own: "fst k = code" if "k \<in> firing_keys code cs" for k
    using that by (auto simp: firing_keys_def fc_key_def)
  have "set (open_keys u) = {k \<in> set (open_keys s). fst k \<noteq> code} \<union> firing_keys code cs"
    unfolding u(3) gone t(3) using own by blast
  moreover have "reconcile env code cs s = (Inr (), u)"
    using t(1) inv(2) u(1) by (simp add: reconcile_def list_open_def)
  moreover have "stage s (range (ee_fresh env code)) u" using stage_trans[OF t(2) u(2)] by simp
  ultimately show ?thesis by blast
qed


lemma firing_own: "k \<in> firing_keys code cs \<Longrightarrow> fst k = code"
  by (auto simp: firing_keys_def fc_key_def)

text \<open>Each detector reports under its own code.\<close>

lemma detectors_own_code:
  "(code, detect) \<in> set R1_DETECTORS \<Longrightarrow> detect ctx = Inr cs \<Longrightarrow> c \<in> set cs \<Longrightarrow> fc_detector_code c = code"
  by (auto simp: R1_DETECTORS_def detect_loop_def detect_stall_def detect_backlog_def detect_cost_def detect_storm_def
      detect_bottleneck_def loop_candidate_def stall_candidate_def backlog_candidate_def cost_candidate_def
      storm_candidate_def bottleneck_candidate_def Let_def split: if_splits option.splits prod.splits)

lemma detectors_run:
  "(code, detect) \<in> set R1_DETECTORS \<Longrightarrow> dc_approvals ctx \<noteq> None \<Longrightarrow> \<exists>cs. detect ctx = Inr cs"
  by (auto simp: R1_DETECTORS_def detect_loop_def detect_stall_def detect_backlog_def detect_cost_def detect_storm_def
      detect_bottleneck_def Let_def split: if_splits option.splits prod.splits)

lemma run_detectors_run:
  assumes fresh: "fresh_ids env"
  shows "eff_inv s \<Longrightarrow> ef_table s \<Longrightarrow> ef_parked s = [] \<Longrightarrow> distinct (map fst ds) \<Longrightarrow>
    (\<And>code detect. (code, detect) \<in> set ds \<Longrightarrow> \<exists>cs. detect ctx = Inr cs \<and> (\<forall>c\<in>set cs. fc_detector_code c = code)) \<Longrightarrow>
    (\<And>code j. code \<in> fst ` set ds \<Longrightarrow> ee_fresh env code j \<notin> ids_of s) \<Longrightarrow>
    \<exists>cs t. run_detectors env ctx ds s = (cs, t) \<and> eff_inv t \<and> fst ` fc_key ` set cs \<subseteq> fst ` set ds \<and>
      set (open_keys t) = {k \<in> set (open_keys s). fst k \<notin> fst ` set ds} \<union> fc_key ` set cs"
proof (induction ds arbitrary: s)
  case (Cons d ds)
  obtain code detect where d: "d = (code, detect)" by (cases d)
  obtain cs where cs: "detect ctx = Inr cs" "\<forall>c\<in>set cs. fc_detector_code c = code"
    using Cons.prems(5)[of code detect] d by auto
  have free: "ee_fresh env code j \<notin> ids_of s" for j using Cons.prems(6)[of code j] d by simp
  obtain t where t: "reconcile env code cs s = (Inr (), t)" "stage s (range (ee_fresh env code)) t"
    "set (open_keys t) = {k \<in> set (open_keys s). fst k \<noteq> code} \<union> firing_keys code cs"
    using reconcile_run[OF fresh Cons.prems(1,2) free] by blast
  have new: "code \<notin> fst ` set ds" using Cons.prems(4) d by simp
  have keys: "firing_keys code cs = fc_key ` set cs" using cs(2) by (auto simp: firing_keys_def)
  have later: "ee_fresh env c j \<notin> ids_of t" if "c \<in> fst ` set ds" for c j
  proof -
    have "c \<noteq> code" using new that by blast
    then have "ee_fresh env c j \<notin> range (ee_fresh env code)" using fresh unfolding fresh_ids_def by blast
    moreover have "ee_fresh env c j \<notin> ids_of s" using Cons.prems(6)[of c j] that by simp
    ultimately show ?thesis using t(2) by (auto simp: stage_def)
  qed
  obtain out u where u: "run_detectors env ctx ds t = (out, u)" "eff_inv u" "fst ` fc_key ` set out \<subseteq> fst ` set ds"
    "set (open_keys u) = {k \<in> set (open_keys t). fst k \<notin> fst ` set ds} \<union> fc_key ` set out"
    using Cons.IH[of t] t(2) Cons.prems(3,4,5) later by (auto simp: stage_def)
  have "run_detectors env ctx (d # ds) s = (cs @ out, u)" using d cs(1) t(1) u(1) Cons.prems(3) by simp
  moreover have "fst ` fc_key ` set (cs @ out) \<subseteq> fst ` set (d # ds)"
    using u(3) cs(2) d by (auto simp: fc_key_def)
  moreover have "set (open_keys u) = {k \<in> set (open_keys s). fst k \<notin> fst ` set (d # ds)} \<union> fc_key ` set (cs @ out)"
    unfolding u(4) t(3) keys[symmetric] set_append image_Un using d new firing_own[of _ code cs] by auto
  ultimately show ?case using u(2) by blast
qed simp

lemma one_occurrence: "distinct (map g xs) \<Longrightarrow> k \<in> g ` set xs \<Longrightarrow> length (filter (\<lambda>x. g x = k) xs) = 1"
  by (induction xs) (auto simp: filter_empty_conv image_iff)

lemma detector_codes: "distinct (map fst R1_DETECTORS)" "fst ` set R1_DETECTORS = set (map fst R1_DETECTORS)"
  by (simp_all add: R1_DETECTORS_def code_defs)

text \<open>
  C23. After a tick of a healthy service the open findings of the six detectors are exactly the subjects
  that fire now: what fires is opened or refreshed, what fires no more is closed, and the open findings of
  other origins stay. Findings stay deduplicated.
\<close>

theorem tick_reconciles:
  assumes "reach eff_init eff_step s" and "ef_table s" and "ef_parked s = []" and "ee_approvals env = Some rows"
    and "fresh_ids env" and "\<And>code j. ee_fresh env code j \<notin> ids_of s"
  shows "\<exists>cs t. eff_tick env s = (Inr cs, t) \<and>
    set (open_keys t) = {k \<in> set (open_keys s). fst k \<notin> fst ` set R1_DETECTORS} \<union> fc_key ` set cs \<and>
    (\<forall>c\<in>set cs. length (filter (\<lambda>f. fd_key f = fc_key c) (filter fd_open (ef_rows t))) = 1)"
proof -
  have inv: "eff_inv s" by (rule finding_system.reach_inv[OF assms(1)])
  obtain recent where recent: "es_read None None [] None None READ_LIMIT (ef_events s) = Inr recent"
    by (cases "es_migrated (ef_events s)") (auto simp: es_read_def READ_LIMIT_def)
  let ?ctx = "tick_context env recent s"
  have dets: "\<exists>cs. detect ?ctx = Inr cs \<and> (\<forall>c\<in>set cs. fc_detector_code c = code)"
    if "(code, detect) \<in> set R1_DETECTORS" for code detect
    using detectors_run[OF that, of ?ctx] detectors_own_code[OF that, of ?ctx] assms(4) by (auto simp: tick_context_def)
  have "\<exists>cs t. run_detectors env ?ctx R1_DETECTORS s = (cs, t) \<and> eff_inv t \<and> fst ` fc_key ` set cs \<subseteq> fst ` set R1_DETECTORS \<and>
    set (open_keys t) = {k \<in> set (open_keys s). fst k \<notin> fst ` set R1_DETECTORS} \<union> fc_key ` set cs"
    by (rule run_detectors_run[OF assms(5) inv assms(2,3) detector_codes(1)]) (use dets assms(6) in blast)+
  then obtain cs t where run: "run_detectors env ?ctx R1_DETECTORS s = (cs, t)" "eff_inv t"
    "set (open_keys t) = {k \<in> set (open_keys s). fst k \<notin> fst ` set R1_DETECTORS} \<union> fc_key ` set cs"
    by blast
  have one: "length (filter (\<lambda>f. fd_key f = k) (filter fd_open (ef_rows t))) = 1" if "k \<in> set (open_keys t)" for k
    by (rule one_occurrence) (use run(2) that in \<open>simp_all add: eff_inv_def open_keys_def\<close>)
  have "fc_key c \<in> set (open_keys t)" if "c \<in> set cs" for c using run(3) that by blast
  with one have "\<forall>c\<in>set cs. length (filter (\<lambda>f. fd_key f = fc_key c) (filter fd_open (ef_rows t))) = 1" by blast
  moreover have "eff_tick env s = (Inr cs, t)" using recent run(1) by (simp add: eff_tick_def)
  ultimately show ?thesis using run(3) by blast
qed


section \<open>What the service does not see\<close>

text \<open>Once parked, a detector stays parked: a tick never raises, so the repair is never reached.\<close>

lemma tick_never_raises: "\<exists>cs t. eff_tick env s = (Inr cs, t)"
  by (cases "es_migrated (ef_events s)") (auto simp: eff_tick_def es_read_def READ_LIMIT_def case_prod_beta)

lemma fs_update_parked [simp]: "ef_parked (snd (fs_update i h s)) = ef_parked s"
  by (simp add: fs_update_def Let_def)

lemma store_parked [simp]:
  "ef_parked (snd (upsert_from_candidate fresh now c s)) = ef_parked s"
  "ef_parked (snd (auto_close i now s)) = ef_parked s"
  by (auto simp: upsert_from_candidate_def auto_close_def Let_def case_prod_beta split: sum.splits option.splits)

lemma reconcile_parked [simp]: "ef_parked (snd (reconcile env code cs s)) = ef_parked s"
proof -
  have o: "ef_parked (snd (reconcile_open env code k cs s)) = ef_parked s" for k s
  proof (induction cs arbitrary: k s)
    case (Cons c cs)
    have "ef_parked (snd (andthen (upsert_from_candidate (ee_fresh env code k) (ee_store_now env code k) c s)
        (\<lambda>(f, opened) t. reconcile_open env code (Suc k) cs (if opened then safe_emit_opened (fd_id f) c t else t)))) = ef_parked s"
      by (rule andthen_keeps[where P = "\<lambda>t. ef_parked t = ef_parked s"]) (simp_all add: Cons.IH case_prod_beta)
    then show ?case by (simp add: Cons.IH)
  qed simp
  have c: "ef_parked (snd (reconcile_close env code k fs s)) = ef_parked s" for k fs s
  proof (induction fs arbitrary: k s)
    case (Cons f fs)
    show ?case
      unfolding reconcile_close.simps
      by (rule andthen_keeps[where P = "\<lambda>t. ef_parked t = ef_parked s"]) (simp_all add: Cons.IH)
  qed simp
  show ?thesis
    unfolding reconcile_def
    by (rule andthen_keeps[where P = "\<lambda>t. ef_parked t = ef_parked s"]) (simp_all add: o c split: sum.splits)
qed

lemma detectors_park: "set (ef_parked s) \<subseteq> set (ef_parked (snd (run_detectors env ctx ds s)))"
proof (induction ds arbitrary: s)
  case (Cons d ds)
  obtain code detect where d: "d = (code, detect)" by (cases d)
  have more: "set (ef_parked t) \<subseteq> set (ef_parked (park code e t))" for e t by (auto simp: park_def)
  show ?case
  proof (cases "detect ctx")
    case (Inl e)
    then show ?thesis using Cons.IH[of s] Cons.IH[of "park code e s"] more[of s e] by (auto simp: d)
  next
    case (Inr cs)
    obtain r t where rc: "reconcile env code cs s = (r, t)" by (meson surj_pair)
    then have "ef_parked t = ef_parked s" using reconcile_parked[of env code cs s] by simp
    then show ?thesis
      using Inr rc Cons.IH[of s] Cons.IH[of t] Cons.IH[of "park code _ t"] more[of t]
      by (cases r) (force simp: d case_prod_beta)+
  qed
qed simp

theorem parked_for_good: "set (ef_parked s) \<subseteq> set (ef_parked (eff_pass env s))"
proof -
  obtain cs t where t: "eff_tick env s = (Inr cs, t)" using tick_never_raises by blast
  then have "set (ef_parked s) \<subseteq> set (ef_parked t)"
    using detectors_park[of s env] by (auto simp: eff_tick_def case_prod_beta split: sum.splits)
  then show ?thesis using t by (simp add: eff_pass_def)
qed

text \<open>
  A tick reads the first 5000 events of the log. When these are older than the window, the detectors that
  look at events report nothing, whatever has happened since.
\<close>

lemma fl_zero [simp]: "fl 0 = 0"
  by code_simp

theorem old_log_blinds:
  assumes "es_read None None [] None None READ_LIMIT (ef_events s) = Inr recent"
    and "tick_window (ef_config s) (ee_now env) recent = []" and "0 < cn_min_spend_usd (ec_cost (ef_config s))"
    and "(code, detect) \<in> {(CODE_loop, detect_loop), (CODE_stall, detect_stall), (CODE_cost, detect_cost), (CODE_storm, detect_storm)}"
  shows "detect (tick_context env recent s) = Inr []"
  using assms(2-4)
  by (auto simp: tick_context_def detect_loop_def loop_samples_def detect_stall_def last_event_per_agent_def
      detect_cost_def detect_storm_def Let_def)

lemma last_in: "(a, e) \<in> set (last_event_per_agent es) \<Longrightarrow> e \<in> set es \<and> ev_actor_agent_id e = Some a"
proof -
  have n: "(a, e) \<in> set (note_last b x acc) \<Longrightarrow> (a, e) \<in> set acc \<or> e = x \<and> a = b" for b x acc
    by (induction b x acc rule: note_last.induct) (auto split: if_splits)
  have actor: "str_or o_a [] = b \<Longrightarrow> b \<noteq> [] \<Longrightarrow> o_a = Some b" for o_a b
    by (auto simp: str_or_def split: option.splits if_splits)
  have "(a, e) \<in> set (fold (\<lambda>e acc. let a = str_or (ev_actor_agent_id e) [] in if a = [] then acc else note_last a e acc) es acc)
    \<Longrightarrow> (a, e) \<in> set acc \<or> e \<in> set es \<and> ev_actor_agent_id e = Some a" for acc
  proof (induction es arbitrary: acc)
    case (Cons x xs)
    let ?acc = "let a = str_or (ev_actor_agent_id x) [] in if a = [] then acc else note_last a x acc"
    have "(a, e) \<in> set ?acc \<or> e \<in> set xs \<and> ev_actor_agent_id e = Some a"
      using Cons.IH[of ?acc] Cons.prems by simp
    then show ?case using n[of "str_or (ev_actor_agent_id x) []" x acc] actor[of "ev_actor_agent_id x" a]
      by (auto simp: Let_def split: if_splits)
  qed simp
  from this[of "[]"] show "(a, e) \<in> set (last_event_per_agent es) \<Longrightarrow> e \<in> set es \<and> ev_actor_agent_id e = Some a"
    by (simp add: last_event_per_agent_def)
qed

text \<open>An agent whose last event has left the window is not reported as stalled any more.\<close>

theorem stall_is_forgotten:
  assumes "\<And>e. e \<in> set recent \<Longrightarrow> ev_actor_agent_id e = Some a \<Longrightarrow>
      total_seconds (ev_ts_company e) < fl (total_seconds (ee_now env) - of_int (max_window_seconds (ef_config s)))"
    and "detect_stall (tick_context env recent s) = Inr cs" and "c \<in> set cs"
  shows "fc_subject_id c \<noteq> Some a"
proof
  assume subj: "fc_subject_id c = Some a"
  obtain b e where c: "c = stall_candidate (tick_context env recent s) (b, e)"
    and last: "(b, e) \<in> set (last_event_per_agent (tick_window (ef_config s) (ee_now env) recent))"
    using assms(2,3) by (auto simp: detect_stall_def tick_context_def)
  from subj c have "b = a" by (simp add: stall_candidate_def Let_def)
  with last_in[OF last] have "e \<in> set recent" "ev_actor_agent_id e = Some a"
    "fl (total_seconds (ee_now env) - of_int (max_window_seconds (ef_config s))) \<le> total_seconds (ev_ts_company e)"
    by (auto simp: tick_window_def)
  with assms(1)[of e] show False by simp
qed

text \<open>Two tools that one agent repeats share a finding: the second candidate overwrites the first.\<close>

theorem second_tool_overwrites:
  assumes inv: "eff_inv s" "ef_table s" and fresh: "ee_fresh env CODE_loop 0 \<notin> ids_of s"
    and new: "(CODE_loop, ST_AGENT, Some a) \<notin> set (open_keys s)"
  shows "\<exists>t f. reconcile_open env CODE_loop 0
      [loop_candidate w ((a, tool1), ids1), loop_candidate w ((a, tool2), ids2)] s = (Inr (), t) \<and>
    ef_rows t = ef_rows s @ [f] \<and> fd_occurrences f = 2 \<and>
    fd_evidence f = fc_evidence (loop_candidate w ((a, tool2), ids2))"
proof -
  let ?c1 = "loop_candidate w ((a, tool1), ids1)" and ?c2 = "loop_candidate w ((a, tool2), ids2)"
  let ?f = "opened_finding (ee_fresh env CODE_loop 0) (ee_store_now env CODE_loop 0) ?c1"
  have key: "fc_key ?c1 = (CODE_loop, ST_AGENT, Some a)" "fc_key ?c2 = fc_key ?c1"
    and code: "fc_detector_code ?c1 = CODE_loop" "fc_detector_code ?c2 = CODE_loop"
    by (simp_all add: loop_candidate_def fc_key_def)
  have absent: "List.find (\<lambda>f. fd_key f = fc_key ?c1 \<and> fd_open f) (ef_rows s) = None"
    using new by (auto simp: find_None_iff key open_keys_def image_iff)
  have free: "tbl_find fd_id (ee_fresh env CODE_loop 0) (ef_rows s) = None"
    using fresh by (simp add: tbl_find_None ids_of_def)
  let ?s1 = "safe_emit_opened (fd_id ?f) ?c1 (s\<lparr>ef_rows := ef_rows s @ [?f]\<rparr>)"
  have one: "upsert_from_candidate (ee_fresh env CODE_loop 0) (ee_store_now env CODE_loop 0) ?c1 s =
      (Inr (?f, True), s\<lparr>ef_rows := ef_rows s @ [?f]\<rparr>)"
    by (rule upsert_insert[OF _ free]) (simp add: find_open_def inv absent)
  have inv1: "eff_inv ?s1"
    using insert_inv(1)[OF inv(1) _ free, of ?c1 "ee_store_now env CODE_loop 0"] new key by simp
  have found: "find_open (fc_key ?c2) ?s1 = Inr (Some ?f)"
    using absent by (simp add: find_open_def inv key find_append)
  have two: "upsert_from_candidate (ee_fresh env CODE_loop 1) (ee_store_now env CODE_loop 1) ?c2 ?s1 =
      (Inr (refreshed (ee_store_now env CODE_loop 1) ?c2 ?f, False),
       ?s1\<lparr>ef_rows := tbl_upd fd_id (fd_id ?f) (refreshed (ee_store_now env CODE_loop 1) ?c2) (ef_rows ?s1)\<rparr>)"
    by (rule upsert_refresh[OF inv1 found])
  have rows: "tbl_upd fd_id (ee_fresh env CODE_loop 0) h (ef_rows s @ [?f]) = ef_rows s @ [h ?f]" for h
    using tbl_upd_absent[OF free, of h] by (simp add: tbl_upd_append) (simp add: tbl_upd_def)
  show ?thesis
    using one two by (simp add: code rows) (simp add: refreshed_def opened_finding_def)
qed

section \<open>The metric window and the loop detector\<close>

lemma dropWhile_sorted: "sorted (map g xs) \<Longrightarrow> dropWhile (\<lambda>x. g x < c) xs = filter (\<lambda>x. c \<le> g x) xs"
  for g :: "'a \<Rightarrow> int"
proof (induction xs)
  case (Cons x xs)
  show ?case
  proof (cases "g x < c")
    case False
    then have "filter (\<lambda>x. c \<le> g x) xs = xs" using Cons.prems by (auto simp: filter_id_conv)
    with False show ?thesis by simp
  qed (use Cons in simp)
qed simp

lemma takeWhile_sorted: "sorted (map g xs) \<Longrightarrow> rev (takeWhile (\<lambda>x. \<not> g x < c) (rev xs)) = filter (\<lambda>x. c \<le> g x) xs"
  for g :: "'a \<Rightarrow> int"
proof (induction xs rule: rev_induct)
  case (snoc x xs)
  show ?case
  proof (cases "g x < c")
    case True
    then have "filter (\<lambda>x. c \<le> g x) xs = []" using snoc.prems by (auto simp: filter_empty_conv sorted_append)
    with True show ?thesis by simp
  qed (use snoc in \<open>simp add: sorted_append\<close>)
qed simp

text \<open>
  Fed with events in the order of their times, the metric window holds exactly those within the age limit
  of the latest one, and \<^verbatim>\<open>in_last\<close> gives exactly those of the asked period.
\<close>

theorem window_holds_recent:
  assumes "sorted (map ev_ts_real es)" and "es \<noteq> []"
  shows "mw_buf (mw_extend es (mw_create age)) = filter (\<lambda>e. ev_ts_real (last es) - age * 1000000 \<le> ev_ts_real e) es \<and>
    mw_in_last now secs (mw_extend es (mw_create age)) =
      filter (\<lambda>e. now - secs * 1000000 \<le> ev_ts_real e) (mw_buf (mw_extend es (mw_create age)))"
proof -
  have age: "mw_max_age (mw_extend xs (mw_create age)) = age * 1000000" for xs
    by (induction xs rule: rev_induct) (simp_all add: mw_extend_def mw_create_def mw_append_def mw_prune_def)
  have buf: "mw_buf (mw_extend xs (mw_create age)) = filter (\<lambda>e. ev_ts_real (last xs) - age * 1000000 \<le> ev_ts_real e) xs"
    if "sorted (map ev_ts_real xs)" for xs
    using that
  proof (induction xs rule: rev_induct)
    case (snoc x xs)
    let ?old = "filter (\<lambda>e. ev_ts_real (last xs) - age * 1000000 \<le> ev_ts_real e) xs"
    have sx: "sorted (map ev_ts_real xs)" and le: "\<And>e. e \<in> set xs \<Longrightarrow> ev_ts_real e \<le> ev_ts_real x"
      using snoc.prems by (auto simp: sorted_append)
    have "sorted (map ev_ts_real (?old @ [x]))"
      using sx le by (auto simp: sorted_append sorted_filter)
    from dropWhile_sorted[OF this]
    have "mw_buf (mw_extend (xs @ [x]) (mw_create age)) =
        filter (\<lambda>e. ev_ts_real x - age * 1000000 \<le> ev_ts_real e) (?old @ [x])"
      using snoc.IH[OF sx] age[of xs] by (simp add: mw_extend_def mw_append_def mw_prune_def)
    also have "\<dots> = filter (\<lambda>e. ev_ts_real x - age * 1000000 \<le> ev_ts_real e) (xs @ [x])"
    proof (cases "xs = []")
      case False
      then have "ev_ts_real (last xs) \<le> ev_ts_real x" using le by simp
      then show ?thesis by (auto simp: filter_filter intro!: filter_cong)
    qed simp
    finally show ?case by simp
  qed (simp add: mw_extend_def mw_create_def)
  have "sorted (map ev_ts_real (mw_buf (mw_extend es (mw_create age))))"
    using assms(1) by (simp add: buf sorted_filter)
  from takeWhile_sorted[OF this] show ?thesis using buf[OF assms(1)] by (simp only: mw_in_last_def)
qed

lemma add_sample_get: "map_of (add_sample k i acc) j =
    (if j = k then Some (case map_of acc k of None \<Rightarrow> [i] | Some ids \<Rightarrow> ids @ [i]) else map_of acc j)"
  by (induction k i acc rule: add_sample.induct) auto

lemma add_sample_distinct: "distinct (map fst acc) \<Longrightarrow> distinct (map fst (add_sample k i acc))"
proof (induction k i acc rule: add_sample.induct)
  case (2 k i j ids rest)
  have "fst ` set (add_sample k i rest) = insert k (fst ` set rest)"
    by (induction k i rest rule: add_sample.induct) auto
  with 2 show ?case by auto
qed simp

definition loop_events :: "detector_context \<Rightarrow> string \<times> string \<Rightarrow> event list" where
  "loop_events ctx k =
     filter (\<lambda>e. ev_kind e = TOOL_CALLED \<and> age_at ctx e \<le> of_int (lt_window_seconds (ec_loop (dc_config ctx))) \<and>
       loop_key ctx e = Some k) (dc_events ctx)"

lemma loop_samples_set: "(k, ids) \<in> set (loop_samples ctx) \<longleftrightarrow> ids = map ev_id (loop_events ctx k) \<and> ids \<noteq> []"
proof -
  let ?step = "\<lambda>e acc. case loop_key ctx e of None \<Rightarrow> acc | Some k \<Rightarrow> add_sample k (ev_id e) acc"
  have get: "distinct (map fst acc) \<Longrightarrow> distinct (map fst (fold ?step es acc)) \<and>
      map_of (fold ?step es acc) k =
       (let new = map ev_id (filter (\<lambda>e. loop_key ctx e = Some k) es) in
        case map_of acc k of None \<Rightarrow> if new = [] then None else Some new | Some ids \<Rightarrow> Some (ids @ new))" for es acc
  proof (induction es arbitrary: acc)
    case (Cons e es)
    have "distinct (map fst (?step e acc))" using Cons.prems by (auto simp: add_sample_distinct split: option.splits)
    from Cons.IH[OF this] show ?case
      by (cases "loop_key ctx e") (auto simp: add_sample_get Let_def split: option.splits)
  qed (simp split: option.splits)
  let ?es = "filter (\<lambda>e. ev_kind e = TOOL_CALLED \<and> age_at ctx e \<le> of_int (lt_window_seconds (ec_loop (dc_config ctx)))) (dc_events ctx)"
  have same: "filter (\<lambda>e. loop_key ctx e = Some k) ?es = loop_events ctx k"
    by (simp add: loop_events_def conj_assoc)
  have run: "fold ?step ?es [] = loop_samples ctx" by (simp only: loop_samples_def)
  from get[of "[]" ?es] have d: "distinct (map fst (loop_samples ctx))"
    and m: "map_of (loop_samples ctx) k =
      (if map ev_id (loop_events ctx k) = [] then None else Some (map ev_id (loop_events ctx k)))"
    unfolding run same by (simp_all add: Let_def)
  show ?thesis
    unfolding map_of_eq_Some_iff[OF d, symmetric] m by auto
qed

text \<open>The loop detector names exactly the agents with a tool called at least the threshold often.\<close>

theorem loop_reported_iff:
  assumes "detect_loop ctx = Inr cs" and "1 \<le> lt_repeat_threshold (ec_loop (dc_config ctx))"
  shows "(\<exists>c\<in>set cs. fc_subject_id c = Some a) \<longleftrightarrow>
    (\<exists>tool. lt_repeat_threshold (ec_loop (dc_config ctx)) \<le> int (length (loop_events ctx (a, tool))))"
proof -
  have "(\<exists>c\<in>set cs. fc_subject_id c = Some a) \<longleftrightarrow>
      (\<exists>tool ids. ((a, tool), ids) \<in> set (loop_samples ctx) \<and> lt_repeat_threshold (ec_loop (dc_config ctx)) \<le> int (length ids))"
    using assms(1) by (auto simp: detect_loop_def Let_def loop_candidate_def split: prod.splits) blast+
  moreover have "loop_events ctx k \<noteq> []" if "lt_repeat_threshold (ec_loop (dc_config ctx)) \<le> int (length (loop_events ctx k))" for k
    using that assms(2) by auto
  ultimately show ?thesis unfolding loop_samples_set by auto
qed


section \<open>A service at work\<close>

definition demo_fresh :: "string \<Rightarrow> nat \<Rightarrow> string" where
  "demo_fresh c k = replicate k (CHR ''x'') @ CHR ''y'' # c"

definition demo_eff_env :: efficiency_env where
  "demo_eff_env = \<lparr>ee_now = 5, ee_approvals = Some [], ee_fresh = demo_fresh, ee_store_now = (\<lambda>_ _. 5)\<rparr>"

definition demo_efficiency :: efficiency where
  "demo_efficiency = snd (fs_migrate (eff_create demo_store efficiency_default))"

lemma demo_fresh_ids: "fresh_ids demo_eff_env"
proof -
  have "replicate k (CHR ''x'') @ CHR ''y'' # c = replicate j (CHR ''x'') @ CHR ''y'' # d \<Longrightarrow> c = d \<and> k = j" for k j c d
  proof (induction k arbitrary: j)
    case 0
    then show ?case by (cases j) auto
  next
    case (Suc k)
    then show ?case by (cases j) auto
  qed
  then show ?thesis unfolding fresh_ids_def demo_eff_env_def demo_fresh_def efficiency_env.select_convs by blast
qed

lemma demo_efficiency_reach: "reach eff_init eff_step demo_efficiency"
proof -
  have "reach eff_init eff_step (eff_create demo_store efficiency_default)"
    by (rule reach_init) (auto simp: eff_init_def)
  then show ?thesis unfolding demo_efficiency_def by (rule reach_step) (rule efs_migrate)
qed

lemma findings_deduplicated_witness:
  "distinct (map fd_id (ef_rows (eff_pass demo_eff_env demo_efficiency)))"
proof -
  have "reach eff_init eff_step (eff_pass demo_eff_env demo_efficiency)"
    by (rule reach_step[OF demo_efficiency_reach]) (rule efs_pass)
  from findings_deduplicated[OF this] show ?thesis by simp
qed

lemma tick_reconciles_witness:
  "\<exists>cs t. eff_tick demo_eff_env demo_efficiency = (Inr cs, t) \<and> set (open_keys t) = fc_key ` set cs"
proof -
  have s: "ef_table demo_efficiency" "ef_parked demo_efficiency = []" "ef_rows demo_efficiency = []"
    by (simp_all add: demo_efficiency_def fs_migrate_def eff_create_def)
  have "\<exists>cs t. eff_tick demo_eff_env demo_efficiency = (Inr cs, t) \<and>
    set (open_keys t) = {k \<in> set (open_keys demo_efficiency). fst k \<notin> fst ` set R1_DETECTORS} \<union> fc_key ` set cs \<and>
    (\<forall>c\<in>set cs. length (filter (\<lambda>f. fd_key f = fc_key c) (filter fd_open (ef_rows t))) = 1)"
    by (rule tick_reconciles[OF demo_efficiency_reach s(1,2) _ demo_fresh_ids, of "[]"])
       (simp_all add: demo_eff_env_def ids_of_def s)
  then show ?thesis by (simp add: open_keys_def s) blast
qed

end
